(* ===== verification/Prelude.thy ===== *)
theory Prelude
  imports Main "HOL-Library.Word" "HOL-Library.Multiset"
begin

text \<open>
  Shared ground of the development: the named collections the component theories feed,
  and generic facts on 64-bit words, lists, maps and finite domains.
  Nothing here mentions the program.
\<close>

named_theorems model_defs \<open>definitions of the model that proofs unfold together\<close>
named_theorems inv_intros \<open>preservation of a component invariant by one of its operations\<close>
named_theorems outcome_simps \<open>equations of the three-way outcome of a Go call\<close>
named_theorems quiet_intros \<open>errors of a piece of start-up work that are no sign of a shutdown\<close>

type_synonym u64 = "64 word"

abbreviation max_u64 :: u64 where
  "max_u64 \<equiv> - 1"

subsection \<open>Counters on 64-bit words\<close>

lemma unat_less_u64: "unat (n :: u64) < 2 ^ 64"
  by (rule order_less_le_trans [OF unsigned_less]) simp

lemma unat_add_small: "unat (x :: u64) + unat y < 2 ^ 64 \<Longrightarrow> unat (x + y) = unat x + unat y"
  by (simp add: unat_word_ariths)

lemma unat_mult_small: "unat (x :: u64) * unat y < 2 ^ 64 \<Longrightarrow> unat (x * y) = unat x * unat y"
  by (simp add: unat_word_ariths)

lemma unat_of_nat_u64: "n < 2 ^ 64 \<Longrightarrow> unat (of_nat n :: u64) = n"
  by (simp add: unat_of_nat take_bit_eq_mod)

lemma unat_Suc_not_max: "(f :: u64) \<noteq> max_u64 \<Longrightarrow> unat (f + 1) = Suc (unat f)"
proof -
  assume "f \<noteq> max_u64"
  then have "1 + f \<noteq> 0" by (metis add.commute add.inverse_inverse add_eq_0_iff neg_equal_iff_equal)
  then show "unat (f + 1) = Suc (unat f)" using unatSuc [of f] by (simp add: add.commute)
qed

lemma less_not_max: "(f :: u64) < n \<Longrightarrow> f \<noteq> max_u64"
  by (metis leD word_order.extremum)

lemma unat_Suc_u64: "(f :: u64) < n \<Longrightarrow> unat (f + 1) = Suc (unat f)"
  by (rule unat_Suc_not_max) (rule less_not_max)

lemma less_Suc_u64: "(n :: u64) \<noteq> max_u64 \<Longrightarrow> (k < n + 1) = (k \<le> n)"
  by (metis less_Suc_eq_le unat_Suc_not_max word_le_nat_alt word_less_nat_alt)

lemma Suc_le_u64: "(f :: u64) < n \<Longrightarrow> (f + 1 \<le> k) = (f < k)"
  by (metis Suc_le_eq unat_Suc_u64 word_le_nat_alt word_less_nat_alt)

lemma Suc_le_end: "(f :: u64) < n \<Longrightarrow> f + 1 \<le> n"
  by (simp add: Suc_le_u64)

lemma diff_Suc_u64: "(f :: u64) < n \<Longrightarrow> unat n - unat f = Suc (unat n - unat (f + 1))"
  by (metis Suc_diff_Suc unat_Suc_u64 word_less_nat_alt)

lemma unat_offset: "i < unat (n :: u64) - unat f \<Longrightarrow> unat ((f :: u64) + of_nat i) = unat f + i"
proof -
  assume i: "i < unat n - unat f"
  have "unat n < 2 ^ 64" by (rule unat_less_u64)
  with i have "unat f + i < 2 ^ 64" by linarith
  moreover from this have "i < 2 ^ 64" by linarith
  ultimately show "unat (f + of_nat i) = unat f + i"
    by (simp add: unat_word_ariths unat_of_nat take_bit_eq_mod)
qed

subsection \<open>Slots: the live positions of a map between two counters\<close>

text \<open>
  The program stores sequences as a map from positions to entries and two counters. The live
  positions are \<open>first \<le> k < next\<close>; \<open>slots\<close> reads them off in order.
\<close>

definition slots :: "u64 \<Rightarrow> u64 \<Rightarrow> (u64 \<rightharpoonup> 'a) \<Rightarrow> 'a list" where
  "slots f n m = map (\<lambda>i. the (m (f + of_nat i))) [0..<unat n - unat f]"

lemma length_slots [simp]: "length (slots f n m) = unat n - unat f"
  by (simp add: slots_def)

lemma slots_empty [simp]: "n \<le> f \<Longrightarrow> slots f n m = []"
  by (simp add: slots_def word_le_nat_alt)

lemma slots_Nil_iff: "slots f n m = [] \<longleftrightarrow> n \<le> f"
  by (simp add: slots_def word_le_nat_alt)

lemma offset_in_range: "i < unat n - unat f \<Longrightarrow> f \<le> f + of_nat i \<and> f + of_nat i < (n :: u64)"
  using unat_offset [of i n f] by (auto simp: word_le_nat_alt word_less_nat_alt)

lemma slots_cong: "(\<And>k. f \<le> k \<Longrightarrow> k < n \<Longrightarrow> m k = m' k) \<Longrightarrow> slots f n m = slots f n m'"
  using offset_in_range [of _ n f] by (auto simp: slots_def)

lemma slots_snoc:
  assumes "f \<le> n" "n \<noteq> max_u64"
  shows "slots f (n + 1) (m(n \<mapsto> v)) = slots f n m @ [v]"
proof -
  have le: "unat f \<le> unat n" using assms(1) by (simp add: word_le_nat_alt)
  have nx: "unat (n + 1) = Suc (unat n)" using assms(2) by (rule unat_Suc_not_max)
  have last: "f + of_nat (unat n - unat f) = n" using le by (simp add: of_nat_diff)
  have ne: "f + of_nat i \<noteq> n" if "i < unat n - unat f" for i
    using unat_offset [OF that] that by auto
  show ?thesis using le last ne by (auto simp: slots_def nx Suc_diff_le)
qed

lemma slots_Cons:
  assumes "f < n" "m f = Some v"
  shows "slots f n m = v # slots (f + 1) n (m(f := None))"
proof -
  have lt: "unat f < unat n" using assms(1) by (simp add: word_less_nat_alt)
  have nx: "unat (1 + f) = Suc (unat f)" using unat_Suc_u64 [OF assms(1)] by (simp add: add.commute)
  have d: "unat n - unat f = Suc (unat n - Suc (unat f))" using lt by simp
  have ne: "1 + (of_nat i :: u64) \<noteq> 0" if i: "i < unat n - Suc (unat f)" for i
  proof -
    have shift: "unat (f + 1 + of_nat i) = unat f + Suc i"
      using unat_offset [of i n "f + 1"] i nx by (simp add: add.commute)
    have "unat (f + 1 + of_nat i) \<noteq> unat f" unfolding shift by simp
    then show ?thesis by (metis add.assoc add.right_neutral)
  qed
  show ?thesis
    unfolding slots_def by (simp add: d nx assms(2) map_upt_Suc ne ac_simps del: upt_Suc)
qed

lemma slots_elem: "x \<in> set (slots f n m) \<Longrightarrow> \<exists>k. f \<le> k \<and> k < n \<and> x = the (m k)"
proof -
  assume "x \<in> set (slots f n m)"
  then obtain i where i: "i < unat n - unat f" "x = the (m (f + of_nat i))"
    by (auto simp: slots_def)
  show "\<exists>k. f \<le> k \<and> k < n \<and> x = the (m k)"
    using offset_in_range [OF i(1)] i(2) by blast
qed

subsection \<open>Windows: the last entries of a list\<close>

text \<open>
  \<open>last_n k xs\<close> is the suffix of length \<open>k\<close>, or all of \<open>xs\<close> when it is shorter: what
  trimming a slice to its most recent entries keeps.
\<close>

definition last_n :: "nat \<Rightarrow> 'a list \<Rightarrow> 'a list" where
  "last_n k xs = drop (length xs - k) xs"

lemma length_last_n [simp]: "length (last_n k xs) = min k (length xs)"
  by (auto simp: last_n_def)

lemma last_n_all: "length xs \<le> k \<Longrightarrow> last_n k xs = xs"
  by (simp add: last_n_def)

lemma last_n_Nil [simp]: "last_n k [] = []"
  by (simp add: last_n_def)

lemma last_n_snoc: "last_n k (last_n k xs @ [x]) = last_n k (xs @ [x])"
proof (cases "length xs < k")
  case True
  then show ?thesis by (simp add: last_n_def)
next
  case False
  then have "length xs \<ge> k" by simp
  then show ?thesis by (cases k) (auto simp: last_n_def Suc_diff_Suc)
qed

lemma set_last_n_subset: "set (last_n k xs) \<subseteq> set xs"
  by (simp add: last_n_def set_drop_subset)

subsection \<open>Maps, finite domains, sums\<close>

lemma map_upd_minus: "(m(a := None)) k = (if k = a then None else m k)"
  by simp

lemma card_dom_upd:
  "finite (dom m) \<Longrightarrow> card (dom (m(k \<mapsto> v))) = (if k \<in> dom m then card (dom m) else Suc (card (dom m)))"
  by (simp add: insert_absorb)

lemma card_dom_del:
  "finite (dom m) \<Longrightarrow> k \<in> dom m \<Longrightarrow> Suc (card (dom (m(k := None)))) = card (dom m)"
  by (metis card_Suc_Diff1 dom_fun_upd)

lemma finite_dom_upd [simp]: "finite (dom m) \<Longrightarrow> finite (dom (m(k := v)))"
  by (cases v) auto

lemma sort_Nil_iff [simp]: "sort xs = [] \<longleftrightarrow> xs = []"
  by (metis length_0_conv length_sort)

lemma distinct_snoc_iff: "distinct (xs @ [x]) \<longleftrightarrow> distinct xs \<and> x \<notin> set xs"
  by simp

end
