(* ===== verification/GoBase.thy ===== *)
theory GoBase
  imports Complex_Main Prelude "HOL-Library.Signed_Division"
begin

text \<open>
  What the program uses of Go itself: errors and their chains, the three ways a call can
  end (a result, an error, a panic), fixed-width signed integers, instants and durations.
\<close>

subsection \<open>Errors\<close>

text \<open>
  \<open>Wrap msg e\<close> is \<open>fmt.Errorf("msg: %w", e)\<close> and keeps \<open>e\<close> in the chain;
  \<open>Errorf msg\<close> is \<open>errors.New\<close> or a \<open>fmt.Errorf\<close> without \<open>%w\<close>, which keeps nothing.
  \<open>External\<close> is an error a library or the remote node returned.
\<close>

datatype go_error =
    Canceled
  | DeadlineExceeded
  | ErrRampTestFailedSLO
  | Errorf string
  | External string
  | Wrap string go_error

fun errors_is :: "go_error \<Rightarrow> go_error \<Rightarrow> bool" where
  "errors_is (Wrap m e) t = (Wrap m e = t \<or> errors_is e t)"
| "errors_is e t = (e = t)"

lemma errors_is_refl [simp]: "errors_is e e"
  by (cases e) auto

lemma errors_is_Errorf [simp]: "errors_is (Errorf m) t = (t = Errorf m)"
  by auto

subsection \<open>How a call ends\<close>

datatype 'a outcome = Ok 'a | Err go_error | Panic string

fun obind :: "'a outcome \<Rightarrow> ('a \<Rightarrow> 'b outcome) \<Rightarrow> 'b outcome" where
  "obind (Ok x) f = f x"
| "obind (Err e) f = Err e"
| "obind (Panic m) f = Panic m"

fun omap_err :: "(go_error \<Rightarrow> go_error) \<Rightarrow> 'a outcome \<Rightarrow> 'a outcome" where
  "omap_err g (Ok x) = Ok x"
| "omap_err g (Err e) = Err (g e)"
| "omap_err g (Panic m) = Panic m"

fun panics :: "'a outcome \<Rightarrow> bool" where
  "panics (Panic m) = True"
| "panics (Ok x) = False"
| "panics (Err e) = False"

lemma obind_Ok_iff [outcome_simps]: "obind x f = Ok y \<longleftrightarrow> (\<exists>a. x = Ok a \<and> f a = Ok y)"
  by (cases x) auto

lemma obind_Err_iff [outcome_simps]: "obind x f = Err e \<longleftrightarrow> x = Err e \<or> (\<exists>a. x = Ok a \<and> f a = Err e)"
  by (cases x) auto

lemma obind_Panic_iff [outcome_simps]:
  "obind x f = Panic m \<longleftrightarrow> x = Panic m \<or> (\<exists>a. x = Ok a \<and> f a = Panic m)"
  by (cases x) auto

lemma omap_err_Ok_iff [outcome_simps]: "omap_err g x = Ok y \<longleftrightarrow> x = Ok y"
  by (cases x) auto

lemma omap_err_Panic_iff [outcome_simps]: "omap_err g x = Panic m \<longleftrightarrow> x = Panic m"
  by (cases x) auto

text \<open>
  A wait under a lock: the critical section runs once its predicate holds, or the call
  returns the error of its context, or it goes on waiting.
\<close>

datatype 'a waiting = Returned 'a | Waits

subsection \<open>Signed 64-bit integers, instants, durations\<close>

text \<open>
  \<open>i64\<close> wraps an integer to the range of a Go \<open>int\<close> or \<open>int64\<close> (two's complement).
\<close>

definition i64 :: "int \<Rightarrow> int" where
  "i64 x = (x + 2 ^ 63) mod 2 ^ 64 - 2 ^ 63"

abbreviation max_i64 :: int where
  "max_i64 \<equiv> 2 ^ 63 - 1"

abbreviation min_i64 :: int where
  "min_i64 \<equiv> - (2 ^ 63)"

definition is_i64 :: "int \<Rightarrow> bool" where
  "is_i64 x \<longleftrightarrow> min_i64 \<le> x \<and> x \<le> max_i64"

lemma is_i64_nonneg: "0 \<le> x \<Longrightarrow> x \<le> max_i64 \<Longrightarrow> is_i64 x"
  unfolding is_i64_def by linarith

lemma is_i64_i64 [simp]: "is_i64 (i64 x)"
proof -
  have "0 \<le> (x + 2 ^ 63) mod 2 ^ 64" "(x + 2 ^ 63) mod 2 ^ 64 < (2 :: int) ^ 64"
    by simp_all
  then show ?thesis unfolding is_i64_def i64_def by simp
qed

lemma i64_id: "is_i64 x \<Longrightarrow> i64 x = x"
  unfolding is_i64_def i64_def by (subst mod_pos_pos_trivial) auto

text \<open>
  An instant is the number of nanoseconds since the zero \<open>time.Time\<close>, so the zero instant
  is 0 and \<open>IsZero\<close> is the comparison with it. A duration is a signed 64-bit number of
  nanoseconds; \<open>Time.Sub\<close> saturates instead of wrapping.
\<close>

type_synonym instant = int
type_synonym duration = int

definition is_zero_time :: "instant \<Rightarrow> bool" where
  "is_zero_time t \<longleftrightarrow> t = 0"

definition time_sub :: "instant \<Rightarrow> instant \<Rightarrow> duration" where
  "time_sub a b = max min_i64 (min max_i64 (a - b))"

lemma is_i64_time_sub [simp]: "is_i64 (time_sub a b)"
  by (simp add: is_i64_def time_sub_def)

lemma time_sub_exact: "is_i64 (a - b) \<Longrightarrow> time_sub a b = a - b"
  by (simp add: is_i64_def time_sub_def)

definition millisecond :: duration where
  "millisecond = 1000000"

definition second :: duration where
  "second = 1000 * millisecond"

lemma second_val [simp]: "second = 1000000000"
  by (simp add: second_def millisecond_def)

lemma millisecond_val [simp]: "millisecond = 1000000"
  by (simp add: millisecond_def)

text \<open>Integer division of Go truncates towards zero and panics on a zero divisor.\<close>

definition go_div :: "int \<Rightarrow> int \<Rightarrow> int outcome" where
  "go_div a b = (if b = 0 then Panic ''integer divide by zero'' else Ok (i64 (a sdiv b)))"

definition go_mod :: "int \<Rightarrow> int \<Rightarrow> int outcome" where
  "go_mod a b = (if b = 0 then Panic ''integer divide by zero'' else Ok (i64 (a smod b)))"

lemma i64_0 [simp]: "i64 0 = 0"
  by (rule i64_id) (simp add: is_i64_def)

lemma go_div_pos: "0 < b \<Longrightarrow> 0 \<le> a \<Longrightarrow> is_i64 a \<Longrightarrow> go_div a b = Ok (a div b)"
proof -
  assume b: "0 < b" and a: "0 \<le> a" "is_i64 a"
  have "a div b \<le> a" using a b zdiv_mono2 [of a 1 b] by simp
  moreover have "0 \<le> a div b" using a b by (simp add: pos_imp_zdiv_nonneg_iff)
  ultimately have "is_i64 (a div b)" using a(2) unfolding is_i64_def by linarith
  then show "go_div a b = Ok (a div b)"
    using a b by (simp add: go_div_def signed_divide_int_def i64_id sgn_if)
qed

lemma go_mod_pos: "0 < b \<Longrightarrow> 0 \<le> a \<Longrightarrow> is_i64 b \<Longrightarrow> go_mod a b = Ok (a mod b)"
proof -
  assume b: "0 < b" "is_i64 b" and a: "0 \<le> a"
  have "a mod b < b" "0 \<le> a mod b" using b by simp_all
  then have "is_i64 (a mod b)" using b(2) unfolding is_i64_def by linarith
  then show "go_mod a b = Ok (a mod b)"
    using a b by (simp add: go_mod_def signed_modulo_int_def signed_divide_int_def i64_id sgn_if minus_div_mult_eq_mod)
qed

text \<open>Indexing a slice panics outside its bounds.\<close>

definition index_at :: "'a list \<Rightarrow> int \<Rightarrow> 'a outcome" where
  "index_at xs i =
     (if 0 \<le> i \<and> i < int (length xs) then Ok (xs ! nat i) else Panic ''index out of range'')"

lemma index_at_Ok [simp]: "0 \<le> i \<Longrightarrow> i < int (length xs) \<Longrightarrow> index_at xs i = Ok (xs ! nat i)"
  by (simp add: index_at_def)

subsection \<open>Floating point\<close>

text \<open>
  A float64 is an exact rational or one of the three special values: division by zero gives
  an infinity or NaN as in Go, rounding is not modelled. Comparisons with NaN are false.
\<close>

datatype f64 = Fin rat | PosInf | NegInf | NaN

definition f_div :: "rat \<Rightarrow> rat \<Rightarrow> f64" where
  "f_div a b = (if b \<noteq> 0 then Fin (a / b) else if 0 < a then PosInf else if a < 0 then NegInf else NaN)"

fun f_less :: "f64 \<Rightarrow> f64 \<Rightarrow> bool" where
  "f_less (Fin a) (Fin b) = (a < b)"
| "f_less (Fin a) PosInf = True"
| "f_less NegInf (Fin b) = True"
| "f_less NegInf PosInf = True"
| "f_less a b = False"

lemma f_less_trans: "f_less a b \<Longrightarrow> f_less b c \<Longrightarrow> f_less a c"
  by (cases a; cases b; cases c) auto

lemma f_less_irrefl [simp]: "\<not> f_less a a"
  by (cases a) auto

definition f_max :: "f64 \<Rightarrow> f64 \<Rightarrow> f64" where
  "f_max cur best = (if f_less best cur then cur else best)"

lemma f_max_ge: "\<not> f_less (f_max cur best) best"
  by (auto simp: f_max_def dest: f_less_trans)

definition seconds :: "duration \<Rightarrow> rat" where
  "seconds d = of_int d / 1000000000"

subsection \<open>Decimal numbers\<close>

fun decimal :: "nat \<Rightarrow> string" where
  "decimal n = (if n < 10 then [char_of (48 + n)] else decimal (n div 10) @ [char_of (48 + n mod 10)])"

declare decimal.simps [simp del]

subsection \<open>Tickers\<close>

text \<open>\<open>time.NewTicker\<close> panics unless its interval is positive.\<close>

definition NewTicker :: "duration \<Rightarrow> unit outcome" where
  "NewTicker d = (if d \<le> 0 then Panic ''non-positive interval for NewTicker'' else Ok ())"

lemma NewTicker_simps [simp]: "0 < d \<Longrightarrow> NewTicker d = Ok ()" "d \<le> 0 \<Longrightarrow> panics (NewTicker d)"
  by (simp_all add: NewTicker_def)

subsection \<open>Metrics\<close>

text \<open>
  A recording on an instrument: its name, the value and the attributes. Functions of the
  model return the recordings they make, in order.
\<close>

datatype metric_value = MInt int | MFloat f64

record metric =
  m_name :: string
  m_val :: metric_value
  m_attrs :: "(string \<times> string) list"

definition metric_int :: "string \<Rightarrow> int \<Rightarrow> (string \<times> string) list \<Rightarrow> metric" where
  "metric_int n v as = \<lparr>m_name = n, m_val = MInt v, m_attrs = as\<rparr>"

definition metric_float :: "string \<Rightarrow> f64 \<Rightarrow> (string \<times> string) list \<Rightarrow> metric" where
  "metric_float n v as = \<lparr>m_name = n, m_val = MFloat v, m_attrs = as\<rparr>"

end
