(* ===== verification/Types.thy ===== *)
theory Types
  imports GoBase
begin

text \<open>
  Package \<open>types\<close>: accounts, the transaction a scenario builds, and the \<open>LoadTx\<close>
  that carries it through the pipeline (\<open>types/account.go\<close>, \<open>types/scenario.go\<close>).
  A private key is a number that stands for the key (\<open>None\<close> is the nil pointer); the map from
  keys to addresses is go-ethereum's and is a parameter where it is needed.
\<close>

type_synonym address = "160 word"
type_synonym priv_key = nat

record account =
  acc_address :: address
  acc_priv :: "priv_key option"
  acc_tracked :: bool

definition AccountFromKey :: "(priv_key \<Rightarrow> address) \<Rightarrow> priv_key \<Rightarrow> bool \<Rightarrow> account" where
  "AccountFromKey pubkeyToAddress k tracked =
     \<lparr>acc_address = pubkeyToAddress k, acc_priv = Some k, acc_tracked = tracked\<rparr>"

text \<open>
  \<open>NewAccount\<close> draws a key from the operating system: the model takes the keys still to
  be drawn as a stream and returns what is left of it.
\<close>

definition NewAccount ::
  "(priv_key \<Rightarrow> address) \<Rightarrow> bool \<Rightarrow> (nat \<Rightarrow> priv_key) \<Rightarrow> account \<times> (nat \<Rightarrow> priv_key)" where
  "NewAccount pubkeyToAddress tracked keys =
     (AccountFromKey pubkeyToAddress (keys 0) tracked, \<lambda>i. keys (Suc i))"

fun GenerateAccounts ::
  "(priv_key \<Rightarrow> address) \<Rightarrow> nat \<Rightarrow> bool \<Rightarrow> (nat \<Rightarrow> priv_key) \<Rightarrow> account list \<times> (nat \<Rightarrow> priv_key)" where
  "GenerateAccounts pk 0 tracked keys = ([], keys)"
| "GenerateAccounts pk (Suc n) tracked keys =
     (case NewAccount pk tracked keys of
        (a, keys') \<Rightarrow> (case GenerateAccounts pk n tracked keys' of (as, keys'') \<Rightarrow> (a # as, keys'')))"

lemma GenerateAccounts_length: "length (fst (GenerateAccounts pk n tracked keys)) = n"
  by (induction pk n tracked keys rule: GenerateAccounts.induct)
    (auto simp: NewAccount_def split: prod.splits)

lemma GenerateAccounts_tracked:
  "a \<in> set (fst (GenerateAccounts pk n tracked keys)) \<Longrightarrow> acc_tracked a = tracked"
  by (induction pk n tracked keys rule: GenerateAccounts.induct)
    (auto simp: NewAccount_def AccountFromKey_def split: prod.splits)

subsection \<open>Transactions\<close>

text \<open>
  The fields of an Ethereum transaction the program sets. Calldata is the contract method
  called and its arguments: packing them into bytes is the work of the generated bindings
  and of go-ethereum's ABI encoder.
\<close>

datatype abi_arg =
    ArgAddress address
  | ArgInt int
  | ArgAddresses "address list"
  | ArgInts "int list"
  | ArgString string
  | ArgZeroBytes nat
  | ArgBytes "nat list"
  | ArgBytes4 "nat list"
  | ArgBool bool

datatype calldata = NoData | Call string "abi_arg list"

record eth_tx =
  et_nonce :: u64
  et_to :: "address option"
  et_amount :: int
  et_gas :: u64
  et_tip_cap :: int
  et_fee_cap :: int
  et_data :: calldata
  et_signed_by :: "priv_key option"

record tx_scenario =
  ts_name :: string
  ts_operation :: string
  ts_nonce :: u64
  ts_sender :: account
  ts_receiver :: address

definition NewTxScenario :: "string \<Rightarrow> string \<Rightarrow> u64 \<Rightarrow> account \<Rightarrow> address \<Rightarrow> tx_scenario" where
  "NewTxScenario name operation nonce sender receiver =
     \<lparr>ts_name = name, ts_operation = operation, ts_nonce = nonce,
      ts_sender = sender, ts_receiver = receiver\<rparr>"

record load_tx =
  lt_tx :: eth_tx
  lt_scenario :: tx_scenario
  lt_intended :: instant
  lt_sequence :: u64
  lt_attempted :: instant
  lt_inclusion :: instant

definition NewSetupTx :: "eth_tx \<Rightarrow> tx_scenario \<Rightarrow> load_tx" where
  "NewSetupTx tx scenario =
     \<lparr>lt_tx = tx, lt_scenario = scenario, lt_intended = 0, lt_sequence = 0,
      lt_attempted = 0, lt_inclusion = 0\<rparr>"

definition NewEnqueuedTx :: "eth_tx \<Rightarrow> tx_scenario \<Rightarrow> instant \<Rightarrow> load_tx" where
  "NewEnqueuedTx tx scenario enqueuedAt =
     \<lparr>lt_tx = tx, lt_scenario = scenario, lt_intended = enqueuedAt, lt_sequence = 0,
      lt_attempted = 0, lt_inclusion = 0\<rparr>"

definition CreateTxFromEthTx :: "eth_tx \<Rightarrow> tx_scenario \<Rightarrow> load_tx" where
  "CreateTxFromEthTx tx scenario =
     \<lparr>lt_tx = tx, lt_scenario = scenario, lt_intended = 0, lt_sequence = 0,
      lt_attempted = 0, lt_inclusion = 0\<rparr>"

lemma NewSetupTx_untimed [simp]: "is_zero_time (lt_intended (NewSetupTx tx s))"
  by (simp add: NewSetupTx_def is_zero_time_def)

abbreviation sender_of :: "load_tx \<Rightarrow> address" where
  "sender_of tx \<equiv> acc_address (ts_sender (lt_scenario tx))"

abbreviation tracked_of :: "load_tx \<Rightarrow> bool" where
  "tracked_of tx \<equiv> acc_tracked (ts_sender (lt_scenario tx))"

abbreviation nonce_of :: "load_tx \<Rightarrow> u64" where
  "nonce_of tx \<equiv> et_nonce (lt_tx tx)"

end
