(* ===== verification/Fifo.thy ===== *)
theory Fifo
  imports GoBase
begin

text \<open>
  The generic \<open>queue[T]\<close> of \<open>sender/txs_queue.go\<close>: two 64-bit counters and a map from
  positions to entries. The locale \<open>fifo\<close> is the interface its client relies on; the
  interpretation at the end discharges it for the code's queue.
\<close>

locale fifo =
  fixes empty :: 'q
    and size_of :: "'q \<Rightarrow> u64"
    and put :: "'a \<Rightarrow> 'q \<Rightarrow> 'q"
    and get :: "'q \<Rightarrow> ('a \<times> 'q) outcome"
    and items :: "'q \<Rightarrow> 'a list"
    and wf :: "'q \<Rightarrow> bool"
    and can_put :: "'q \<Rightarrow> bool"
  assumes wf_empty: "wf empty"
    and items_empty: "items empty = []"
    and size_items: "wf q \<Longrightarrow> unat (size_of q) = length (items q)"
    and wf_put: "wf q \<Longrightarrow> can_put q \<Longrightarrow> wf (put x q)"
    and items_put: "wf q \<Longrightarrow> can_put q \<Longrightarrow> items (put x q) = items q @ [x]"
    and get_Nil: "wf q \<Longrightarrow> items q = [] \<Longrightarrow> panics (get q)"
    and get_Cons: "wf q \<Longrightarrow> items q = x # xs \<Longrightarrow> \<exists>q'. get q = Ok (x, q') \<and> wf q' \<and> items q' = xs"
begin

lemma size_zero_iff: "wf q \<Longrightarrow> size_of q = 0 \<longleftrightarrow> items q = []"
  using size_items [of q] by (auto simp: unat_eq_zero)

lemma size_positive: "wf q \<Longrightarrow> 0 < size_of q \<longleftrightarrow> items q \<noteq> []"
  using size_zero_iff word_gt_0 by metis

lemma get_Ok:
  assumes "wf q" "get q = Ok (x, q')"
  shows "wf q' \<and> items q = x # items q'"
proof (cases "items q")
  case Nil
  with get_Nil [OF assms(1)] assms(2) show ?thesis by simp
next
  case (Cons y ys)
  with get_Cons [OF assms(1) Cons] assms(2) show ?thesis by auto
qed

lemma get_total: "wf q \<Longrightarrow> items q \<noteq> [] \<Longrightarrow> \<exists>x q'. get q = Ok (x, q')"
  using get_Cons by (metis neq_Nil_conv)

end

subsection \<open>The code's queue\<close>

record 'a queue =
  q_first :: u64
  q_next :: u64
  q_map :: "u64 \<rightharpoonup> 'a"

definition newQueue :: "'a queue" where
  "newQueue = \<lparr>q_first = 0, q_next = 0, q_map = Map.empty\<rparr>"

definition queue_Len :: "'a queue \<Rightarrow> u64" where
  "queue_Len q = q_next q - q_first q"

definition queue_Push :: "'a \<Rightarrow> 'a queue \<Rightarrow> 'a queue" where
  "queue_Push v q = q\<lparr>q_map := (q_map q)(q_next q \<mapsto> v), q_next := q_next q + 1\<rparr>"

text \<open>
  \<open>Pop\<close> panics on an empty queue. Reading a missing key would yield the zero entry, which the
  model reports as its own panic: the invariant excludes it.
\<close>

definition queue_Pop :: "'a queue \<Rightarrow> ('a \<times> 'a queue) outcome" where
  "queue_Pop q =
     (if q_next q \<le> q_first q then Panic ''empty queue''
      else case q_map q (q_first q) of
             None \<Rightarrow> Panic ''zero entry''
           | Some v \<Rightarrow> Ok (v, q\<lparr>q_map := (q_map q)(q_first q := None), q_first := q_first q + 1\<rparr>))"

text \<open>
  The positions in use are exactly \<open>first \<le> k < next\<close>; \<open>queue_items\<close> lists them in order.
\<close>

definition queue_inv :: "'a queue \<Rightarrow> bool" where
  "queue_inv q \<longleftrightarrow> q_first q \<le> q_next q \<and> (\<forall>k. q_map q k \<noteq> None \<longleftrightarrow> q_first q \<le> k \<and> k < q_next q)"

definition queue_items :: "'a queue \<Rightarrow> 'a list" where
  "queue_items q = slots (q_first q) (q_next q) (q_map q)"

definition queue_can_push :: "'a queue \<Rightarrow> bool" where
  "queue_can_push q \<longleftrightarrow> q_next q \<noteq> max_u64"

lemma queue_inv_new [simp]: "queue_inv newQueue"
  by (simp add: queue_inv_def newQueue_def)

lemma queue_items_new [simp]: "queue_items newQueue = []"
  by (simp add: queue_items_def newQueue_def)

lemma queue_inv_push: "queue_inv q \<Longrightarrow> queue_can_push q \<Longrightarrow> queue_inv (queue_Push v q)"
proof -
  assume inv: "queue_inv q" and c: "queue_can_push q"
  then have lt: "(k < q_next q + 1) = (k \<le> q_next q)" for k
    by (simp add: queue_can_push_def less_Suc_u64)
  have le: "q_first q \<le> q_next q" "q_first q \<le> q_next q + 1"
    using inv lt [of "q_first q"] by (auto simp: queue_inv_def)
  have "((q_map q)(q_next q \<mapsto> v)) k \<noteq> None \<longleftrightarrow> q_first q \<le> k \<and> k < q_next q + 1" for k
    using inv le lt [of k] by (cases "k = q_next q") (simp_all add: queue_inv_def order_less_le)
  then show "queue_inv (queue_Push v q)" using le by (simp add: queue_inv_def queue_Push_def)
qed

lemma queue_items_push:
  "queue_inv q \<Longrightarrow> queue_can_push q \<Longrightarrow> queue_items (queue_Push v q) = queue_items q @ [v]"
  by (simp add: queue_items_def queue_Push_def queue_inv_def queue_can_push_def slots_snoc)

lemma queue_items_Cons:
  "q_first q < q_next q \<Longrightarrow> q_map q (q_first q) = Some v \<Longrightarrow> queue_items q =
    v # queue_items (q\<lparr>q_map := (q_map q)(q_first q := None), q_first := q_first q + 1\<rparr>)"
  by (simp add: queue_items_def slots_Cons)

lemma queue_inv_pop: "queue_inv q \<Longrightarrow> q_first q < q_next q \<Longrightarrow>
    queue_inv (q\<lparr>q_map := (q_map q)(q_first q := None), q_first := q_first q + 1\<rparr>)"
proof -
  assume inv: "queue_inv q" and lt: "q_first q < q_next q"
  have "((q_map q)(q_first q := None)) k \<noteq> None \<longleftrightarrow> q_first q + 1 \<le> k \<and> k < q_next q" for k
    using inv lt Suc_le_u64 [OF lt, of k] by (cases "k = q_first q") (simp_all add: queue_inv_def order_less_le)
  then show "queue_inv (q\<lparr>q_map := (q_map q)(q_first q := None), q_first := q_first q + 1\<rparr>)"
    using Suc_le_end [OF lt] by (simp add: queue_inv_def)
qed

lemma queue_items_Nil_iff: "queue_items q = [] \<longleftrightarrow> q_next q \<le> q_first q"
  by (simp add: queue_items_def slots_Nil_iff)

interpretation ready: fifo newQueue queue_Len queue_Push queue_Pop queue_items queue_inv queue_can_push
proof
  fix q :: "'a queue" and x xs
  assume q: "queue_inv q"
  then show "unat (queue_Len q) = length (queue_items q)"
    by (simp add: queue_Len_def queue_items_def queue_inv_def unat_sub)
  show "queue_items q = [] \<Longrightarrow> panics (queue_Pop q)"
    using q by (simp add: queue_items_Nil_iff queue_Pop_def)
  assume c: "queue_items q = x # xs"
  then have lt: "q_first q < q_next q"
    using queue_items_Nil_iff [of q] by auto
  then obtain v where v: "q_map q (q_first q) = Some v"
    using q by (auto simp: queue_inv_def)
  show "\<exists>q'. queue_Pop q = Ok (x, q') \<and> queue_inv q' \<and> queue_items q' = xs"
    using c queue_items_Cons [OF lt v] queue_inv_pop [OF q lt] lt v
    by (auto simp: queue_Pop_def)
qed (simp_all add: queue_inv_push queue_items_push)

end
