(* ===== verification/TxsQueue.thy ===== *)
theory TxsQueue
  imports Types Fifo
begin

text \<open>
  \<open>TxsQueue\<close> (\<open>sender/txs_queue.go\<close>): the unsigned transactions of every account, in nonce
  order, and the accounts whose next transaction may be sent. The state is what the watch
  guards; every definition is one critical section. \<open>version\<close> counts the calls of
  \<open>ctrl.Updated()\<close>, each of which closes the channel the current waiters sleep on.
\<close>

subsection \<open>State\<close>

record acc_state =
  firstNonce :: u64
  nextNonce :: u64
  acc_ready :: bool
  acc_track :: bool

record txs_queue =
  capacity :: int
  txs :: "address \<times> u64 \<rightharpoonup> load_tx"
  byAddr :: "address \<rightharpoonup> acc_state"
  readyq :: "address queue"
  version :: nat

definition NewTxsQueue :: "int \<Rightarrow> txs_queue" where
  "NewTxsQueue cap =
     \<lparr>capacity = cap, txs = Map.empty, byAddr = Map.empty, readyq = newQueue, version = 0\<rparr>"

definition Updated :: "txs_queue \<Rightarrow> txs_queue" where
  "Updated q = q\<lparr>version := Suc (version q)\<rparr>"

subsection \<open>Operations\<close>

definition len_txs :: "txs_queue \<Rightarrow> int" where
  "len_txs q = int (card (dom (txs q)))"

text \<open>The predicates the three waiting operations sleep on.\<close>

definition has_room :: "txs_queue \<Rightarrow> bool" where
  "has_room q \<longleftrightarrow> len_txs q < capacity q"

definition has_ready :: "txs_queue \<Rightarrow> bool" where
  "has_ready q \<longleftrightarrow> 0 < queue_Len (readyq q)"

definition is_empty :: "txs_queue \<Rightarrow> bool" where
  "is_empty q \<longleftrightarrow> len_txs q = 0"

definition PopSent :: "address \<Rightarrow> txs_queue \<Rightarrow> txs_queue" where
  "PopSent addr q =
     (case byAddr q addr of
        None \<Rightarrow> q
      | Some st \<Rightarrow>
          if acc_ready st \<or> firstNonce st = nextNonce st then q
          else
            let q = Updated q;
                q = q\<lparr>txs := (txs q)((addr, firstNonce st) := None)\<rparr>;
                st = st\<lparr>firstNonce := firstNonce st + 1\<rparr>
            in if firstNonce st < nextNonce st
               then q\<lparr>byAddr := (byAddr q)(addr \<mapsto> st\<lparr>acc_ready := True\<rparr>),
                      readyq := queue_Push addr (readyq q)\<rparr>
               else if \<not> acc_track st then q\<lparr>byAddr := (byAddr q)(addr := None)\<rparr>
               else q\<lparr>byAddr := (byAddr q)(addr \<mapsto> st)\<rparr>)"

text \<open>The loop of \<open>Reset\<close>: it deletes the live transactions and moves the first nonce up.\<close>

function drop_live :: "address \<Rightarrow> u64 \<Rightarrow> u64 \<Rightarrow> (address \<times> u64 \<rightharpoonup> load_tx) \<Rightarrow>
    u64 \<times> (address \<times> u64 \<rightharpoonup> load_tx)" where
  "drop_live addr f n m = (if f < n then drop_live addr (f + 1) n (m((addr, f) := None)) else (f, m))"
  by pat_completeness auto
termination
  by (relation "measure (\<lambda>(addr, f, n, m). unat n - unat f)")
    (auto simp: unat_Suc_u64 word_less_nat_alt)

declare drop_live.simps [simp del]

definition Reset :: "address \<Rightarrow> u64 \<Rightarrow> txs_queue \<Rightarrow> txs_queue" where
  "Reset addr nonce q =
     (case byAddr q addr of
        None \<Rightarrow> q
      | Some st \<Rightarrow>
          if acc_ready st then q
          else
            let q = Updated q;
                (f, m) = drop_live addr (firstNonce st) (nextNonce st) (txs q);
                q = q\<lparr>txs := m\<rparr>
            in if acc_track st
               then q\<lparr>byAddr := (byAddr q)(addr \<mapsto> st\<lparr>firstNonce := nonce, nextNonce := nonce\<rparr>)\<rparr>
               else q\<lparr>byAddr := (byAddr q)(addr := None)\<rparr>)"

text \<open>
  \<open>PopReady\<close> after its wait. A missing account would be a nil dereference; a missing
  transaction would be returned as a nil pointer.
\<close>

definition PopReady_locked :: "txs_queue \<Rightarrow> (load_tx option \<times> txs_queue) outcome" where
  "PopReady_locked q =
     obind (queue_Pop (readyq q)) (\<lambda>(addr, rq).
       case byAddr q addr of
         None \<Rightarrow> Panic ''nil pointer dereference''
       | Some st \<Rightarrow>
           Ok (txs q (addr, firstNonce st),
               Updated (q\<lparr>readyq := rq, byAddr := (byAddr q)(addr \<mapsto> st\<lparr>acc_ready := False\<rparr>)\<rparr>)))"

definition PopReady :: "go_error option \<Rightarrow> txs_queue \<Rightarrow> (load_tx option \<times> txs_queue) outcome waiting" where
  "PopReady ctx q =
     (if has_ready q then Returned (PopReady_locked q)
      else case ctx of Some e \<Rightarrow> Returned (Err e) | None \<Rightarrow> Waits)"

text \<open>
  \<open>Push\<close> after its wait. A transaction whose nonce is not the account's next one is dropped
  with a log line and no error.
\<close>

definition acc_or_new :: "load_tx \<Rightarrow> txs_queue \<Rightarrow> acc_state" where
  "acc_or_new tx q =
     (case byAddr q (sender_of tx) of
        Some st \<Rightarrow> st
      | None \<Rightarrow> \<lparr>firstNonce = 0, nextNonce = 0, acc_ready = False, acc_track = tracked_of tx\<rparr>)"

definition Push_locked :: "load_tx \<Rightarrow> txs_queue \<Rightarrow> txs_queue" where
  "Push_locked tx q =
     (let addr = sender_of tx; nonce = nonce_of tx; st = acc_or_new tx q
      in if nonce \<noteq> nextNonce st then q
         else
           let st = st\<lparr>nextNonce := nextNonce st + 1\<rparr>;
               q = q\<lparr>byAddr := (byAddr q)(addr \<mapsto> st), txs := (txs q)((addr, nonce) \<mapsto> tx)\<rparr>
           in if firstNonce st = nonce
              then Updated (q\<lparr>byAddr := (byAddr q)(addr \<mapsto> st\<lparr>acc_ready := True\<rparr>),
                              readyq := queue_Push addr (readyq q)\<rparr>)
              else q)"

definition Push :: "go_error option \<Rightarrow> load_tx \<Rightarrow> txs_queue \<Rightarrow> (go_error option \<times> txs_queue) waiting" where
  "Push ctx tx q =
     (if has_room q then Returned (None, Push_locked tx q)
      else case ctx of Some e \<Rightarrow> Returned (Some e, q) | None \<Rightarrow> Waits)"

definition WaitUntilEmpty :: "go_error option \<Rightarrow> txs_queue \<Rightarrow> go_error option waiting" where
  "WaitUntilEmpty ctx q =
     (if is_empty q then Returned None
      else case ctx of Some e \<Rightarrow> Returned (Some e) | None \<Rightarrow> Waits)"

definition queue_Nonce :: "account \<Rightarrow> txs_queue \<Rightarrow> u64" where
  "queue_Nonce acc q = (case byAddr q (acc_address acc) of Some st \<Rightarrow> nextNonce st | None \<Rightarrow> 0)"

subsection \<open>Invariant\<close>

text \<open>
  \<open>acc_wf\<close> relates one account's state, the transactions stored for it and its membership in
  the ready queue. The live nonces are exactly the stored ones; a ready account has a
  transaction to send; an untracked account without transactions has no state at all.
\<close>

definition acc_wf :: "acc_state option \<Rightarrow> (u64 \<rightharpoonup> load_tx) \<Rightarrow> address \<Rightarrow> bool \<Rightarrow> bool" where
  "acc_wf s m a r \<longleftrightarrow>
     (case s of
        None \<Rightarrow> (\<forall>k. m k = None) \<and> \<not> r
      | Some st \<Rightarrow>
          firstNonce st \<le> nextNonce st \<and> r = acc_ready st \<and>
          (acc_ready st \<or> \<not> acc_track st \<longrightarrow> firstNonce st < nextNonce st) \<and>
          (\<forall>k. m k \<noteq> None \<longleftrightarrow> firstNonce st \<le> k \<and> k < nextNonce st) \<and>
          (\<forall>k tx. m k = Some tx \<longrightarrow> sender_of tx = a \<and> nonce_of tx = k))"

abbreviation ready_list :: "txs_queue \<Rightarrow> address list" where
  "ready_list q \<equiv> queue_items (readyq q)"

definition acc_txs :: "txs_queue \<Rightarrow> address \<Rightarrow> u64 \<rightharpoonup> load_tx" where
  "acc_txs q a = (\<lambda>k. txs q (a, k))"

definition wf_queue :: "txs_queue \<Rightarrow> bool" where
  "wf_queue q \<longleftrightarrow>
     finite (dom (txs q)) \<and> queue_inv (readyq q) \<and> distinct (ready_list q) \<and>
     (\<forall>a. acc_wf (byAddr q a) (acc_txs q a) a (a \<in> set (ready_list q)))"

text \<open>
  The abstract view: what is pending for an account, in the order it will be sent, and whether
  its head has been handed to a sender (\<open>busy\<close>).
\<close>

definition pending :: "txs_queue \<Rightarrow> address \<Rightarrow> load_tx list" where
  "pending q a =
     (case byAddr q a of None \<Rightarrow> [] | Some st \<Rightarrow> slots (firstNonce st) (nextNonce st) (acc_txs q a))"

definition busy :: "txs_queue \<Rightarrow> address \<Rightarrow> bool" where
  "busy q a \<longleftrightarrow>
     (case byAddr q a of None \<Rightarrow> False | Some st \<Rightarrow> \<not> acc_ready st \<and> firstNonce st \<noteq> nextNonce st)"

definition accepts :: "load_tx \<Rightarrow> txs_queue \<Rightarrow> bool" where
  "accepts tx q \<longleftrightarrow> nonce_of tx = nextNonce (acc_or_new tx q)"

text \<open>
  The bounds within which no 64-bit counter wraps: a nonce is below the largest 64-bit value
  (as Ethereum requires of every nonce) and fewer than that many entries were ever made ready.
\<close>

definition push_bounded :: "load_tx \<Rightarrow> txs_queue \<Rightarrow> bool" where
  "push_bounded tx q \<longleftrightarrow> nonce_of tx \<noteq> max_u64 \<and> queue_can_push (readyq q)"

lemma wf_queueD:
  assumes "wf_queue q"
  shows "finite (dom (txs q))" "queue_inv (readyq q)" "distinct (ready_list q)"
    "acc_wf (byAddr q a) (acc_txs q a) a (a \<in> set (ready_list q))"
  using assms by (auto simp: wf_queue_def)

lemma wf_queue_new [simp]: "wf_queue (NewTxsQueue cap)"
  by (simp add: wf_queue_def NewTxsQueue_def acc_wf_def acc_txs_def)

lemma NewTxsQueue_sel [simp]:
  "\<not> busy (NewTxsQueue cap) a" "pending (NewTxsQueue cap) a = []" "len_txs (NewTxsQueue cap) = 0"
  "capacity (NewTxsQueue cap) = cap" "ready_list (NewTxsQueue cap) = []"
  by (simp_all add: busy_def pending_def len_txs_def NewTxsQueue_def)

lemma wf_Updated [simp]: "wf_queue (Updated q) = wf_queue q"
  by (simp add: wf_queue_def Updated_def acc_txs_def)

lemma pending_Updated [simp]: "pending (Updated q) = pending q"
  by (simp add: fun_eq_iff pending_def Updated_def acc_txs_def split: option.split)

lemma busy_Updated [simp]: "busy (Updated q) = busy q"
  by (simp add: fun_eq_iff busy_def Updated_def split: option.split)

lemma Updated_sel [simp]:
  "txs (Updated q) = txs q" "byAddr (Updated q) = byAddr q" "readyq (Updated q) = readyq q"
  "capacity (Updated q) = capacity q" "version (Updated q) = Suc (version q)"
  "acc_txs (Updated q) = acc_txs q"
  by (simp_all add: Updated_def acc_txs_def fun_eq_iff)

lemma acc_txs_upd:
  "txs q' = (txs q)((a, n) := v) \<Longrightarrow> acc_txs q' b = (if b = a then (acc_txs q b)(n := v) else acc_txs q b)"
  by (auto simp: acc_txs_def fun_eq_iff)

lemma txs_acc_txs: "txs q (a, k) = acc_txs q a k"
  by (simp add: acc_txs_def)

text \<open>An update of one account's slice keeps the invariant of all others.\<close>

lemma wf_queue_upd:
  assumes "wf_queue q" "finite (dom (txs q'))" "queue_inv (readyq q')" "distinct (ready_list q')"
    and other: "\<And>b. b \<noteq> a \<Longrightarrow> byAddr q' b = byAddr q b \<and> acc_txs q' b = acc_txs q b \<and>
      (b \<in> set (ready_list q') \<longleftrightarrow> b \<in> set (ready_list q))"
    and own: "acc_wf (byAddr q' a) (acc_txs q' a) a (a \<in> set (ready_list q'))"
  shows "wf_queue q'"
  unfolding wf_queue_def
proof (intro conjI allI)
  fix b
  show "acc_wf (byAddr q' b) (acc_txs q' b) b (b \<in> set (ready_list q'))"
    using own other [of b] wf_queueD(4) [OF assms(1), of b] by (cases "b = a") auto
qed (use assms in auto)

subsection \<open>Push\<close>

lemma Push_locked_reject: "\<not> accepts tx q \<Longrightarrow> Push_locked tx q = q"
  by (simp add: accepts_def Push_locked_def Let_def)

lemma Push_locked_accept:
  assumes "accepts tx q"
  shows "byAddr (Push_locked tx q) = (byAddr q)(sender_of tx \<mapsto>
      (acc_or_new tx q)\<lparr>nextNonce := nextNonce (acc_or_new tx q) + 1,
        acc_ready := acc_ready (acc_or_new tx q) \<or> firstNonce (acc_or_new tx q) = nextNonce (acc_or_new tx q)\<rparr>)"
    and "txs (Push_locked tx q) = (txs q)((sender_of tx, nextNonce (acc_or_new tx q)) \<mapsto> tx)"
    and "readyq (Push_locked tx q) =
      (if firstNonce (acc_or_new tx q) = nextNonce (acc_or_new tx q)
       then queue_Push (sender_of tx) (readyq q) else readyq q)"
    and "version (Push_locked tx q) =
      (if firstNonce (acc_or_new tx q) = nextNonce (acc_or_new tx q) then Suc (version q) else version q)"
    and "capacity (Push_locked tx q) = capacity q"
  using assms by (auto simp: accepts_def Push_locked_def Let_def)

lemma acc_or_new_wf:
  assumes "wf_queue q"
  shows "firstNonce (acc_or_new tx q) \<le> nextNonce (acc_or_new tx q)"
    and "acc_ready (acc_or_new tx q) \<longleftrightarrow> sender_of tx \<in> set (ready_list q)"
    and "acc_txs q (sender_of tx) k \<noteq> None \<longleftrightarrow>
      firstNonce (acc_or_new tx q) \<le> k \<and> k < nextNonce (acc_or_new tx q)"
    and "acc_ready (acc_or_new tx q) \<Longrightarrow> firstNonce (acc_or_new tx q) < nextNonce (acc_or_new tx q)"
    and "acc_txs q (sender_of tx) k = Some t \<Longrightarrow> sender_of t = sender_of tx \<and> nonce_of t = k"
  using wf_queueD(4) [OF assms, of "sender_of tx"]
  by (auto simp: acc_wf_def acc_or_new_def split: option.splits)

lemma acc_wf_push:
  assumes "firstNonce st \<le> nextNonce st" "nextNonce st \<noteq> max_u64"
    "\<And>k. m k \<noteq> None \<longleftrightarrow> firstNonce st \<le> k \<and> k < nextNonce st"
    "\<And>k t. m k = Some t \<Longrightarrow> sender_of t = a \<and> nonce_of t = k"
    "sender_of tx = a" "nonce_of tx = nextNonce st" "nextNonce st = n"
  shows "acc_wf (Some (st\<lparr>nextNonce := n + 1, acc_ready := r\<rparr>)) (m(n \<mapsto> tx)) a r"
proof -
  have lt: "n < n + 1" using assms(2,7) by (simp add: less_Suc_u64)
  then have "firstNonce st < n + 1" using assms(1,7) by (auto intro: order_le_less_trans)
  then show ?thesis using assms by (auto simp: acc_wf_def less_Suc_u64 order_less_imp_le)
qed

lemma Push_locked_acc_txs:
  "accepts tx q \<Longrightarrow> acc_txs (Push_locked tx q) b =
    (if b = sender_of tx then (acc_txs q b)(nextNonce (acc_or_new tx q) \<mapsto> tx) else acc_txs q b)"
  by (rule acc_txs_upd) (rule Push_locked_accept(2))

lemma wf_Push_locked:
  assumes wf: "wf_queue q" and b: "push_bounded tx q"
  shows "wf_queue (Push_locked tx q)"
proof (cases "accepts tx q")
  case False
  with wf show ?thesis by (simp add: Push_locked_reject)
next
  case True
  let ?a = "sender_of tx" and ?st = "acc_or_new tx q"
  note st = acc_or_new_wf [OF wf, of tx] and eff = Push_locked_accept [OF True]
  have nx: "nextNonce ?st \<noteq> max_u64" "nonce_of tx = nextNonce ?st"
    using b True by (auto simp: push_bounded_def accepts_def)
  have rl: "set (ready_list (Push_locked tx q)) =
      set (ready_list q) \<union> (if firstNonce ?st = nextNonce ?st then {?a} else {})"
    using wf_queueD(2) [OF wf] b by (auto simp: eff push_bounded_def ready.items_put)
  show ?thesis
  proof (rule wf_queue_upd [OF wf, where a = ?a])
    show "queue_inv (readyq (Push_locked tx q))"
      using wf_queueD(2) [OF wf] b by (auto simp: eff push_bounded_def ready.wf_put)
    show "distinct (ready_list (Push_locked tx q))"
      using wf_queueD(2,3) [OF wf] b st(2,4)
      by (auto simp: eff push_bounded_def ready.items_put)
    show "acc_wf (byAddr (Push_locked tx q) ?a) (acc_txs (Push_locked tx q) ?a) ?a
        (?a \<in> set (ready_list (Push_locked tx q)))"
      using acc_wf_push [OF st(1) nx(1) st(3,5) refl nx(2) refl, of "?a \<in> set (ready_list (Push_locked tx q))"]
      by (auto simp: eff(1) Push_locked_acc_txs [OF True] rl st(2) split: if_splits)
  qed (use wf_queueD [OF wf] in \<open>auto simp: eff(1,2) rl Push_locked_acc_txs [OF True]\<close>)
qed

lemma pending_Push_locked:
  assumes wf: "wf_queue q" and b: "push_bounded tx q"
  shows "pending (Push_locked tx q) = (if accepts tx q
      then (pending q)(sender_of tx := pending q (sender_of tx) @ [tx]) else pending q)"
proof (cases "accepts tx q")
  case False
  then show ?thesis by (simp add: Push_locked_reject)
next
  case True
  let ?st = "acc_or_new tx q"
  have nx: "nextNonce ?st \<noteq> max_u64" using b True by (auto simp: push_bounded_def accepts_def)
  have own: "pending q (sender_of tx) = slots (firstNonce ?st) (nextNonce ?st) (acc_txs q (sender_of tx))"
    by (auto simp: pending_def acc_or_new_def split: option.split)
  have new: "pending (Push_locked tx q) (sender_of tx) = pending q (sender_of tx) @ [tx]"
    unfolding own using slots_snoc [OF acc_or_new_wf(1) [OF wf] nx]
    by (simp add: pending_def Push_locked_accept(1) [OF True] Push_locked_acc_txs [OF True])
  have other: "pending (Push_locked tx q) b = pending q b" if "b \<noteq> sender_of tx" for b
    using that
    by (simp add: pending_def Push_locked_accept(1) [OF True] Push_locked_acc_txs [OF True]
        split: option.split)
  from True new other show ?thesis by (auto simp: fun_eq_iff)
qed

lemma busy_Push_locked:
  assumes wf: "wf_queue q" and b: "push_bounded tx q"
  shows "busy (Push_locked tx q) = busy q"
proof (cases "accepts tx q")
  case False
  then show ?thesis by (simp add: Push_locked_reject)
next
  case True
  let ?st = "acc_or_new tx q"
  have nx: "nextNonce ?st \<noteq> max_u64" using b True by (auto simp: push_bounded_def accepts_def)
  have ne: "firstNonce ?st \<noteq> nextNonce ?st + 1"
    using acc_or_new_wf(1) [OF wf, of tx] nx by (metis less_Suc_u64 leD order_refl)
  have own: "busy q (sender_of tx) \<longleftrightarrow> \<not> acc_ready ?st \<and> firstNonce ?st \<noteq> nextNonce ?st"
    by (auto simp: busy_def acc_or_new_def split: option.split)
  show ?thesis using own ne by (auto simp: fun_eq_iff busy_def Push_locked_accept [OF True])
qed

subsection \<open>PopSent, Reset, PopReady\<close>

lemma busyE:
  assumes "wf_queue q" "busy q a"
  obtains st where "byAddr q a = Some st" "\<not> acc_ready st" "firstNonce st < nextNonce st"
    "a \<notin> set (ready_list q)"
    "\<And>k. acc_txs q a k \<noteq> None \<longleftrightarrow> firstNonce st \<le> k \<and> k < nextNonce st"
    "\<And>k t. acc_txs q a k = Some t \<Longrightarrow> sender_of t = a \<and> nonce_of t = k"
  using assms wf_queueD(4) [OF assms(1), of a]
  by (auto simp: busy_def acc_wf_def order_less_le split: option.splits)

subsubsection \<open>PopSent\<close>

lemma PopSent_effect:
  assumes "byAddr q a = Some st" "\<not> acc_ready st" "firstNonce st < nextNonce st"
  shows "byAddr (PopSent a q) = (byAddr q)(a :=
      (if firstNonce st + 1 < nextNonce st then Some (st\<lparr>firstNonce := firstNonce st + 1, acc_ready := True\<rparr>)
       else if acc_track st then Some (st\<lparr>firstNonce := firstNonce st + 1\<rparr>) else None))"
    and "txs (PopSent a q) = (txs q)((a, firstNonce st) := None)"
    and "readyq (PopSent a q) = (if firstNonce st + 1 < nextNonce st then queue_Push a (readyq q) else readyq q)"
    and "version (PopSent a q) = Suc (version q)"
    and "capacity (PopSent a q) = capacity q"
    and "acc_txs (PopSent a q) b = (if b = a then (acc_txs q b)(firstNonce st := None) else acc_txs q b)"
proof -
  show t: "txs (PopSent a q) = (txs q)((a, firstNonce st) := None)"
    using assms by (auto simp: PopSent_def Let_def)
  show "acc_txs (PopSent a q) b = (if b = a then (acc_txs q b)(firstNonce st := None) else acc_txs q b)"
    by (rule acc_txs_upd) (rule t)
qed (use assms in \<open>auto simp: PopSent_def Let_def\<close>)

lemma acc_wf_pop:
  assumes "firstNonce st < nextNonce st"
    "\<And>k. m k \<noteq> None \<longleftrightarrow> firstNonce st \<le> k \<and> k < nextNonce st"
    "\<And>k t. m k = Some t \<Longrightarrow> sender_of t = a \<and> nonce_of t = k"
    "firstNonce st = f" "r \<longleftrightarrow> f + 1 < nextNonce st" "\<not> acc_ready st"
  shows "acc_wf (if r then Some (st\<lparr>firstNonce := f + 1, acc_ready := True\<rparr>)
       else if acc_track st then Some (st\<lparr>firstNonce := f + 1\<rparr>) else None) (m(f := None)) a r"
proof -
  have le: "f + 1 \<le> nextNonce st" using assms(1,4) by (simp add: Suc_le_end)
  have iff: "f + 1 \<le> k \<longleftrightarrow> f < k" for k using assms(1,4) by (simp add: Suc_le_u64)
  have gone: "k = f" if "m k \<noteq> None" "\<not> r" for k
  proof -
    have k: "f \<le> k" "k < nextNonce st" using that(1) assms(2,4) by auto
    have "\<not> f + 1 < nextNonce st" using that(2) assms(5) by simp
    with k(2) have "\<not> f + 1 \<le> k" by (meson order_le_less_trans)
    with iff [of k] k(1) show ?thesis by simp
  qed
  show ?thesis
  proof (cases r)
    case True
    have "(m(f := None)) k \<noteq> None \<longleftrightarrow> f + 1 \<le> k \<and> k < nextNonce st" for k
      using assms(2) [of k] assms(4) by (auto simp: iff order_less_le)
    moreover have "sender_of t = a \<and> nonce_of t = k" if "(m(f := None)) k = Some t" for k t
      using that assms(3) by (auto split: if_splits)
    ultimately show ?thesis using True le assms(5) by (simp add: acc_wf_def)
  next
    case False
    have none: "(m(f := None)) k = None" for k
      using gone [of k] False by (cases "m k") auto
    have nx: "nextNonce st = f + 1" using False le assms(5) by simp
    define m' where "m' = m(f := None)"
    have none': "m' k = None" for k using none by (simp add: m'_def)
    show ?thesis unfolding m'_def [symmetric] using False none' nx assms(6)
      by (cases "acc_track st") (simp_all add: acc_wf_def not_less)
  qed
qed

lemma PopSent_correct:
  assumes wf: "wf_queue q" and b: "busy q a" and c: "queue_can_push (readyq q)"
  shows "wf_queue (PopSent a q)"
    and "pending (PopSent a q) = (pending q)(a := tl (pending q a))"
    and "busy (PopSent a q) = (busy q)(a := False)"
proof -
  obtain st where st: "byAddr q a = Some st" "\<not> acc_ready st" "firstNonce st < nextNonce st"
    "a \<notin> set (ready_list q)"
    "\<And>k. acc_txs q a k \<noteq> None \<longleftrightarrow> firstNonce st \<le> k \<and> k < nextNonce st"
    "\<And>k t. acc_txs q a k = Some t \<Longrightarrow> sender_of t = a \<and> nonce_of t = k"
    by (rule busyE [OF wf b]) blast
  note eff = PopSent_effect [OF st(1-3)]
  have rl: "set (ready_list (PopSent a q)) =
      set (ready_list q) \<union> (if firstNonce st + 1 < nextNonce st then {a} else {})"
    using wf_queueD(2) [OF wf] c by (auto simp: eff(3) ready.items_put)
  show "wf_queue (PopSent a q)"
  proof (rule wf_queue_upd [OF wf, where a = a])
    show "queue_inv (readyq (PopSent a q))" "distinct (ready_list (PopSent a q))"
      using wf_queueD(2,3) [OF wf] c st(4) by (auto simp: eff(3) ready.wf_put ready.items_put)
    show "acc_wf (byAddr (PopSent a q) a) (acc_txs (PopSent a q) a) a (a \<in> set (ready_list (PopSent a q)))"
      using acc_wf_pop [OF st(3,5,6) refl refl st(2)] st(4)
      by (cases "firstNonce st + 1 < nextNonce st") (simp_all add: eff(1,6) rl)
  qed (use wf_queueD(1) [OF wf] in \<open>auto simp: eff(1,2,6) rl\<close>)
  obtain tx where tx: "acc_txs q a (firstNonce st) = Some tx"
    using st(3) st(5) [of "firstNonce st"] by auto
  have tl: "tl (pending q a) = slots (firstNonce st + 1) (nextNonce st) ((acc_txs q a)(firstNonce st := None))"
    using slots_Cons [where m = "acc_txs q a", OF st(3) tx] st(1) by (simp add: pending_def)
  show "pending (PopSent a q) = (pending q)(a := tl (pending q a))"
    unfolding tl using st(3) Suc_le_end [OF st(3)]
    by (auto simp: fun_eq_iff pending_def eff(1,6) not_less split: option.split)
  show "busy (PopSent a q) = (busy q)(a := False)"
    using Suc_le_end [OF st(3)] by (auto simp: fun_eq_iff busy_def eff(1) split: option.split)
qed

subsubsection \<open>Reset\<close>

lemma drop_live_eq:
  "f \<le> n \<Longrightarrow> drop_live a f n m = (n, \<lambda>p. if fst p = a \<and> f \<le> snd p \<and> snd p < n then None else m p)"
proof (induction a f n m rule: drop_live.induct)
  case (1 a f n m)
  show ?case
  proof (cases "f < n")
    case True
    have "drop_live a f n m = drop_live a (f + 1) n (m((a, f) := None))"
      using True by (subst drop_live.simps) simp
    also have "\<dots> = (n, \<lambda>p. if fst p = a \<and> f + 1 \<le> snd p \<and> snd p < n then None else (m((a, f) := None)) p)"
      using 1(1) [OF True Suc_le_end [OF True]] .
    also have "\<dots> = (n, \<lambda>p. if fst p = a \<and> f \<le> snd p \<and> snd p < n then None else m p)"
      using True by (auto simp: fun_eq_iff Suc_le_u64 [OF True] dest: order_le_imp_less_or_eq)
    finally show ?thesis .
  next
    case False
    with 1(2) show ?thesis by (subst drop_live.simps) (auto simp: fun_eq_iff)
  qed
qed

lemma Reset_effect:
  assumes "byAddr q a = Some st" "\<not> acc_ready st" "firstNonce st \<le> nextNonce st"
  shows "byAddr (Reset a n q) = (byAddr q)(a :=
      (if acc_track st then Some (st\<lparr>firstNonce := n, nextNonce := n\<rparr>) else None))"
    and "txs (Reset a n q) = (\<lambda>p. if fst p = a \<and> firstNonce st \<le> snd p \<and> snd p < nextNonce st then None else txs q p)"
    and "readyq (Reset a n q) = readyq q"
    and "version (Reset a n q) = Suc (version q)"
    and "capacity (Reset a n q) = capacity q"
    and "acc_txs (Reset a n q) b = (\<lambda>k. if b = a \<and> firstNonce st \<le> k \<and> k < nextNonce st then None else acc_txs q b k)"
  using assms by (auto simp: Reset_def Let_def drop_live_eq acc_txs_def fun_eq_iff)

lemma Reset_correct:
  assumes wf: "wf_queue q" and b: "busy q a"
  shows "wf_queue (Reset a n q)"
    and "pending (Reset a n q) = (pending q)(a := [])"
    and "busy (Reset a n q) = (busy q)(a := False)"
proof -
  obtain st where st: "byAddr q a = Some st" "\<not> acc_ready st" "firstNonce st < nextNonce st"
    "a \<notin> set (ready_list q)"
    "\<And>k. acc_txs q a k \<noteq> None \<longleftrightarrow> firstNonce st \<le> k \<and> k < nextNonce st"
    by (rule busyE [OF wf b]) blast
  note eff = Reset_effect [OF st(1,2) less_imp_le [OF st(3)]]
  have "dom (txs (Reset a n q)) \<subseteq> dom (txs q)" by (auto simp: eff(2) dom_def)
  then have fin: "finite (dom (txs (Reset a n q)))"
    using wf_queueD(1) [OF wf] by (rule finite_subset)
  show "wf_queue (Reset a n q)"
  proof (rule wf_queue_upd [OF wf fin, where a = a])
    show "acc_wf (byAddr (Reset a n q) a) (acc_txs (Reset a n q) a) a (a \<in> set (ready_list (Reset a n q)))"
    proof -
      have "acc_txs (Reset a n q) a k = None" for k
        using st(5) [of k] by (cases "acc_txs q a k") (auto simp: eff(6))
      then show ?thesis using st(2,4) by (cases "acc_track st") (simp_all add: eff(1,3) acc_wf_def not_less)
    qed
  qed (use wf_queueD [OF wf] in \<open>auto simp: eff(1,3,6)\<close>)
  show "pending (Reset a n q) = (pending q)(a := [])"
    by (auto simp: fun_eq_iff pending_def eff(1,6) split: option.split)
  show "busy (Reset a n q) = (busy q)(a := False)"
    by (auto simp: fun_eq_iff busy_def eff(1) split: option.split)
qed

subsubsection \<open>PopReady\<close>

lemma ready_headE:
  assumes "wf_queue q" "a \<in> set (ready_list q)"
  obtains st tx where "byAddr q a = Some st" "acc_ready st" "firstNonce st < nextNonce st"
    "acc_txs q a (firstNonce st) = Some tx" "pending q a \<noteq> []" "hd (pending q a) = tx"
proof -
  obtain st where st: "byAddr q a = Some st" "acc_ready st" "firstNonce st < nextNonce st"
      "acc_txs q a (firstNonce st) \<noteq> None"
    using wf_queueD(4) [OF assms(1), of a] assms(2) by (auto simp: acc_wf_def split: option.splits)
  from st(4) obtain tx where tx: "acc_txs q a (firstNonce st) = Some tx" by auto
  have "pending q a = tx # slots (firstNonce st + 1) (nextNonce st) ((acc_txs q a)(firstNonce st := None))"
    using slots_Cons [where m = "acc_txs q a", OF st(3) tx] st(1) by (simp add: pending_def)
  with that st tx show thesis by auto
qed

lemma PopReady_correct:
  assumes wf: "wf_queue q" and r: "ready_list q = a # as"
  shows "\<exists>q'. PopReady_locked q = Ok (Some (hd (pending q a)), q') \<and> wf_queue q' \<and>
    pending q' = pending q \<and> busy q' = (busy q)(a := True) \<and> ready_list q' = as \<and>
    capacity q' = capacity q \<and> txs q' = txs q \<and> version q' = Suc (version q)"
proof -
  have "a \<in> set (ready_list q)" using r by simp
  then obtain st tx where st: "byAddr q a = Some st" "acc_ready st" "firstNonce st < nextNonce st"
    "acc_txs q a (firstNonce st) = Some tx" "hd (pending q a) = tx"
    by (rule ready_headE [OF wf]) metis
  obtain rq where rq: "queue_Pop (readyq q) = Ok (a, rq)" "queue_inv rq" "queue_items rq = as"
    using ready.get_Cons [OF wf_queueD(2) [OF wf] r] by auto
  let ?q = "q\<lparr>readyq := rq, byAddr := (byAddr q)(a \<mapsto> st\<lparr>acc_ready := False\<rparr>)\<rparr>"
  have res: "PopReady_locked q = Ok (Some (hd (pending q a)), Updated ?q)"
    using st rq(1) by (simp add: PopReady_locked_def txs_acc_txs)
  have sl [simp]: "acc_txs ?q = acc_txs q" by (simp add: fun_eq_iff acc_txs_def)
  have d: "a \<notin> set as" "distinct as" using wf_queueD(3) [OF wf] r by auto
  have "wf_queue ?q"
    by (rule wf_queue_upd [OF wf, where a = a])
      (use wf_queueD [OF wf] wf_queueD(4) [OF wf, of a] st(1-3) rq d r in \<open>auto simp: acc_wf_def\<close>)
  moreover have "pending ?q = pending q"
    using st(1) by (auto simp: fun_eq_iff pending_def split: option.split)
  moreover have "busy ?q = (busy q)(a := True)"
    using st(1,3) by (auto simp: fun_eq_iff busy_def split: option.split)
  ultimately show ?thesis using res rq(3) by auto
qed

subsection \<open>The abstract view as a whole\<close>

lemma pending_iff:
  assumes "wf_queue q"
  shows "pending q a \<noteq> [] \<longleftrightarrow> busy q a \<or> a \<in> set (ready_list q)"
  using wf_queueD(4) [OF assms, of a]
  by (auto simp: pending_def busy_def acc_wf_def slots_Nil_iff split: option.splits)

lemma ready_not_busy: "wf_queue q \<Longrightarrow> a \<in> set (ready_list q) \<Longrightarrow> \<not> busy q a"
  using wf_queueD(4) [of q a] by (auto simp: busy_def acc_wf_def split: option.splits)

lemma sender_pending:
  assumes "wf_queue q" "tx \<in> set (pending q a)"
  shows "sender_of tx = a"
proof -
  obtain st where st: "byAddr q a = Some st" "tx \<in> set (slots (firstNonce st) (nextNonce st) (acc_txs q a))"
    using assms(2) by (cases "byAddr q a") (simp_all add: pending_def)
  from slots_elem [OF st(2)] obtain k where k: "firstNonce st \<le> k" "k < nextNonce st" "tx = the (acc_txs q a k)"
    by blast
  have w: "acc_wf (Some st) (acc_txs q a) a (a \<in> set (ready_list q))"
    using wf_queueD(4) [OF assms(1), of a] st(1) by simp
  then have "acc_txs q a k \<noteq> None" using k by (simp add: acc_wf_def)
  then show ?thesis using w k(3) by (auto simp: acc_wf_def)
qed

text \<open>The operations an account is not in flight for leave everything as it is.\<close>

lemma PopSent_idle: "wf_queue q \<Longrightarrow> \<not> busy q a \<Longrightarrow> PopSent a q = q"
  by (auto simp: PopSent_def busy_def split: option.splits)

lemma Reset_ready: "wf_queue q \<Longrightarrow> a \<in> set (ready_list q) \<Longrightarrow> Reset a n q = q"
  using wf_queueD(4) [of q a] by (auto simp: Reset_def acc_wf_def split: option.splits)

lemma Reset_Nonce:
  assumes "wf_queue q" "busy q (acc_address acc)"
  shows "queue_Nonce acc (Reset (acc_address acc) n q) =
    (case byAddr q (acc_address acc) of Some st \<Rightarrow> if acc_track st then n else 0 | None \<Rightarrow> 0)"
proof -
  obtain st where st: "byAddr q (acc_address acc) = Some st" "\<not> acc_ready st" "firstNonce st < nextNonce st"
    by (rule busyE [OF assms]) blast
  show ?thesis using Reset_effect(1) [OF st(1,2) less_imp_le [OF st(3)]] st(1)
    by (simp add: queue_Nonce_def)
qed

subsubsection \<open>Room\<close>

lemma len_Push_locked: "wf_queue q \<Longrightarrow> len_txs (Push_locked tx q) = len_txs q + (if accepts tx q then 1 else 0)"
proof (cases "accepts tx q")
  case True
  assume wf: "wf_queue q"
  have "(sender_of tx, nextNonce (acc_or_new tx q)) \<notin> dom (txs q)"
    using acc_or_new_wf(3) [OF wf, of tx "nextNonce (acc_or_new tx q)"]
    by (auto simp: acc_txs_def)
  then show ?thesis using wf_queueD(1) [OF wf] True
    by (simp add: len_txs_def Push_locked_accept(2) card_dom_upd del: dom_fun_upd)
qed (simp add: Push_locked_reject)

lemma len_PopSent: "wf_queue q \<Longrightarrow> busy q a \<Longrightarrow> len_txs (PopSent a q) = len_txs q - 1"
proof -
  assume wf: "wf_queue q" and b: "busy q a"
  obtain st where st: "byAddr q a = Some st" "\<not> acc_ready st" "firstNonce st < nextNonce st"
    "acc_txs q a (firstNonce st) \<noteq> None"
    by (rule busyE [OF wf b]) (metis order_refl)
  have "(a, firstNonce st) \<in> dom (txs q)" using st(4) by (auto simp: acc_txs_def)
  from card_dom_del [OF wf_queueD(1) [OF wf] this]
  show ?thesis using PopSent_effect(2) [OF st(1-3)] by (simp add: len_txs_def del: dom_fun_upd)
qed

lemma len_Reset_le: "wf_queue q \<Longrightarrow> len_txs (Reset a n q) \<le> len_txs q"
proof -
  assume wf: "wf_queue q"
  have "dom (txs (Reset a n q)) \<subseteq> dom (txs q)"
  proof (cases "byAddr q a")
    case None
    then show ?thesis by (simp add: Reset_def)
  next
    case (Some st)
    then have le: "firstNonce st \<le> nextNonce st"
      using wf_queueD(4) [OF wf, of a] by (simp add: acc_wf_def)
    show ?thesis
      using Some Reset_effect(2) [OF Some _ le] by (cases "acc_ready st") (auto simp: Reset_def dom_def split: if_splits)
  qed
  then show ?thesis using wf_queueD(1) [OF wf] by (simp add: len_txs_def card_mono)
qed

lemma pending_Nil_no_txs:
  assumes wf: "wf_queue q" and p: "pending q a = []"
  shows "txs q (a, k) = None"
proof (cases "byAddr q a")
  case None
  then show ?thesis using wf_queueD(4) [OF wf, of a] by (simp add: acc_wf_def txs_acc_txs)
next
  case (Some st)
  then have "nextNonce st \<le> firstNonce st" using p by (simp add: pending_def slots_Nil_iff)
  then have "\<not> (firstNonce st \<le> k \<and> k < nextNonce st)" by (meson leD order_trans)
  then show ?thesis
    using wf_queueD(4) [OF wf, of a] Some
    by (cases "acc_txs q a k") (auto simp: acc_wf_def txs_acc_txs)
qed

lemma empty_iff_pending: "wf_queue q \<Longrightarrow> is_empty q \<longleftrightarrow> (\<forall>a. pending q a = [])"
proof
  assume wf: "wf_queue q" and e: "is_empty q"
  then have none: "acc_txs q a k = None" for a k
    using wf_queueD(1) [OF wf] by (simp add: is_empty_def len_txs_def acc_txs_def)
  show "\<forall>a. pending q a = []"
  proof
    fix a
    have False if tx: "tx \<in> set (pending q a)" for tx
    proof -
      obtain st where st: "byAddr q a = Some st" "tx \<in> set (slots (firstNonce st) (nextNonce st) (acc_txs q a))"
        using tx by (cases "byAddr q a") (auto simp: pending_def)
      from slots_elem [OF st(2)] obtain k where "firstNonce st \<le> k" "k < nextNonce st" by blast
      then have "acc_txs q a k \<noteq> None"
        using wf_queueD(4) [OF wf, of a] st(1) by (simp add: acc_wf_def)
      then show ?thesis using none by simp
    qed
    then show "pending q a = []" by (cases "pending q a") auto
  qed
next
  assume "wf_queue q" "\<forall>a. pending q a = []"
  then have "txs q = Map.empty" by (auto simp: pending_Nil_no_txs)
  then show "is_empty q" by (simp add: is_empty_def len_txs_def)
qed

lemma Reset_idle:
  assumes wf: "wf_queue q" and b: "\<not> busy q a"
  shows "wf_queue (Reset a n q)" "pending (Reset a n q) = pending q" "busy (Reset a n q) = busy q"
proof -
  have *: "wf_queue (Reset a n q) \<and> pending (Reset a n q) = pending q \<and> busy (Reset a n q) = busy q"
  proof (cases "byAddr q a")
    case None
    then show ?thesis using wf by (simp add: Reset_def)
  next
    case (Some st)
    show ?thesis
    proof (cases "acc_ready st")
      case True
      then show ?thesis using wf Some by (simp add: Reset_def)
    next
      case False
      have eq: "firstNonce st = nextNonce st" using b Some False by (simp add: busy_def)
      have w: "acc_wf (Some st) (acc_txs q a) a (a \<in> set (ready_list q))"
        using wf_queueD(4) [OF wf, of a] Some by simp
      then have t: "acc_track st" "a \<notin> set (ready_list q)" using eq False by (auto simp: acc_wf_def)
      note eff = Reset_effect [OF Some False order_eq_refl [OF eq], of n]
      have none: "acc_txs q a k = None" for k
        using w eq by (cases "acc_txs q a k") (auto simp: acc_wf_def)
      have eq': "Reset a n q = Updated (q\<lparr>byAddr := (byAddr q)(a \<mapsto> st\<lparr>firstNonce := n, nextNonce := n\<rparr>)\<rparr>)"
        using Some False eq t 
        by (simp add: Reset_def drop_live.simps [of a "nextNonce st" "nextNonce st"] Updated_def Let_def)
      have at: "acc_txs (Reset a n q) = acc_txs q" unfolding eq' by (simp add: acc_txs_def fun_eq_iff)
      have "wf_queue (Reset a n q)"
      proof (rule wf_queue_upd [OF wf, where a = a])
        show "acc_wf (byAddr (Reset a n q) a) (acc_txs (Reset a n q) a) a (a \<in> set (ready_list (Reset a n q)))"
          using t none False by (simp add: eff(1,3) at acc_wf_def not_less)
      qed (use wf_queueD [OF wf] at in \<open>auto simp: eff(1,3) eq'\<close>)
      moreover have "pending (Reset a n q) = pending q"
        using Some eq by (auto simp: fun_eq_iff pending_def at eff(1) split: option.split)
      moreover have "busy (Reset a n q) = busy q"
        using Some eq t by (auto simp: fun_eq_iff busy_def eff(1) split: option.split)
      ultimately show ?thesis by simp
    qed
  qed
  then show "wf_queue (Reset a n q)" "pending (Reset a n q) = pending q" "busy (Reset a n q) = busy q"
    by simp_all
qed

lemma wf_Reset: "wf_queue q \<Longrightarrow> wf_queue (Reset a n q)"
  using Reset_idle(1) Reset_correct(1) by blast

lemma wf_PopSent: "wf_queue q \<Longrightarrow> queue_can_push (readyq q) \<Longrightarrow> wf_queue (PopSent a q)"
  using PopSent_idle PopSent_correct(1) by metis

lemma ready_list_PopSent:
  assumes "wf_queue q" "busy q a" "queue_can_push (readyq q)"
  shows "ready_list (PopSent a q) = ready_list q @ (if tl (pending q a) = [] then [] else [a])"
proof -
  obtain st where st: "byAddr q a = Some st" "\<not> acc_ready st" "firstNonce st < nextNonce st"
    by (rule busyE [OF assms(1,2)]) blast
  have "tl (pending q a) = [] \<longleftrightarrow> \<not> firstNonce st + 1 < nextNonce st"
    using st(1,3) diff_Suc_u64 [OF st(3)]
    by (simp add: pending_def tl_Nil slots_def word_less_nat_alt unat_Suc_u64 [OF st(3)] upt_eq_Nil_conv)
      linarith
  then show ?thesis
    using wf_queueD(2) [OF assms(1)] assms(3) by (simp add: PopSent_effect(3) [OF st] ready.items_put)
qed

subsection \<open>The contract a sender relies on\<close>

locale account_queue =
  fixes wf :: "'q \<Rightarrow> bool"
    and pend :: "'q \<Rightarrow> 'a \<Rightarrow> 't list"
    and taken :: "'q \<Rightarrow> 'a \<Rightarrow> bool"
    and offer :: "'q \<Rightarrow> 'a list"
    and owner :: "'t \<Rightarrow> 'a"
    and bounded :: "'q \<Rightarrow> bool"
    and put :: "'t \<Rightarrow> 'q \<Rightarrow> 'q"
    and put_ok :: "'t \<Rightarrow> 'q \<Rightarrow> bool"
    and next_ready :: "'q \<Rightarrow> ('t option \<times> 'q) outcome"
    and sent :: "'a \<Rightarrow> 'q \<Rightarrow> 'q"
    and restart :: "'a \<Rightarrow> 'n \<Rightarrow> 'q \<Rightarrow> 'q"
  assumes offer_distinct: "wf q \<Longrightarrow> distinct (offer q)"
    and pend_iff: "wf q \<Longrightarrow> pend q a \<noteq> [] \<longleftrightarrow> taken q a \<or> a \<in> set (offer q)"
    and offer_free: "wf q \<Longrightarrow> a \<in> set (offer q) \<Longrightarrow> \<not> taken q a"
    and pend_owner: "wf q \<Longrightarrow> t \<in> set (pend q a) \<Longrightarrow> owner t = a"
    and put_wf: "wf q \<Longrightarrow> put_ok t q \<Longrightarrow> wf (put t q)"
    and put_taken: "wf q \<Longrightarrow> put_ok t q \<Longrightarrow> taken (put t q) = taken q"
    and put_pend: "wf q \<Longrightarrow> put_ok t q \<Longrightarrow> pend (put t q) a = pend q a \<or>
        (a = owner t \<and> pend (put t q) a = pend q a @ [t])"
    and next_law: "wf q \<Longrightarrow> offer q = a # as \<Longrightarrow> \<exists>q'. next_ready q = Ok (Some (hd (pend q a)), q') \<and>
        wf q' \<and> pend q' = pend q \<and> taken q' = (taken q)(a := True) \<and> offer q' = as"
    and sent_law: "wf q \<Longrightarrow> taken q a \<Longrightarrow> bounded q \<Longrightarrow> wf (sent a q) \<and>
        pend (sent a q) = (pend q)(a := tl (pend q a)) \<and> taken (sent a q) = (taken q)(a := False)"
    and restart_law: "wf q \<Longrightarrow> taken q a \<Longrightarrow> wf (restart a n q) \<and>
        pend (restart a n q) = (pend q)(a := []) \<and> taken (restart a n q) = (taken q)(a := False)"
begin

text \<open>
  \<open>owned q as\<close>: the accounts whose head is being sent are those of the tasks \<open>as\<close>, one task
  per account. Every operation of a client that pops before it sends keeps this.
\<close>

definition owned :: "'q \<Rightarrow> 'a list \<Rightarrow> bool" where
  "owned q as \<longleftrightarrow> wf q \<and> distinct as \<and> (\<forall>a. taken q a \<longleftrightarrow> a \<in> set as)"

lemma ownedD: "owned q as \<Longrightarrow> wf q" "owned q as \<Longrightarrow> distinct as"
    "owned q as \<Longrightarrow> taken q a \<longleftrightarrow> a \<in> set as"
  by (auto simp: owned_def)

lemma owned_put: "owned q as \<Longrightarrow> put_ok t q \<Longrightarrow> owned (put t q) as"
  by (simp add: owned_def put_wf put_taken)

lemma owned_next:
  assumes "owned q as" "offer q \<noteq> []"
  shows "\<exists>t q'. next_ready q = Ok (Some t, q') \<and> owned q' (owner t # as) \<and> owner t = hd (offer q) \<and>
    t = hd (pend q (owner t)) \<and> pend q' = pend q \<and> offer q' = tl (offer q)"
proof -
  obtain b bs where o: "offer q = b # bs" using assms(2) by (cases "offer q") auto
  note wf = ownedD(1) [OF assms(1)]
  have b: "b \<in> set (offer q)" using o by simp
  then have ne: "pend q b \<noteq> []" using pend_iff [OF wf] by blast
  then have own: "owner (hd (pend q b)) = b" by (intro pend_owner [OF wf]) simp
  obtain q' where q': "next_ready q = Ok (Some (hd (pend q b)), q')" "wf q'" "pend q' = pend q"
    "taken q' = (taken q)(b := True)" "offer q' = bs"
    using next_law [OF wf o] by blast
  have "owned q' (b # as)"
    using assms(1) q'(2,4) offer_free [OF wf b] by (auto simp: owned_def)
  with q' own o show ?thesis by auto
qed

lemma owned_sent:
  assumes "owned q (as @ a # bs)" "bounded q"
  shows "owned (sent a q) (as @ bs)"
proof -
  have "taken q a" using assms(1) by (simp add: owned_def)
  from sent_law [OF ownedD(1) [OF assms(1)] this assms(2)]
  show ?thesis using assms(1) by (auto simp: owned_def)
qed

lemma owned_restart:
  assumes "owned q (as @ a # bs)"
  shows "owned (restart a n q) (as @ bs)"
proof -
  have "taken q a" using assms(1) by (simp add: owned_def)
  from restart_law [OF ownedD(1) [OF assms(1)] this]
  show ?thesis using assms(1) by (auto simp: owned_def)
qed

text \<open>Work that is pending is in flight or offered: a client never starves.\<close>

lemma owned_progress: "owned q as \<Longrightarrow> pend q a \<noteq> [] \<Longrightarrow> a \<in> set as \<or> a \<in> set (offer q)"
  using pend_iff [of q a] by (auto simp: owned_def)

lemma owned_idle: "owned q [] \<Longrightarrow> offer q = [] \<Longrightarrow> pend q a = []"
  using owned_progress [of q "[]" a] by auto

end

interpretation tq: account_queue wf_queue pending busy ready_list sender_of
  "\<lambda>q. queue_can_push (readyq q)" Push_locked push_bounded PopReady_locked PopSent Reset
proof (unfold_locales, goal_cases)
  case (8 q a as)
  then show ?case using PopReady_correct [of q a as] by blast
qed (auto simp: wf_queueD pending_iff ready_not_busy sender_pending wf_Push_locked busy_Push_locked
    pending_Push_locked PopSent_correct Reset_correct)

subsection \<open>Critical sections as steps\<close>

text \<open>One critical section that ran to its end; \<open>queue_step\<close> is what a waiter can wake up to.\<close>

inductive queue_step :: "txs_queue \<Rightarrow> txs_queue \<Rightarrow> bool" where
  step_Push: "has_room q \<Longrightarrow> push_bounded tx q \<Longrightarrow> queue_step q (Push_locked tx q)"
| step_PopReady: "has_ready q \<Longrightarrow> PopReady_locked q = Ok (r, q') \<Longrightarrow> queue_step q q'"
| step_PopSent: "queue_can_push (readyq q) \<Longrightarrow> queue_step q (PopSent a q)"
| step_Reset: "queue_step q (Reset a n q)"

inductive_cases queue_stepE: "queue_step q q'"

lemma has_ready_iff: "wf_queue q \<Longrightarrow> has_ready q \<longleftrightarrow> ready_list q \<noteq> []"
  using ready.size_positive [OF wf_queueD(2)] by (simp add: has_ready_def)

lemma PopReady_step:
  assumes "wf_queue q" "has_ready q" "PopReady_locked q = Ok (r, q')"
  shows "wf_queue q'" "txs q' = txs q" "capacity q' = capacity q" "version q' = Suc (version q)"
proof -
  obtain a as where r: "ready_list q = a # as"
    using assms(1,2) by (cases "ready_list q") (auto simp: has_ready_iff)
  from PopReady_correct [OF assms(1) r] assms(3)
  show "wf_queue q'" "txs q' = txs q" "capacity q' = capacity q" "version q' = Suc (version q)" by auto
qed

text \<open>Every step that changes the queue in favour of a waiter signals it.\<close>

lemma PopSent_signal:
  assumes wf: "wf_queue q"
  shows "PopSent a q = q \<or> version (PopSent a q) = Suc (version q)"
  by (auto simp: PopSent_def Let_def split: option.splits)

lemma Reset_signal: "Reset a n q = q \<or> version (Reset a n q) = Suc (version q)"
  by (auto simp: Reset_def Let_def split: option.splits prod.splits)

lemma Push_quiet:
  assumes wf: "wf_queue q" and v: "version (Push_locked tx q) = version q"
  shows "ready_list (Push_locked tx q) = ready_list q" "len_txs q \<le> len_txs (Push_locked tx q)"
    "capacity (Push_locked tx q) = capacity q" "queue_Len (readyq (Push_locked tx q)) = queue_Len (readyq q)"
proof -
  show "len_txs q \<le> len_txs (Push_locked tx q)" by (simp add: len_Push_locked [OF wf])
  show "ready_list (Push_locked tx q) = ready_list q" "capacity (Push_locked tx q) = capacity q"
    "queue_Len (readyq (Push_locked tx q)) = queue_Len (readyq q)"
    using v Push_locked_accept [of tx q]
    by (cases "accepts tx q"; auto simp: Push_locked_reject split: if_splits)+
qed

lemma queue_step_signals:
  assumes wf: "wf_queue q" and st: "queue_step q q'" and v: "version q' = version q"
  shows "(has_room q' \<longrightarrow> has_room q) \<and> (has_ready q' \<longrightarrow> has_ready q) \<and> (is_empty q' \<longrightarrow> is_empty q)"
  using st
proof cases
  case (step_Push tx)
  have "0 \<le> len_txs q" by (simp add: len_txs_def)
  with Push_quiet [OF wf, of tx] v step_Push show ?thesis
    by (auto simp: has_room_def has_ready_def is_empty_def)
next
  case (step_PopReady r)
  then show ?thesis using PopReady_step [OF wf step_PopReady] v by simp
next
  case (step_PopSent a)
  then show ?thesis using PopSent_signal [OF wf, of a] v by auto
next
  case (step_Reset a n)
  then show ?thesis using Reset_signal [of a n q] v by auto
qed

lemma capacity_PopSent [simp]: "capacity (PopSent a q) = capacity q"
  by (auto simp: PopSent_def Let_def split: option.splits)

lemma capacity_Reset [simp]: "capacity (Reset a n q) = capacity q"
  by (auto simp: Reset_def Let_def split: option.splits prod.splits)

lemma len_PopSent_le: "wf_queue q \<Longrightarrow> len_txs (PopSent a q) \<le> len_txs q"
  using PopSent_idle [of q a] len_PopSent [of q a] by (cases "busy q a") auto

lemma queue_step_inv:
  assumes "queue_step q q'" "wf_queue q" "len_txs q \<le> capacity q"
  shows "wf_queue q' \<and> len_txs q' \<le> capacity q' \<and> capacity q' = capacity q"
  using assms(1)
proof cases
  case (step_Push tx)
  then show ?thesis
    using assms(2) Push_locked_accept(5) [of tx q]
    by (auto simp: wf_Push_locked len_Push_locked has_room_def Push_locked_reject)
next
  case (step_PopReady r)
  then show ?thesis using PopReady_step [OF assms(2) step_PopReady] assms(3)
    by (simp add: len_txs_def)
next
  case (step_PopSent a)
  then show ?thesis
    using wf_PopSent [OF assms(2), of a] len_PopSent_le [OF assms(2), of a] assms(3) by simp
next
  case (step_Reset a n)
  then show ?thesis
    using wf_Reset [OF assms(2), of a n] len_Reset_le [OF assms(2), of a n] assms(3) by simp
qed

end
