(* ===== verification/BlockStats.thy ===== *)
theory BlockStats
  imports GoBase
begin

text \<open>
  Block statistics (\<open>stats/block_collector.go\<close>, \<open>stats/mock_block_collector.go\<close> and the
  percentile of \<open>stats/collector.go\<close>): bounded histories of block times and gas, their
  percentiles, and the interface \<open>BlockStatsProvider\<close> with its two implementations.
\<close>

subsection \<open>Percentiles\<close>

definition calculatePercentile :: "duration list \<Rightarrow> int \<Rightarrow> duration outcome" where
  "calculatePercentile xs percentile =
     (if length xs = 0 then Ok 0
      else obind (go_div (i64 (int (length xs) * percentile)) 100) (\<lambda>index.
             index_at xs (if int (length xs) \<le> index then int (length xs) - 1 else index)))"

definition calculateGasPercentile :: "u64 list \<Rightarrow> int \<Rightarrow> u64 outcome" where
  "calculateGasPercentile xs percentile =
     (if length xs = 0 then Ok 0
      else obind (go_div (i64 (percentile * (int (length xs) - 1))) 100) (\<lambda>index.
             index_at xs (if int (length xs) \<le> index then int (length xs) - 1 else index)))"

text \<open>The position both read, for a percentile and a length within bounds.\<close>

definition rank_of :: "nat \<Rightarrow> nat \<Rightarrow> nat" where
  "rank_of n p = min (n * p div 100) (n - 1)"

lemma clamp_index: "0 < n \<Longrightarrow> (if int n \<le> int d then int n - 1 else int d) = int (min d (n - 1))"
  by (cases n) auto

lemma rank_less: "0 < n \<Longrightarrow> rank_of n p < n"
  by (auto simp: rank_of_def min_def)

lemma rank_mono: "p \<le> p' \<Longrightarrow> rank_of n p \<le> rank_of n p'"
  unfolding rank_of_def by (rule min.mono) (auto intro: div_le_mono)

lemma calculatePercentile_rank:
  assumes "xs \<noteq> []" "int (length xs) * int p \<le> max_i64"
  shows "calculatePercentile xs (int p) = Ok (xs ! rank_of (length xs) p)"
proof -
  let ?n = "length xs"
  have in_range: "is_i64 (int ?n * int p)" using assms(2) by (intro is_i64_nonneg) auto
  have d: "go_div (i64 (int ?n * int p)) 100 = Ok (int (?n * p div 100))"
    using in_range by (simp add: i64_id go_div_pos zdiv_int)
  have "(if int ?n \<le> int (?n * p div 100) then int ?n - 1 else int (?n * p div 100)) = int (rank_of ?n p)"
    unfolding rank_of_def by (rule clamp_index) (use assms(1) in simp)
  then show ?thesis
    using d assms(1) rank_less [of ?n p] by (simp add: calculatePercentile_def)
qed

lemma calculateGasPercentile_rank:
  assumes "xs \<noteq> []" "int p * int (length xs) \<le> max_i64" "p \<le> 100"
  shows "calculateGasPercentile xs (int p) = Ok (xs ! (p * (length xs - 1) div 100))"
proof -
  let ?n = "length xs"
  have n1: "int ?n - 1 = int (?n - 1)" using assms(1) by (simp add: of_nat_diff Suc_le_eq)
  have "int p * int (?n - 1) \<le> int p * int ?n" by (intro mult_left_mono) auto
  then have in_range: "is_i64 (int p * int (?n - 1))" using assms(2) by (intro is_i64_nonneg) auto
  have d: "go_div (i64 (int p * int (?n - 1))) 100 = Ok (int (p * (?n - 1) div 100))"
    using in_range by (simp add: i64_id go_div_pos zdiv_int)
  have "p * (?n - 1) div 100 \<le> 100 * (?n - 1) div 100"
    using assms(3) by (intro div_le_mono mult_right_mono) auto
  then have "p * (?n - 1) div 100 < ?n" using assms(1) by (cases ?n) auto
  then show ?thesis using d assms(1) unfolding calculateGasPercentile_def n1 by simp
qed

lemma sorted_rank_le: "sorted xs \<Longrightarrow> i \<le> j \<Longrightarrow> j < length xs \<Longrightarrow> xs ! i \<le> xs ! j"
  by (rule sorted_nth_mono)

text \<open>At least \<open>k + 1\<close> entries of a list are below the entry of rank \<open>k\<close> of its sorted form.\<close>

lemma sorted_rank_count:
  assumes "sorted xs" "k < length xs"
  shows "k < length (filter (\<lambda>x. x \<le> xs ! k) xs)" "length xs - k \<le> length (filter (\<lambda>x. xs ! k \<le> x) xs)"
proof -
  have "\<forall>x \<in> set (take (Suc k) xs). x \<le> xs ! k"
    using assms by (auto simp: in_set_conv_nth less_Suc_eq_le sorted_iff_nth_mono)
  then have f: "filter (\<lambda>x. x \<le> xs ! k) (take (Suc k) xs) = take (Suc k) xs" by simp
  have "filter (\<lambda>x. x \<le> xs ! k) xs =
      filter (\<lambda>x. x \<le> xs ! k) (take (Suc k) xs) @ filter (\<lambda>x. x \<le> xs ! k) (drop (Suc k) xs)"
    by (metis append_take_drop_id filter_append)
  then show "k < length (filter (\<lambda>x. x \<le> xs ! k) xs)" using f assms(2) by simp
  have "\<forall>x \<in> set (drop k xs). xs ! k \<le> x"
    using assms by (auto simp: in_set_conv_nth sorted_iff_nth_mono)
  then have g: "filter (\<lambda>x. xs ! k \<le> x) (drop k xs) = drop k xs" by simp
  have "filter (\<lambda>x. xs ! k \<le> x) xs =
      filter (\<lambda>x. xs ! k \<le> x) (take k xs) @ filter (\<lambda>x. xs ! k \<le> x) (drop k xs)"
    by (metis append_take_drop_id filter_append)
  then show "length xs - k \<le> length (filter (\<lambda>x. xs ! k \<le> x) xs)" using g by simp
qed

subsection \<open>State and statistics\<close>

record block_collector =
  bc_seiChainID :: string
  allBlockTimes :: "duration list"
  allGasUsed :: "u64 list"
  maxBlockNum :: u64
  lastBlockTime :: instant
  windowBlockTimes :: "duration list"
  windowGasUsed :: "u64 list"
  bc_windowStart :: instant

record block_stats =
  MaxBlockNumber :: u64
  P50BlockTime :: duration
  P99BlockTime :: duration
  MaxBlockTime :: duration
  P50GasUsed :: u64
  P99GasUsed :: u64
  MaxGasUsed :: u64
  SampleCount :: nat

definition NewBlockCollector :: "string \<Rightarrow> block_collector" where
  "NewBlockCollector chain =
     \<lparr>bc_seiChainID = chain, allBlockTimes = [], allGasUsed = [], maxBlockNum = 0, lastBlockTime = 0,
      windowBlockTimes = [], windowGasUsed = [], bc_windowStart = 0\<rparr>"

text \<open>A header as far as the program reads it.\<close>

record header =
  h_number :: u64
  h_gas_used :: u64

definition trim1000 :: "'a list \<Rightarrow> 'a list" where
  "trim1000 xs = (if 1000 < length xs then drop (length xs - 1000) xs else xs)"

lemma trim1000_last_n: "trim1000 xs = last_n 1000 xs"
  by (simp add: trim1000_def last_n_def)

definition processNewBlock :: "instant \<Rightarrow> header \<Rightarrow> block_collector \<Rightarrow> block_collector \<times> metric list" where
  "processNewBlock now hdr s =
     (let chain = [(''chain_id'', bc_seiChainID s)];
          blockNum = h_number hdr; gas = h_gas_used hdr;
          out = [metric_int ''gas_used'' (sint gas) chain];
          (s, out) = (if maxBlockNum s < blockNum
                      then (s\<lparr>maxBlockNum := blockNum\<rparr>,
                            out @ [metric_int ''block_number'' (sint blockNum) chain])
                      else (s, out));
          s = s\<lparr>allGasUsed := allGasUsed s @ [gas], windowGasUsed := windowGasUsed s @ [gas]\<rparr>;
          (s, out) = (if \<not> is_zero_time (lastBlockTime s)
                      then let timeBetween = time_sub now (lastBlockTime s)
                           in (s\<lparr>allBlockTimes := allBlockTimes s @ [timeBetween],
                                 windowBlockTimes := windowBlockTimes s @ [timeBetween]\<rparr>,
                               out @ [metric_float ''block_time'' (Fin (seconds timeBetween)) chain])
                      else (s, out));
          s = s\<lparr>lastBlockTime := now\<rparr>;
          s = s\<lparr>allBlockTimes := trim1000 (allBlockTimes s), allGasUsed := trim1000 (allGasUsed s),
                windowBlockTimes := trim1000 (windowBlockTimes s),
                windowGasUsed := trim1000 (windowGasUsed s)\<rparr>
      in (s, out))"

text \<open>The two getters share this computation, on the cumulative and on the window history.\<close>

definition stats_of :: "u64 \<Rightarrow> duration list \<Rightarrow> u64 list \<Rightarrow> block_stats outcome" where
  "stats_of max_num bt gas =
     (let st = \<lparr>MaxBlockNumber = max_num, P50BlockTime = 0, P99BlockTime = 0, MaxBlockTime = 0,
                P50GasUsed = 0, P99GasUsed = 0, MaxGasUsed = 0, SampleCount = length bt\<rparr>
      in obind
           (if 0 < length bt then
              let sortedTimes = sort bt
              in obind (calculatePercentile sortedTimes 50) (\<lambda>p50.
                 obind (calculatePercentile sortedTimes 99) (\<lambda>p99.
                   Ok (st\<lparr>P50BlockTime := p50, P99BlockTime := p99, MaxBlockTime := last sortedTimes\<rparr>)))
            else Ok st)
           (\<lambda>st.
              if 0 < length gas then
                let sortedGas = sort gas
                in obind (calculateGasPercentile sortedGas 50) (\<lambda>p50.
                   obind (calculateGasPercentile sortedGas 99) (\<lambda>p99.
                     Ok (st\<lparr>P50GasUsed := p50, P99GasUsed := p99, MaxGasUsed := last sortedGas\<rparr>)))
              else Ok st))"

definition GetBlockStats :: "block_collector \<Rightarrow> block_stats outcome" where
  "GetBlockStats s = stats_of (maxBlockNum s) (allBlockTimes s) (allGasUsed s)"

definition GetWindowBlockStats :: "block_collector \<Rightarrow> block_stats outcome" where
  "GetWindowBlockStats s = stats_of (maxBlockNum s) (windowBlockTimes s) (windowGasUsed s)"

definition GetWindowBlockTimePercentile :: "int \<Rightarrow> block_collector \<Rightarrow> duration outcome" where
  "GetWindowBlockTimePercentile percentile s = calculatePercentile (sort (windowBlockTimes s)) percentile"

definition bc_ResetWindowStats :: "instant \<Rightarrow> block_collector \<Rightarrow> block_collector" where
  "bc_ResetWindowStats now s = s\<lparr>windowBlockTimes := [], windowGasUsed := [], bc_windowStart := now\<rparr>"

subsection \<open>What the statistics say of the histories\<close>

text \<open>
  Within the 1000 entries the collector keeps, the percentiles never fail and are the entries
  of their rank in the sorted history.
\<close>

definition ranked_times :: "block_stats \<Rightarrow> duration list \<Rightarrow> bool" where
  "ranked_times st xs \<longleftrightarrow>
     P50BlockTime st = sort xs ! rank_of (length xs) 50 \<and> P99BlockTime st = sort xs ! rank_of (length xs) 99 \<and>
     MaxBlockTime st = last (sort xs)"

definition ranked_gas :: "block_stats \<Rightarrow> u64 list \<Rightarrow> bool" where
  "ranked_gas st xs \<longleftrightarrow>
     P50GasUsed st = sort xs ! (50 * (length xs - 1) div 100) \<and>
     P99GasUsed st = sort xs ! (99 * (length xs - 1) div 100) \<and> MaxGasUsed st = last (sort xs)"

lemma stats_of_ok:
  assumes "length ts \<le> 1000" "length gs \<le> 1000"
  shows "\<exists>st. stats_of m ts gs = Ok st \<and> MaxBlockNumber st = m \<and> SampleCount st = length ts \<and>
    (if ts = [] then P50BlockTime st = 0 \<and> P99BlockTime st = 0 \<and> MaxBlockTime st = 0 else ranked_times st ts) \<and>
    (if gs = [] then P50GasUsed st = 0 \<and> P99GasUsed st = 0 \<and> MaxGasUsed st = 0 else ranked_gas st gs)"
proof -
  have t: "ts \<noteq> [] \<Longrightarrow> p \<le> 100 \<Longrightarrow>
      calculatePercentile (sort ts) (int p) = Ok (sort ts ! rank_of (length ts) p)" for p
  proof -
    assume "ts \<noteq> []" and p: "p \<le> 100"
    then have ne: "sort ts \<noteq> []" by simp
    have "int (length ts) * int p \<le> 1000 * 100" using assms(1) p by (intro mult_mono) auto
    then show ?thesis using calculatePercentile_rank [OF ne, of p] by simp
  qed
  have g: "gs \<noteq> [] \<Longrightarrow> p \<le> 100 \<Longrightarrow>
      calculateGasPercentile (sort gs) (int p) = Ok (sort gs ! (p * (length gs - 1) div 100))" for p
  proof -
    assume "gs \<noteq> []" and p: "p \<le> 100"
    then have ne: "sort gs \<noteq> []" by simp
    have "int p * int (length gs) \<le> 100 * 1000" using assms(2) p by (intro mult_mono) auto
    then show ?thesis using calculateGasPercentile_rank [OF ne _ p] by simp
  qed
  show ?thesis
    using t [of 50] t [of 99] g [of 50] g [of 99]
    by (cases "ts = []"; cases "gs = []")
      (simp_all add: stats_of_def Let_def ranked_times_def ranked_gas_def)
qed

lemma ranked_times_order:
  assumes "ranked_times st xs" "xs \<noteq> []"
  shows "P50BlockTime st \<le> P99BlockTime st" "P99BlockTime st \<le> MaxBlockTime st"
    "MaxBlockTime st \<in> set xs" "\<forall>x \<in> set xs. x \<le> MaxBlockTime st"
proof -
  have len: "0 < length xs" using assms(2) by simp
  note le = sorted_rank_le [OF sorted_sort [of xs]]
  have mx: "last (sort xs) = sort xs ! (length xs - 1)" using assms(2) by (simp add: last_conv_nth [of "sort xs"])
  show "P50BlockTime st \<le> P99BlockTime st"
    using assms(1) le [of "rank_of (length xs) 50" "rank_of (length xs) 99"] rank_less [OF len]
    by (simp add: ranked_times_def rank_mono)
  show "P99BlockTime st \<le> MaxBlockTime st"
    using assms(1) le [of "rank_of (length xs) 99" "length xs - 1"] len
    by (simp add: ranked_times_def mx rank_of_def)
  show "MaxBlockTime st \<in> set xs"
    using assms by (metis last_in_set ranked_times_def set_empty set_sort)
  show "\<forall>x \<in> set xs. x \<le> MaxBlockTime st"
  proof
    fix x assume "x \<in> set xs"
    then obtain i where "i < length (sort xs)" "x = sort xs ! i"
      by (metis in_set_conv_nth set_sort)
    then have "i < length xs" "x = sort xs ! i" by simp_all
    then show "x \<le> MaxBlockTime st"
      using assms(1) le [of i "length xs - 1"] by (simp add: ranked_times_def mx)
  qed
qed

text \<open>
  The histories against the complete record of the blocks seen: \<open>seen\<close> lists arrival
  times and headers, \<open>gaps\<close> the times between consecutive arrivals.
\<close>

definition observe :: "(instant \<times> header) list \<Rightarrow> block_collector \<Rightarrow> block_collector" where
  "observe seen s = fold (\<lambda>(now, hdr) s. fst (processNewBlock now hdr s)) seen s"

fun gaps :: "instant \<Rightarrow> instant list \<Rightarrow> duration list" where
  "gaps prev [] = []"
| "gaps prev (t # ts) = (if is_zero_time prev then [] else [time_sub t prev]) @ gaps t ts"

lemma processNewBlock_state:
  "allGasUsed (fst (processNewBlock now hdr s)) = last_n 1000 (allGasUsed s @ [h_gas_used hdr])"
  "windowGasUsed (fst (processNewBlock now hdr s)) = last_n 1000 (windowGasUsed s @ [h_gas_used hdr])"
  "allBlockTimes (fst (processNewBlock now hdr s)) =
     last_n 1000 (allBlockTimes s @ (if is_zero_time (lastBlockTime s) then [] else [time_sub now (lastBlockTime s)]))"
  "windowBlockTimes (fst (processNewBlock now hdr s)) =
     last_n 1000 (windowBlockTimes s @ (if is_zero_time (lastBlockTime s) then [] else [time_sub now (lastBlockTime s)]))"
  "lastBlockTime (fst (processNewBlock now hdr s)) = now"
  "maxBlockNum (fst (processNewBlock now hdr s)) = max (maxBlockNum s) (h_number hdr)"
  "bc_seiChainID (fst (processNewBlock now hdr s)) = bc_seiChainID s"
  by (simp_all add: processNewBlock_def Let_def trim1000_last_n max_def not_less less_imp_le split: prod.split)

lemma last_n_append: "last_n k (last_n k xs @ ys) = last_n k (xs @ ys)"
proof (induction ys rule: rev_induct)
  case (snoc y ys)
  then show ?case by (metis append_assoc last_n_snoc)
next
  case Nil
  show ?case using last_n_all [of "last_n k xs" k] by simp
qed

lemma observe_histories:
  "allGasUsed (observe seen s) = (if seen = [] then allGasUsed s else
     last_n 1000 (allGasUsed s @ map (h_gas_used \<circ> snd) seen)) \<and>
   windowGasUsed (observe seen s) = (if seen = [] then windowGasUsed s else
     last_n 1000 (windowGasUsed s @ map (h_gas_used \<circ> snd) seen)) \<and>
   allBlockTimes (observe seen s) = (if seen = [] then allBlockTimes s else
     last_n 1000 (allBlockTimes s @ gaps (lastBlockTime s) (map fst seen))) \<and>
   windowBlockTimes (observe seen s) = (if seen = [] then windowBlockTimes s else
     last_n 1000 (windowBlockTimes s @ gaps (lastBlockTime s) (map fst seen))) \<and>
   maxBlockNum (observe seen s) = fold max (map (h_number \<circ> snd) seen) (maxBlockNum s)"
proof (induction seen arbitrary: s)
  case Nil
  show ?case by (simp add: observe_def)
next
  case (Cons e seen)
  obtain now hdr where e: "e = (now, hdr)" by (cases e)
  let ?s = "fst (processNewBlock now hdr s)"
  have step: "observe (e # seen) s = observe seen ?s" by (simp add: observe_def e)
  show ?case
    unfolding step using Cons.IH [of ?s]
    by (cases "seen = []")
      (auto simp: e processNewBlock_state last_n_append max.commute)
qed

lemma gaps_length: "length (gaps prev ts) = length (filter (\<lambda>t. \<not> is_zero_time t) (butlast (prev # ts)))"
  by (induction prev ts rule: gaps.induct) auto

subsection \<open>The provider interface\<close>

locale block_stats_provider =
  fixes total :: "'s \<Rightarrow> block_stats outcome"
    and window :: "'s \<Rightarrow> block_stats outcome"
    and percentile :: "int \<Rightarrow> 's \<Rightarrow> duration outcome"
    and restart :: "instant \<Rightarrow> 's \<Rightarrow> 's"
    and ok :: "'s \<Rightarrow> bool"
  assumes total_ok: "ok s \<Longrightarrow> \<not> panics (total s)"
    and window_ok: "ok s \<Longrightarrow> \<not> panics (window s)"
    and restart_ok: "ok s \<Longrightarrow> ok (restart now s)"
    and restart_total: "ok s \<Longrightarrow> total (restart now s) = total s"
begin

text \<open>Any number of reporting periods leaves the cumulative statistics alone.\<close>

lemma periods_ok: "ok s \<Longrightarrow> ok (fold restart nows s)"
  by (induction nows arbitrary: s) (auto simp: restart_ok)

lemma periods_total: "ok s \<Longrightarrow> total (fold restart nows s) = total s"
  by (induction nows arbitrary: s) (auto simp: restart_ok restart_total)

end

definition bc_bounded :: "block_collector \<Rightarrow> bool" where
  "bc_bounded s \<longleftrightarrow> length (allBlockTimes s) \<le> 1000 \<and> length (allGasUsed s) \<le> 1000 \<and>
     length (windowBlockTimes s) \<le> 1000 \<and> length (windowGasUsed s) \<le> 1000"

lemma bc_bounded_new [simp]: "bc_bounded (NewBlockCollector chain)"
  by (simp add: bc_bounded_def NewBlockCollector_def)

lemma bc_bounded_process [inv_intros]: "bc_bounded (fst (processNewBlock now hdr s))"
  by (simp add: bc_bounded_def processNewBlock_state)

lemma bc_bounded_reset [inv_intros]: "bc_bounded s \<Longrightarrow> bc_bounded (bc_ResetWindowStats now s)"
  by (simp add: bc_bounded_def bc_ResetWindowStats_def)

lemma stats_of_not_panics:
  "length ts \<le> 1000 \<Longrightarrow> length gs \<le> 1000 \<Longrightarrow> panics (stats_of m ts gs) \<Longrightarrow> False"
  using stats_of_ok [of ts gs m] by auto

interpretation bc: block_stats_provider GetBlockStats GetWindowBlockStats
  GetWindowBlockTimePercentile bc_ResetWindowStats bc_bounded
  by unfold_locales
    (auto simp: GetBlockStats_def GetWindowBlockStats_def bc_bounded_def bc_ResetWindowStats_def
      dest: stats_of_not_panics)

subsection \<open>The mock provider\<close>

record mock_block_stats =
  mk_blockStats :: block_stats
  mk_windowBlockStats :: block_stats
  mk_percentileValues :: "int \<rightharpoonup> duration"
  mk_resetCallCount :: int

definition zero_block_stats :: block_stats where
  "zero_block_stats =
     \<lparr>MaxBlockNumber = 0, P50BlockTime = 0, P99BlockTime = 0, MaxBlockTime = 0,
      P50GasUsed = 0, P99GasUsed = 0, MaxGasUsed = 0, SampleCount = 0\<rparr>"

definition NewMockBlockStats :: mock_block_stats where
  "NewMockBlockStats =
     \<lparr>mk_blockStats = zero_block_stats, mk_windowBlockStats = zero_block_stats,
      mk_percentileValues = Map.empty, mk_resetCallCount = 0\<rparr>"

definition SetBlockStats :: "block_stats \<Rightarrow> mock_block_stats \<Rightarrow> mock_block_stats" where
  "SetBlockStats st m = m\<lparr>mk_blockStats := st\<rparr>"

definition SetWindowBlockStats :: "block_stats \<Rightarrow> mock_block_stats \<Rightarrow> mock_block_stats" where
  "SetWindowBlockStats st m = m\<lparr>mk_windowBlockStats := st\<rparr>"

definition SetPercentile :: "int \<Rightarrow> duration \<Rightarrow> mock_block_stats \<Rightarrow> mock_block_stats" where
  "SetPercentile p d m = m\<lparr>mk_percentileValues := (mk_percentileValues m)(p \<mapsto> d)\<rparr>"

definition mock_GetBlockStats :: "mock_block_stats \<Rightarrow> block_stats" where
  "mock_GetBlockStats m = mk_blockStats m"

definition mock_GetWindowBlockStats :: "mock_block_stats \<Rightarrow> block_stats" where
  "mock_GetWindowBlockStats m = mk_windowBlockStats m"

definition mock_GetWindowBlockTimePercentile :: "int \<Rightarrow> mock_block_stats \<Rightarrow> duration" where
  "mock_GetWindowBlockTimePercentile p m =
     (case mk_percentileValues m p of Some d \<Rightarrow> d | None \<Rightarrow> 0)"

definition mock_ResetWindowStats :: "mock_block_stats \<Rightarrow> mock_block_stats" where
  "mock_ResetWindowStats m = m\<lparr>mk_resetCallCount := i64 (mk_resetCallCount m + 1)\<rparr>"

definition GetResetCallCount :: "mock_block_stats \<Rightarrow> int" where
  "GetResetCallCount m = mk_resetCallCount m"

definition HasPendingPercentile :: "int \<Rightarrow> mock_block_stats \<Rightarrow> bool" where
  "HasPendingPercentile p m \<longleftrightarrow> mk_percentileValues m p \<noteq> None"

interpretation mock: block_stats_provider "Ok \<circ> mock_GetBlockStats" "Ok \<circ> mock_GetWindowBlockStats"
  "\<lambda>p m. Ok (mock_GetWindowBlockTimePercentile p m)" "\<lambda>now. mock_ResetWindowStats" "\<lambda>m. True"
  by unfold_locales (auto simp: mock_GetBlockStats_def mock_ResetWindowStats_def)

end
