(* ===== verification/Collector.thy ===== *)
theory Collector
  imports BlockStats
begin

text \<open>
  The statistics collector (\<open>stats/collector.go\<close>), the run summary (\<open>stats/run_summary.go\<close>) and
  the parts of the logger that read and reset it (\<open>stats/logger.go\<close>). Each definition is one
  critical section; the readings of the clock are its arguments, in the order they are made.
\<close>

subsection \<open>State\<close>

record tps_window =
  timestamps :: "instant list"
  maxTPS :: f64

record window_stats =
  windowStart :: instant
  txCount :: u64
  latencySum :: duration
  latencyCount :: int
  maxLatency :: duration
  minLatency :: duration
  cumulativeMaxTPS :: f64
  cumulativeMaxLatency :: duration

record collector =
  txCounts :: "string \<rightharpoonup> u64"
  latencies :: "duration list"
  tpsWindow :: tps_window
  windowStats :: window_stats
  blockCollector :: "block_collector option"
  startTime :: instant
  totalTxs :: u64
  lastWindowTime :: instant
  maxLatencyHistory :: nat

definition empty_window :: "instant \<Rightarrow> window_stats" where
  "empty_window start =
     \<lparr>windowStart = start, txCount = 0, latencySum = 0, latencyCount = 0, maxLatency = 0,
      minLatency = 0, cumulativeMaxTPS = Fin 0, cumulativeMaxLatency = 0\<rparr>"

definition NewCollector :: "instant \<Rightarrow> instant \<Rightarrow> instant \<Rightarrow> collector" where
  "NewCollector now1 now2 now3 =
     \<lparr>txCounts = Map.empty, latencies = [], tpsWindow = \<lparr>timestamps = [], maxTPS = Fin 0\<rparr>,
      windowStats = empty_window now1, blockCollector = None, startTime = now2, totalTxs = 0,
      lastWindowTime = now3, maxLatencyHistory = 10000\<rparr>"

definition SetBlockCollector :: "block_collector option \<Rightarrow> collector \<Rightarrow> collector" where
  "SetBlockCollector bc c = c\<lparr>blockCollector := bc\<rparr>"

subsection \<open>Recording a transaction\<close>

definition recordLatency :: "duration \<Rightarrow> collector \<Rightarrow> collector" where
  "recordLatency latency c =
     (let ls = latencies c @ [latency]
      in c\<lparr>latencies := (if maxLatencyHistory c < length ls
                         then drop (length ls - maxLatencyHistory c) ls else ls)\<rparr>)"

text \<open>The loop of \<open>recordTPS\<close>: the first index whose time is after the cutoff, 0 if there is none.\<close>

fun valid_index :: "instant \<Rightarrow> nat \<Rightarrow> instant list \<Rightarrow> nat" where
  "valid_index cutoff i [] = 0"
| "valid_index cutoff i (ts # rest) = (if cutoff < ts then i else valid_index cutoff (Suc i) rest)"

definition recordTPS :: "instant \<Rightarrow> collector \<Rightarrow> collector" where
  "recordTPS now c =
     (let w = tpsWindow c;
          w = w\<lparr>timestamps := timestamps w @ [now]\<rparr>;
          cutoff = now - 10 * second;
          w = w\<lparr>timestamps := drop (valid_index cutoff 0 (timestamps w)) (timestamps w)\<rparr>;
          currentTPS = Fin (of_nat (length (timestamps w)) / 10);
          w = (if f_less (maxTPS w) currentTPS then w\<lparr>maxTPS := currentTPS\<rparr> else w)
      in c\<lparr>tpsWindow := w\<rparr>)"

definition recordWindowStats :: "instant \<Rightarrow> duration \<Rightarrow> collector \<Rightarrow> collector" where
  "recordWindowStats now latency c =
     (let w = windowStats c;
          w = w\<lparr>txCount := txCount w + 1\<rparr>;
          w = w\<lparr>latencySum := i64 (latencySum w + latency), latencyCount := i64 (latencyCount w + 1)\<rparr>;
          w = (if maxLatency w < latency then w\<lparr>maxLatency := latency\<rparr> else w);
          w = (if latency < minLatency w \<or> minLatency w = 0 then w\<lparr>minLatency := latency\<rparr> else w);
          w = (if 0 < txCount w then
                 let currentTPS = f_div (of_nat (unat (txCount w))) (seconds (time_sub now (windowStart w)))
                 in if f_less (cumulativeMaxTPS w) currentTPS then w\<lparr>cumulativeMaxTPS := currentTPS\<rparr> else w
               else w);
          w = (if cumulativeMaxLatency w < latency then w\<lparr>cumulativeMaxLatency := latency\<rparr> else w)
      in c\<lparr>windowStats := w\<rparr>)"

definition RecordTransaction ::
  "instant \<Rightarrow> instant \<Rightarrow> string \<Rightarrow> duration \<Rightarrow> bool \<Rightarrow> collector \<Rightarrow> collector" where
  "RecordTransaction now1 now2 scenario latency success c =
     (let c = c\<lparr>txCounts := (txCounts c)(scenario \<mapsto>
                (case txCounts c scenario of Some n \<Rightarrow> n + 1 | None \<Rightarrow> 1))\<rparr>;
          c = c\<lparr>totalTxs := totalTxs c + 1\<rparr>;
          c = (if success then recordLatency latency c else c);
          c = recordTPS now1 c
      in recordWindowStats now2 latency c)"

definition ResetWindowStats :: "instant \<Rightarrow> collector \<Rightarrow> collector" where
  "ResetWindowStats now c =
     c\<lparr>windowStats := (empty_window now)\<lparr>cumulativeMaxTPS := cumulativeMaxTPS (windowStats c),
          cumulativeMaxLatency := cumulativeMaxLatency (windowStats c)\<rparr>,
       lastWindowTime := now\<rparr>"

subsection \<open>Reading the statistics\<close>

record transaction_stats =
  P50Latency :: duration
  P99Latency :: duration
  MaxTPS :: f64
  CurrentTPS :: f64
  TxSampleCount :: nat
  QueueDepth :: int
  WindowTxCount :: u64
  WindowLatencySum :: duration
  WindowLatencyCount :: int
  WindowMaxLatency :: duration
  WindowMinLatency :: duration
  CumulativeMaxTPS :: f64
  CumulativeMaxLatency :: duration

record stats =
  StartTime :: instant
  TotalTxs :: u64
  TxCounts :: "string \<rightharpoonup> u64"
  TransactionStats :: transaction_stats
  OverallMaxTPS :: f64
  OverallCurrentTPS :: f64
  BlockStatsOpt :: "block_stats option"

definition GetStats :: "instant \<Rightarrow> collector \<Rightarrow> stats outcome" where
  "GetStats now c =
     (let sortedLatencies = sort (latencies c)
      in obind (if 0 < length (latencies c)
                then obind (calculatePercentile sortedLatencies 50) (\<lambda>p50.
                     obind (calculatePercentile sortedLatencies 99) (\<lambda>p99.
                       Ok (p50, p99, length sortedLatencies)))
                else Ok (0, 0, 0)) (\<lambda>(p50, p99, samples).
         obind (case blockCollector c of
                  None \<Rightarrow> Ok None
                | Some bc \<Rightarrow> obind (GetWindowBlockStats bc) (\<lambda>b. Ok (Some b))) (\<lambda>blocks.
         let currentCount = length (filter (\<lambda>ts. now - 10 * second < ts) (timestamps (tpsWindow c)));
             w = windowStats c;
             t = \<lparr>P50Latency = p50, P99Latency = p99, MaxTPS = maxTPS (tpsWindow c),
                  CurrentTPS = Fin (of_nat currentCount / 10), TxSampleCount = samples, QueueDepth = 0,
                  WindowTxCount = txCount w, WindowLatencySum = latencySum w,
                  WindowLatencyCount = latencyCount w, WindowMaxLatency = maxLatency w,
                  WindowMinLatency = minLatency w, CumulativeMaxTPS = cumulativeMaxTPS w,
                  CumulativeMaxLatency = cumulativeMaxLatency w\<rparr>
         in Ok \<lparr>StartTime = startTime c, TotalTxs = totalTxs c, TxCounts = txCounts c,
                TransactionStats = t, OverallMaxTPS = MaxTPS t, OverallCurrentTPS = CurrentTPS t,
                BlockStatsOpt = blocks\<rparr>)))"

definition GetCumulativeBlockStats :: "collector \<Rightarrow> block_stats option outcome" where
  "GetCumulativeBlockStats c =
     (case blockCollector c of
        None \<Rightarrow> Ok None
      | Some bc \<Rightarrow> obind (GetBlockStats bc) (\<lambda>b. Ok (Some b)))"

subsection \<open>Run summary\<close>

record run_summary =
  ArrivalModel :: string
  Dropped :: u64
  Failed :: u64
  InclusionTracked :: bool
  rs_Included :: u64
  rs_Expired :: u64
  rs_DroppedAtCap :: u64
  rs_InflightAtShutdown :: u64

definition EmitRunSummary :: "instant \<Rightarrow> run_summary \<Rightarrow> collector \<Rightarrow> metric list" where
  "EmitRunSummary now summary c =
     [metric_float ''run_duration'' (Fin (seconds (time_sub now (startTime c)))) [],
      metric_float ''run_tps_final'' (maxTPS (tpsWindow c)) [],
      metric_int ''run_txs_accepted_total'' (sint (totalTxs c)) [],
      metric_int ''run_txs_dropped_total'' (sint (Dropped summary)) [(''arrival_model'', ArrivalModel summary)],
      metric_int ''run_txs_failed_total'' (sint (Failed summary)) [(''arrival_model'', ArrivalModel summary)]] @
     (if InclusionTracked summary
      then [metric_int ''run_inflight_at_shutdown'' (sint (rs_InflightAtShutdown summary)) []] else [])"

subsection \<open>Logger\<close>

record load_test_statistics =
  lts_Runtime :: duration
  lts_TotalTxs :: u64
  lts_AvgTPS :: f64
  lts_StartTime :: instant

record overall_performance =
  op_TotalRuntime :: duration
  op_TotalTransactions :: u64
  op_AverageTPS :: f64
  op_MaxTPS :: f64

record final_stats =
  fs_LoadTestStatistics :: load_test_statistics
  fs_ScenarioDistribution :: "string \<rightharpoonup> u64"
  fs_TransactionStats :: transaction_stats
  fs_OverallTPS :: "f64 \<times> f64"
  fs_BlockStatistics :: "block_stats option"
  fs_OverallPerformance :: overall_performance
  fs_GasStatistics :: "block_stats option"

definition BuildFinalStats :: "instant \<Rightarrow> instant \<Rightarrow> collector \<Rightarrow> final_stats outcome" where
  "BuildFinalStats now1 now2 c =
     obind (GetStats now1 c) (\<lambda>st.
     obind (GetCumulativeBlockStats c) (\<lambda>gas.
       let duration = time_sub now2 (StartTime st);
           avgTPS = f_div (of_nat (unat (TotalTxs st))) (seconds duration)
       in Ok \<lparr>fs_LoadTestStatistics =
                \<lparr>lts_Runtime = duration, lts_TotalTxs = TotalTxs st, lts_AvgTPS = avgTPS,
                 lts_StartTime = StartTime st\<rparr>,
              fs_ScenarioDistribution = TxCounts st,
              fs_TransactionStats = TransactionStats st,
              fs_OverallTPS = (OverallCurrentTPS st, OverallMaxTPS st),
              fs_BlockStatistics = BlockStatsOpt st,
              fs_OverallPerformance =
                \<lparr>op_TotalRuntime = duration, op_TotalTransactions = TotalTxs st, op_AverageTPS = avgTPS,
                 op_MaxTPS = OverallMaxTPS st\<rparr>,
              fs_GasStatistics = gas\<rparr>))"

text \<open>
  One tick of the logger: it reads the window, prints it (the line is the model's first
  result: window TPS and mean latency) and resets both windows.
\<close>

definition logCurrentStats ::
  "instant \<Rightarrow> instant \<Rightarrow> instant \<Rightarrow> duration \<Rightarrow> collector \<Rightarrow> ((f64 \<times> duration \<times> stats) \<times> collector) outcome" where
  "logCurrentStats now1 now2 now3 interval c =
     obind (GetStats now1 c) (\<lambda>st.
       let t = TransactionStats st;
           windowTPS = (if 0 < WindowTxCount t
                        then f_div (of_nat (unat (WindowTxCount t))) (seconds interval) else Fin 0)
       in obind (if 0 < WindowLatencyCount t
                 then go_div (WindowLatencySum t) (WindowLatencyCount t) else Ok 0) (\<lambda>overallAvgLatency.
            let c = ResetWindowStats now2 c;
                c = (case blockCollector c of
                       None \<Rightarrow> c
                     | Some bc \<Rightarrow> c\<lparr>blockCollector := Some (bc_ResetWindowStats now3 bc)\<rparr>)
            in Ok ((windowTPS, overallAvgLatency, st), c)))"

lemma i64_add: "i64 (i64 x + y) = i64 (x + y)" "i64 (y + i64 x) = i64 (y + x)"
  unfolding i64_def by (simp_all add: mod_simps algebra_simps)

subsection \<open>Field by field\<close>

lemma recordLatency_sel [simp]:
  "latencies (recordLatency l c) = last_n (maxLatencyHistory c) (latencies c @ [l])"
  "txCounts (recordLatency l c) = txCounts c" "totalTxs (recordLatency l c) = totalTxs c"
  "tpsWindow (recordLatency l c) = tpsWindow c" "windowStats (recordLatency l c) = windowStats c"
  "blockCollector (recordLatency l c) = blockCollector c" "startTime (recordLatency l c) = startTime c"
  "maxLatencyHistory (recordLatency l c) = maxLatencyHistory c"
  by (simp_all add: recordLatency_def Let_def last_n_def)

lemma recordTPS_sel [simp]:
  "latencies (recordTPS now c) = latencies c"
  "txCounts (recordTPS now c) = txCounts c" "totalTxs (recordTPS now c) = totalTxs c"
  "windowStats (recordTPS now c) = windowStats c"
  "blockCollector (recordTPS now c) = blockCollector c" "startTime (recordTPS now c) = startTime c"
  "maxLatencyHistory (recordTPS now c) = maxLatencyHistory c"
  by (simp_all add: recordTPS_def Let_def)

lemma recordWindowStats_sel [simp]:
  "latencies (recordWindowStats now l c) = latencies c"
  "txCounts (recordWindowStats now l c) = txCounts c" "totalTxs (recordWindowStats now l c) = totalTxs c"
  "tpsWindow (recordWindowStats now l c) = tpsWindow c"
  "blockCollector (recordWindowStats now l c) = blockCollector c"
  "startTime (recordWindowStats now l c) = startTime c"
  "maxLatencyHistory (recordWindowStats now l c) = maxLatencyHistory c"
  by (simp_all add: recordWindowStats_def Let_def)

lemma recordWindowStats_window:
  "windowStart (windowStats (recordWindowStats now l c)) = windowStart (windowStats c)"
  "txCount (windowStats (recordWindowStats now l c)) = txCount (windowStats c) + 1"
  "latencySum (windowStats (recordWindowStats now l c)) = i64 (latencySum (windowStats c) + l)"
  "latencyCount (windowStats (recordWindowStats now l c)) = i64 (latencyCount (windowStats c) + 1)"
  "maxLatency (windowStats (recordWindowStats now l c)) = max (maxLatency (windowStats c)) l"
  "cumulativeMaxLatency (windowStats (recordWindowStats now l c)) = max (cumulativeMaxLatency (windowStats c)) l"
  "minLatency (windowStats (recordWindowStats now l c)) =
     (if l < minLatency (windowStats c) \<or> minLatency (windowStats c) = 0 then l else minLatency (windowStats c))"
  by (simp_all add: recordWindowStats_def Let_def)

text \<open>
  \<open>event\<close> is one call of \<open>RecordTransaction\<close>; \<open>run_events\<close> makes a list of them, oldest first.
\<close>

record event =
  ev_now1 :: instant
  ev_now2 :: instant
  ev_scenario :: string
  ev_latency :: duration
  ev_success :: bool

definition do_event :: "event \<Rightarrow> collector \<Rightarrow> collector" where
  "do_event e c = RecordTransaction (ev_now1 e) (ev_now2 e) (ev_scenario e) (ev_latency e) (ev_success e) c"

definition run_events :: "event list \<Rightarrow> collector \<Rightarrow> collector" where
  "run_events es c = fold do_event es c"

lemma run_events_snoc [simp]: "run_events (es @ [e]) c = do_event e (run_events es c)"
  by (simp add: run_events_def)

lemma run_events_single [simp]: "run_events [e] c = do_event e c"
  by (simp add: run_events_def)

lemma run_events_Nil [simp]: "run_events [] c = c"
  by (simp add: run_events_def)

lemma do_event_sel:
  "txCounts (do_event e c) = (txCounts c)(ev_scenario e \<mapsto>
     (case txCounts c (ev_scenario e) of Some n \<Rightarrow> n + 1 | None \<Rightarrow> 1))"
  "totalTxs (do_event e c) = totalTxs c + 1"
  "latencies (do_event e c) = (if ev_success e
     then last_n (maxLatencyHistory c) (latencies c @ [ev_latency e]) else latencies c)"
  "maxLatencyHistory (do_event e c) = maxLatencyHistory c"
  "blockCollector (do_event e c) = blockCollector c" "startTime (do_event e c) = startTime c"
  by (simp_all add: do_event_def RecordTransaction_def Let_def)

lemma do_event_window:
  "windowStart (windowStats (do_event e c)) = windowStart (windowStats c)"
  "txCount (windowStats (do_event e c)) = txCount (windowStats c) + 1"
  "latencySum (windowStats (do_event e c)) = i64 (latencySum (windowStats c) + ev_latency e)"
  "latencyCount (windowStats (do_event e c)) = i64 (latencyCount (windowStats c) + 1)"
  "maxLatency (windowStats (do_event e c)) = max (maxLatency (windowStats c)) (ev_latency e)"
  "cumulativeMaxLatency (windowStats (do_event e c)) = max (cumulativeMaxLatency (windowStats c)) (ev_latency e)"
  "minLatency (windowStats (do_event e c)) = (if ev_latency e < minLatency (windowStats c) \<or>
     minLatency (windowStats c) = 0 then ev_latency e else minLatency (windowStats c))"
  by (simp_all add: do_event_def RecordTransaction_def Let_def recordWindowStats_window)

subsection \<open>Totals\<close>

definition count_of :: "collector \<Rightarrow> string \<Rightarrow> u64" where
  "count_of c s = (case txCounts c s of Some n \<Rightarrow> n | None \<Rightarrow> 0)"

definition counts_ok :: "collector \<Rightarrow> bool" where
  "counts_ok c \<longleftrightarrow> finite (dom (txCounts c)) \<and> totalTxs c = (\<Sum>s \<in> dom (txCounts c). count_of c s)"

lemma counts_ok_new [simp]: "counts_ok (NewCollector n1 n2 n3)"
  by (simp add: counts_ok_def NewCollector_def)

lemma count_of_event: "count_of (do_event e c) s = count_of c s + (if s = ev_scenario e then 1 else 0)"
  by (auto simp: count_of_def do_event_sel split: option.splits)

lemma counts_ok_event [inv_intros]:
  assumes "counts_ok c" shows "counts_ok (do_event e c)"
proof -
  let ?D = "dom (txCounts c)" and ?s = "ev_scenario e"
  have D: "dom (txCounts (do_event e c)) = insert ?s ?D" by (auto simp: do_event_sel)
  have fin: "finite ?D" using assms by (simp add: counts_ok_def)
  have same: "(\<Sum>s \<in> ?D - {?s}. count_of (do_event e c) s) = (\<Sum>s \<in> ?D - {?s}. count_of c s)"
    by (intro sum.cong) (auto simp: count_of_event)
  have old: "(\<Sum>s \<in> ?D. count_of c s) = count_of c ?s + (\<Sum>s \<in> ?D - {?s}. count_of c s)"
  proof (cases "?s \<in> ?D")
    case True
    then show ?thesis using fin by (simp add: sum.remove)
  next
    case False
    then have "count_of c ?s = 0" by (simp add: count_of_def domIff)
    then show ?thesis using False by simp
  qed
  have "(\<Sum>s \<in> insert ?s ?D. count_of (do_event e c) s) =
      count_of (do_event e c) ?s + (\<Sum>s \<in> ?D - {?s}. count_of (do_event e c) s)"
    using fin by (simp add: sum.insert_remove)
  then show ?thesis
    using assms old same D fin by (simp add: counts_ok_def do_event_sel(2) count_of_event)
qed

lemma count_of_events:
  "count_of (run_events es c) s = count_of c s + of_nat (length (filter (\<lambda>e. ev_scenario e = s) es))"
  by (induction es rule: rev_induct) (auto simp: count_of_event)

lemma totalTxs_events: "totalTxs (run_events es c) = totalTxs c + of_nat (length es)"
  by (induction es rule: rev_induct) (auto simp: do_event_sel)

lemma counts_ok_events: "counts_ok c \<Longrightarrow> counts_ok (run_events es c)"
  by (induction es rule: rev_induct) (auto intro: counts_ok_event)

lemma maxLatencyHistory_events [simp]: "maxLatencyHistory (run_events es c) = maxLatencyHistory c"
  by (induction es rule: rev_induct) (auto simp: do_event_sel)

lemma latencies_events:
  assumes "latencies c = last_n (maxLatencyHistory c) ls"
  shows "latencies (run_events es c) =
    last_n (maxLatencyHistory c) (ls @ map ev_latency (filter ev_success es))"
proof (induction es rule: rev_induct)
  case Nil
  then show ?case using assms by simp
next
  case (snoc e es)
  then show ?case by (auto simp: do_event_sel last_n_snoc simp flip: append_assoc)
qed

lemma window_events:
  "txCount (windowStats (run_events es c)) = txCount (windowStats c) + of_nat (length es)"
  "maxLatency (windowStats (run_events es c)) = fold max (map ev_latency es) (maxLatency (windowStats c))"
  "cumulativeMaxLatency (windowStats (run_events es c)) =
     fold max (map ev_latency es) (cumulativeMaxLatency (windowStats c))"
  "latencySum (windowStats (run_events es c)) = (if es = [] then latencySum (windowStats c)
     else i64 (latencySum (windowStats c) + sum_list (map ev_latency es)))"
proof (induction es rule: rev_induct)
  case (snoc e es)
  {
    case 4
    show ?case using snoc(4) by (auto simp: do_event_window i64_add ac_simps)
  }
qed (auto simp: do_event_window max.commute)

subsection \<open>The 10-second window\<close>

lemma valid_index_filter:
  assumes "sorted ts"
  shows "\<exists>x \<in> set ts. cutoff < x \<Longrightarrow> drop (valid_index cutoff i ts - i) ts = filter (\<lambda>t. cutoff < t) ts"
    and "\<exists>x \<in> set ts. cutoff < x \<Longrightarrow> i \<le> valid_index cutoff i ts"
  using assms
proof (induction cutoff i ts rule: valid_index.induct)
  case (2 cutoff i t rest)
  {
    case 1
    show ?case
    proof (cases "cutoff < t")
      case True
      then have "filter (\<lambda>t. cutoff < t) rest = rest" using 1(2) by (auto simp: filter_id_conv)
      then show ?thesis using True by simp
    next
      case False
      then have ex: "\<exists>x \<in> set rest. cutoff < x" using 1(1) by auto
      have "Suc i \<le> valid_index cutoff (Suc i) rest" using "2.IH"(2) [OF False ex] 1(2) by simp
      moreover have "drop (valid_index cutoff (Suc i) rest - Suc i) rest = filter (\<lambda>t. cutoff < t) rest"
        using "2.IH"(1) [OF False ex] 1(2) by simp
      ultimately show ?thesis using False by (simp add: Suc_diff_le drop_Cons')
    qed
  next
    case 2
    then show ?case using "2.IH"(2) by (cases "cutoff < t") (auto dest: Suc_leD)
  }
qed auto

definition recent :: "instant \<Rightarrow> instant list \<Rightarrow> instant list" where
  "recent now ts = filter (\<lambda>t. now - 10 * second < t) ts"

text \<open>With a clock that does not go back, the window holds exactly the times of the last ten seconds.\<close>

lemma recordTPS_window:
  assumes "timestamps (tpsWindow c) = recent prev ts" "sorted (ts @ [now])" "prev \<le> now"
  shows "timestamps (tpsWindow (recordTPS now c)) = recent now (ts @ [now])"
    and "maxTPS (tpsWindow (recordTPS now c)) =
      f_max (Fin (of_nat (length (recent now (ts @ [now]))) / 10)) (maxTPS (tpsWindow c))"
proof -
  let ?w = "recent prev ts @ [now]" and ?cut = "now - 10 * second"
  have "sorted ?w" using assms(2) by (auto simp: recent_def sorted_append sorted_wrt_filter)
  moreover have "\<exists>x \<in> set ?w. ?cut < x" by simp
  ultimately have "drop (valid_index ?cut 0 ?w) ?w = filter (\<lambda>t. ?cut < t) ?w"
    using valid_index_filter(1) [of ?w ?cut 0] by simp
  also have "\<dots> = recent now (ts @ [now])"
    using assms(3) by (auto simp: recent_def intro!: filter_cong)
  finally have d: "drop (valid_index ?cut 0 ?w) ?w = recent now (ts @ [now])" .
  show "timestamps (tpsWindow (recordTPS now c)) = recent now (ts @ [now])"
    "maxTPS (tpsWindow (recordTPS now c)) =
      f_max (Fin (of_nat (length (recent now (ts @ [now]))) / 10)) (maxTPS (tpsWindow c))"
    by (simp_all add: recordTPS_def Let_def assms(1) f_max_def d del: drop_append length_drop length_append second_val)
qed

lemma do_event_tps: "tpsWindow (do_event e c) = tpsWindow (recordTPS (ev_now1 e) c)"
  by (simp add: do_event_def RecordTransaction_def Let_def recordTPS_def)

lemma events_tps:
  assumes "timestamps (tpsWindow c) = []" "sorted (map ev_now1 es)" "es \<noteq> []"
  shows "timestamps (tpsWindow (run_events es c)) = recent (ev_now1 (last es)) (map ev_now1 es)"
  using assms(2,3)
proof (induction es rule: rev_induct)
  case (snoc e es)
  show ?case
  proof (cases "es = []")
    case True
    then show ?thesis
      using recordTPS_window(1) [of c 0 "[]" "ev_now1 e"] assms(1)
        recordTPS_window(1) [of c "ev_now1 e" "[]" "ev_now1 e"]
      by (simp add: do_event_tps recent_def)
  next
    case False
    have "ev_now1 (last es) \<le> ev_now1 e" using snoc.prems(1) False by (auto simp: sorted_append)
    then show ?thesis
      using recordTPS_window(1) [of "run_events es c" "ev_now1 (last es)" "map ev_now1 es" "ev_now1 e"]
        snoc False by (simp add: do_event_tps sorted_append)
  qed
qed simp

subsection \<open>Reading\<close>

lemma sort_rank_Ok:
  assumes "xs \<noteq> []" "length xs \<le> 10000" "p \<le> 100"
  shows "calculatePercentile (sort xs) (int p) = Ok (sort xs ! rank_of (length xs) p)"
proof -
  have "int (length xs) * int p \<le> 10000 * 100" using assms(2,3) by (intro mult_mono) auto
  then show ?thesis using calculatePercentile_rank [of "sort xs" p] assms(1) by simp
qed

definition coll_bounded :: "collector \<Rightarrow> bool" where
  "coll_bounded c \<longleftrightarrow> length (latencies c) \<le> 10000 \<and> maxLatencyHistory c = 10000 \<and>
     (case blockCollector c of None \<Rightarrow> True | Some bc \<Rightarrow> bc_bounded bc)"

lemma coll_bounded_new [simp]: "coll_bounded (NewCollector n1 n2 n3)"
  by (simp add: coll_bounded_def NewCollector_def)

lemma coll_bounded_event [inv_intros]: "coll_bounded c \<Longrightarrow> coll_bounded (do_event e c)"
  by (auto simp: coll_bounded_def do_event_sel)

lemma coll_bounded_reset [inv_intros]: "coll_bounded c \<Longrightarrow> coll_bounded (ResetWindowStats now c)"
  by (auto simp: coll_bounded_def ResetWindowStats_def)

lemma GetStats_ok:
  assumes "coll_bounded c"
  shows "\<exists>st. GetStats now c = Ok st \<and> TotalTxs st = totalTxs c \<and> TxCounts st = txCounts c \<and>
    StartTime st = startTime c \<and>
    WindowTxCount (TransactionStats st) = txCount (windowStats c) \<and>
    WindowLatencyCount (TransactionStats st) = latencyCount (windowStats c) \<and>
    TxSampleCount (TransactionStats st) = length (latencies c) \<and>
    CurrentTPS (TransactionStats st) = Fin (of_nat (length (recent now (timestamps (tpsWindow c)))) / 10) \<and>
    (latencies c \<noteq> [] \<longrightarrow>
      P50Latency (TransactionStats st) = sort (latencies c) ! rank_of (length (latencies c)) 50 \<and>
      P99Latency (TransactionStats st) = sort (latencies c) ! rank_of (length (latencies c)) 99)"
proof -
  obtain blocks where b: "(case blockCollector c of None \<Rightarrow> Ok None
      | Some bc \<Rightarrow> obind (GetWindowBlockStats bc) (\<lambda>b. Ok (Some b))) = Ok blocks"
  proof (cases "blockCollector c")
    case (Some bc)
    then have "bc_bounded bc" using assms by (simp add: coll_bounded_def)
    then obtain st where "GetWindowBlockStats bc = Ok st"
      using stats_of_ok [of "windowBlockTimes bc" "windowGasUsed bc"]
      by (auto simp: bc_bounded_def GetWindowBlockStats_def)
    with that Some show thesis by simp
  qed (use that in auto)
  have p: "latencies c \<noteq> [] \<Longrightarrow> p \<le> 100 \<Longrightarrow> calculatePercentile (sort (latencies c)) (int p) =
      Ok (sort (latencies c) ! rank_of (length (latencies c)) p)" for p
    using assms sort_rank_Ok [of "latencies c" p] by (simp add: coll_bounded_def)
  show ?thesis
    using p [of 50] p [of 99]
    by (cases "latencies c = []") (simp_all add: GetStats_def Let_def b recent_def)
qed

end
