(* ===== verification/EthClient.thy ===== *)
theory EthClient
  imports Types Collector
begin

text \<open>
  The sharding client of \<open>sender/eth_client.go\<close> with the metrics of \<open>sender/metrics.go\<close>. The
  connections are go-ethereum's: opening one and the answers of the remote node are arguments.
\<close>

record eth_client_config =
  DryRun :: bool
  cc_ChainID :: string
  Endpoints :: "string list"

subsection \<open>Connecting\<close>

text \<open>
  \<open>parse\<close> and \<open>dial\<close> are \<open>url.Parse\<close> and \<open>rpc.DialOptions\<close>. The result is the list of clients
  or the error, with the clients that were closed again.
\<close>

fun dial_all ::
  "(string \<Rightarrow> go_error + string) \<Rightarrow> (string \<Rightarrow> bool \<Rightarrow> go_error + 'c) \<Rightarrow> string list \<Rightarrow> 'c list \<Rightarrow>
     'c list outcome \<times> 'c list" where
  "dial_all parse dial [] clients = (Ok clients, [])"
| "dial_all parse dial (ep # eps) clients =
     (case parse ep of
        Inl e \<Rightarrow> (Err (Wrap ''parse endpoint'' e), clients)
      | Inr scheme \<Rightarrow>
          (case dial ep (scheme = ''http'' \<or> scheme = ''https'') of
             Inl e \<Rightarrow> (Err (Wrap ''rpc.Dial'' e), clients)
           | Inr c \<Rightarrow> dial_all parse dial eps (clients @ [c])))"

definition newEthClient ::
  "(string \<Rightarrow> go_error + string) \<Rightarrow> (string \<Rightarrow> bool \<Rightarrow> go_error + 'c) \<Rightarrow> eth_client_config \<Rightarrow>
     'c list outcome \<times> 'c list" where
  "newEthClient parse dial cfg = dial_all parse dial (Endpoints cfg) []"

lemma dial_all_Ok:
  "dial_all parse dial eps acc = (Ok cs, shut) \<Longrightarrow> shut = [] \<and> (\<exists>new. cs = acc @ new \<and> length new = length eps)"
proof (induction eps arbitrary: acc)
  case (Cons ep eps)
  then obtain c where "dial_all parse dial eps (acc @ [c]) = (Ok cs, shut)" by (auto split: sum.splits)
  from Cons.IH [OF this] show ?case by auto
qed simp

text \<open>A failure closes every connection opened before it.\<close>

lemma dial_all_Err:
  "dial_all parse dial eps acc = (Err e, shut) \<Longrightarrow>
     \<exists>n < length eps. \<exists>opened. shut = acc @ opened \<and> length opened = n \<and>
       (\<forall>i < n. \<exists>h. dial (eps ! i) h = Inr (opened ! i))"
proof (induction eps arbitrary: acc)
  case (Cons ep eps)
  show ?case
  proof (cases "\<exists>sc c. parse ep = Inr sc \<and> dial ep (sc = ''http'' \<or> sc = ''https'') = Inr c")
    case False
    then have "shut = acc" using Cons.prems by (auto split: sum.splits)
    then show ?thesis by auto
  next
    case True
    then obtain sc c where c: "parse ep = Inr sc" "dial ep (sc = ''http'' \<or> sc = ''https'') = Inr c" by blast
    then have "dial_all parse dial eps (acc @ [c]) = (Err e, shut)" using Cons.prems by simp
    from Cons.IH [OF this] obtain opened where o: "length opened < length eps"
      "shut = acc @ c # opened" "\<forall>i < length opened. \<exists>h. dial (eps ! i) h = Inr (opened ! i)" by auto
    have "\<forall>i < length (c # opened). \<exists>h. dial ((ep # eps) ! i) h = Inr ((c # opened) ! i)"
      using o(3) c(2) by (auto simp: nth_Cons split: nat.split)
    with o show ?thesis by (intro exI [of _ "length (c # opened)"] conjI exI [of _ "c # opened"]) auto
  qed
qed simp

subsection \<open>Sharding\<close>

definition clientID :: "nat \<Rightarrow> address \<Rightarrow> nat" where
  "clientID clients addr = (if clients \<le> 0 then 0 else unat addr mod clients)"

lemma clientID_less: "0 < clients \<Longrightarrow> clientID clients addr < clients"
  by (simp add: clientID_def)

definition client_Nonce :: "nat \<Rightarrow> (nat \<Rightarrow> address \<Rightarrow> go_error + u64) \<Rightarrow> address \<Rightarrow> (go_error + u64) outcome" where
  "client_Nonce clients pending_nonce addr =
     (let i = clientID clients addr
      in if i < clients then Ok (pending_nonce i addr) else Panic ''index out of range'')"

subsection \<open>Sending\<close>

text \<open>
  What the outside world contributes to one \<open>Send\<close>: the node's answer or the end of the
  dry-run sleep, and the readings of the clock in the order they are made.
\<close>

record send_io =
  io_result :: "nat \<Rightarrow> eth_tx \<Rightarrow> go_error option"
  io_sleep :: "go_error option"
  io_start :: instant
  io_since1 :: instant
  io_since2 :: instant
  io_now1 :: instant
  io_now2 :: instant

definition statusAttrFromError :: "go_error option \<Rightarrow> string \<times> string" where
  "statusAttrFromError err = (''status'', case err of None \<Rightarrow> ''success'' | Some e \<Rightarrow> ''failure'')"

definition client_Send ::
  "eth_client_config \<Rightarrow> nat \<Rightarrow> send_io \<Rightarrow> load_tx \<Rightarrow> collector \<Rightarrow>
     (go_error option \<times> load_tx \<times> collector \<times> metric list) outcome" where
  "client_Send cfg clients io tx col =
     (let i = clientID clients (sender_of tx);
          start = io_start io;
          tx = tx\<lparr>lt_attempted := start\<rparr>;
          attrs = [(''scenario'', ts_name (lt_scenario tx)), (''operation'', ts_operation (lt_scenario tx))]
      in obind (if DryRun cfg then Ok (io_sleep io)
                else if i < clients then Ok (io_result io i (lt_tx tx))
                else Panic ''index out of range'') (\<lambda>err.
         let latency = metric_float ''send_latency'' (Fin (seconds (time_sub (io_since1 io) start)))
               (attrs @ [(''chain_id'', cc_ChainID cfg), statusAttrFromError err]);
             outcome = (case err of
                Some e \<Rightarrow> metric_int ''txs_rejected'' 1 (attrs @ [(''reason'', ''rpc'')])
              | None \<Rightarrow> metric_int ''txs_accepted'' 1 attrs);
             col = RecordTransaction (io_now1 io) (io_now2 io) (ts_name (lt_scenario tx))
                     (time_sub (io_since2 io) start) (err = None) col
         in Ok (err, tx, col, [latency, outcome])))"

lemma client_Send_total:
  "DryRun cfg \<or> 0 < clients \<Longrightarrow> \<exists>err tx' col' ms. client_Send cfg clients io tx col = Ok (err, tx', col', ms) \<and>
     lt_tx tx' = lt_tx tx \<and> lt_scenario tx' = lt_scenario tx \<and> lt_attempted tx' = io_start io \<and>
     totalTxs col' = totalTxs col + 1"
  using clientID_less [of clients "sender_of tx"]
  by (auto simp: client_Send_def Let_def RecordTransaction_def)

lemma client_Send_keeps:
  assumes "client_Send cfg clients io tx col = Ok (err, tx', col', ms)"
  shows "lt_tx tx' = lt_tx tx" "lt_scenario tx' = lt_scenario tx" "totalTxs col' = totalTxs col + 1"
  using assms by (auto simp: client_Send_def Let_def RecordTransaction_def outcome_simps split: if_splits)

end
