(* ===== verification/Inclusion.thy ===== *)
theory Inclusion
  imports Types
begin

text \<open>
  The inclusion tracker (\<open>stats/inclusion_tracker.go\<close>): a bounded registry of transactions in
  flight, matched against arriving blocks and swept of those that never arrive. Transaction
  hashes are numbers; \<open>hash\<close>, the hash of a signed transaction, is go-ethereum's and a
  parameter. A registered transaction belongs to the tracker, so it is a value of the
  registry; the transactions a block includes are a result of the match, stamped.
\<close>

type_synonym tx_hash = nat

record entry =
  e_tx :: load_tx
  e_registeredAt :: instant

record inclusion_state =
  inflight :: "tx_hash \<rightharpoonup> entry"
  included :: u64
  expired :: u64
  droppedAtCap :: u64
  inflightAtShutdown :: u64

record inclusion_tracker =
  it_seiChainID :: string
  reapAfter :: duration
  maxInflight :: int
  openLoop :: bool
  it_state :: inclusion_state

definition defaultMaxInflight :: int where
  "defaultMaxInflight = 10000"

definition defaultInclusionReapAfter :: duration where
  "defaultInclusionReapAfter = 30 * second"

definition NewInclusionTracker :: "string \<Rightarrow> duration \<Rightarrow> int \<Rightarrow> bool \<Rightarrow> inclusion_tracker" where
  "NewInclusionTracker chain reap_after max_inflight open_loop =
     (let max_inflight = (if max_inflight \<le> 0 then defaultMaxInflight else max_inflight);
          reap_after = (if reap_after \<le> 0 then defaultInclusionReapAfter else reap_after)
      in \<lparr>it_seiChainID = chain, reapAfter = reap_after, maxInflight = max_inflight, openLoop = open_loop,
          it_state = \<lparr>inflight = Map.empty, included = 0, expired = 0, droppedAtCap = 0,
                      inflightAtShutdown = 0\<rparr>\<rparr>)"

definition inflight_len :: "inclusion_state \<Rightarrow> nat" where
  "inflight_len s = card (dom (inflight s))"

subsection \<open>Operations\<close>

definition recordOutcome :: "string \<Rightarrow> tx_scenario \<Rightarrow> inclusion_tracker \<Rightarrow> metric" where
  "recordOutcome outc scenario t =
     metric_int ''inclusion_outcome'' 1
       [(''chain_id'', it_seiChainID t), (''scenario'', ts_name scenario),
        (''operation'', ts_operation scenario), (''outcome'', outc)]"

definition Register ::
  "(eth_tx \<Rightarrow> tx_hash) \<Rightarrow> instant \<Rightarrow> load_tx \<Rightarrow> inclusion_tracker \<Rightarrow> inclusion_tracker \<times> metric list" where
  "Register hash now tx t =
     (let h = hash (lt_tx tx); s = it_state t
      in if maxInflight t \<le> int (inflight_len s)
         then (t\<lparr>it_state := s\<lparr>droppedAtCap := droppedAtCap s + 1\<rparr>\<rparr>,
               [recordOutcome ''dropped_at_cap'' (lt_scenario tx) t])
         else (t\<lparr>it_state := s\<lparr>inflight := (inflight s)(h \<mapsto> \<lparr>e_tx = tx, e_registeredAt = now\<rparr>)\<rparr>\<rparr>, []))"

text \<open>
  The loop of \<open>matchBlock\<close> over the hashes of a block, under the lock. It returns the state,
  the transactions stamped with the arrival time and the latency samples, in order.
\<close>

fun match_loop ::
  "bool \<Rightarrow> instant \<Rightarrow> tx_hash list \<Rightarrow> inclusion_state \<Rightarrow>
     inclusion_state \<times> load_tx list \<times> (rat \<times> tx_scenario) list" where
  "match_loop open_loop arrival [] s = (s, [], [])"
| "match_loop open_loop arrival (h # hs) s =
     (case inflight s h of
        None \<Rightarrow> match_loop open_loop arrival hs s
      | Some e \<Rightarrow>
          let tx = (e_tx e)\<lparr>lt_inclusion := arrival\<rparr>;
              s' = s\<lparr>inflight := (inflight s)(h := None), included := included s + 1\<rparr>;
              (s'', stamped, samples) = match_loop open_loop arrival hs s'
          in (s'', tx # stamped,
              if open_loop \<and> \<not> is_zero_time (lt_intended tx)
              then (seconds (time_sub arrival (lt_intended tx)), lt_scenario tx) # samples else samples))"

definition matchBlock ::
  "(u64 \<Rightarrow> go_error + tx_hash list) \<Rightarrow> u64 \<Rightarrow> instant \<Rightarrow> inclusion_tracker \<Rightarrow>
     inclusion_tracker \<times> load_tx list \<times> metric list" where
  "matchBlock source num arrival t =
     (case source num of
        Inl err \<Rightarrow> (t, [], [metric_int ''block_fetch_errors'' 1 [(''chain_id'', it_seiChainID t)]])
      | Inr hashes \<Rightarrow>
          let (s, stamped, matched) = match_loop (openLoop t) arrival hashes (it_state t)
          in (t\<lparr>it_state := s\<rparr>, stamped,
              map (\<lambda>(latency, scenario).
                metric_float ''inclusion_latency'' (Fin latency)
                  [(''chain_id'', it_seiChainID t), (''scenario'', ts_name scenario),
                   (''operation'', ts_operation scenario)]) matched))"

definition processHead ::
  "(u64 \<Rightarrow> go_error + tx_hash list) \<Rightarrow> u64 \<Rightarrow> instant \<Rightarrow> u64 \<Rightarrow> inclusion_tracker \<Rightarrow>
     u64 \<times> inclusion_tracker \<times> load_tx list \<times> metric list" where
  "processHead source num arrival lastSeen t =
     (if lastSeen \<noteq> 0 \<and> num \<le> lastSeen then (lastSeen, t, [], [])
      else
        let gap = (if lastSeen \<noteq> 0 \<and> lastSeen + 1 < num
                   then [metric_int ''block_gaps'' (sint (num - lastSeen - 1)) [(''chain_id'', it_seiChainID t)]]
                   else []);
            (t', stamped, out) = matchBlock source num arrival t
        in (num, t', stamped, gap @ out))"

text \<open>
  The loop of \<open>reap\<close> ranges over the map in an order the runtime chooses; the order is an
  argument here.
\<close>

fun reap_loop :: "instant \<Rightarrow> tx_hash list \<Rightarrow> inclusion_state \<Rightarrow> inclusion_state \<times> tx_scenario list" where
  "reap_loop cutoff [] s = (s, [])"
| "reap_loop cutoff (h # hs) s =
     (case inflight s h of
        None \<Rightarrow> reap_loop cutoff hs s
      | Some e \<Rightarrow>
          if cutoff < e_registeredAt e then reap_loop cutoff hs s
          else let s' = s\<lparr>inflight := (inflight s)(h := None), expired := expired s + 1\<rparr>;
                   (s'', out) = reap_loop cutoff hs s'
               in (s'', lt_scenario (e_tx e) # out))"

definition reap :: "instant \<Rightarrow> tx_hash list \<Rightarrow> inclusion_tracker \<Rightarrow> inclusion_tracker \<times> metric list" where
  "reap now order t =
     (let cutoff = now - reapAfter t;
          (s, gone) = reap_loop cutoff order (it_state t)
      in (t\<lparr>it_state := s\<rparr>, map (\<lambda>sc. recordOutcome ''expired'' sc t) gone))"

record inclusion_summary =
  sum_Included :: u64
  sum_Expired :: u64
  sum_DroppedAtCap :: u64
  sum_InflightAtShutdown :: u64

definition Summary :: "inclusion_tracker \<Rightarrow> inclusion_summary \<times> inclusion_tracker" where
  "Summary t =
     (let s = it_state t;
          s = s\<lparr>inflightAtShutdown := of_nat (inflight_len s)\<rparr>
      in (\<lparr>sum_Included = included s, sum_Expired = expired s, sum_DroppedAtCap = droppedAtCap s,
           sum_InflightAtShutdown = inflightAtShutdown s\<rparr>, t\<lparr>it_state := s\<rparr>))"

subsection \<open>Conservation\<close>

definition wf_inclusion :: "inclusion_tracker \<Rightarrow> bool" where
  "wf_inclusion t \<longleftrightarrow> finite (dom (inflight (it_state t))) \<and> int (inflight_len (it_state t)) \<le> maxInflight t \<and>
     0 < maxInflight t \<and> 0 < reapAfter t"

text \<open>\<open>tally\<close> is what the conservation identity says was registered.\<close>

definition tally :: "inclusion_state \<Rightarrow> u64" where
  "tally s = included s + expired s + of_nat (inflight_len s)"

lemma wf_inclusion_new [simp]: "wf_inclusion (NewInclusionTracker chain reap_after cap ol)"
  by (auto simp: wf_inclusion_def NewInclusionTracker_def Let_def inflight_len_def
      defaultMaxInflight_def defaultInclusionReapAfter_def)

lemma tally_remove:
  assumes "finite (dom (inflight s))" "inflight s h \<noteq> None"
  shows "tally (s\<lparr>inflight := (inflight s)(h := None), included := included s + 1\<rparr>) = tally s"
    and "tally (s\<lparr>inflight := (inflight s)(h := None), expired := expired s + 1\<rparr>) = tally s"
proof -
  have h: "h \<in> dom (inflight s)" using assms(2) by auto
  have n: "card (dom (inflight s)) = Suc (card (dom ((inflight s)(h := None))))"
    using card_dom_del [OF assms(1) h] by simp
  show "tally (s\<lparr>inflight := (inflight s)(h := None), included := included s + 1\<rparr>) = tally s"
    "tally (s\<lparr>inflight := (inflight s)(h := None), expired := expired s + 1\<rparr>) = tally s"
    by (simp_all add: tally_def inflight_len_def n del: dom_fun_upd)
qed

definition admits :: "inclusion_tracker \<Rightarrow> bool" where
  "admits t \<longleftrightarrow> int (inflight_len (it_state t)) < maxInflight t"

lemma Register_tally:
  assumes "finite (dom (inflight (it_state t)))"
  shows "tally (it_state (fst (Register hash now tx t))) =
    tally (it_state t) + (if admits t \<and> inflight (it_state t) (hash (lt_tx tx)) = None then 1 else 0)"
  using card_dom_upd [OF assms, of "hash (lt_tx tx)" "\<lparr>e_tx = tx, e_registeredAt = now\<rparr>"]
  by (auto simp: Register_def Let_def admits_def tally_def inflight_len_def domIff simp del: dom_fun_upd)

lemma Register_wf [inv_intros]: "wf_inclusion t \<Longrightarrow> wf_inclusion (fst (Register hash now tx t))"
  by (auto simp: wf_inclusion_def Register_def Let_def inflight_len_def insert_absorb card_insert_if)

text \<open>One pass of either loop: what it removes, counts and returns.\<close>

lemma match_loop_Cons:
  "inflight s h = None \<Longrightarrow> match_loop ol a (h # hs) s = match_loop ol a hs s"
  "inflight s h = Some e \<Longrightarrow> fst (match_loop ol a (h # hs) s) =
     fst (match_loop ol a hs (s\<lparr>inflight := (inflight s)(h := None), included := included s + 1\<rparr>))"
  "inflight s h = Some e \<Longrightarrow> fst (snd (match_loop ol a (h # hs) s)) = (e_tx e)\<lparr>lt_inclusion := a\<rparr> #
     fst (snd (match_loop ol a hs (s\<lparr>inflight := (inflight s)(h := None), included := included s + 1\<rparr>)))"
  by (simp_all add: Let_def split: prod.split)

lemma match_loop_inflight:
  "inflight (fst (match_loop ol a hs s)) = (\<lambda>h. if h \<in> set hs then None else inflight s h)"
proof (induction hs arbitrary: s)
  case (Cons h hs)
  show ?case
    by (cases "inflight s h") (auto simp: match_loop_Cons Cons.IH fun_eq_iff simp del: match_loop.simps)
qed simp

lemma match_loop_tally:
  "finite (dom (inflight s)) \<Longrightarrow> tally (fst (match_loop ol a hs s)) = tally s \<and>
    expired (fst (match_loop ol a hs s)) = expired s \<and> droppedAtCap (fst (match_loop ol a hs s)) = droppedAtCap s"
proof (induction hs arbitrary: s)
  case (Cons h hs)
  show ?case
    using Cons.IH [of s] Cons.prems tally_remove(1) [OF Cons.prems, of h]
      Cons.IH [of "s\<lparr>inflight := (inflight s)(h := None), included := included s + 1\<rparr>"]
    by (cases "inflight s h") (simp_all add: match_loop_Cons del: match_loop.simps fun_upd_apply)
qed simp

lemma match_loop_stamped:
  "finite (dom (inflight s)) \<Longrightarrow>
     set (fst (snd (match_loop ol a hs s))) = {(e_tx e)\<lparr>lt_inclusion := a\<rparr> | e h. h \<in> set hs \<and> inflight s h = Some e} \<and>
     length (fst (snd (match_loop ol a hs s))) = card (set hs \<inter> dom (inflight s)) \<and>
     included (fst (match_loop ol a hs s)) = included s + of_nat (length (fst (snd (match_loop ol a hs s))))"
proof (induction hs arbitrary: s)
  case (Cons h hs)
  show ?case
  proof (cases "inflight s h")
    case None
    then have "set (h # hs) \<inter> dom (inflight s) = set hs \<inter> dom (inflight s)" by auto
    then show ?thesis using Cons.IH [OF Cons.prems] None
      by (auto simp: match_loop_Cons simp del: match_loop.simps)
  next
    case (Some e)
    let ?s = "s\<lparr>inflight := (inflight s)(h := None), included := included s + 1\<rparr>"
    have fin: "finite (dom (inflight ?s))" using Cons.prems by simp
    have d: "set (h # hs) \<inter> dom (inflight s) = insert h (set hs \<inter> dom (inflight ?s))"
      using Some by auto
    have c: "card (set (h # hs) \<inter> dom (inflight s)) = Suc (card (set hs \<inter> dom (inflight ?s)))"
      unfolding d by (subst card_insert_disjoint) auto
    have e: "{(e_tx e)\<lparr>lt_inclusion := a\<rparr> | e h'. h' \<in> set (h # hs) \<and> inflight s h' = Some e} =
        insert ((e_tx e)\<lparr>lt_inclusion := a\<rparr>)
          {(e_tx e)\<lparr>lt_inclusion := a\<rparr> | e h'. h' \<in> set hs \<and> inflight ?s h' = Some e}"
      using Some by auto (metis option.inject)+
    show ?thesis using Cons.IH [OF fin] Some c e
      by (simp add: match_loop_Cons del: match_loop.simps dom_fun_upd fun_upd_apply)
  qed
qed simp

lemma reap_loop_Cons:
  "inflight s h = None \<Longrightarrow> reap_loop cutoff (h # hs) s = reap_loop cutoff hs s"
  "inflight s h = Some e \<Longrightarrow> cutoff < e_registeredAt e \<Longrightarrow> reap_loop cutoff (h # hs) s = reap_loop cutoff hs s"
  "inflight s h = Some e \<Longrightarrow> \<not> cutoff < e_registeredAt e \<Longrightarrow> fst (reap_loop cutoff (h # hs) s) =
     fst (reap_loop cutoff hs (s\<lparr>inflight := (inflight s)(h := None), expired := expired s + 1\<rparr>))"
  "inflight s h = Some e \<Longrightarrow> \<not> cutoff < e_registeredAt e \<Longrightarrow> length (snd (reap_loop cutoff (h # hs) s)) =
     Suc (length (snd (reap_loop cutoff hs (s\<lparr>inflight := (inflight s)(h := None), expired := expired s + 1\<rparr>))))"
  by (simp_all split: prod.split)

definition stale :: "instant \<Rightarrow> inclusion_state \<Rightarrow> tx_hash \<Rightarrow> bool" where
  "stale cutoff s h \<longleftrightarrow> (case inflight s h of None \<Rightarrow> False | Some e \<Rightarrow> e_registeredAt e \<le> cutoff)"

lemma reap_loop_inflight:
  "inflight (fst (reap_loop cutoff hs s)) = (\<lambda>h. if h \<in> set hs \<and> stale cutoff s h then None else inflight s h)"
proof (induction hs arbitrary: s)
  case (Cons h hs)
  consider (none) "inflight s h = None" | (young) e where "inflight s h = Some e" "cutoff < e_registeredAt e"
    | (old) e where "inflight s h = Some e" "\<not> cutoff < e_registeredAt e" by (cases "inflight s h") auto
  then show ?case
    by cases (auto simp: reap_loop_Cons Cons.IH fun_eq_iff stale_def simp del: reap_loop.simps)
qed simp

lemma reap_loop_tally:
  "finite (dom (inflight s)) \<Longrightarrow> tally (fst (reap_loop cutoff hs s)) = tally s \<and>
    included (fst (reap_loop cutoff hs s)) = included s \<and>
    droppedAtCap (fst (reap_loop cutoff hs s)) = droppedAtCap s \<and>
    expired (fst (reap_loop cutoff hs s)) = expired s + of_nat (length (snd (reap_loop cutoff hs s)))"
proof (induction hs arbitrary: s)
  case (Cons h hs)
  consider (none) "inflight s h = None" | (young) e where "inflight s h = Some e" "cutoff < e_registeredAt e"
    | (old) e where "inflight s h = Some e" "\<not> cutoff < e_registeredAt e" by (cases "inflight s h") auto
  then show ?case
  proof cases
    case old
    show ?thesis
      using old Cons.IH [of "s\<lparr>inflight := (inflight s)(h := None), expired := expired s + 1\<rparr>"] Cons.prems
        tally_remove(2) [OF Cons.prems, of h]
      by (simp add: reap_loop_Cons del: reap_loop.simps dom_fun_upd fun_upd_apply)
  qed (use Cons in \<open>auto simp: reap_loop_Cons simp del: reap_loop.simps\<close>)
qed simp

text \<open>The operations of the tracker against the tally.\<close>

lemma matchBlock_state:
  "it_state (fst (matchBlock source num a t)) = (case source num of Inl err \<Rightarrow> it_state t
     | Inr hs \<Rightarrow> fst (match_loop (openLoop t) a hs (it_state t)))"
  "maxInflight (fst (matchBlock source num a t)) = maxInflight t"
  "reapAfter (fst (matchBlock source num a t)) = reapAfter t"
  by (simp_all add: matchBlock_def split: sum.split prod.split)

lemma reap_state:
  "it_state (fst (reap now order t)) = fst (reap_loop (now - reapAfter t) order (it_state t))"
  "maxInflight (fst (reap now order t)) = maxInflight t" "reapAfter (fst (reap now order t)) = reapAfter t"
  by (simp_all add: reap_def Let_def split: prod.split)

lemma inflight_len_mono: "finite (dom (inflight s)) \<Longrightarrow> dom (inflight s') \<subseteq> dom (inflight s) \<Longrightarrow>
    inflight_len s' \<le> inflight_len s"
  by (simp add: inflight_len_def card_mono)

lemma wf_inclusion_shrink:
  assumes "wf_inclusion t" "dom (inflight (it_state t')) \<subseteq> dom (inflight (it_state t))"
    "maxInflight t' = maxInflight t" "reapAfter t' = reapAfter t"
  shows "wf_inclusion t'"
  using assms inflight_len_mono [OF _ assms(2)]
  by (auto simp: wf_inclusion_def intro: finite_subset)

lemma matchBlock_wf [inv_intros]: "wf_inclusion t \<Longrightarrow> wf_inclusion (fst (matchBlock source num a t))"
  by (rule wf_inclusion_shrink)
    (auto simp: matchBlock_state match_loop_inflight split: sum.splits if_splits)

lemma reap_wf [inv_intros]: "wf_inclusion t \<Longrightarrow> wf_inclusion (fst (reap now order t))"
  by (rule wf_inclusion_shrink) (auto simp: reap_state reap_loop_inflight split: if_splits)

lemma matchBlock_tally: "wf_inclusion t \<Longrightarrow>
    tally (it_state (fst (matchBlock source num a t))) = tally (it_state t)"
  by (auto simp: matchBlock_state wf_inclusion_def match_loop_tally split: sum.split)

lemma reap_tally: "wf_inclusion t \<Longrightarrow> tally (it_state (fst (reap now order t))) = tally (it_state t)"
  by (auto simp: reap_state wf_inclusion_def reap_loop_tally)

subsection \<open>Runs of the tracker\<close>

datatype inclusion_op =
    OpRegister instant load_tx
  | OpHead u64 instant
  | OpReap instant "tx_hash list"

record tracker_run =
  run_tracker :: inclusion_tracker
  run_lastSeen :: u64
  run_registered :: u64
  run_matched :: "u64 list"
  run_stamped :: "load_tx list"

text \<open>
  One critical section of the running tracker. The counters beside the tracker are the
  observer's: the fresh registrations it admitted, the heights it fetched, what it stamped.
\<close>

fun run_op ::
  "(eth_tx \<Rightarrow> tx_hash) \<Rightarrow> (u64 \<Rightarrow> go_error + tx_hash list) \<Rightarrow> inclusion_op \<Rightarrow> tracker_run \<Rightarrow> tracker_run" where
  "run_op hash source (OpRegister now tx) r =
     (let t = run_tracker r in
      r\<lparr>run_tracker := fst (Register hash now tx t),
        run_registered := run_registered r +
          (if admits t \<and> inflight (it_state t) (hash (lt_tx tx)) = None then 1 else 0)\<rparr>)"
| "run_op hash source (OpHead num arrival) r =
     (case processHead source num arrival (run_lastSeen r) (run_tracker r) of
        (last', t', st, out) \<Rightarrow>
          r\<lparr>run_tracker := t', run_lastSeen := last',
            run_matched := run_matched r @
              (if run_lastSeen r \<noteq> 0 \<and> num \<le> run_lastSeen r then [] else [num]),
            run_stamped := run_stamped r @ st\<rparr>)"
| "run_op hash source (OpReap now order) r =
     r\<lparr>run_tracker := fst (reap now order (run_tracker r))\<rparr>"

definition run_start :: "inclusion_tracker \<Rightarrow> tracker_run" where
  "run_start t = \<lparr>run_tracker = t, run_lastSeen = 0, run_registered = 0, run_matched = [], run_stamped = []\<rparr>"

definition run_inv :: "tracker_run \<Rightarrow> bool" where
  "run_inv r \<longleftrightarrow> wf_inclusion (run_tracker r) \<and> tally (it_state (run_tracker r)) = run_registered r"

lemma run_op_inv [inv_intros]: "run_inv r \<Longrightarrow> run_inv (run_op hash source op r)"
proof (cases op)
  case (OpRegister now tx)
  assume inv: "run_inv r"
  then show ?thesis
    using Register_tally [of "run_tracker r" hash now tx] Register_wf [of "run_tracker r" hash now tx] OpRegister
    by (auto simp: run_inv_def Let_def wf_inclusion_def)
next
  case (OpHead num arrival)
  assume inv: "run_inv r"
  then show ?thesis
    using OpHead matchBlock_wf [of "run_tracker r" source num arrival]
      matchBlock_tally [of "run_tracker r" source num arrival]
    by (auto simp: run_inv_def processHead_def Let_def split: prod.splits if_splits)
next
  case (OpReap now order)
  assume "run_inv r"
  with OpReap show ?thesis by (auto simp: run_inv_def reap_wf reap_tally)
qed

lemma runs_inv: "run_inv r \<Longrightarrow> run_inv (fold (run_op hash source) ops r)"
  by (induction ops arbitrary: r) (auto intro: run_op_inv)

lemma run_inv_start: "wf_inclusion t \<Longrightarrow> tally (it_state t) = 0 \<Longrightarrow> run_inv (run_start t)"
  by (simp add: run_inv_def run_start_def)

lemma tally_new [simp]: "tally (it_state (NewInclusionTracker chain reap_after cap ol)) = 0"
  by (simp add: tally_def NewInclusionTracker_def Let_def inflight_len_def)

text \<open>The heights fetched grow strictly, once the first is not zero.\<close>

definition heads_inv :: "tracker_run \<Rightarrow> bool" where
  "heads_inv r \<longleftrightarrow> sorted_wrt (<) (run_matched r) \<and>
     (run_lastSeen r = 0 \<longrightarrow> run_matched r = []) \<and> (run_matched r \<noteq> [] \<longrightarrow> last (run_matched r) = run_lastSeen r)"

lemma sorted_wrt_less_snoc:
  "sorted_wrt (<) xs \<Longrightarrow> (xs \<noteq> [] \<Longrightarrow> last xs < (x :: u64)) \<Longrightarrow> sorted_wrt (<) (xs @ [x])"
proof (cases xs rule: rev_cases)
  case (snoc ys z)
  assume "sorted_wrt (<) xs" "xs \<noteq> [] \<Longrightarrow> last xs < x"
  then have z: "z < x" "\<And>y. y \<in> set ys \<Longrightarrow> y < z" "sorted_wrt (<) ys"
    using snoc by (auto simp: sorted_wrt_append)
  have "y < x" if "y \<in> set ys" for y by (rule order_less_trans [OF z(2) [OF that] z(1)])
  then show ?thesis using snoc z by (simp add: sorted_wrt_append)
qed simp

lemma heads_inv_op:
  assumes "heads_inv r" "\<And>num arrival. op = OpHead num arrival \<Longrightarrow> num \<noteq> 0"
  shows "heads_inv (run_op hash source op r)"
proof (cases op)
  case (OpHead num arrival)
  show ?thesis
  proof (cases "run_lastSeen r \<noteq> 0 \<and> num \<le> run_lastSeen r")
    case True
    then show ?thesis using assms(1) OpHead by (simp add: processHead_def heads_inv_def)
  next
    case False
    have "run_matched r \<noteq> [] \<Longrightarrow> last (run_matched r) < num"
      using assms(1) False by (auto simp: heads_inv_def)
    then have "sorted_wrt (<) (run_matched r @ [num])"
      using assms(1) sorted_wrt_less_snoc by (simp add: heads_inv_def)
    then show ?thesis using assms(2) [OF OpHead] False OpHead
      by (auto simp: processHead_def heads_inv_def Let_def split: prod.split)
  qed
qed (use assms(1) in \<open>auto simp: heads_inv_def Let_def\<close>)

end
