(* ===== verification/Sender.thy ===== *)
theory Sender
  imports TxsQueue EthClient Inclusion
begin

text \<open>
  \<open>ShardedSender\<close> (\<open>sender/sharded_sender.go\<close>): one dispatcher that pops ready transactions and
  spawns a goroutine for each, which signs, sends, and reports back to the queue. The
  system is a step relation; a step is one critical section or one call to the outside.
\<close>

subsection \<open>Nonce lookup\<close>

text \<open>One round of \<open>getNonce\<close>: the context, the rate limiter and the node as that round finds them.\<close>

record nonce_round =
  nr_ctx :: "go_error option"
  nr_wait :: "go_error option"
  nr_nonce :: "nat \<Rightarrow> address \<Rightarrow> go_error + u64"

fun getNonce :: "nat \<Rightarrow> address \<Rightarrow> nonce_round list \<Rightarrow> u64 outcome waiting" where
  "getNonce clients addr [] = Waits"
| "getNonce clients addr (r # rs) =
     (case nr_ctx r of
        Some e \<Rightarrow> Returned (Err e)
      | None \<Rightarrow>
          (case nr_wait r of
             Some e \<Rightarrow> Returned (Err e)
           | None \<Rightarrow>
               (case client_Nonce clients (nr_nonce r) addr of
                  Panic m \<Rightarrow> Returned (Panic m)
                | Err e \<Rightarrow> Returned (Err e)
                | Ok (Inl e) \<Rightarrow> getNonce clients addr rs
                | Ok (Inr nonce) \<Rightarrow> Returned (Ok nonce))))"

text \<open>Nothing is looked up once the context has ended, and a lookup that succeeds ends the loop.\<close>

lemma getNonce_canceled: "nr_ctx r = Some e \<Longrightarrow> getNonce clients addr (r # rs) = Returned (Err e)"
  by simp

lemma getNonce_eventually:
  assumes "0 < clients" "\<forall>r \<in> set rs. nr_ctx r = None \<and> nr_wait r = None"
    "\<exists>r \<in> set rs. \<exists>n. nr_nonce r (clientID clients addr) addr = Inr n"
  shows "\<exists>r \<in> set rs. \<exists>n. nr_nonce r (clientID clients addr) addr = Inr n \<and>
    getNonce clients addr rs = Returned (Ok n)"
  using assms(2,3)
proof (induction rs)
  case (Cons r rs)
  have i: "clientID clients addr < clients" using assms(1) by (rule clientID_less)
  show ?case
  proof (cases "nr_nonce r (clientID clients addr) addr")
    case (Inl e)
    then have "getNonce clients addr (r # rs) = getNonce clients addr rs"
      using Cons.prems i by (simp add: client_Nonce_def Let_def)
    with Cons Inl show ?thesis by (metis Inl_Inr_False list.set_intros(2) set_ConsD)
  next
    case (Inr n)
    then show ?thesis using Cons.prems i by (auto simp: client_Nonce_def Let_def)
  qed
qed simp

lemma getNonce_no_panic: "0 < clients \<Longrightarrow> getNonce clients addr rs \<noteq> Returned (Panic m)"
proof (induction rs)
  case (Cons r rs)
  then show ?case
    using clientID_less [OF Cons.prems, of addr]
    by (auto simp: client_Nonce_def Let_def split: option.splits sum.splits)
qed simp

subsection \<open>State\<close>

record sender_env =
  se_client :: eth_client_config
  se_clients :: nat
  se_procs :: nat
  se_hash :: "eth_tx \<Rightarrow> tx_hash"
  se_sign :: "eth_tx \<Rightarrow> priv_key option \<Rightarrow> go_error + eth_tx"

text \<open>
  Where a goroutine stands: waiting for the signing semaphore, signing, sending, and then on
  the way of a success (register, pop) or of a failure (pop, or look up the nonce and reset).
\<close>

datatype stage =
    AtAcquire
  | AtSign
  | AtSend
  | AtRegister
  | AtPopSent
  | AtPopFailed
  | AtGetNonce
  | AtReset u64

record task =
  t_addr :: address
  t_tx :: load_tx
  t_stage :: stage

text \<open>
  \<open>ss_dead\<close> lists the accounts whose goroutine returned an error; their transactions stay
  where they are, since the scope then ends the run. \<open>ss_error\<close> is the first error.
\<close>

record sender_state =
  ss_queue :: txs_queue
  ss_collector :: collector
  ss_inclusion :: "inclusion_tracker option"
  ss_permits :: nat
  ss_tasks :: "task list"
  ss_dead :: "address list"
  ss_error :: "go_error option"
  ss_running :: bool

definition NewShardedSender :: "sender_env \<Rightarrow> int \<Rightarrow> collector \<Rightarrow> inclusion_tracker option \<Rightarrow> sender_state" where
  "NewShardedSender env max_in_flight col inc =
     \<lparr>ss_queue = NewTxsQueue max_in_flight, ss_collector = col, ss_inclusion = inc,
      ss_permits = se_procs env, ss_tasks = [], ss_dead = [], ss_error = None, ss_running = True\<rparr>"

text \<open>The head of \<open>Run\<close>: no endpoints is an error unless the run is dry.\<close>

definition Run_guard :: "eth_client_config \<Rightarrow> unit outcome" where
  "Run_guard cfg =
     (if Endpoints cfg = [] \<and> \<not> DryRun cfg then Err (Errorf ''no endpoints configured'') else Ok ())"

definition task_fails :: "go_error \<Rightarrow> task list \<Rightarrow> task \<Rightarrow> task list \<Rightarrow> sender_state \<Rightarrow> sender_state" where
  "task_fails e ts1 t ts2 s =
     s\<lparr>ss_tasks := ts1 @ ts2, ss_dead := ss_dead s @ [t_addr t],
       ss_error := (case ss_error s of None \<Rightarrow> Some e | Some e' \<Rightarrow> Some e')\<rparr>"

definition after_send :: "go_error option \<Rightarrow> load_tx \<Rightarrow> stage" where
  "after_send err tx =
     (case err of None \<Rightarrow> AtRegister | Some e \<Rightarrow> if \<not> tracked_of tx then AtPopFailed else AtGetNonce)"

definition register_inclusion ::
  "sender_env \<Rightarrow> instant \<Rightarrow> load_tx \<Rightarrow> inclusion_tracker option \<Rightarrow> inclusion_tracker option" where
  "register_inclusion env now tx inc =
     (case inc of None \<Rightarrow> None | Some t \<Rightarrow> Some (fst (Register (se_hash env) now tx t)))"

subsection \<open>Steps\<close>

inductive sender_step :: "sender_env \<Rightarrow> sender_state \<Rightarrow> sender_state \<Rightarrow> bool" for env where
  st_Push: "has_room (ss_queue s) \<Longrightarrow> push_bounded tx (ss_queue s) \<Longrightarrow>
     sender_step env s (s\<lparr>ss_queue := Push_locked tx (ss_queue s)\<rparr>)"
| st_Dispatch: "ss_running s \<Longrightarrow> has_ready (ss_queue s) \<Longrightarrow> PopReady_locked (ss_queue s) = Ok (Some tx, q) \<Longrightarrow>
     sender_step env s (s\<lparr>ss_queue := q,
       ss_tasks := ss_tasks s @ [\<lparr>t_addr = sender_of tx, t_tx = tx, t_stage = AtAcquire\<rparr>]\<rparr>)"
| st_Stop: "ss_running s \<Longrightarrow>
     sender_step env s (s\<lparr>ss_running := False,
       ss_error := (case ss_error s of None \<Rightarrow> Some e | Some e' \<Rightarrow> Some e')\<rparr>)"
| st_Acquire: "ss_tasks s = ts1 @ t # ts2 \<Longrightarrow> t_stage t = AtAcquire \<Longrightarrow> ss_permits s = Suc p \<Longrightarrow>
     sender_step env s (s\<lparr>ss_permits := p, ss_tasks := ts1 @ t\<lparr>t_stage := AtSign\<rparr> # ts2\<rparr>)"
| st_AcquireFail: "ss_tasks s = ts1 @ t # ts2 \<Longrightarrow> t_stage t = AtAcquire \<Longrightarrow>
     sender_step env s (task_fails e ts1 t ts2 s)"
| st_Sign: "ss_tasks s = ts1 @ t # ts2 \<Longrightarrow> t_stage t = AtSign \<Longrightarrow>
     se_sign env (lt_tx (t_tx t)) (acc_priv (ts_sender (lt_scenario (t_tx t)))) = Inr stx \<Longrightarrow>
     sender_step env s (s\<lparr>ss_permits := ss_permits s + 1,
       ss_tasks := ts1 @ t\<lparr>t_tx := (t_tx t)\<lparr>lt_tx := stx\<rparr>, t_stage := AtSend\<rparr> # ts2\<rparr>)"
| st_SignFail: "ss_tasks s = ts1 @ t # ts2 \<Longrightarrow> t_stage t = AtSign \<Longrightarrow>
     se_sign env (lt_tx (t_tx t)) (acc_priv (ts_sender (lt_scenario (t_tx t)))) = Inl e \<Longrightarrow>
     sender_step env s (task_fails (Wrap ''sign tx'' e) ts1 t ts2 (s\<lparr>ss_permits := ss_permits s + 1\<rparr>))"
| st_Send: "ss_tasks s = ts1 @ t # ts2 \<Longrightarrow> t_stage t = AtSend \<Longrightarrow>
     client_Send (se_client env) (se_clients env) io (t_tx t) (ss_collector s) = Ok (err, tx', col', ms) \<Longrightarrow>
     sender_step env s (s\<lparr>ss_collector := col',
       ss_tasks := ts1 @ t\<lparr>t_tx := tx', t_stage := after_send err tx'\<rparr> # ts2\<rparr>)"
| st_Register: "ss_tasks s = ts1 @ t # ts2 \<Longrightarrow> t_stage t = AtRegister \<Longrightarrow>
     sender_step env s (s\<lparr>ss_inclusion := register_inclusion env now (t_tx t) (ss_inclusion s),
       ss_tasks := ts1 @ t\<lparr>t_stage := AtPopSent\<rparr> # ts2\<rparr>)"
| st_PopSent: "ss_tasks s = ts1 @ t # ts2 \<Longrightarrow> t_stage t = AtPopSent \<or> t_stage t = AtPopFailed \<Longrightarrow>
     queue_can_push (readyq (ss_queue s)) \<Longrightarrow>
     sender_step env s (s\<lparr>ss_queue := PopSent (t_addr t) (ss_queue s), ss_tasks := ts1 @ ts2\<rparr>)"
| st_GetNonce: "ss_tasks s = ts1 @ t # ts2 \<Longrightarrow> t_stage t = AtGetNonce \<Longrightarrow>
     getNonce (se_clients env) (t_addr t) rounds = Returned (Ok nonce) \<Longrightarrow>
     sender_step env s (s\<lparr>ss_tasks := ts1 @ t\<lparr>t_stage := AtReset nonce\<rparr> # ts2\<rparr>)"
| st_GetNonceFail: "ss_tasks s = ts1 @ t # ts2 \<Longrightarrow> t_stage t = AtGetNonce \<Longrightarrow>
     getNonce (se_clients env) (t_addr t) rounds = Returned (Err e) \<Longrightarrow>
     sender_step env s (task_fails e ts1 t ts2 s)"
| st_Reset: "ss_tasks s = ts1 @ t # ts2 \<Longrightarrow> t_stage t = AtReset nonce \<Longrightarrow>
     sender_step env s (s\<lparr>ss_queue := Reset (t_addr t) nonce (ss_queue s), ss_tasks := ts1 @ ts2\<rparr>)"

inductive_cases sender_stepE: "sender_step env s s'"

subsection \<open>Invariant\<close>

text \<open>The signature of a transaction does not change its nonce: what \<open>types.SignTx\<close> documents.\<close>

definition signer_ok :: "sender_env \<Rightarrow> bool" where
  "signer_ok env \<longleftrightarrow> (\<forall>tx k stx. se_sign env tx k = Inr stx \<longrightarrow> et_nonce stx = et_nonce tx)"

definition owners :: "sender_state \<Rightarrow> address list" where
  "owners s = map t_addr (ss_tasks s) @ ss_dead s"

definition task_ok :: "txs_queue \<Rightarrow> task \<Rightarrow> bool" where
  "task_ok q t \<longleftrightarrow> pending q (t_addr t) \<noteq> [] \<and> sender_of (t_tx t) = t_addr t \<and>
     nonce_of (t_tx t) = nonce_of (hd (pending q (t_addr t)))"

definition signing :: "sender_state \<Rightarrow> nat" where
  "signing s = length (filter (\<lambda>t. t_stage t = AtSign) (ss_tasks s))"

definition sender_inv :: "sender_env \<Rightarrow> sender_state \<Rightarrow> bool" where
  "sender_inv env s \<longleftrightarrow>
     tq.owned (ss_queue s) (owners s) \<and> (\<forall>t \<in> set (ss_tasks s). task_ok (ss_queue s) t) \<and>
     ss_permits s + signing s = se_procs env \<and> len_txs (ss_queue s) \<le> capacity (ss_queue s)"

lemma sender_inv_new: "0 \<le> cap \<Longrightarrow> sender_inv env (NewShardedSender env cap col inc)"
  by (simp add: sender_inv_def NewShardedSender_def owners_def tq.owned_def signing_def)

lemma sender_inv_owned: "sender_inv env s \<Longrightarrow> tq.owned (ss_queue s) (owners s)"
  by (simp add: sender_inv_def)

lemma sender_inv_wf: "sender_inv env s \<Longrightarrow> wf_queue (ss_queue s)"
  using tq.ownedD(1) sender_inv_owned by blast

lemma sender_inv_task: "sender_inv env s \<Longrightarrow> t \<in> set (ss_tasks s) \<Longrightarrow> task_ok (ss_queue s) t"
  by (simp add: sender_inv_def)

text \<open>A change of the queue that leaves the head of an account leaves its task in order.\<close>

lemma task_ok_frame:
  "task_ok q t \<Longrightarrow> pending q' (t_addr t) \<noteq> [] \<Longrightarrow> hd (pending q' (t_addr t)) = hd (pending q (t_addr t)) \<Longrightarrow>
   task_ok q' t"
  by (simp add: task_ok_def)

lemma task_ok_Push:
  assumes "wf_queue q" "push_bounded tx q" "task_ok q t"
  shows "task_ok (Push_locked tx q) t"
  using assms pending_Push_locked [OF assms(1,2)]
  by (auto simp: task_ok_def)

text \<open>Replacing a goroutine by its next stage, or ending it.\<close>

lemma owners_replace:
  "ss_tasks s = ts1 @ t # ts2 \<Longrightarrow> ss_tasks s' = ts1 @ t' # ts2 \<Longrightarrow> t_addr t' = t_addr t \<Longrightarrow>
   ss_dead s' = ss_dead s \<Longrightarrow> owners s' = owners s"
  by (simp add: owners_def)

lemma owners_split:
  "ss_tasks s = ts1 @ t # ts2 \<Longrightarrow> owners s = map t_addr ts1 @ t_addr t # (map t_addr ts2 @ ss_dead s)"
  by (simp add: owners_def)

lemma owned_perm: "tq.owned q as \<Longrightarrow> mset as = mset bs \<Longrightarrow> tq.owned q bs"
  unfolding tq.owned_def by (metis mset_eq_imp_distinct_iff mset_eq_setD)

lemma task_moves:
  assumes inv: "sender_inv env s" and ts: "ss_tasks s = ts1 @ t # ts2"
    and s': "ss_tasks s' = ts1 @ t' # ts2" "ss_queue s' = ss_queue s" "ss_dead s' = ss_dead s"
    and t': "t_addr t' = t_addr t" "sender_of (t_tx t') = sender_of (t_tx t)" "nonce_of (t_tx t') = nonce_of (t_tx t)"
    and p: "ss_permits s' + (if t_stage t' = AtSign then 1 else 0) =
      ss_permits s + (if t_stage t = AtSign then 1 else 0)"
  shows "sender_inv env s'"
proof -
  have "owners s' = owners s" by (rule owners_replace [OF ts s'(1) t'(1) s'(3)])
  moreover have "task_ok (ss_queue s) t'"
    using sender_inv_task [OF inv, of t] ts t' by (simp add: task_ok_def)
  moreover have "ss_permits s' + signing s' = ss_permits s + signing s"
    using p by (simp add: signing_def ts s'(1) split: if_splits)
  ultimately show ?thesis using inv by (auto simp: sender_inv_def s' ts)
qed

lemma task_fails_inv:
  assumes inv: "sender_inv env s" and ts: "ss_tasks s = ts1 @ t # ts2"
    and p: "n = (if t_stage t = AtSign then 1 else 0)"
  shows "sender_inv env (task_fails e ts1 t ts2 (s\<lparr>ss_permits := ss_permits s + n\<rparr>))"
proof -
  have "tq.owned (ss_queue s) (owners (task_fails e ts1 t ts2 (s\<lparr>ss_permits := ss_permits s + n\<rparr>)))"
    by (rule owned_perm [OF sender_inv_owned [OF inv]]) (simp add: owners_def task_fails_def ts)
  then show ?thesis using inv p
    by (auto simp: sender_inv_def task_fails_def ts signing_def)
qed

lemma task_fails_inv0:
  "sender_inv env s \<Longrightarrow> ss_tasks s = ts1 @ t # ts2 \<Longrightarrow> t_stage t \<noteq> AtSign \<Longrightarrow>
   sender_inv env (task_fails e ts1 t ts2 s)"
  using task_fails_inv [of env s ts1 t ts2 0 e] by simp

text \<open>The goroutine ends with \<open>PopSent\<close> or \<open>Reset\<close>: the queue keeps the fronts of the others.\<close>

lemma task_ends:
  assumes inv: "sender_inv env s" and ts: "ss_tasks s = ts1 @ t # ts2" and st: "t_stage t \<noteq> AtSign"
    and own: "tq.owned q (map t_addr ts1 @ map t_addr ts2 @ ss_dead s)"
    and pend: "\<And>a. a \<noteq> t_addr t \<Longrightarrow> pending q a = pending (ss_queue s) a"
    and len: "len_txs q \<le> len_txs (ss_queue s)" and cap: "capacity q = capacity (ss_queue s)"
  shows "sender_inv env (s\<lparr>ss_queue := q, ss_tasks := ts1 @ ts2\<rparr>)"
proof -
  have "distinct (owners s)" using tq.ownedD(2) [OF sender_inv_owned [OF inv]] .
  then have ne: "t_addr u \<noteq> t_addr t" if "u \<in> set (ts1 @ ts2)" for u
    using that by (auto simp: owners_def ts) (metis imageI)+
  have "task_ok q u" if u: "u \<in> set (ts1 @ ts2)" for u
    using sender_inv_task [OF inv, of u] u pend [OF ne [OF u]] by (auto simp: task_ok_def ts)
  then show ?thesis
    using inv own st len cap by (auto simp: sender_inv_def owners_def signing_def ts)
qed

lemma task_busy:
  "sender_inv env s \<Longrightarrow> ss_tasks s = ts1 @ t # ts2 \<Longrightarrow> busy (ss_queue s) (t_addr t)"
  using tq.ownedD(3) [OF sender_inv_owned, of env s "t_addr t"] by (simp add: owners_def)

lemma sender_step_inv:
  assumes step: "sender_step env s s'" and inv: "sender_inv env s" and sig: "signer_ok env"
  shows "sender_inv env s'"
  using step
proof cases
  case (st_Push tx)
  have "len_txs (Push_locked tx (ss_queue s)) \<le> capacity (ss_queue s)"
    using st_Push(2) len_Push_locked [OF sender_inv_wf [OF inv]] by (simp add: has_room_def)
  moreover have "capacity (Push_locked tx (ss_queue s)) = capacity (ss_queue s)"
    using Push_locked_accept(5) Push_locked_reject by metis
  ultimately show ?thesis
    using inv st_Push tq.owned_put task_ok_Push [OF sender_inv_wf [OF inv]]
    by (auto simp: sender_inv_def owners_def signing_def)
next
  case (st_Dispatch tx q)
  note own = sender_inv_owned [OF inv] and wf = sender_inv_wf [OF inv]
  have ne: "ready_list (ss_queue s) \<noteq> []" using st_Dispatch(3) wf by (simp add: has_ready_iff)
  from tq.owned_next [OF own ne] st_Dispatch(4)
  have q: "tq.owned q (sender_of tx # owners s)" "tx = hd (pending (ss_queue s) (sender_of tx))"
    "pending q = pending (ss_queue s)" by auto
  have "sender_of tx \<in> set (ready_list (ss_queue s))"
    using tq.owned_next [OF own ne] st_Dispatch(4) ne by auto
  then have "pending q (sender_of tx) \<noteq> []" using pending_iff [OF wf] q(3) by simp
  then have ok: "task_ok q \<lparr>t_addr = sender_of tx, t_tx = tx, t_stage = AtAcquire\<rparr>"
    using q(2,3) by (auto simp: task_ok_def)
  have "tq.owned q (map t_addr (ss_tasks s) @ sender_of tx # ss_dead s)"
    by (rule owned_perm [OF q(1)]) (simp add: owners_def)
  moreover have "task_ok q u" if "u \<in> set (ss_tasks s)" for u
    using sender_inv_task [OF inv that] by (simp add: task_ok_def q(3))
  moreover have "len_txs q = len_txs (ss_queue s)" "capacity q = capacity (ss_queue s)"
    using PopReady_step [OF wf st_Dispatch(3,4)] by (simp_all add: len_txs_def)
  ultimately show ?thesis using st_Dispatch inv ok
    by (auto simp: sender_inv_def owners_def signing_def)
next
  case (st_Stop e)
  with inv show ?thesis by (simp add: sender_inv_def owners_def signing_def)
next
  case (st_Acquire ts1 t ts2 p)
  show ?thesis by (rule task_moves [OF inv st_Acquire(2), where t' = "t\<lparr>t_stage := AtSign\<rparr>"])
      (simp_all add: st_Acquire)
next
  case (st_AcquireFail ts1 t ts2 e)
  then show ?thesis using task_fails_inv0 [OF inv] by simp
next
  case (st_Sign ts1 t ts2 stx)
  have "et_nonce stx = nonce_of (t_tx t)" using sig st_Sign(4) by (auto simp: signer_ok_def)
  then show ?thesis
    by (intro task_moves [OF inv st_Sign(2),
          where t' = "t\<lparr>t_tx := (t_tx t)\<lparr>lt_tx := stx\<rparr>, t_stage := AtSend\<rparr>"]) (simp_all add: st_Sign)
next
  case (st_SignFail ts1 t ts2 e)
  then show ?thesis using task_fails_inv [OF inv, of ts1 t ts2 1] by simp
next
  case (st_Send ts1 t ts2 io err tx' col' ms)
  from client_Send_keeps [OF st_Send(4)] show ?thesis
    by (intro task_moves [OF inv st_Send(2), where t' = "t\<lparr>t_tx := tx', t_stage := after_send err tx'\<rparr>"])
      (auto simp: st_Send after_send_def split: option.split)
next
  case (st_Register ts1 t ts2 now)
  show ?thesis by (rule task_moves [OF inv st_Register(2), where t' = "t\<lparr>t_stage := AtPopSent\<rparr>"])
      (simp_all add: st_Register)
next
  case (st_PopSent ts1 t ts2)
  note wf = sender_inv_wf [OF inv] and b = task_busy [OF inv st_PopSent(2)]
  have own: "tq.owned (PopSent (t_addr t) (ss_queue s)) (map t_addr ts1 @ map t_addr ts2 @ ss_dead s)"
    by (rule tq.owned_sent [OF sender_inv_owned [OF inv, unfolded owners_split [OF st_PopSent(2)]] st_PopSent(4)])
  show ?thesis unfolding st_PopSent(1)
    by (rule task_ends [OF inv st_PopSent(2) _ own])
      (use st_PopSent(3) PopSent_correct(2) [OF wf b st_PopSent(4)] len_PopSent_le [OF wf] in auto)
next
  case (st_GetNonce ts1 t ts2 rounds nonce)
  show ?thesis by (rule task_moves [OF inv st_GetNonce(2), where t' = "t\<lparr>t_stage := AtReset nonce\<rparr>"])
      (simp_all add: st_GetNonce)
next
  case (st_GetNonceFail ts1 t ts2 rounds e)
  then show ?thesis using task_fails_inv0 [OF inv] by simp
next
  case (st_Reset ts1 t ts2 nonce)
  note wf = sender_inv_wf [OF inv] and b = task_busy [OF inv st_Reset(2)]
  have own: "tq.owned (Reset (t_addr t) nonce (ss_queue s)) (map t_addr ts1 @ map t_addr ts2 @ ss_dead s)"
    by (rule tq.owned_restart [OF sender_inv_owned [OF inv, unfolded owners_split [OF st_Reset(2)]]])
  show ?thesis unfolding st_Reset(1)
    by (rule task_ends [OF inv st_Reset(2) _ own])
      (use st_Reset(3) Reset_correct(2) [OF wf b] len_Reset_le [OF wf] in auto)
qed

subsection \<open>Every step but an enqueue uses up work\<close>

fun stage_rank :: "stage \<Rightarrow> int" where
  "stage_rank AtAcquire = 7"
| "stage_rank AtSign = 6"
| "stage_rank AtSend = 5"
| "stage_rank AtRegister = 4"
| "stage_rank AtGetNonce = 4"
| "stage_rank AtPopSent = 3"
| "stage_rank AtPopFailed = 3"
| "stage_rank (AtReset n) = 3"

definition work_left :: "sender_state \<Rightarrow> int" where
  "work_left s = 8 * (len_txs (ss_queue s) - int (length (owners s))) +
     (\<Sum>t \<leftarrow> ss_tasks s. stage_rank (t_stage t)) + (if ss_running s then 1 else 0)"

lemma busy_first:
  assumes "wf_queue q" "busy q a"
  shows "\<exists>k. (a, k) \<in> dom (txs q)"
proof -
  obtain st where st: "byAddr q a = Some st" "\<not> acc_ready st" "firstNonce st < nextNonce st"
    by (rule busyE [OF assms]) blast
  then have "acc_txs q a (firstNonce st) \<noteq> None"
    using wf_queueD(4) [OF assms(1), of a] by (simp add: acc_wf_def)
  then show ?thesis by (auto simp: acc_txs_def)
qed

lemma owners_le_len:
  assumes "tq.owned q as" shows "int (length as) \<le> len_txs q"
proof -
  note wf = tq.ownedD(1) [OF assms]
  have "set as \<subseteq> fst ` dom (txs q)"
    using busy_first [OF wf] tq.ownedD(3) [OF assms] by force
  then have "card (set as) \<le> card (fst ` dom (txs q))"
    using wf_queueD(1) [OF wf] by (intro card_mono) auto
  also have "\<dots> \<le> card (dom (txs q))" using wf_queueD(1) [OF wf] by (rule card_image_le)
  finally show ?thesis using tq.ownedD(2) [OF assms] by (simp add: len_txs_def distinct_card)
qed

lemma stage_rank_pos: "0 < stage_rank st"
  by (cases st) auto

lemma work_left_nonneg: "sender_inv env s \<Longrightarrow> 0 \<le> work_left s"
  using owners_le_len [OF sender_inv_owned, of env s]
    sum_list_nonneg [of "map (\<lambda>t. stage_rank (t_stage t)) (ss_tasks s)"] stage_rank_pos
  by (force simp: work_left_def less_imp_le)

lemma len_Reset_less:
  assumes wf: "wf_queue q" and b: "busy q a"
  shows "len_txs (Reset a n q) < len_txs q"
proof -
  obtain k where k: "(a, k) \<in> dom (txs q)" using busy_first [OF assms] by blast
  have "pending (Reset a n q) a = []" using Reset_correct(2) [OF assms] by simp
  then have "txs (Reset a n q) (a, k) = None"
    by (rule pending_Nil_no_txs [OF Reset_correct(1) [OF assms]])
  then have ne: "dom (txs (Reset a n q)) \<noteq> dom (txs q)" using k by (metis domIff)
  obtain st where st: "byAddr q a = Some st" "\<not> acc_ready st" "firstNonce st < nextNonce st"
    by (rule busyE [OF assms]) blast
  have "dom (txs (Reset a n q)) \<subseteq> dom (txs q)"
    using Reset_effect(2) [OF st(1,2) less_imp_le [OF st(3)]] by (auto simp: dom_def split: if_splits)
  with ne have "dom (txs (Reset a n q)) \<subset> dom (txs q)" by blast
  then show ?thesis using wf_queueD(1) [OF wf] by (simp add: len_txs_def psubset_card_mono)
qed

lemma work_task:
  assumes "ss_tasks s = ts1 @ t # ts2" "ss_tasks s' = ts1 @ t' # ts2" "ss_queue s' = ss_queue s"
    "ss_dead s' = ss_dead s" "ss_running s' = ss_running s" "stage_rank (t_stage t') < stage_rank (t_stage t)"
  shows "work_left s' < work_left s"
  using assms by (simp add: work_left_def owners_def)

lemma work_task_fails:
  "ss_tasks s = ts1 @ t # ts2 \<Longrightarrow> work_left (task_fails e ts1 t ts2 (s\<lparr>ss_permits := n\<rparr>)) < work_left s"
  using stage_rank_pos [of "t_stage t"] by (simp add: work_left_def owners_def task_fails_def)

lemma work_task_fails0: "ss_tasks s = ts1 @ t # ts2 \<Longrightarrow> work_left (task_fails e ts1 t ts2 s) < work_left s"
  using work_task_fails [of s ts1 t ts2 e "ss_permits s"] by simp

definition is_push :: "sender_state \<Rightarrow> sender_state \<Rightarrow> bool" where
  "is_push s s' \<longleftrightarrow> (\<exists>tx. has_room (ss_queue s) \<and> push_bounded tx (ss_queue s) \<and>
     s' = s\<lparr>ss_queue := Push_locked tx (ss_queue s)\<rparr>)"

lemma sender_step_work:
  assumes step: "sender_step env s s'" and inv: "sender_inv env s"
  shows "is_push s s' \<or> work_left s' < work_left s"
  using step
proof cases
  case (st_Push tx)
  then show ?thesis by (auto simp: is_push_def)
next
  case (st_Dispatch tx q)
  then show ?thesis using PopReady_step(2) [OF sender_inv_wf [OF inv] st_Dispatch(3,4)]
    by (simp add: work_left_def owners_def len_txs_def)
next
  case (st_Stop e)
  then show ?thesis by (simp add: work_left_def owners_def)
next
  case (st_Send ts1 t ts2 io err tx' col' ms)
  then show ?thesis
    by (intro disjI2 work_task [OF st_Send(2), where t' = "t\<lparr>t_tx := tx', t_stage := after_send err tx'\<rparr>"])
      (auto simp: after_send_def split: option.split)
next
  case (st_PopSent ts1 t ts2)
  note wf = sender_inv_wf [OF inv] and b = task_busy [OF inv st_PopSent(2)]
  show ?thesis using st_PopSent len_PopSent [OF wf b] stage_rank_pos [of "t_stage t"]
    by (simp add: work_left_def owners_def)
next
  case (st_Reset ts1 t ts2 nonce)
  note wf = sender_inv_wf [OF inv] and b = task_busy [OF inv st_Reset(2)]
  show ?thesis using st_Reset len_Reset_less [OF wf b, of nonce] stage_rank_pos [of "t_stage t"]
    by (simp add: work_left_def owners_def)
next
  case (st_Acquire ts1 t ts2 p)
  then show ?thesis
    by (intro disjI2 work_task [OF st_Acquire(2), where t' = "t\<lparr>t_stage := AtSign\<rparr>"]) auto
next
  case (st_Sign ts1 t ts2 stx)
  then show ?thesis
    by (intro disjI2 work_task [OF st_Sign(2),
          where t' = "t\<lparr>t_tx := (t_tx t)\<lparr>lt_tx := stx\<rparr>, t_stage := AtSend\<rparr>"]) auto
next
  case (st_Register ts1 t ts2 now)
  then show ?thesis
    by (intro disjI2 work_task [OF st_Register(2), where t' = "t\<lparr>t_stage := AtPopSent\<rparr>"]) auto
next
  case (st_GetNonce ts1 t ts2 rounds nonce)
  then show ?thesis
    by (intro disjI2 work_task [OF st_GetNonce(2), where t' = "t\<lparr>t_stage := AtReset nonce\<rparr>"]) auto
qed (simp_all add: work_task_fails work_task_fails0)

subsection \<open>A pending transaction never gets stuck\<close>

definition healthy :: "sender_env \<Rightarrow> bool" where
  "healthy env \<longleftrightarrow> 0 < se_procs env \<and> 0 < se_clients env \<and> (\<forall>tx k. \<exists>stx. se_sign env tx k = Inr stx)"

text \<open>Room for the positions of the ready queue: fewer than \<open>2^64\<close> entries in all.\<close>

definition ready_room :: "txs_queue \<Rightarrow> bool" where
  "ready_room q \<longleftrightarrow> int (unat (q_next (readyq q))) + len_txs q < 2 ^ 64"

lemma unat_max_u64: "unat max_u64 = 2 ^ 64 - 1"
  by (simp add: unsigned_minus_1_eq_mask mask_eq_exp_minus_1)

lemma ready_room_can_push: "ready_room q \<Longrightarrow> 0 < len_txs q \<Longrightarrow> queue_can_push (readyq q)"
proof (rule ccontr)
  assume r: "ready_room q" "0 < len_txs q" and "\<not> queue_can_push (readyq q)"
  then have "q_next (readyq q) = max_u64" by (simp add: queue_can_push_def)
  then have "int (unat (q_next (readyq q))) = 2 ^ 64 - 1" by (simp add: unat_max_u64)
  with r show False by (simp add: ready_room_def)
qed

definition quiet :: "sender_state \<Rightarrow> sender_state \<Rightarrow> bool" where
  "quiet s s' \<longleftrightarrow> ss_dead s' = ss_dead s \<and> ss_error s' = ss_error s \<and> ss_running s' = ss_running s \<and>
     (ready_room (ss_queue s) \<longrightarrow> ready_room (ss_queue s'))"

lemma can_move:
  assumes "sender_step env s s'" "ss_tasks s = ts1 @ t # ts2" "ss_tasks s' = ts1 @ t' # ts2"
    "ss_queue s' = ss_queue s" "ss_dead s' = ss_dead s" "ss_running s' = ss_running s" "ss_error s' = ss_error s"
    "stage_rank (t_stage t') < stage_rank (t_stage t)"
  shows "\<exists>s'. sender_step env s s' \<and> quiet s s' \<and> work_left s' < work_left s"
  using assms work_task [of s ts1 t ts2 s' t'] by (auto simp: quiet_def)

lemma can_end:
  assumes inv: "sender_inv env s" and t: "ss_tasks s = ts1 @ t # ts2"
    and step: "sender_step env s (s\<lparr>ss_queue := q, ss_tasks := ts1 @ ts2\<rparr>)"
    and len: "len_txs q < len_txs (ss_queue s)"
    and rr: "ready_room (ss_queue s) \<Longrightarrow> ready_room q"
  shows "\<exists>s'. sender_step env s s' \<and> quiet s s' \<and> work_left s' < work_left s"
proof (intro exI conjI)
  show "work_left (s\<lparr>ss_queue := q, ss_tasks := ts1 @ ts2\<rparr>) < work_left s"
    using len stage_rank_pos [of "t_stage t"] t by (simp add: work_left_def owners_def)
qed (use step rr in \<open>auto simp: quiet_def\<close>)

lemma readyq_Reset: "readyq (Reset a n q) = readyq q"
  by (auto simp: Reset_def Let_def Updated_def split: option.split prod.split)

lemma q_next_PopSent: "unat (q_next (readyq (PopSent a q))) \<le> Suc (unat (q_next (readyq q)))"
proof -
  have "unat (q_next (readyq q) + 1) \<le> Suc (unat (q_next (readyq q)))"
    by (metis add.commute le_SucI order_refl unatSuc unsigned_0 zero_le)
  then show ?thesis
    by (auto simp: PopSent_def Let_def Updated_def queue_Push_def split: option.split)
qed

lemma ready_room_PopSent:
  "wf_queue q \<Longrightarrow> busy q a \<Longrightarrow> ready_room q \<Longrightarrow> ready_room (PopSent a q)"
  using q_next_PopSent [of a q] len_PopSent [of q a] unfolding ready_room_def by linarith

text \<open>Some environment lets any goroutine that does not wait for the semaphore take its step.\<close>

lemma task_can_step:
  assumes inv: "sender_inv env s" and h: "healthy env" and rr: "ready_room (ss_queue s)"
    and t: "ss_tasks s = ts1 @ t # ts2" and st: "t_stage t = AtAcquire \<Longrightarrow> 0 < ss_permits s"
  shows "\<exists>s'. sender_step env s s' \<and> quiet s s' \<and> work_left s' < work_left s"
proof -
  have len: "0 < len_txs (ss_queue s)"
    using owners_le_len [OF sender_inv_owned [OF inv]] by (simp add: owners_def t)
  note cp = ready_room_can_push [OF rr len]
  note wf = sender_inv_wf [OF inv] and b = task_busy [OF inv t]
  have pop: ?thesis if "t_stage t = AtPopSent \<or> t_stage t = AtPopFailed"
    by (rule can_end [OF inv t st_PopSent [OF t that cp]])
      (use len_PopSent [OF wf b] ready_room_PopSent [OF wf b] in simp_all)
  show ?thesis
  proof (cases "t_stage t")
    case AtAcquire
    then obtain p where "ss_permits s = Suc p" using st gr0_implies_Suc by blast
    from st_Acquire [OF t AtAcquire this, of env] show ?thesis
      by (rule can_move [OF _ t, where t' = "t\<lparr>t_stage := AtSign\<rparr>"]) (simp_all add: AtAcquire)
  next
    case AtSign
    obtain stx where "se_sign env (lt_tx (t_tx t)) (acc_priv (ts_sender (lt_scenario (t_tx t)))) = Inr stx"
      using h by (auto simp: healthy_def)
    from st_Sign [OF t AtSign this] show ?thesis
      by (rule can_move [OF _ t, where t' = "t\<lparr>t_tx := (t_tx t)\<lparr>lt_tx := stx\<rparr>, t_stage := AtSend\<rparr>"])
        (simp_all add: AtSign)
  next
    case AtSend
    obtain err tx' col' ms where c: "client_Send (se_client env) (se_clients env)
        \<lparr>io_result = \<lambda>i tx. None, io_sleep = None, io_start = 0, io_since1 = 0, io_since2 = 0, io_now1 = 0, io_now2 = 0\<rparr>
        (t_tx t) (ss_collector s) = Ok (err, tx', col', ms)"
      using client_Send_total h unfolding healthy_def by blast
    from st_Send [OF t AtSend c] show ?thesis
      by (rule can_move [OF _ t, where t' = "t\<lparr>t_tx := tx', t_stage := after_send err tx'\<rparr>"])
        (simp_all add: AtSend after_send_def split: option.split)
  next
    case AtRegister
    from st_Register [OF t AtRegister, of env 0] show ?thesis
      by (rule can_move [OF _ t, where t' = "t\<lparr>t_stage := AtPopSent\<rparr>"]) (simp_all add: AtRegister)
  next
    case AtGetNonce
    let ?r = "\<lparr>nr_ctx = None, nr_wait = None, nr_nonce = \<lambda>i a. Inr 0\<rparr>"
    have "getNonce (se_clients env) (t_addr t) [?r] = Returned (Ok 0)"
      using clientID_less [of "se_clients env" "t_addr t"] h by (simp add: client_Nonce_def Let_def healthy_def)
    from st_GetNonce [OF t AtGetNonce this] show ?thesis
      by (rule can_move [OF _ t, where t' = "t\<lparr>t_stage := AtReset 0\<rparr>"]) (simp_all add: AtGetNonce)
  next
    case (AtReset n)
    show ?thesis
      by (rule can_end [OF inv t st_Reset [OF t AtReset]])
        (use len_Reset_less [OF wf b, of n] in \<open>auto simp: ready_room_def readyq_Reset\<close>)
  qed (auto intro: pop)
qed

lemma sender_can_step:
  assumes inv: "sender_inv env s" and h: "healthy env" and rr: "ready_room (ss_queue s)"
    and run: "ss_running s" and dead: "ss_dead s = []" and ne: "\<not> is_empty (ss_queue s)"
  shows "\<exists>s'. sender_step env s s' \<and> quiet s s' \<and> work_left s' < work_left s"
proof (cases "ss_tasks s")
  case Nil
  note wf = sender_inv_wf [OF inv]
  obtain a where "pending (ss_queue s) a \<noteq> []" using ne empty_iff_pending [OF wf] by auto
  moreover have own: "tq.owned (ss_queue s) []" using sender_inv_owned [OF inv] Nil dead by (simp add: owners_def)
  ultimately have nr: "ready_list (ss_queue s) \<noteq> []" using tq.owned_idle by blast
  from tq.owned_next [OF own nr] obtain tx q where q: "PopReady_locked (ss_queue s) = Ok (Some tx, q)" by blast
  have hr: "has_ready (ss_queue s)" using nr has_ready_iff [OF wf] by simp
  let ?s' = "s\<lparr>ss_queue := q, ss_tasks := ss_tasks s @ [\<lparr>t_addr = sender_of tx, t_tx = tx, t_stage = AtAcquire\<rparr>]\<rparr>"
  have step: "sender_step env s ?s'" by (rule st_Dispatch [OF run hr q])
  have l: "len_txs q = len_txs (ss_queue s)" using PopReady_step(2) [OF wf hr q] by (simp add: len_txs_def)
  have "q_next (readyq q) = q_next (readyq (ss_queue s))"
    using q by (auto simp: PopReady_locked_def queue_Pop_def outcome_simps Updated_def split: option.splits if_splits)
  then have "quiet s ?s'" using l by (simp add: quiet_def ready_room_def)
  moreover have "work_left ?s' < work_left s" using l by (simp add: work_left_def owners_def)
  ultimately show ?thesis using step by blast
next
  case (Cons t ts)
  show ?thesis
  proof (cases "\<exists>u \<in> set (ss_tasks s). t_stage u = AtSign")
    case True
    then obtain u ts1 ts2 where "ss_tasks s = ts1 @ u # ts2" "t_stage u = AtSign"
      by (metis split_list)
    then show ?thesis using task_can_step [OF inv h rr, of ts1 u ts2] by simp
  next
    case False
    then have "signing s = 0" by (simp add: signing_def filter_empty_conv)
    then have "0 < ss_permits s" using inv h by (simp add: sender_inv_def healthy_def)
    then show ?thesis using task_can_step [OF inv h rr, of "[]" t ts] Cons by simp
  qed
qed

text \<open>So the queue can be drained, and \<open>Flush\<close> is woken up.\<close>

lemma sender_drains:
  assumes "sender_inv env s" "healthy env" "signer_ok env" "ready_room (ss_queue s)" "ss_running s" "ss_dead s = []"
  shows "\<exists>s'. (sender_step env)\<^sup>*\<^sup>* s s' \<and> is_empty (ss_queue s') \<and> ss_error s' = ss_error s"
  using assms
proof (induction "nat (work_left s)" arbitrary: s rule: less_induct)
  case less
  show ?case
  proof (cases "is_empty (ss_queue s)")
    case False
    obtain u where u: "sender_step env s u" "quiet s u" "work_left u < work_left s"
      using sender_can_step [OF less.prems(1,2,4,5,6) False] by blast
    have inv: "sender_inv env u" by (rule sender_step_inv [OF u(1) less.prems(1,3)])
    have lt: "nat (work_left u) < nat (work_left s)" using u(3) work_left_nonneg [OF inv] by simp
    have "\<exists>s'. (sender_step env)\<^sup>*\<^sup>* u s' \<and> is_empty (ss_queue s') \<and> ss_error s' = ss_error u"
      by (rule less.hyps [OF lt inv less.prems(2,3)])
        (use u(2) less.prems(4-6) in \<open>auto simp: quiet_def\<close>)
    then show ?thesis using u(1,2) by (metis converse_rtranclp_into_rtranclp quiet_def)
  qed auto
qed

end
