(* ===== verification/Budget.thy ===== *)
theory Budget
  imports GoBase
begin

text \<open>
  How a run tells a shutdown from a failure: the budget a piece of start-up work runs under
  (\<open>utils/budget.go\<close>), the errors that count as a clean end (\<open>utils/wait.go\<close>, \<open>main.go\<close>).
\<close>

text \<open>
  \<open>ctx\<close> is the error of the parent context once the work is over, \<open>expired\<close> whether the
  deadline of the budget has passed by then; the derived context is over if either is.
\<close>

definition WithinBudget :: "go_error option \<Rightarrow> bool \<Rightarrow> string \<Rightarrow> 'a outcome \<Rightarrow> 'a outcome" where
  "WithinBudget ctx expired what work =
     (case work of
        Err e \<Rightarrow> if ctx = None \<and> expired then Err (Errorf (what @ '' exceeded its budget'')) else Err e
      | Ok x \<Rightarrow> Ok x
      | Panic m \<Rightarrow> Panic m)"

definition IgnoreCancel :: "go_error option \<Rightarrow> go_error option" where
  "IgnoreCancel e =
     (case e of Some x \<Rightarrow> if errors_is x Canceled then None else Some x | None \<Rightarrow> None)"

definition endedOnRunContext :: "go_error \<Rightarrow> bool" where
  "endedOnRunContext err \<longleftrightarrow> errors_is err Canceled \<or> errors_is err DeadlineExceeded"

text \<open>
  The errors work under a budget may end with: a sentinel only if its context is over, and the
  sentinel of the cause.
\<close>

definition respects_context :: "go_error option \<Rightarrow> bool \<Rightarrow> 'a outcome \<Rightarrow> bool" where
  "respects_context ctx expired work \<longleftrightarrow>
     (\<forall>e. work = Err e \<longrightarrow> endedOnRunContext e \<longrightarrow> ctx \<noteq> None \<or> expired)"

lemma WithinBudget_Ok [simp]: "WithinBudget ctx expired what (Ok x) = Ok x"
  by (simp add: WithinBudget_def)

lemma WithinBudget_Ok_iff [outcome_simps]: "WithinBudget ctx expired what w = Ok x \<longleftrightarrow> w = Ok x"
  by (cases w) (auto simp: WithinBudget_def)

lemma WithinBudget_Panic_iff [outcome_simps]: "WithinBudget ctx expired what w = Panic m \<longleftrightarrow> w = Panic m"
  by (cases w) (auto simp: WithinBudget_def)

lemma WithinBudget_quiet:
  assumes "respects_context None expired w" "WithinBudget None expired what w = Err e"
  shows "\<not> endedOnRunContext e"
  using assms by (cases w) (auto simp: WithinBudget_def respects_context_def endedOnRunContext_def split: if_splits)

lemma WithinBudget_shutdown: "WithinBudget (Some c) expired what w = w"
  by (cases w) (auto simp: WithinBudget_def)

text \<open>Wrapping an error changes neither verdict.\<close>

lemma ended_Wrap [simp]: "endedOnRunContext (Wrap m e) = endedOnRunContext e"
  by (simp add: endedOnRunContext_def)

lemma ended_Errorf [simp]: "\<not> endedOnRunContext (Errorf m)"
  by (simp add: endedOnRunContext_def)

lemma IgnoreCancel_idem: "IgnoreCancel (IgnoreCancel e) = IgnoreCancel e"
  by (auto simp: IgnoreCancel_def split: option.splits)

subsection \<open>Errors that no shutdown explains\<close>

definition no_sentinel :: "'a outcome \<Rightarrow> bool" where
  "no_sentinel w \<longleftrightarrow> (\<forall>e. w = Err e \<longrightarrow> \<not> endedOnRunContext e)"

lemma quiet_simps [simp]: "no_sentinel (Ok x)" "no_sentinel (Panic m)" "no_sentinel (Err e) \<longleftrightarrow> \<not> endedOnRunContext e"
  by (simp_all add: no_sentinel_def)

lemma quiet_obind [quiet_intros]: "no_sentinel w \<Longrightarrow> (\<And>x. w = Ok x \<Longrightarrow> no_sentinel (f x)) \<Longrightarrow> no_sentinel (obind w f)"
  by (cases w) simp_all

lemma quiet_omap [simp]: "no_sentinel (omap_err (Wrap m) w) = no_sentinel w"
  by (cases w) simp_all

lemma quiet_within [quiet_intros]: "respects_context None expired w \<Longrightarrow> no_sentinel (WithinBudget None expired what w)"
  unfolding no_sentinel_def by (blast dest: WithinBudget_quiet)

lemma respects_quiet: "no_sentinel w \<Longrightarrow> respects_context ctx expired w"
  by (auto simp: no_sentinel_def respects_context_def)

end
