(* ===== verification/Scope.thy ===== *)
theory Scope
  imports Budget
begin

text \<open>
  Structured concurrency (\<open>utils/scope\<close>): \<open>Run\<close> waits for its main tasks, cancels the context of
  the scope, waits for every task, and returns the first error reported to it. A step is one
  synchronising action of one goroutine; the tasks themselves do what they like in between.
  \<open>Parallel\<close> is the same without a context. What both do with errors is the locale \<open>first_error\<close>.
\<close>

subsection \<open>Playing a sequence of steps\<close>

fun play :: "('e \<Rightarrow> 's \<Rightarrow> 's option) \<Rightarrow> 'e list \<Rightarrow> 's \<Rightarrow> 's option" where
  "play step [] s = Some s"
| "play step (e # es) s = (case step e s of None \<Rightarrow> None | Some s' \<Rightarrow> play step es s')"

text \<open>The errors reported along the way, in the order of the reports.\<close>

fun reports :: "('e \<Rightarrow> 's \<Rightarrow> 's option) \<Rightarrow> ('e \<Rightarrow> 's \<Rightarrow> go_error option) \<Rightarrow> 'e list \<Rightarrow> 's \<Rightarrow> go_error list" where
  "reports step report [] s = []"
| "reports step report (e # es) s =
     (case step e s of
        None \<Rightarrow> []
      | Some s' \<Rightarrow> (case report e s of Some x \<Rightarrow> [x] | None \<Rightarrow> []) @ reports step report es s')"

definition first_of :: "go_error list \<Rightarrow> go_error option" where
  "first_of es = (case es of [] \<Rightarrow> None | e # _ \<Rightarrow> Some e)"

lemma play_append: "play step (es @ fs) s = (case play step es s of None \<Rightarrow> None | Some s' \<Rightarrow> play step fs s')"
  by (induction es arbitrary: s) (auto split: option.split)

lemma play_invariant:
  assumes "\<And>e s s'. I s \<Longrightarrow> step e s = Some s' \<Longrightarrow> I s'" "I s" "play step es s = Some s'"
  shows "I s'"
  using assms(2,3) by (induction es arbitrary: s) (auto split: option.splits intro: assms(1))

locale first_error =
  fixes step :: "'e \<Rightarrow> 's \<Rightarrow> 's option" and err :: "'s \<Rightarrow> go_error option"
    and report :: "'e \<Rightarrow> 's \<Rightarrow> go_error option"
  assumes once: "step e s = Some s' \<Longrightarrow> err s' = (case err s of Some x \<Rightarrow> Some x | None \<Rightarrow> report e s)"
begin

lemma err_is_first_from:
  "play step es s = Some s' \<Longrightarrow> err s' = (case err s of Some x \<Rightarrow> Some x | None \<Rightarrow> first_of (reports step report es s))"
  by (induction es arbitrary: s) (auto simp: first_of_def dest: once split: option.splits)

lemma err_is_first: "err s = None \<Longrightarrow> play step es s = Some s' \<Longrightarrow> err s' = first_of (reports step report es s)"
  using err_is_first_from by fastforce

end

subsection \<open>The scope\<close>

text \<open>
  A task works, and may be inside \<open>Cancel\<close> meanwhile; it has returned; a main task has left the
  group of main tasks; its error is set; its scope is cancelled; and it has left for good.
\<close>

datatype phase =
    Working
  | InCancel
  | Finished "go_error option"
  | Released "go_error option"
  | Cancelling go_error
  | Leaving "go_error option"
  | Gone "go_error option"

record scope_task =
  tk_main :: bool
  tk_name :: "string option"
  tk_phase :: phase

datatype run_pc = WaitMain | CancelScope | WaitAll | ScopeDone "go_error option"

record scope_state =
  sp_cancelled :: bool
  sp_err :: "go_error option"
  sp_main :: nat
  sp_all :: nat
  sp_tasks :: "scope_task list"
  sp_pc :: run_pc

definition SpawnBg :: "string option \<Rightarrow> scope_state \<Rightarrow> scope_state" where
  "SpawnBg name s =
     s\<lparr>sp_all := sp_all s + 1, sp_tasks := sp_tasks s @ [\<lparr>tk_main = False, tk_name = name, tk_phase = Working\<rparr>]\<rparr>"

definition Spawn :: "string option \<Rightarrow> scope_state \<Rightarrow> scope_state" where
  "Spawn name s =
     s\<lparr>sp_main := sp_main s + 1, sp_all := sp_all s + 1,
       sp_tasks := sp_tasks s @ [\<lparr>tk_main = True, tk_name = name, tk_phase = Working\<rparr>]\<rparr>"

text \<open>\<open>errOnce\<close>: only the first error is kept.\<close>

definition set_error :: "go_error option \<Rightarrow> scope_state \<Rightarrow> scope_state" where
  "set_error e s = (case (e, sp_err s) of (Some x, None) \<Rightarrow> s\<lparr>sp_err := Some x\<rparr> | _ \<Rightarrow> s)"

definition named :: "string option \<Rightarrow> go_error option \<Rightarrow> go_error option" where
  "named name e = (case name of None \<Rightarrow> e | Some n \<Rightarrow> map_option (Wrap n) e)"

definition set_phase :: "nat \<Rightarrow> phase \<Rightarrow> scope_state \<Rightarrow> scope_state" where
  "set_phase i p s = s\<lparr>sp_tasks := (sp_tasks s)[i := (sp_tasks s ! i)\<lparr>tk_phase := p\<rparr>]\<rparr>"

datatype scope_event =
    Spawns nat bool "string option"
  | CancelBegins nat "go_error option"
  | CancelEnds nat
  | TaskReturns nat "go_error option"
  | MainTaskDone nat
  | Reports nat
  | Cancels nat
  | TaskGone nat
  | MainJoined
  | RunCancels
  | AllJoined

definition phase_of :: "scope_state \<Rightarrow> nat \<Rightarrow> phase option" where
  "phase_of s i = (if i < length (sp_tasks s) then Some (tk_phase (sp_tasks s ! i)) else None)"

text \<open>One action of a working task, of a goroutine on its way out, or of \<open>Run\<close> itself.\<close>

definition end_task :: "nat \<Rightarrow> scope_state \<Rightarrow> scope_state option" where
  "end_task i s =
     (case phase_of s i of
        Some (Released None) \<Rightarrow> Some (set_phase i (Gone None) (s\<lparr>sp_all := sp_all s - 1\<rparr>))
      | Some (Leaving r) \<Rightarrow> Some (set_phase i (Gone r) (s\<lparr>sp_all := sp_all s - 1\<rparr>))
      | _ \<Rightarrow> None)"

fun scope_step :: "scope_event \<Rightarrow> scope_state \<Rightarrow> scope_state option" where
  "scope_step (Spawns i m name) s =
     (if phase_of s i = Some Working then Some (if m then Spawn name s else SpawnBg name s) else None)"
| "scope_step (CancelBegins i e) s =
     (if phase_of s i = Some Working then Some (set_phase i InCancel (set_error e s)) else None)"
| "scope_step (CancelEnds i) s =
     (if phase_of s i = Some InCancel then Some (set_phase i Working (s\<lparr>sp_cancelled := True\<rparr>)) else None)"
| "scope_step (TaskReturns i e) s =
     (if phase_of s i = Some Working then
        let t = sp_tasks s ! i; r = named (tk_name t) e
        in Some (set_phase i (if tk_main t then Finished r else Released r) s)
      else None)"
| "scope_step (MainTaskDone i) s =
     (case phase_of s i of
        Some (Finished r) \<Rightarrow> Some (set_phase i (Released r) (s\<lparr>sp_main := sp_main s - 1\<rparr>)) | _ \<Rightarrow> None)"
| "scope_step (Reports i) s =
     (case phase_of s i of
        Some (Released (Some e)) \<Rightarrow> Some (set_phase i (Cancelling e) (set_error (Some e) s)) | _ \<Rightarrow> None)"
| "scope_step (Cancels i) s =
     (case phase_of s i of
        Some (Cancelling e) \<Rightarrow> Some (set_phase i (Leaving (Some e)) (s\<lparr>sp_cancelled := True\<rparr>)) | _ \<Rightarrow> None)"
| "scope_step (TaskGone i) s = end_task i s"
| "scope_step MainJoined s =
     (if sp_pc s = WaitMain \<and> sp_main s = 0 then Some (s\<lparr>sp_pc := CancelScope\<rparr>) else None)"
| "scope_step RunCancels s =
     (if sp_pc s = CancelScope then Some (s\<lparr>sp_cancelled := True, sp_pc := WaitAll\<rparr>) else None)"
| "scope_step AllJoined s =
     (if sp_pc s = WaitAll \<and> sp_all s = 0 then Some (s\<lparr>sp_pc := ScopeDone (sp_err s)\<rparr>) else None)"

text \<open>\<open>Run\<close> starts with its own function as the first main task.\<close>

definition Run_scope :: scope_state where
  "Run_scope = Spawn None \<lparr>sp_cancelled = False, sp_err = None, sp_main = 0, sp_all = 0, sp_tasks = [], sp_pc = WaitMain\<rparr>"

text \<open>What a step reports to the scope: the error given to \<open>Cancel\<close>.\<close>

fun scope_report :: "scope_event \<Rightarrow> scope_state \<Rightarrow> go_error option" where
  "scope_report (CancelBegins i e) s = e"
| "scope_report (Reports i) s = (case phase_of s i of Some (Released r) \<Rightarrow> r | _ \<Rightarrow> None)"
| "scope_report _ s = None"

subsection \<open>What the counters count\<close>

fun in_main :: "scope_task \<Rightarrow> bool" where
  "in_main t \<longleftrightarrow> tk_main t \<and> (case tk_phase t of Working \<Rightarrow> True | InCancel \<Rightarrow> True | Finished r \<Rightarrow> True | _ \<Rightarrow> False)"

fun present :: "scope_task \<Rightarrow> bool" where
  "present t \<longleftrightarrow> (case tk_phase t of Gone r \<Rightarrow> False | _ \<Rightarrow> True)"

text \<open>A task that is past its report has left its mark on the scope.\<close>

definition task_mark :: "scope_state \<Rightarrow> scope_task \<Rightarrow> bool" where
  "task_mark s t \<longleftrightarrow>
     (case tk_phase t of
        Finished r \<Rightarrow> tk_main t
      | Cancelling e \<Rightarrow> sp_err s \<noteq> None
      | Leaving r \<Rightarrow> r \<noteq> None \<longrightarrow> sp_err s \<noteq> None \<and> sp_cancelled s
      | Gone r \<Rightarrow> r \<noteq> None \<longrightarrow> sp_err s \<noteq> None \<and> sp_cancelled s
      | _ \<Rightarrow> True)"

definition pc_ok :: "scope_state \<Rightarrow> bool" where
  "pc_ok s \<longleftrightarrow>
     (case sp_pc s of
        WaitAll \<Rightarrow> sp_cancelled s
      | ScopeDone r \<Rightarrow> sp_cancelled s \<and> sp_all s = 0 \<and> r = sp_err s
      | _ \<Rightarrow> True)"

definition scope_ok :: "scope_state \<Rightarrow> bool" where
  "scope_ok s \<longleftrightarrow> sp_main s = length (filter in_main (sp_tasks s)) \<and> sp_all s = length (filter present (sp_tasks s)) \<and>
     (\<forall>t \<in> set (sp_tasks s). task_mark s t) \<and> pc_ok s"

lemma filter_update_count:
  "i < length xs \<Longrightarrow>
     length (filter P (xs[i := y])) + (if P (xs ! i) then 1 else 0) = length (filter P xs) + (if P y then 1 else 0)"
proof (induction xs arbitrary: i)
  case (Cons x xs)
  then show ?case by (cases i) auto
qed simp

lemma phase_ofD: "phase_of s i = Some p \<Longrightarrow> i < length (sp_tasks s) \<and> tk_phase (sp_tasks s ! i) = p"
  by (simp add: phase_of_def split: if_splits)

lemma task_mark_mono:
  "task_mark s t \<Longrightarrow> sp_cancelled s \<longrightarrow> sp_cancelled s' \<Longrightarrow> sp_err s \<noteq> None \<longrightarrow> sp_err s' = sp_err s \<Longrightarrow> task_mark s' t"
  by (cases "tk_phase t") (auto simp: task_mark_def)

lemma scope_ok_run:
  "scope_ok s \<Longrightarrow> sp_tasks s' = sp_tasks s \<Longrightarrow> sp_main s' = sp_main s \<Longrightarrow> sp_all s' = sp_all s \<Longrightarrow> sp_err s' = sp_err s \<Longrightarrow>
     sp_cancelled s \<longrightarrow> sp_cancelled s' \<Longrightarrow> pc_ok s' \<Longrightarrow> scope_ok s'"
  unfolding scope_ok_def by (metis task_mark_mono)

text \<open>One task moves to another phase, and the counters move with it.\<close>

lemma scope_ok_move:
  assumes "scope_ok s" "i < length (sp_tasks s)" "t = sp_tasks s ! i"
    "sp_tasks s' = (sp_tasks s)[i := t']"
    "sp_main s' + (if in_main t then 1 else 0) = sp_main s + (if in_main t' then 1 else 0)"
    "sp_all s' + (if present t then 1 else 0) = sp_all s + (if present t' then 1 else 0)"
    "sp_cancelled s \<longrightarrow> sp_cancelled s'" "sp_err s \<noteq> None \<longrightarrow> sp_err s' = sp_err s" "task_mark s' t'" "pc_ok s'"
  shows "scope_ok s'"
proof -
  have "length (filter in_main (sp_tasks s')) = sp_main s'" "length (filter present (sp_tasks s')) = sp_all s'"
    using assms(1,2,5,6) filter_update_count [OF assms(2), of in_main t'] filter_update_count [OF assms(2), of present t']
    unfolding assms(3,4) scope_ok_def by simp_all
  moreover have "task_mark s' u" if "u \<in> set (sp_tasks s')" for u
  proof (cases "u = t'")
    case False
    then have "u \<in> set (sp_tasks s)" using that set_update_subset_insert [of "sp_tasks s" i t'] unfolding assms(4) by auto
    then have "task_mark s u" using assms(1) by (simp add: scope_ok_def)
    then show ?thesis by (rule task_mark_mono [OF _ assms(7,8)])
  qed (simp add: assms(9))
  ultimately show ?thesis using assms(10) by (simp add: scope_ok_def)
qed

lemma pc_ok_mono:
  "pc_ok s \<Longrightarrow> sp_pc s' = sp_pc s \<Longrightarrow> sp_cancelled s \<longrightarrow> sp_cancelled s' \<Longrightarrow>
     (\<And>r. sp_pc s = ScopeDone r \<Longrightarrow> sp_all s' = sp_all s \<and> sp_err s' = sp_err s) \<Longrightarrow> pc_ok s'"
  by (auto simp: pc_ok_def split: run_pc.splits)

text \<open>Once \<open>Run\<close> has returned, no task is there to move.\<close>

lemma done_no_task:
  assumes "scope_ok s" "sp_pc s = ScopeDone r" "phase_of s i = Some p"
  shows "\<exists>x. p = Gone x"
proof -
  have "sp_all s = length (filter present (sp_tasks s))" "sp_all s = 0" using assms(1,2) by (auto simp: scope_ok_def pc_ok_def)
  then have "filter present (sp_tasks s) = []" by (metis length_0_conv)
  moreover have i: "sp_tasks s ! i \<in> set (sp_tasks s)" "tk_phase (sp_tasks s ! i) = p"
    using phase_ofD [OF assms(3)] by simp_all
  ultimately have "\<not> present (sp_tasks s ! i)" by (auto simp: filter_empty_conv simp del: present.simps)
  then show ?thesis using i(2) by (cases p) auto
qed

lemma task_marked: "scope_ok s \<Longrightarrow> phase_of s i = Some p \<Longrightarrow> task_mark s (sp_tasks s ! i)"
  using phase_ofD [of s i p] by (simp add: scope_ok_def)

lemma set_error_simps [simp]:
  "sp_tasks (set_error e s) = sp_tasks s" "sp_main (set_error e s) = sp_main s" "sp_all (set_error e s) = sp_all s"
  "sp_cancelled (set_error e s) = sp_cancelled s" "sp_pc (set_error e s) = sp_pc s"
  "sp_err (set_error e s) = (case sp_err s of Some x \<Rightarrow> Some x | None \<Rightarrow> e)"
  by (auto simp: set_error_def split: option.split)

lemma set_phase_simps [simp]:
  "sp_tasks (set_phase i p s) = (sp_tasks s)[i := (sp_tasks s ! i)\<lparr>tk_phase := p\<rparr>]" "sp_main (set_phase i p s) = sp_main s"
  "sp_all (set_phase i p s) = sp_all s" "sp_cancelled (set_phase i p s) = sp_cancelled s" "sp_pc (set_phase i p s) = sp_pc s"
  "sp_err (set_phase i p s) = sp_err s"
  by (simp_all add: set_phase_def)

lemma scope_ok_spawn:
  assumes "scope_ok s" "phase_of s i = Some Working" "s' = (if m then Spawn name s else SpawnBg name s)"
  shows "scope_ok s'"
proof -
  have "\<And>r. sp_pc s \<noteq> ScopeDone r" using done_no_task [OF assms(1) _ assms(2)] by fastforce
  then show ?thesis using assms(1,3)
    by (auto simp: scope_ok_def Spawn_def SpawnBg_def task_mark_def pc_ok_def split: phase.splits run_pc.splits)
qed

lemma counted_pos:
  assumes "scope_ok s" "phase_of s i = Some p"
  shows "(in_main (sp_tasks s ! i) \<longrightarrow> 0 < sp_main s) \<and> (present (sp_tasks s ! i) \<longrightarrow> 0 < sp_all s)"
proof -
  have "sp_tasks s ! i \<in> set (sp_tasks s)" using phase_ofD [OF assms(2)] by simp
  then have "P (sp_tasks s ! i) \<longrightarrow> filter P (sp_tasks s) \<noteq> []" for P by (auto simp: filter_empty_conv)
  then show ?thesis using assms(1) unfolding scope_ok_def by auto
qed

text \<open>\<open>moves i p s'\<close>: task \<open>i\<close> goes to phase \<open>p\<close>, with what that does to the scope.\<close>

lemma scope_step_move:
  assumes "scope_ok s" "phase_of s i = Some q" "q \<noteq> Gone None \<and> (\<forall>x. q \<noteq> Gone (Some x))"
    "sp_tasks s' = (sp_tasks s)[i := (sp_tasks s ! i)\<lparr>tk_phase := p\<rparr>]" "sp_pc s' = sp_pc s"
    "sp_cancelled s \<longrightarrow> sp_cancelled s'" "sp_err s \<noteq> None \<longrightarrow> sp_err s' = sp_err s"
    "sp_main s' = (if in_main (sp_tasks s ! i) \<and> \<not> in_main ((sp_tasks s ! i)\<lparr>tk_phase := p\<rparr>) then sp_main s - 1 else sp_main s)"
    "in_main ((sp_tasks s ! i)\<lparr>tk_phase := p\<rparr>) \<longrightarrow> in_main (sp_tasks s ! i)"
    "sp_all s' = (if \<not> present ((sp_tasks s ! i)\<lparr>tk_phase := p\<rparr>) then sp_all s - 1 else sp_all s)"
    "task_mark s' ((sp_tasks s ! i)\<lparr>tk_phase := p\<rparr>)"
  shows "scope_ok s'"
proof -
  have i: "i < length (sp_tasks s)" "tk_phase (sp_tasks s ! i) = q" using phase_ofD [OF assms(2)] by simp_all
  have q: "present (sp_tasks s ! i)"
    using assms(3) i(2) by (cases q) auto
  have "\<And>r. sp_pc s \<noteq> ScopeDone r" using done_no_task [OF assms(1) _ assms(2)] assms(3) by (metis option.exhaust)
  moreover have "pc_ok s" using assms(1) by (simp add: scope_ok_def)
  ultimately have "pc_ok s'" using pc_ok_mono [OF _ assms(5,6)] by blast
  then show ?thesis using counted_pos [OF assms(1,2)] q assms(8-10)
    by (intro scope_ok_move [OF assms(1) i(1) refl assms(4) _ _ assms(6,7,11)]) (auto simp del: in_main.simps present.simps)
qed

lemma scope_ok_step:
  assumes "scope_ok s" "scope_step ev s = Some s'"
  shows "scope_ok s'"
proof (cases ev)
  case (Spawns i m name)
  then have "phase_of s i = Some Working" "s' = (if m then Spawn name s else SpawnBg name s)"
    using assms(2) by (auto split: if_splits)
  then show ?thesis by (rule scope_ok_spawn [OF assms(1)])
next
  case (CancelBegins i e)
  then show ?thesis using assms phase_ofD [of s i]
    by (intro scope_step_move [of s i Working s' InCancel]) (auto simp: task_mark_def split: if_splits option.splits)
next
  case (CancelEnds i)
  then show ?thesis using assms phase_ofD [of s i]
    by (intro scope_step_move [of s i InCancel s' Working]) (auto simp: task_mark_def split: if_splits option.splits)
next
  case (TaskReturns i e)
  let ?t = "sp_tasks s ! i"
  let ?r = "named (tk_name ?t) e"
  show ?thesis using TaskReturns assms phase_ofD [of s i]
    by (intro scope_step_move [of s i Working s' "if tk_main ?t then Finished ?r else Released ?r"])
      (auto simp: task_mark_def Let_def split: if_splits option.splits)
next
  case (MainTaskDone i)
  then obtain r where r: "phase_of s i = Some (Finished r)" "s' = set_phase i (Released r) (s\<lparr>sp_main := sp_main s - 1\<rparr>)"
    using assms(2) by (auto split: option.splits phase.splits)
  have m: "tk_main (sp_tasks s ! i)"
    using task_marked [OF assms(1) r(1)] phase_ofD [OF r(1)] by (simp add: task_mark_def)
  show ?thesis using r m phase_ofD [OF r(1)]
    by (intro scope_step_move [OF assms(1) r(1), of s' "Released r"]) (auto simp: task_mark_def)
next
  case (Reports i)
  then obtain e where e: "phase_of s i = Some (Released (Some e))" "s' = set_phase i (Cancelling e) (set_error (Some e) s)"
    using assms(2) by (auto split: option.splits phase.splits)
  show ?thesis using e phase_ofD [OF e(1)]
    by (intro scope_step_move [OF assms(1) e(1), of s' "Cancelling e"]) (auto simp: task_mark_def split: option.splits)
next
  case (Cancels i)
  then obtain e where e: "phase_of s i = Some (Cancelling e)" "s' = set_phase i (Leaving (Some e)) (s\<lparr>sp_cancelled := True\<rparr>)"
    using assms(2) by (auto split: option.splits phase.splits)
  have "sp_err s \<noteq> None"
    using task_marked [OF assms(1) e(1)] phase_ofD [OF e(1)] by (simp add: task_mark_def)
  then show ?thesis using e phase_ofD [OF e(1)]
    by (intro scope_step_move [OF assms(1) e(1), of s' "Leaving (Some e)"]) (auto simp: task_mark_def split: option.splits)
next
  case (TaskGone i)
  then obtain q r where q: "phase_of s i = Some q" "q = Released None \<and> r = None \<or> q = Leaving r"
    "s' = set_phase i (Gone r) (s\<lparr>sp_all := sp_all s - 1\<rparr>)"
    using assms(2) by (auto simp: end_task_def split: option.splits phase.splits)
  have "q = Leaving r \<longrightarrow> r \<noteq> None \<longrightarrow> sp_err s \<noteq> None \<and> sp_cancelled s"
    using task_marked [OF assms(1) q(1)] phase_ofD [OF q(1)] by (auto simp: task_mark_def)
  then show ?thesis using q phase_ofD [OF q(1)]
    by (intro scope_step_move [OF assms(1) q(1), of s' "Gone r"]) (auto simp: task_mark_def)
next
  case MainJoined
  then show ?thesis using assms(2) by (intro scope_ok_run [OF assms(1), of s']) (auto simp: pc_ok_def split: if_splits)
next
  case RunCancels
  then show ?thesis using assms(2) by (intro scope_ok_run [OF assms(1), of s']) (auto simp: pc_ok_def split: if_splits)
next
  case AllJoined
  have "pc_ok s" using assms(1) by (simp add: scope_ok_def)
  then show ?thesis using AllJoined assms(2)
    by (intro scope_ok_run [OF assms(1), of s']) (auto simp: pc_ok_def split: if_splits)
qed

lemma scope_ok_start: "scope_ok Run_scope"
  by (simp add: scope_ok_def Run_scope_def Spawn_def task_mark_def pc_ok_def)

lemma scope_ok_play: "play scope_step evs Run_scope = Some s \<Longrightarrow> scope_ok s"
  by (rule play_invariant [of scope_ok scope_step, OF scope_ok_step scope_ok_start])

interpretation scope: first_error scope_step sp_err scope_report
proof
  fix ev s s'
  assume "scope_step ev s = Some s'"
  then show "sp_err s' = (case sp_err s of Some x \<Rightarrow> Some x | None \<Rightarrow> scope_report ev s)"
    by (cases ev) (auto simp: Spawn_def SpawnBg_def end_task_def Let_def split: if_splits option.splits phase.splits)
qed

subsection \<open>\<open>Run\<close> waits, and comes back\<close>

lemma scope_joined:
  assumes "play scope_step evs Run_scope = Some s" "sp_pc s = ScopeDone r"
  shows "\<forall>t \<in> set (sp_tasks s). \<exists>x. tk_phase t = Gone x \<and> (x \<noteq> None \<longrightarrow> r \<noteq> None)" "sp_cancelled s" "r = sp_err s"
proof -
  note good = scope_ok_play [OF assms(1)]
  then show r: "sp_cancelled s" "r = sp_err s" using assms(2) by (simp_all add: scope_ok_def pc_ok_def)
  show "\<forall>t \<in> set (sp_tasks s). \<exists>x. tk_phase t = Gone x \<and> (x \<noteq> None \<longrightarrow> r \<noteq> None)"
  proof
    fix t
    assume t: "t \<in> set (sp_tasks s)"
    then obtain i where i: "phase_of s i = Some (tk_phase t)" "t = sp_tasks s ! i"
      by (auto simp: in_set_conv_nth phase_of_def)
    from done_no_task [OF good assms(2) i(1)] obtain x where x: "tk_phase t = Gone x" by blast
    then have "x \<noteq> None \<longrightarrow> sp_err s \<noteq> None"
      using task_marked [OF good i(1)] i(2) by (auto simp: task_mark_def)
    then show "\<exists>x. tk_phase t = Gone x \<and> (x \<noteq> None \<longrightarrow> r \<noteq> None)" using x r(2) by blast
  qed
qed

text \<open>The size of a scope is how much of its way out is left: every step but a spawn and the start of a \<open>Cancel\<close> goes down.\<close>

fun phase_left :: "phase \<Rightarrow> nat" where
  "phase_left Working = 5"
| "phase_left InCancel = 6"
| "phase_left (Finished r) = 4"
| "phase_left (Released r) = 3"
| "phase_left (Cancelling e) = 2"
| "phase_left (Leaving r) = 1"
| "phase_left (Gone r) = 0"

fun pc_left :: "run_pc \<Rightarrow> nat" where
  "pc_left WaitMain = 3"
| "pc_left CancelScope = 2"
| "pc_left WaitAll = 1"
| "pc_left (ScopeDone r) = 0"

instantiation scope_state_ext :: (type) size
begin

definition size_scope_state_ext :: "'a scope_state_scheme \<Rightarrow> nat" where
  "size_scope_state_ext s = sum_list (map (phase_left \<circ> tk_phase) (sp_tasks s)) + pc_left (sp_pc s)"

instance ..

end

fun opens :: "scope_event \<Rightarrow> bool" where
  "opens (Spawns i m name) = True"
| "opens (CancelBegins i e) = True"
| "opens _ = False"

lemma sum_list_update_less:
  "i < length xs \<Longrightarrow> f y < f (xs ! i) \<Longrightarrow> sum_list (map f (xs[i := y])) < (sum_list (map f xs) :: nat)"
proof (induction xs arbitrary: i)
  case (Cons x xs)
  then show ?case by (cases i) auto
qed simp

lemma phase_down:
  assumes "phase_of s i = Some q" "phase_left p < phase_left q" "sp_tasks s0 = sp_tasks s" "sp_pc s0 = sp_pc s"
  shows "size (set_phase i p s0) < size s"
  using sum_list_update_less [of i "sp_tasks s" "phase_left \<circ> tk_phase" "(sp_tasks s ! i)\<lparr>tk_phase := p\<rparr>"]
    phase_ofD [OF assms(1)] assms(2-4) by (simp add: size_scope_state_ext_def)

lemma run_down: "pc_left p < pc_left (sp_pc s) \<Longrightarrow> sp_tasks s0 = sp_tasks s \<Longrightarrow> size (s0\<lparr>sp_pc := p\<rparr>) < size s"
  by (simp add: size_scope_state_ext_def)

lemma scope_step_down:
  assumes "scope_step ev s = Some s'" "\<not> opens ev"
  shows "size s' < size s"
  using assms by (cases ev) (auto simp: end_task_def Let_def split: if_splits option.splits phase.splits
    intro: phase_down run_down)

text \<open>\<open>Run\<close> is never stuck by itself: as long as it has not returned some goroutine can act.\<close>

fun way_out :: "nat \<Rightarrow> phase \<Rightarrow> scope_event" where
  "way_out i Working = TaskReturns i None"
| "way_out i InCancel = CancelEnds i"
| "way_out i (Finished r) = MainTaskDone i"
| "way_out i (Released r) = (if r = None then TaskGone i else Reports i)"
| "way_out i (Cancelling e) = Cancels i"
| "way_out i (Leaving r) = TaskGone i"
| "way_out i (Gone r) = AllJoined"

lemma way_out_enabled:
  assumes "phase_of s i = Some p" "\<forall>x. p \<noteq> Gone x"
  shows "\<exists>s'. scope_step (way_out i p) s = Some s'"
  using assms by (cases p) (auto simp: end_task_def Let_def)

lemma scope_progress:
  assumes "scope_ok s" "\<forall>r. sp_pc s \<noteq> ScopeDone r"
  shows "\<exists>ev s'. scope_step ev s = Some s' \<and> \<not> opens ev \<and>
    (\<forall>i e. ev = TaskReturns i e \<longrightarrow> (\<forall>t \<in> set (sp_tasks s). tk_phase t = Working \<or> (\<exists>x. tk_phase t = Gone x)))"
proof (cases "\<exists>t \<in> set (sp_tasks s). tk_phase t \<noteq> Working \<and> (\<forall>x. tk_phase t \<noteq> Gone x)")
  case True
  then obtain i where i: "phase_of s i = Some (tk_phase (sp_tasks s ! i))"
    "tk_phase (sp_tasks s ! i) \<noteq> Working" "\<forall>x. tk_phase (sp_tasks s ! i) \<noteq> Gone x"
    by (auto simp: in_set_conv_nth phase_of_def)
  from way_out_enabled [OF i(1,3)] obtain s' where "scope_step (way_out i (tk_phase (sp_tasks s ! i))) s = Some s'" by blast
  moreover have "\<not> opens (way_out i p) \<and> (\<forall>j e. way_out i p = TaskReturns j e \<longrightarrow> p = Working)" for p by (cases p) auto
  ultimately show ?thesis using i(2) by blast
next
  case quiet: False
  show ?thesis
  proof (cases "\<exists>t \<in> set (sp_tasks s). tk_phase t = Working")
    case True
    then obtain i where "i < length (sp_tasks s)" "tk_phase (sp_tasks s ! i) = Working" by (auto simp: in_set_conv_nth)
    then have "phase_of s i = Some Working" by (simp add: phase_of_def)
    then show ?thesis using quiet by (intro exI [of _ "TaskReturns i None"]) (auto simp: Let_def)
  next
    case False
    then have gone: "\<exists>x. tk_phase t = Gone x" if "t \<in> set (sp_tasks s)" for t using quiet that by blast
    then have none: "filter in_main (sp_tasks s) = []" "filter present (sp_tasks s) = []"
      by (fastforce simp: filter_empty_conv)+
    then have "sp_main s = 0" "sp_all s = 0" using assms(1) unfolding scope_ok_def by (metis list.size(3))+
    then show ?thesis using assms(2)
      by (cases "sp_pc s") (auto intro: exI [of _ MainJoined] exI [of _ RunCancels] exI [of _ AllJoined])
  qed
qed

lemma scope_returns:
  assumes "scope_ok s"
  shows "\<exists>evs s' r. play scope_step evs s = Some s' \<and> sp_pc s' = ScopeDone r \<and> length evs \<le> size s \<and> \<not> list_ex opens evs"
  using assms
proof (induction "size s" arbitrary: s rule: less_induct)
  case less
  show ?case
  proof (cases "\<exists>r. sp_pc s = ScopeDone r")
    case True
    then show ?thesis by (intro exI [of _ "[]"]) simp
  next
    case False
    then obtain ev s1 where ev: "scope_step ev s = Some s1" "\<not> opens ev" using scope_progress [OF less.prems] by blast
    note down = scope_step_down [OF ev]
    from less.hyps [OF down scope_ok_step [OF less.prems ev(1)]] obtain evs s' r where
      "play scope_step evs s1 = Some s'" "sp_pc s' = ScopeDone r" "length evs \<le> size s1" "\<not> list_ex opens evs"
      by blast
    then show ?thesis using ev down by (intro exI [of _ "ev # evs"] exI [of _ s'] exI [of _ r]) simp
  qed
qed

subsection \<open>Where the error of a scope comes from\<close>

text \<open>The errors a run of the scope was given: by a task that returned, or by a call of \<open>Cancel\<close>.\<close>

fun given :: "scope_event list \<Rightarrow> go_error list" where
  "given [] = []"
| "given (TaskReturns i (Some e) # evs) = e # given evs"
| "given (CancelBegins i (Some e) # evs) = e # given evs"
| "given (ev # evs) = given evs"

lemma given_append: "given (es @ fs) = given es @ given fs"
  by (induction es rule: given.induct) simp_all

fun carried :: "phase \<Rightarrow> go_error option" where
  "carried (Finished r) = r"
| "carried (Released r) = r"
| "carried _ = None"

text \<open>Naming a task wraps its error, so what holds of errors and of their wrappings survives the scope.\<close>

locale wrapped =
  fixes P :: "go_error \<Rightarrow> bool"
  assumes wrap: "P e \<Longrightarrow> P (Wrap n e)"
begin

definition all_carried :: "scope_state \<Rightarrow> bool" where
  "all_carried s \<longleftrightarrow> (\<forall>t \<in> set (sp_tasks s). \<forall>e. carried (tk_phase t) = Some e \<longrightarrow> P e)"

lemma carried_update:
  "all_carried s \<Longrightarrow> (\<And>e. carried p = Some e \<Longrightarrow> P e) \<Longrightarrow> sp_tasks s0 = sp_tasks s \<Longrightarrow> all_carried (set_phase i p s0)"
  using set_update_subset_insert [of "sp_tasks s" i] unfolding all_carried_def by fastforce

lemma named_P: "(\<And>x. e = Some x \<Longrightarrow> P x) \<Longrightarrow> named n e = Some y \<Longrightarrow> P y"
  by (auto simp: named_def wrap split: option.splits)

lemma carried_of: "all_carried s \<Longrightarrow> phase_of s i = Some p \<Longrightarrow> carried p = Some e \<Longrightarrow> P e"
  using phase_ofD [of s i p] nth_mem [of i "sp_tasks s"] unfolding all_carried_def by blast

lemma carried_step:
  assumes "all_carried s" "scope_step ev s = Some s'" "\<forall>e \<in> set (given [ev]). P e"
  shows "all_carried s'" "\<forall>e. scope_report ev s = Some e \<longrightarrow> P e"
proof -
  show "all_carried s'"
  proof (cases ev)
    case (TaskReturns i e)
    let ?t = "sp_tasks s ! i"
    let ?p = "if tk_main ?t then Finished (named (tk_name ?t) e) else Released (named (tk_name ?t) e)"
    have "P y" if "named (tk_name ?t) e = Some y" for y
      by (rule named_P [OF _ that]) (use TaskReturns assms(3) in simp)
    then have "all_carried (set_phase i ?p s)" by (intro carried_update [OF assms(1)]) (simp_all split: if_splits)
    then show ?thesis using TaskReturns assms(2) by (simp add: Let_def split: if_splits)
  next
    case (MainTaskDone i)
    then obtain r where r: "phase_of s i = Some (Finished r)" "s' = set_phase i (Released r) (s\<lparr>sp_main := sp_main s - 1\<rparr>)"
      using assms(2) by (auto split: option.splits phase.splits)
    show ?thesis unfolding r(2) by (rule carried_update [OF assms(1)]) (use carried_of [OF assms(1) r(1)] in auto)
  qed (use assms in \<open>auto simp: end_task_def Spawn_def SpawnBg_def split: if_splits option.splits phase.splits
      intro: carried_update carried_of, auto simp: all_carried_def\<close>)
  show "\<forall>e. scope_report ev s = Some e \<longrightarrow> P e"
    using assms by (cases ev) (auto split: option.splits phase.splits intro: carried_of)
qed

lemma reports_P:
  "all_carried s \<Longrightarrow> play scope_step evs s = Some s' \<Longrightarrow> \<forall>e \<in> set (given evs). P e \<Longrightarrow>
     \<forall>e \<in> set (reports scope_step scope_report evs s). P e"
proof (induction evs arbitrary: s)
  case (Cons ev evs)
  from Cons.prems(2) obtain s1 where s1: "scope_step ev s = Some s1" "play scope_step evs s1 = Some s'"
    by (auto split: option.splits)
  have g: "\<forall>e \<in> set (given [ev]). P e" "\<forall>e \<in> set (given evs). P e"
    using Cons.prems(3) given_append [of "[ev]" evs] by simp_all
  show ?case using carried_step [OF Cons.prems(1) s1(1) g(1)] Cons.IH [OF _ s1(2) g(2)] s1(1)
    by (auto split: option.splits)
qed simp

lemma scope_err_P:
  assumes "play scope_step evs Run_scope = Some s" "sp_pc s = ScopeDone (Some e)" "\<forall>x \<in> set (given evs). P x"
  shows "P e"
proof -
  have "sp_err s = Some e" using scope_joined(3) [OF assms(1,2)] by simp
  then have "first_of (reports scope_step scope_report evs Run_scope) = Some e"
    using scope.err_is_first [OF _ assms(1)] by (simp add: Run_scope_def Spawn_def)
  then have "e \<in> set (reports scope_step scope_report evs Run_scope)" by (auto simp: first_of_def split: list.splits)
  moreover have "all_carried Run_scope" by (simp add: all_carried_def Run_scope_def Spawn_def)
  ultimately show ?thesis using reports_P [OF _ assms(1,3)] by blast
qed

end

interpretation ended: wrapped endedOnRunContext
  by unfold_locales simp

interpretation genuine: wrapped "\<lambda>e. \<not> endedOnRunContext e"
  by unfold_locales simp

subsection \<open>The scope without a context\<close>

text \<open>
  \<open>Parallel\<close>: a task works, has returned, has tried to store its error (only the first one stays),
  and has left the wait group. \<open>Parallel\<close> loads the error once the group is empty.
\<close>

datatype par_phase = PWorking | PReturned "go_error option" | PStored "go_error option" | PGone "go_error option"

record parallel_state =
  pl_err :: "go_error option"
  pl_wg :: nat
  pl_tasks :: "par_phase list"
  pl_done :: "go_error option option"

datatype parallel_event = PSpawns nat | PReturns nat "go_error option" | PStores nat | PDone nat | PJoined

definition par_phase_of :: "parallel_state \<Rightarrow> nat \<Rightarrow> par_phase option" where
  "par_phase_of s i = (if i < length (pl_tasks s) then Some (pl_tasks s ! i) else None)"

definition par_set :: "nat \<Rightarrow> par_phase \<Rightarrow> parallel_state \<Rightarrow> parallel_state" where
  "par_set i p s = s\<lparr>pl_tasks := (pl_tasks s)[i := p]\<rparr>"

definition par_Spawn :: "parallel_state \<Rightarrow> parallel_state" where
  "par_Spawn s = s\<lparr>pl_wg := pl_wg s + 1, pl_tasks := pl_tasks s @ [PWorking]\<rparr>"

fun parallel_step :: "parallel_event \<Rightarrow> parallel_state \<Rightarrow> parallel_state option" where
  "parallel_step (PSpawns i) s = (if par_phase_of s i = Some PWorking then Some (par_Spawn s) else None)"
| "parallel_step (PReturns i e) s = (if par_phase_of s i = Some PWorking then Some (par_set i (PReturned e) s) else None)"
| "parallel_step (PStores i) s =
     (case par_phase_of s i of
        Some (PReturned (Some e)) \<Rightarrow>
          Some (par_set i (PStored (Some e)) (if pl_err s = None then s\<lparr>pl_err := Some e\<rparr> else s))
      | Some (PReturned None) \<Rightarrow> Some (par_set i (PStored None) s)
      | _ \<Rightarrow> None)"
| "parallel_step (PDone i) s =
     (case par_phase_of s i of
        Some (PStored r) \<Rightarrow> Some (par_set i (PGone r) (s\<lparr>pl_wg := pl_wg s - 1\<rparr>)) | _ \<Rightarrow> None)"
| "parallel_step PJoined s = (if pl_wg s = 0 \<and> pl_done s = None then Some (s\<lparr>pl_done := Some (pl_err s)\<rparr>) else None)"

definition Parallel :: parallel_state where
  "Parallel = par_Spawn \<lparr>pl_err = None, pl_wg = 0, pl_tasks = [], pl_done = None\<rparr>"

fun parallel_report :: "parallel_event \<Rightarrow> parallel_state \<Rightarrow> go_error option" where
  "parallel_report (PStores i) s = (case par_phase_of s i of Some (PReturned r) \<Rightarrow> r | _ \<Rightarrow> None)"
| "parallel_report _ s = None"

interpretation parallel: first_error parallel_step pl_err parallel_report
proof
  fix ev s s'
  assume "parallel_step ev s = Some s'"
  then show "pl_err s' = (case pl_err s of Some x \<Rightarrow> Some x | None \<Rightarrow> parallel_report ev s)"
    by (cases ev) (auto simp: par_Spawn_def par_set_def split: if_splits option.splits par_phase.splits)
qed

fun par_present :: "par_phase \<Rightarrow> bool" where
  "par_present (PGone r) = False"
| "par_present _ = True"

definition parallel_ok :: "parallel_state \<Rightarrow> bool" where
  "parallel_ok s \<longleftrightarrow> pl_wg s = length (filter par_present (pl_tasks s)) \<and>
     (\<forall>e. PStored (Some e) \<in> set (pl_tasks s) \<or> PGone (Some e) \<in> set (pl_tasks s) \<longrightarrow> pl_err s \<noteq> None) \<and>
     (\<forall>r. pl_done s = Some r \<longrightarrow> pl_wg s = 0 \<and> r = pl_err s)"

lemma par_phase_ofD: "par_phase_of s i = Some p \<Longrightarrow> i < length (pl_tasks s) \<and> pl_tasks s ! i = p \<and> p \<in> set (pl_tasks s)"
  by (auto simp: par_phase_of_def split: if_splits)

lemma parallel_not_done:
  "parallel_ok s \<Longrightarrow> par_phase_of s i = Some p \<Longrightarrow> par_present p \<Longrightarrow> pl_done s = None \<and> 0 < pl_wg s"
  using par_phase_ofD [of s i p] unfolding parallel_ok_def
  by (cases "pl_done s") (auto simp: filter_empty_conv)

lemma parallel_ok_move:
  assumes "parallel_ok s" "par_phase_of s i = Some q" "par_present q" "pl_tasks s' = (pl_tasks s)[i := p]"
    "pl_wg s' = (if par_present p then pl_wg s else pl_wg s - 1)" "pl_done s' = pl_done s"
    "pl_err s \<noteq> None \<longrightarrow> pl_err s' = pl_err s" "\<And>e. p = PStored (Some e) \<or> p = PGone (Some e) \<Longrightarrow> pl_err s' \<noteq> None"
  shows "parallel_ok s'"
proof -
  have i: "i < length (pl_tasks s)" "pl_tasks s ! i = q" using par_phase_ofD [OF assms(2)] by simp_all
  note d = parallel_not_done [OF assms(1-3)]
  have "pl_wg s' = length (filter par_present (pl_tasks s'))"
    using filter_update_count [OF i(1), of par_present p] i(2) assms(1,3,5) d unfolding assms(4) parallel_ok_def
    by (auto split: if_splits)
  moreover have "pl_err s' \<noteq> None" if "PStored (Some e) \<in> set (pl_tasks s') \<or> PGone (Some e) \<in> set (pl_tasks s')" for e
    using that set_update_subset_insert [of "pl_tasks s" i p] assms(1,7,8) unfolding assms(4) parallel_ok_def by fastforce
  ultimately show ?thesis using d assms(6) unfolding parallel_ok_def by auto
qed

lemma parallel_ok_step:
  assumes "parallel_ok s" "parallel_step ev s = Some s'"
  shows "parallel_ok s'"
proof (cases ev)
  case (PSpawns i)
  then show ?thesis using assms parallel_not_done [OF assms(1), of i PWorking]
    by (auto simp: parallel_ok_def par_Spawn_def split: if_splits)
next
  case (PReturns i e)
  then show ?thesis using assms by (intro parallel_ok_move [of s i PWorking s' "PReturned e"]) (auto simp: par_set_def split: if_splits)
next
  case (PStores i)
  then obtain r where "par_phase_of s i = Some (PReturned r)"
    "s' = par_set i (PStored r) (if r \<noteq> None \<and> pl_err s = None then s\<lparr>pl_err := r\<rparr> else s)"
    using assms(2) by (auto split: option.splits par_phase.splits)
  then show ?thesis using assms(1) by (intro parallel_ok_move [of s i "PReturned r" s' "PStored r"]) (auto simp: par_set_def)
next
  case (PDone i)
  then obtain r where r: "par_phase_of s i = Some (PStored r)" "s' = par_set i (PGone r) (s\<lparr>pl_wg := pl_wg s - 1\<rparr>)"
    using assms(2) by (auto split: option.splits par_phase.splits)
  have "r \<noteq> None \<longrightarrow> pl_err s \<noteq> None" using assms(1) par_phase_ofD [OF r(1)] unfolding parallel_ok_def by auto
  then show ?thesis using assms(1) r by (intro parallel_ok_move [of s i "PStored r" s' "PGone r"]) (auto simp: par_set_def)
next
  case PJoined
  then show ?thesis using assms by (auto simp: parallel_ok_def split: if_splits)
qed

lemma parallel_joined:
  assumes "play parallel_step evs Parallel = Some s" "pl_done s = Some r"
  shows "\<forall>p \<in> set (pl_tasks s). \<exists>x. p = PGone x \<and> (x \<noteq> None \<longrightarrow> r \<noteq> None)" "r = first_of (reports parallel_step parallel_report evs Parallel)"
proof -
  have "parallel_ok Parallel" by (simp add: parallel_ok_def Parallel_def par_Spawn_def)
  then have good: "parallel_ok s"
    by (rule play_invariant [where I = parallel_ok, OF _ _ assms(1), rotated]) (rule parallel_ok_step)
  then have r: "pl_wg s = 0" "r = pl_err s" "length (filter par_present (pl_tasks s)) = 0"
    using assms(2) by (auto simp: parallel_ok_def simp del: length_0_conv)
  then have "filter par_present (pl_tasks s) = []" by (simp only: length_0_conv)
  then have "\<not> par_present p" if "p \<in> set (pl_tasks s)" for p using that by (auto simp: filter_empty_conv)
  moreover have "\<exists>x. p = PGone x" if "\<not> par_present p" for p using that by (cases p) auto
  ultimately have "\<exists>x. p = PGone x \<and> (x \<noteq> None \<longrightarrow> pl_err s \<noteq> None)" if "p \<in> set (pl_tasks s)" for p
    using good that unfolding parallel_ok_def by (metis not_None_eq)
  then show "\<forall>p \<in> set (pl_tasks s). \<exists>x. p = PGone x \<and> (x \<noteq> None \<longrightarrow> r \<noteq> None)" unfolding r(2) by blast
  show "r = first_of (reports parallel_step parallel_report evs Parallel)"
    unfolding r(2) by (rule parallel.err_is_first [OF _ assms(1)]) (simp add: Parallel_def par_Spawn_def)
qed

end
