(* ===== verification/Watch.thy ===== *)
theory Watch
  imports Scope TxsQueue
begin

text \<open>
  \<open>Watch\<close> (\<open>utils/mutex.go\<close>): a mutex whose holder can wait for an update, built from a channel that
  \<open>Updated\<close> closes and replaces. Threads run sections \<open>Lock; WaitUntil pred; body\<close>; a step is one
  acquisition, one stretch under the lock, or one wakeup. What a client has to do for its sleepers
  is the locale \<open>watch_client\<close>; the queue of the sender does it.
\<close>

subsection \<open>The watch\<close>

text \<open>A channel is a number; the fresh ones have not been made yet.\<close>

record 'v watch =
  wt_val :: 'v
  wt_updated :: nat
  wt_closed :: "nat \<Rightarrow> bool"
  wt_fresh :: nat

definition NewWatch :: "'v \<Rightarrow> 'v watch" where
  "NewWatch v = \<lparr>wt_val = v, wt_updated = 0, wt_closed = \<lambda>c. False, wt_fresh = 1\<rparr>"

definition ctrl_Updated :: "'v watch \<Rightarrow> 'v watch" where
  "ctrl_Updated w =
     w\<lparr>wt_closed := (wt_closed w)(wt_updated w := True), wt_updated := wt_fresh w, wt_fresh := wt_fresh w + 1\<rparr>"

text \<open>
  Where a thread is: outside; inside the lock; asleep in \<open>Wait\<close> on the channel it found; woken, with
  the error of its context or without, and about to take the lock again.
\<close>

datatype waiter = Outside | Inside | Asleep nat | Woken "go_error option"

record 'o thread =
  th_ops :: "'o list"
  th_pc :: waiter
  th_results :: "go_error option list"

record ('o, 'v) watch_state =
  ws_watch :: "'v watch"
  ws_lock :: "nat option"
  ws_threads :: "'o thread list"

datatype watch_event = Locks nat | Runs nat | Wakes nat | CtxEnds nat go_error | Relocks nat

definition thread_at :: "('o, 'v) watch_state \<Rightarrow> nat \<Rightarrow> 'o thread option" where
  "thread_at s i = (if i < length (ws_threads s) then Some (ws_threads s ! i) else None)"

definition set_thread :: "nat \<Rightarrow> 'o thread \<Rightarrow> ('o, 'v) watch_state \<Rightarrow> ('o, 'v) watch_state" where
  "set_thread i t s = s\<lparr>ws_threads := (ws_threads s)[i := t]\<rparr>"

definition finish_op :: "go_error option \<Rightarrow> 'o thread \<Rightarrow> 'o thread" where
  "finish_op r t = t\<lparr>th_ops := tl (th_ops t), th_pc := Outside, th_results := th_results t @ [r]\<rparr>"

text \<open>
  Under the lock: if the predicate holds, the body runs, with the updates it signals, and the lock
  is released; else the thread picks up the current channel and releases the lock. \<open>legal\<close> bounds
  what the model takes a body to be run on.
\<close>

definition run_inside ::
  "('o \<Rightarrow> 'v \<Rightarrow> bool) \<Rightarrow> ('o \<Rightarrow> 'v \<Rightarrow> bool) \<Rightarrow> ('o \<Rightarrow> 'v \<Rightarrow> 'v \<times> nat) \<Rightarrow> nat \<Rightarrow> 'o thread \<Rightarrow>
     ('o, 'v) watch_state \<Rightarrow> ('o, 'v) watch_state option" where
  "run_inside legal pred body i t s =
     (let w = ws_watch s; v = wt_val w; oper = hd (th_ops t)
      in if pred oper v then
           (if legal oper v then
              case body oper v of (v', n) \<Rightarrow>
                Some (set_thread i (finish_op None t)
                  (s\<lparr>ws_watch := (ctrl_Updated ^^ n) (w\<lparr>wt_val := v'\<rparr>), ws_lock := None\<rparr>))
            else None)
         else Some (set_thread i (t\<lparr>th_pc := Asleep (wt_updated w)\<rparr>) (s\<lparr>ws_lock := None\<rparr>)))"

fun watch_step ::
  "('o \<Rightarrow> 'v \<Rightarrow> bool) \<Rightarrow> ('o \<Rightarrow> 'v \<Rightarrow> bool) \<Rightarrow> ('o \<Rightarrow> 'v \<Rightarrow> 'v \<times> nat) \<Rightarrow> watch_event \<Rightarrow>
     ('o, 'v) watch_state \<Rightarrow> ('o, 'v) watch_state option" where
  "watch_step legal pred body (Locks i) s =
     (case thread_at s i of
        Some t \<Rightarrow>
          if th_pc t = Outside \<and> th_ops t \<noteq> [] \<and> ws_lock s = None
          then Some (set_thread i (t\<lparr>th_pc := Inside\<rparr>) (s\<lparr>ws_lock := Some i\<rparr>)) else None
      | None \<Rightarrow> None)"
| "watch_step legal pred body (Runs i) s =
     (case thread_at s i of
        Some t \<Rightarrow> if th_pc t = Inside then run_inside legal pred body i t s else None
      | None \<Rightarrow> None)"
| "watch_step legal pred body (Wakes i) s =
     (case thread_at s i of
        Some t \<Rightarrow>
          (case th_pc t of
             Asleep c \<Rightarrow> if wt_closed (ws_watch s) c then Some (set_thread i (t\<lparr>th_pc := Woken None\<rparr>) s) else None
           | _ \<Rightarrow> None)
      | None \<Rightarrow> None)"
| "watch_step legal pred body (CtxEnds i e) s =
     (case thread_at s i of
        Some t \<Rightarrow> (case th_pc t of Asleep c \<Rightarrow> Some (set_thread i (t\<lparr>th_pc := Woken (Some e)\<rparr>) s) | _ \<Rightarrow> None)
      | None \<Rightarrow> None)"
| "watch_step legal pred body (Relocks i) s =
     (case thread_at s i of
        Some t \<Rightarrow>
          (case (th_pc t, ws_lock s) of
             (Woken None, None) \<Rightarrow> Some (set_thread i (t\<lparr>th_pc := Inside\<rparr>) (s\<lparr>ws_lock := Some i\<rparr>))
           | (Woken (Some e), None) \<Rightarrow> Some (set_thread i (finish_op (Some e) t) s)
           | _ \<Rightarrow> None)
      | None \<Rightarrow> None)"

definition watch_start :: "'v \<Rightarrow> 'o list list \<Rightarrow> ('o, 'v) watch_state" where
  "watch_start v progs =
     \<lparr>ws_watch = NewWatch v, ws_lock = None,
      ws_threads = map (\<lambda>os. \<lparr>th_ops = os, th_pc = Outside, th_results = []\<rparr>) progs\<rparr>"

subsection \<open>Sleepers are woken\<close>

definition channels_ok :: "'v watch \<Rightarrow> bool" where
  "channels_ok w \<longleftrightarrow> wt_updated w < wt_fresh w \<and> \<not> wt_closed w (wt_updated w) \<and> (\<forall>c \<ge> wt_fresh w. \<not> wt_closed w c)"

lemma Updated_channels:
  assumes "channels_ok w"
  shows "channels_ok ((ctrl_Updated ^^ n) w)" "wt_closed w c \<longrightarrow> wt_closed ((ctrl_Updated ^^ n) w) c"
    "0 < n \<longrightarrow> wt_closed ((ctrl_Updated ^^ n) w) (wt_updated w)" "wt_val ((ctrl_Updated ^^ n) w) = wt_val w"
proof -
  have one: "channels_ok (ctrl_Updated u) \<and> wt_val (ctrl_Updated u) = wt_val u \<and> (\<forall>c. wt_closed u c \<longrightarrow> wt_closed (ctrl_Updated u) c) \<and>
      wt_closed (ctrl_Updated u) (wt_updated u)" if "channels_ok u" for u :: "'v watch"
    using that by (auto simp: channels_ok_def ctrl_Updated_def)
  have "channels_ok ((ctrl_Updated ^^ n) w) \<and> wt_val ((ctrl_Updated ^^ n) w) = wt_val w \<and>
      (\<forall>c. wt_closed w c \<longrightarrow> wt_closed ((ctrl_Updated ^^ n) w) c) \<and> (0 < n \<longrightarrow> wt_closed ((ctrl_Updated ^^ n) w) (wt_updated w))" for n
  proof (induction n)
    case (Suc n)
    then show ?case using one [of "(ctrl_Updated ^^ n) w"] by (cases n) auto
  qed (simp add: assms)
  then show "channels_ok ((ctrl_Updated ^^ n) w)" "wt_closed w c \<longrightarrow> wt_closed ((ctrl_Updated ^^ n) w) c"
    "0 < n \<longrightarrow> wt_closed ((ctrl_Updated ^^ n) w) (wt_updated w)" "wt_val ((ctrl_Updated ^^ n) w) = wt_val w" by blast+
qed

text \<open>
  What a client owes its sleepers: a body that signals no update makes no predicate true that was
  false before.
\<close>

locale watch_client =
  fixes legal :: "'o \<Rightarrow> 'v \<Rightarrow> bool" and pred :: "'o \<Rightarrow> 'v \<Rightarrow> bool"
    and body :: "'o \<Rightarrow> 'v \<Rightarrow> 'v \<times> nat" and good :: "'v \<Rightarrow> bool"
  assumes keeps: "good v \<Longrightarrow> legal a v \<Longrightarrow> pred a v \<Longrightarrow> body a v = (v', n) \<Longrightarrow> good v'"
    and signals: "good v \<Longrightarrow> legal a v \<Longrightarrow> pred a v \<Longrightarrow> body a v = (v', 0) \<Longrightarrow> pred b v' \<Longrightarrow> pred b v"
begin

text \<open>A sleeper's channel is closed, or it is the current one and the predicate does not hold.\<close>

definition thread_ok :: "'v watch \<Rightarrow> 'o thread \<Rightarrow> bool" where
  "thread_ok w t \<longleftrightarrow>
     (th_pc t \<noteq> Outside \<longrightarrow> th_ops t \<noteq> []) \<and>
     (\<forall>c. th_pc t = Asleep c \<longrightarrow> wt_closed w c \<or> c = wt_updated w \<and> \<not> pred (hd (th_ops t)) (wt_val w))"

definition watch_ok :: "('o, 'v) watch_state \<Rightarrow> bool" where
  "watch_ok s \<longleftrightarrow> good (wt_val (ws_watch s)) \<and> channels_ok (ws_watch s) \<and> (\<forall>t \<in> set (ws_threads s). thread_ok (ws_watch s) t) \<and>
     (\<forall>i < length (ws_threads s). th_pc (ws_threads s ! i) = Inside \<longleftrightarrow> ws_lock s = Some i)"

lemma thread_atD: "thread_at s i = Some t \<Longrightarrow> i < length (ws_threads s) \<and> ws_threads s ! i = t \<and> t \<in> set (ws_threads s)"
  by (auto simp: thread_at_def split: if_splits)

lemma watch_ok_move:
  assumes "watch_ok s" "thread_at s i = Some t" "s' = set_thread i t' (s\<lparr>ws_watch := w, ws_lock := l\<rparr>)"
    "good (wt_val w)" "channels_ok w" "thread_ok w t'"
    "\<And>u. u \<in> set (ws_threads s) \<Longrightarrow> thread_ok (ws_watch s) u \<Longrightarrow> thread_ok w u"
    "th_pc t' = Inside \<longleftrightarrow> l = Some i" "\<And>j. j \<noteq> i \<Longrightarrow> l = Some j \<longleftrightarrow> ws_lock s = Some j"
  shows "watch_ok s'"
proof -
  have "thread_ok w u" if "u \<in> set ((ws_threads s)[i := t'])" for u
    using that set_update_subset_insert [of "ws_threads s" i t'] assms(1,6,7) unfolding watch_ok_def by blast
  moreover have "th_pc ((ws_threads s)[i := t'] ! j) = Inside \<longleftrightarrow> l = Some j" if "j < length (ws_threads s)" for j
    using that assms(1,8,9) unfolding watch_ok_def by (cases "j = i") simp_all
  ultimately show ?thesis using assms(3-5) by (simp add: watch_ok_def set_thread_def)
qed

lemma watch_ok_inside:
  assumes "watch_ok s" "thread_at s i = Some t" "th_pc t = Inside" "run_inside legal pred body i t s = Some s'"
  shows "watch_ok s'"
proof -
  let ?w = "ws_watch s"
  note s = assms(1) [unfolded watch_ok_def]
  have lock: "ws_lock s = Some i" using s thread_atD [OF assms(2)] assms(3) by auto
  have t: "thread_ok ?w t" using s thread_atD [OF assms(2)] by blast
  show ?thesis
  proof (cases "pred (hd (th_ops t)) (wt_val ?w)")
    case False
    then have "s' = set_thread i (t\<lparr>th_pc := Asleep (wt_updated ?w)\<rparr>) (s\<lparr>ws_watch := ?w, ws_lock := None\<rparr>)"
      using assms(4) by (simp add: run_inside_def Let_def)
    then show ?thesis using s t lock False assms(3)
      by (intro watch_ok_move [OF assms(1,2)]) (auto simp: thread_ok_def)
  next
    case True
    obtain v' n where b: "body (hd (th_ops t)) (wt_val ?w) = (v', n)" by fastforce
    let ?w' = "(ctrl_Updated ^^ n) (?w\<lparr>wt_val := v'\<rparr>)"
    have legal: "legal (hd (th_ops t)) (wt_val ?w)"
      and s': "s' = set_thread i (finish_op None t) (s\<lparr>ws_watch := ?w', ws_lock := None\<rparr>)"
      using assms(4) True b by (auto simp: run_inside_def Let_def split: if_splits)
    have ch: "channels_ok (?w\<lparr>wt_val := v'\<rparr>)" using s by (simp add: channels_ok_def)
    note up = Updated_channels [OF ch, of n]
    have "thread_ok ?w' u" if u: "thread_ok ?w u" for u
    proof (cases n)
      case 0
      then show ?thesis using u signals [OF _ legal True] b s by (auto simp: thread_ok_def)
    next
      case (Suc m)
      have "wt_closed ?w' c" if "wt_closed ?w c \<or> c = wt_updated ?w" for c
        using that up(3) Updated_channels(2) [OF ch, of c n] Suc by auto
      then show ?thesis using u by (auto simp: thread_ok_def)
    qed
    then show ?thesis using up(1,4) keeps [OF _ legal True b] s lock
      by (intro watch_ok_move [OF assms(1,2) s']) (auto simp: finish_op_def thread_ok_def)
  qed
qed

lemma watch_ok_step:
  assumes "watch_ok s" "watch_step legal pred body ev s = Some s'"
  shows "watch_ok s'"
proof -
  note s = assms(1) [unfolded watch_ok_def]
  have same: "s\<lparr>ws_watch := ws_watch s, ws_lock := ws_lock s\<rparr> = s" "s\<lparr>ws_watch := ws_watch s, ws_lock := l\<rparr> = s\<lparr>ws_lock := l\<rparr>" for l
    by simp_all
  show ?thesis
  proof (cases ev)
    case (Locks i)
    then obtain t where t: "thread_at s i = Some t" "th_pc t = Outside" "th_ops t \<noteq> []" "ws_lock s = None"
      "s' = set_thread i (t\<lparr>th_pc := Inside\<rparr>) (s\<lparr>ws_watch := ws_watch s, ws_lock := Some i\<rparr>)"
      using assms(2) by (auto split: option.splits if_splits)
    show ?thesis by (rule watch_ok_move [OF assms(1) t(1,5)]) (use s t in \<open>auto simp: thread_ok_def\<close>)
  next
    case (Runs i)
    then show ?thesis using assms(2) watch_ok_inside [OF assms(1)] by (auto split: option.splits if_splits)
  next
    case (Wakes i)
    then obtain t c where t: "thread_at s i = Some t" "th_pc t = Asleep c"
      "s' = set_thread i (t\<lparr>th_pc := Woken None\<rparr>) (s\<lparr>ws_watch := ws_watch s, ws_lock := ws_lock s\<rparr>)"
      using assms(2) by (auto split: option.splits if_splits waiter.splits)
    show ?thesis by (rule watch_ok_move [OF assms(1) t(1,3)]) (use s t thread_atD [OF t(1)] in \<open>auto simp: thread_ok_def\<close>)
  next
    case (CtxEnds i e)
    then obtain t c where t: "thread_at s i = Some t" "th_pc t = Asleep c"
      "s' = set_thread i (t\<lparr>th_pc := Woken (Some e)\<rparr>) (s\<lparr>ws_watch := ws_watch s, ws_lock := ws_lock s\<rparr>)"
      using assms(2) by (auto split: option.splits if_splits waiter.splits)
    show ?thesis by (rule watch_ok_move [OF assms(1) t(1,3)]) (use s t thread_atD [OF t(1)] in \<open>auto simp: thread_ok_def\<close>)
  next
    case (Relocks i)
    then obtain t r where t: "thread_at s i = Some t" "th_pc t = Woken r" "ws_lock s = None"
      using assms(2) by (auto split: option.splits waiter.splits)
    have u: "thread_ok (ws_watch s) t" using s thread_atD [OF t(1)] by blast
    show ?thesis
    proof (cases r)
      case None
      then have "s' = set_thread i (t\<lparr>th_pc := Inside\<rparr>) (s\<lparr>ws_watch := ws_watch s, ws_lock := Some i\<rparr>)"
        using Relocks assms(2) t by simp
      then show ?thesis by (rule watch_ok_move [OF assms(1) t(1)]) (use s t u in \<open>auto simp: thread_ok_def\<close>)
    next
      case (Some e)
      then have "s' = set_thread i (finish_op r t) s" using Relocks assms(2) t by simp
      then have "s' = set_thread i (finish_op r t) (s\<lparr>ws_watch := ws_watch s, ws_lock := ws_lock s\<rparr>)" unfolding same(1) .
      then show ?thesis by (rule watch_ok_move [OF assms(1) t(1)]) (use s t u in \<open>auto simp: thread_ok_def finish_op_def\<close>)
    qed
  qed
qed

lemma watch_ok_start: "good v \<Longrightarrow> watch_ok (watch_start v progs)"
  by (auto simp: watch_ok_def watch_start_def NewWatch_def channels_ok_def thread_ok_def)

lemma watch_ok_play:
  assumes "good v" "play (watch_step legal pred body) evs (watch_start v progs) = Some s"
  shows "watch_ok s"
  by (rule play_invariant [where I = watch_ok, OF _ watch_ok_start [OF assms(1)] assms(2)]) (rule watch_ok_step)

text \<open>Whoever sleeps on a predicate that holds can wake up.\<close>

lemma sleeper_can_wake:
  assumes "good v" "play (watch_step legal pred body) evs (watch_start v progs) = Some s"
    "thread_at s i = Some t" "th_pc t = Asleep c" "pred (hd (th_ops t)) (wt_val (ws_watch s))"
  shows "watch_step legal pred body (Wakes i) s \<noteq> None"
proof -
  have "thread_ok (ws_watch s) t" using watch_ok_play [OF assms(1,2)] thread_atD [OF assms(3)] by (auto simp: watch_ok_def)
  then show ?thesis using assms(3-5) by (auto simp: thread_ok_def)
qed

end

subsection \<open>The sections of the queue\<close>

text \<open>Every method of \<open>TxsQueue\<close> is one section on its watch.\<close>

datatype queue_op =
    SecPush load_tx
  | SecPopReady
  | SecPopSent address
  | SecReset address u64
  | SecWaitUntilEmpty
  | SecNonce account

fun queue_pred :: "queue_op \<Rightarrow> txs_queue \<Rightarrow> bool" where
  "queue_pred (SecPush tx) q = has_room q"
| "queue_pred SecPopReady q = has_ready q"
| "queue_pred SecWaitUntilEmpty q = is_empty q"
| "queue_pred _ q = True"

fun queue_after :: "queue_op \<Rightarrow> txs_queue \<Rightarrow> txs_queue" where
  "queue_after (SecPush tx) q = Push_locked tx q"
| "queue_after SecPopReady q = (case PopReady_locked q of Ok (tx, q') \<Rightarrow> q' | _ \<Rightarrow> q)"
| "queue_after (SecPopSent a) q = PopSent a q"
| "queue_after (SecReset a n) q = Reset a n q"
| "queue_after SecWaitUntilEmpty q = q"
| "queue_after (SecNonce acc) q = q"

definition queue_body :: "queue_op \<Rightarrow> txs_queue \<Rightarrow> txs_queue \<times> nat" where
  "queue_body oper q = (let q' = queue_after oper q in (q', version q' - version q))"

text \<open>The counters of the ready queue and the nonces are 64-bit: a section runs below their end.\<close>

fun queue_legal :: "queue_op \<Rightarrow> txs_queue \<Rightarrow> bool" where
  "queue_legal (SecPush tx) q = push_bounded tx q"
| "queue_legal (SecPopSent a) q = queue_can_push (readyq q)"
| "queue_legal _ q = True"

lemma queue_after_step:
  assumes "wf_queue q" "queue_legal oper q" "queue_pred oper q"
  shows "queue_after oper q = q \<or> queue_step q (queue_after oper q)"
proof (cases oper)
  case SecPopReady
  then show ?thesis using assms by (auto split: outcome.split intro: step_PopReady)
qed (use assms in \<open>auto intro: queue_step.intros\<close>)

lemma queue_step_version:
  assumes "wf_queue q" "queue_step q q'"
  shows "version q \<le> version q'"
  using assms(2)
proof cases
  case (step_Push tx)
  then show ?thesis using Push_locked_accept(4) [of tx q] Push_locked_reject [of tx q] by (cases "accepts tx q") (auto split: if_splits)
next
  case (step_PopReady r)
  then show ?thesis using PopReady_step(4) [OF assms(1)] by simp
next
  case (step_PopSent a)
  then show ?thesis using PopSent_signal [OF assms(1), of a] by auto
next
  case (step_Reset a n)
  then show ?thesis using Reset_signal [of a n q] by auto
qed

definition queue_good :: "txs_queue \<Rightarrow> bool" where
  "queue_good q \<longleftrightarrow> wf_queue q \<and> len_txs q \<le> capacity q"

interpretation qw: watch_client queue_legal queue_pred queue_body queue_good
proof
  fix v v' a b n
  assume "queue_good v" "queue_legal a v" "queue_pred a v"
  then have v: "wf_queue v" "queue_legal a v" "queue_pred a v" "len_txs v \<le> capacity v" by (simp_all add: queue_good_def)
  note step = queue_after_step [OF v(1-3)]
  show "queue_good v'" if "queue_body a v = (v', n)"
    using that step v queue_step_inv [OF _ v(1,4)] by (auto simp: queue_body_def queue_good_def Let_def)
  show "queue_pred b v" if "queue_body a v = (v', 0)" "queue_pred b v'"
  proof (cases "v' = v")
    case False
    then have q: "queue_step v v'" "version v' \<le> version v" using that(1) step by (auto simp: queue_body_def Let_def)
    then have "version v' = version v" using queue_step_version [OF v(1) q(1)] by simp
    from queue_step_signals [OF v(1) q(1) this] show ?thesis using that(2) by (cases b) auto
  qed (use that in simp)
qed

subsection \<open>Did it update?\<close>

text \<open>\<open>f\<close> runs with the lock free, so what it does to the watch includes what others do meanwhile.\<close>

definition MonitorWatchUpdates :: "('v watch \<Rightarrow> 'v watch) \<Rightarrow> 'v watch \<Rightarrow> bool \<times> 'v watch" where
  "MonitorWatchUpdates f w = (let updated = wt_updated w; w' = f w in (wt_closed w' updated, w'))"

lemma MonitorWatchUpdates_iff:
  assumes "channels_ok w"
  shows "fst (MonitorWatchUpdates (\<lambda>w. (ctrl_Updated ^^ n) (w\<lparr>wt_val := v\<rparr>)) w) \<longleftrightarrow> 0 < n"
proof -
  have "channels_ok (w\<lparr>wt_val := v\<rparr>)" "wt_updated (w\<lparr>wt_val := v\<rparr>) = wt_updated w" using assms by (simp_all add: channels_ok_def)
  from Updated_channels(3) [OF this(1), of n] this(2) show ?thesis
    using assms by (cases n) (simp_all add: MonitorWatchUpdates_def channels_ok_def)
qed

end
