(* ===== verification/PipelineProps.thy ===== *)
theory PipelineProps
  imports Sender Watch
begin

text \<open>
  The properties of the sending pipeline: the queue of unsigned transactions and the sharded
  sender that drains it. The values at the start are concrete accounts, transactions and
  states the witnesses of this and the later property theories evaluate on.
\<close>

subsection \<open>Values the witnesses evaluate on\<close>

definition sample_account :: "nat \<Rightarrow> bool \<Rightarrow> account" where
  "sample_account a tracked = \<lparr>acc_address = of_nat a, acc_priv = Some a, acc_tracked = tracked\<rparr>"

definition sample_eth :: "u64 \<Rightarrow> u64 \<Rightarrow> eth_tx" where
  "sample_eth nonce gas = \<lparr>et_nonce = nonce, et_to = Some 9, et_amount = 1, et_gas = gas,
     et_tip_cap = 1, et_fee_cap = 1, et_data = NoData, et_signed_by = None\<rparr>"

definition sample_tx :: "nat \<Rightarrow> u64 \<Rightarrow> u64 \<Rightarrow> load_tx" where
  "sample_tx a nonce gas = NewEnqueuedTx (sample_eth nonce gas)
     (NewTxScenario ''evmtransfer'' ''transfer'' nonce (sample_account a True) 9) 5"

definition sample_env :: sender_env where
  "sample_env = \<lparr>se_client = \<lparr>DryRun = False, cc_ChainID = ''sei'', Endpoints = [''http://a'']\<rparr>,
     se_clients = 1, se_procs = 2, se_hash = \<lambda>tx. unat (et_nonce tx),
     se_sign = \<lambda>tx k. Inr (tx\<lparr>et_signed_by := k\<rparr>)\<rparr>"

definition sample_collector :: collector where
  "sample_collector = NewCollector 1 2 3"

lemma sample_sender_of [simp]: "sender_of (sample_tx a n g) = of_nat a"
  by (simp add: sample_tx_def NewEnqueuedTx_def NewTxScenario_def sample_account_def)

lemma sample_nonce_of [simp]: "nonce_of (sample_tx a n g) = n"
  by (simp add: sample_tx_def NewEnqueuedTx_def sample_eth_def)

lemma sample_signer_ok: "signer_ok sample_env"
  by (auto simp: signer_ok_def sample_env_def)

lemma sample_healthy: "healthy sample_env"
  by (simp add: healthy_def sample_env_def)

definition sample_queue :: txs_queue where
  "sample_queue = Push_locked (sample_tx 7 0 21000) (NewTxsQueue 4)"

lemma max_u64_neq [simp]: "(0 :: u64) \<noteq> max_u64"
  by simp

lemma sample_bounded: "push_bounded (sample_tx 7 0 21000) (NewTxsQueue 4)"
  by (simp add: push_bounded_def queue_can_push_def NewTxsQueue_def newQueue_def)

lemma sample_next: "nextNonce (acc_or_new (sample_tx 7 0 21000) (NewTxsQueue 4)) = 0"
  by (simp add: acc_or_new_def NewTxsQueue_def)

lemma sample_accepts: "accepts (sample_tx 7 0 21000) (NewTxsQueue 4)"
  by (simp add: accepts_def acc_or_new_def NewTxsQueue_def)

definition sample_state :: sender_state where
  "sample_state = (NewShardedSender sample_env 4 sample_collector None)\<lparr>ss_queue := sample_queue\<rparr>"

lemma sample_push: "sender_step sample_env (NewShardedSender sample_env 4 sample_collector None) sample_state"
proof -
  have "ss_queue (NewShardedSender sample_env 4 sample_collector None) = NewTxsQueue 4"
    by (simp add: NewShardedSender_def)
  then show ?thesis
    using st_Push [of "NewShardedSender sample_env 4 sample_collector None" "sample_tx 7 0 21000" sample_env]
    by (simp add: sample_state_def sample_queue_def sample_bounded has_room_def)
qed

lemma sample_queue_sel:
  "wf_queue sample_queue" "pending sample_queue 7 = [sample_tx 7 0 21000]" "ready_list sample_queue = [7]"
  "len_txs sample_queue = 1" "\<not> busy sample_queue a" "q_next (readyq sample_queue) = 1"
proof -
  show "wf_queue sample_queue" unfolding sample_queue_def by (rule wf_Push_locked) (simp_all add: sample_bounded)
  show "pending sample_queue 7 = [sample_tx 7 0 21000]"
    unfolding sample_queue_def by (simp add: pending_Push_locked sample_bounded sample_accepts)
  show "len_txs sample_queue = 1"
    unfolding sample_queue_def by (simp add: len_Push_locked sample_accepts)
  show "\<not> busy sample_queue a"
    unfolding sample_queue_def by (simp add: busy_Push_locked sample_bounded)
  have sel_new: "q_next (newQueue :: address queue) = 0" by (simp add: newQueue_def)
  have r: "readyq sample_queue = queue_Push (7 :: address) newQueue"
    unfolding sample_queue_def
    using Push_locked_accept(3) [OF sample_accepts] by (simp add: acc_or_new_def NewTxsQueue_def)
  show "q_next (readyq sample_queue) = 1" by (simp add: r queue_Push_def newQueue_def)
  show "ready_list sample_queue = [7]"
    using ready.items_put [OF queue_inv_new, of "7 :: address"] by (simp add: r queue_can_push_def sel_new)
qed

section \<open>Properties\<close>

subsection \<open>The sender\<close>

text \<open>
  C1. However the steps of producers, dispatcher and goroutines interleave, an account has at
  most one transaction in flight, and it is the oldest pending one of that account, under its
  nonce; the queue never holds more transactions than its capacity.
\<close>

theorem sender_one_in_flight:
  assumes "0 \<le> cap" "signer_ok env" "(sender_step env)\<^sup>*\<^sup>* (NewShardedSender env cap col inc) s"
  shows "distinct (map t_addr (ss_tasks s)) \<and>
    (\<forall>t \<in> set (ss_tasks s). sender_of (t_tx t) = t_addr t \<and> pending (ss_queue s) (t_addr t) \<noteq> [] \<and>
       nonce_of (t_tx t) = nonce_of (hd (pending (ss_queue s) (t_addr t)))) \<and>
    len_txs (ss_queue s) \<le> capacity (ss_queue s)"
proof -
  have "sender_inv env s"
    using assms(3)
  proof (induction rule: rtranclp_induct)
    case base
    show ?case by (rule sender_inv_new [OF assms(1)])
  next
    case (step s s')
    show ?case by (rule sender_step_inv [OF step.hyps(2) step.IH assms(2)])
  qed
  then show ?thesis by (auto simp: sender_inv_def owners_def tq.owned_def task_ok_def)
qed

lemma sample_no_tasks: "ss_tasks sample_state = []"
  by (simp add: sample_state_def NewShardedSender_def)

lemma sample_dispatched:
  "\<exists>s. sender_step sample_env sample_state s \<and> map t_addr (ss_tasks s) = [7]"
proof -
  have wf: "wf_queue (ss_queue sample_state)" and rl: "ready_list (ss_queue sample_state) = [7]"
    by (simp_all add: sample_state_def sample_queue_sel)
  have hr: "has_ready (ss_queue sample_state)" using rl has_ready_iff [OF wf] by simp
  from PopReady_correct [OF wf rl] obtain q where
    q: "PopReady_locked (ss_queue sample_state) = Ok (Some (sample_tx 7 0 21000), q)"
    by (auto simp: sample_state_def sample_queue_sel)
  have "ss_running sample_state" by (simp add: sample_state_def NewShardedSender_def)
  from st_Dispatch [OF this hr q, of sample_env] show ?thesis
    by (intro exI conjI) (assumption, simp add: sample_state_def NewShardedSender_def)
qed

theorem sender_one_in_flight_witness:
  "\<exists>s. (sender_step sample_env)\<^sup>*\<^sup>* (NewShardedSender sample_env 4 sample_collector None) s \<and>
     map t_addr (ss_tasks s) = [7] \<and> len_txs (ss_queue s) \<le> capacity (ss_queue s)"
proof -
  obtain s where s: "sender_step sample_env sample_state s" "map t_addr (ss_tasks s) = [7]"
    using sample_dispatched by (elim exE conjE)
  have r: "(sender_step sample_env)\<^sup>*\<^sup>* (NewShardedSender sample_env 4 sample_collector None) s"
    by (meson r_into_rtranclp rtranclp.rtrancl_into_rtrancl sample_push s(1))
  from sender_one_in_flight [OF _ sample_signer_ok r] s(2) r show ?thesis by auto
qed

text \<open>
  C2. \<open>Flush\<close> is never stuck: while the dispatcher runs and no goroutine has failed, there is a
  way on from every reachable state to an empty queue that meets no error, provided the node
  has a connection, signing succeeds and a signing permit exists.
\<close>

theorem sender_flushes:
  assumes "sender_inv env s" "healthy env" "signer_ok env" "ready_room (ss_queue s)" "ss_running s" "ss_dead s = []"
  shows "\<exists>s'. (sender_step env)\<^sup>*\<^sup>* s s' \<and> WaitUntilEmpty None (ss_queue s') = Returned None \<and> ss_error s' = ss_error s"
  using sender_drains [OF assms] by (auto simp: WaitUntilEmpty_def)

lemma sample_inv: "sender_inv sample_env sample_state"
  using sender_step_inv [OF sample_push sender_inv_new sample_signer_ok] by simp

theorem sender_flushes_witness:
  "\<not> is_empty (ss_queue sample_state) \<and>
   (\<exists>s'. (sender_step sample_env)\<^sup>*\<^sup>* sample_state s' \<and> WaitUntilEmpty None (ss_queue s') = Returned None \<and>
     ss_error s' = ss_error sample_state)"
proof
  show "\<not> is_empty (ss_queue sample_state)" by (simp add: sample_state_def is_empty_def sample_queue_sel)
  have "ready_room (ss_queue sample_state)"
    by (simp add: ready_room_def sample_state_def sample_queue_sel)
  then show "\<exists>s'. (sender_step sample_env)\<^sup>*\<^sup>* sample_state s' \<and> WaitUntilEmpty None (ss_queue s') = Returned None \<and>
     ss_error s' = ss_error sample_state"
    by (intro sender_flushes [OF sample_inv sample_healthy sample_signer_ok])
      (simp_all add: sample_state_def NewShardedSender_def)
qed

text \<open>
  C25. The sender does a bounded amount of work: every step but the enqueue of a transaction
  makes the remaining work smaller, and the work is never negative. So without new
  transactions every run is finite, whatever the node answers.
\<close>

theorem sender_work_decreases:
  assumes "sender_inv env s" "signer_ok env" "sender_step env s s'" "\<not> is_push s s'"
  shows "0 \<le> work_left s' \<and> work_left s' < work_left s"
  using sender_step_work [OF assms(3,1)] work_left_nonneg [OF sender_step_inv [OF assms(3,1,2)]] assms(4) by auto

theorem sender_work_decreases_witness:
  "\<exists>s. sender_step sample_env sample_state s \<and> 0 \<le> work_left s \<and> work_left s < work_left sample_state"
proof -
  obtain s where s: "sender_step sample_env sample_state s" "map t_addr (ss_tasks s) = [7]"
    using sample_dispatched by (elim exE conjE)
  have "\<not> is_push sample_state s"
    using s(2) sample_no_tasks by (auto simp: is_push_def)
  from sender_work_decreases [OF sample_inv sample_signer_ok s(1) this] s(1) show ?thesis by blast
qed

subsection \<open>The queue\<close>

text \<open>
  C4. \<open>Push\<close> refines the abstract queue: a transaction with the account's next nonce is
  appended to what is pending for its account, any other is dropped and changes nothing;
  which accounts are in flight does not change, and the queue stays well formed.
\<close>

theorem push_refines:
  assumes "wf_queue q" "push_bounded tx q"
  shows "wf_queue (Push_locked tx q) \<and> busy (Push_locked tx q) = busy q \<and>
    pending (Push_locked tx q) =
      (if nonce_of tx = nextNonce (acc_or_new tx q)
       then (pending q)(sender_of tx := pending q (sender_of tx) @ [tx]) else pending q)"
  using wf_Push_locked [OF assms] busy_Push_locked [OF assms] pending_Push_locked [OF assms]
  by (simp add: accepts_def)

theorem push_refines_witness:
  "pending (Push_locked (sample_tx 7 0 21000) (NewTxsQueue 4)) 7 = [sample_tx 7 0 21000] \<and>
   pending (Push_locked (sample_tx 7 5 21000) sample_queue) 7 = [sample_tx 7 0 21000]"
proof
  show "pending (Push_locked (sample_tx 7 0 21000) (NewTxsQueue 4)) 7 = [sample_tx 7 0 21000]"
    using push_refines [OF wf_queue_new sample_bounded] by (simp add: sample_next)
  have n: "nextNonce (acc_or_new (sample_tx 7 5 21000) sample_queue) = 1"
    unfolding sample_queue_def acc_or_new_def
    using Push_locked_accept(1) [OF sample_accepts] by (simp add: acc_or_new_def NewTxsQueue_def)
  have "push_bounded (sample_tx 7 5 21000) sample_queue"
    by (simp add: push_bounded_def queue_can_push_def sample_queue_sel)
  from push_refines [OF sample_queue_sel(1) this] n
  show "pending (Push_locked (sample_tx 7 5 21000) sample_queue) 7 = [sample_tx 7 0 21000]"
    by (simp add: sample_queue_sel)
qed

text \<open>
  C22. \<open>PopReady\<close> on a non-empty ready queue returns the oldest transaction of the account that
  has been ready longest, marks that account in flight, and leaves what is pending as it is;
  it neither panics nor returns a nil transaction.
\<close>

theorem pop_ready_is_fifo:
  assumes "wf_queue q" "ready_list q = a # as"
  shows "\<exists>q'. PopReady None q = Returned (Ok (Some (hd (pending q a)), q')) \<and> wf_queue q' \<and>
    pending q' = pending q \<and> busy q' = (busy q)(a := True) \<and> ready_list q' = as"
  using PopReady_correct [OF assms] assms(2) by (auto simp: PopReady_def has_ready_iff [OF assms(1)])

theorem pop_ready_is_fifo_witness:
  "\<exists>q'. PopReady None sample_queue = Returned (Ok (Some (sample_tx 7 0 21000), q')) \<and> ready_list q' = []"
  using pop_ready_is_fifo [OF sample_queue_sel(1,3)] by (auto simp: sample_queue_sel)





text \<open>
  No wakeup is lost: a critical section that does not signal the watch makes none of the
  three conditions true that a \<open>Push\<close>, a \<open>PopReady\<close> or a \<open>WaitUntilEmpty\<close> may be asleep on.
\<close>

lemma no_lost_wakeup:
  assumes "wf_queue q" "queue_step q q'" "version q' = version q"
  shows "(has_room q' \<longrightarrow> has_room q) \<and> (has_ready q' \<longrightarrow> has_ready q) \<and> (is_empty q' \<longrightarrow> is_empty q)"
  by (rule queue_step_signals [OF assms])

lemma quiet_push_sample:
  "queue_step sample_queue (Push_locked (sample_tx 7 1 21000) sample_queue) \<and>
   \<not> is_empty (Push_locked (sample_tx 7 1 21000) sample_queue)"
proof
  let ?q = "Push_locked (sample_tx 7 1 21000) sample_queue"
  have st: "acc_or_new (sample_tx 7 1 21000) sample_queue =
      \<lparr>firstNonce = 0, nextNonce = 1, acc_ready = True, acc_track = True\<rparr>"
    unfolding sample_queue_def acc_or_new_def
    using Push_locked_accept(1) [OF sample_accepts]
    by (simp add: acc_or_new_def NewTxsQueue_def sample_tx_def NewEnqueuedTx_def NewTxScenario_def sample_account_def)
  have acc: "accepts (sample_tx 7 1 21000) sample_queue" by (simp add: accepts_def st)
  have cap: "capacity sample_queue = 4"
    unfolding sample_queue_def using Push_locked_accept(5) [OF sample_accepts] by simp
  have "has_room sample_queue" "push_bounded (sample_tx 7 1 21000) sample_queue"
    by (simp_all add: has_room_def cap sample_queue_sel push_bounded_def queue_can_push_def)
  then show step: "queue_step sample_queue ?q" by (rule step_Push)
  have "version ?q = version sample_queue" using Push_locked_accept(4) [OF acc] by (simp add: st)
  from no_lost_wakeup [OF sample_queue_sel(1) step this]
  show "\<not> is_empty ?q" by (auto simp: is_empty_def sample_queue_sel)
qed

text \<open>
  C8. Nobody sleeps through an update: when any number of threads run the methods of the queue on
  its watch, in any interleaving, the queue stays well formed and within its capacity, at most one
  thread is inside the lock, and a thread asleep on a condition that holds by now can wake up.
\<close>

theorem sleepers_can_wake:
  assumes "wf_queue q" "len_txs q \<le> capacity q"
    "play (watch_step queue_legal queue_pred queue_body) evs (watch_start q progs) = Some s"
  shows "wf_queue (wt_val (ws_watch s)) \<and> len_txs (wt_val (ws_watch s)) \<le> capacity (wt_val (ws_watch s)) \<and>
    (\<forall>i j t u. thread_at s i = Some t \<and> thread_at s j = Some u \<and> th_pc t = Inside \<and> th_pc u = Inside \<longrightarrow> i = j) \<and>
    (\<forall>i t c. thread_at s i = Some t \<and> th_pc t = Asleep c \<and> queue_pred (hd (th_ops t)) (wt_val (ws_watch s)) \<longrightarrow>
       watch_step queue_legal queue_pred queue_body (Wakes i) s \<noteq> None)"
proof -
  have good: "queue_good q" using assms(1,2) by (simp add: queue_good_def)
  note ok = qw.watch_ok_play [OF good assms(3)]
  have "queue_good (wt_val (ws_watch s))" using ok by (simp add: qw.watch_ok_def)
  moreover have "i = j" if "thread_at s i = Some t" "thread_at s j = Some u" "th_pc t = Inside" "th_pc u = Inside" for i j t u
    using ok that by (auto simp: qw.watch_ok_def thread_at_def split: if_splits)
  ultimately show ?thesis using qw.sleeper_can_wake [OF good assms(3)] unfolding queue_good_def by blast
qed

lemma sample_version: "version sample_queue = 1" "capacity sample_queue = 4"
  unfolding sample_queue_def using Push_locked_accept(4,5) [OF sample_accepts]
  by (simp_all add: acc_or_new_def NewTxsQueue_def)

theorem sleepers_can_wake_witness:
  "\<exists>s. play (watch_step queue_legal queue_pred queue_body) [Locks 0, Runs 0, Locks 1, Runs 1]
       (watch_start (NewTxsQueue 4) [[SecPopReady], [SecPush (sample_tx 7 0 21000)]]) = Some s \<and>
     th_pc (ws_threads s ! 0) = Asleep 0 \<and> watch_step queue_legal queue_pred queue_body (Wakes 0) s \<noteq> None"
proof -
  have body: "queue_body (SecPush (sample_tx 7 0 21000)) (NewTxsQueue 4) = (sample_queue, 1)"
    using sample_version by (simp add: queue_body_def sample_queue_def [symmetric] NewTxsQueue_def [of 4, THEN arg_cong, of version])
  have q: "\<not> has_ready (NewTxsQueue 4)" "has_room (NewTxsQueue 4)" "has_ready sample_queue"
    using sample_queue_sel by (simp_all add: has_ready_iff, simp_all add: has_room_def)
  let ?play = "play (watch_step queue_legal queue_pred queue_body) [Locks 0, Runs 0, Locks 1, Runs 1]
       (watch_start (NewTxsQueue 4) [[SecPopReady], [SecPush (sample_tx 7 0 21000)]])"
  obtain s where s: "?play = Some s" "thread_at s 0 = Some \<lparr>th_ops = [SecPopReady], th_pc = Asleep 0, th_results = []\<rparr>"
    "wt_val (ws_watch s) = sample_queue"
    using q body sample_bounded
    by (simp add: watch_start_def thread_at_def set_thread_def run_inside_def NewWatch_def finish_op_def ctrl_Updated_def Let_def)
  show ?thesis
    using sleepers_can_wake [OF wf_queue_new _ s(1)] s q(3)
    by (auto simp: thread_at_def split: if_splits)
qed

end
