(* ===== verification/Ramper.thy ===== *)
theory Ramper
  imports BlockStats
begin

text \<open>
  The ramper (\<open>sender/ramper.go\<close>): a curve that raises the target rate step by step, and a
  run that follows it until block times violate the objective. TPS values are exact
  rationals; the shared limiter is the limit last set on it.
\<close>

subsection \<open>The step curve\<close>

record ramp_curve_step =
  StartTps :: rat
  IncrementTps :: rat
  LoadInterval :: duration
  RecoveryInterval :: duration
  Step :: int
  rc_CurrentTPS :: rat

definition NewRampCurveStep :: "rat \<Rightarrow> rat \<Rightarrow> duration \<Rightarrow> duration \<Rightarrow> ramp_curve_step" where
  "NewRampCurveStep startTps incrementTps loadInterval recoveryInterval =
     \<lparr>StartTps = startTps, IncrementTps = incrementTps, LoadInterval = loadInterval,
      RecoveryInterval = recoveryInterval, Step = 0, rc_CurrentTPS = startTps\<rparr>"

definition GetTPS :: "duration \<Rightarrow> ramp_curve_step \<Rightarrow> (rat \<times> ramp_curve_step) outcome" where
  "GetTPS t r =
     (let cycleInterval = i64 (LoadInterval r + RecoveryInterval r)
      in obind (go_mod t cycleInterval) (\<lambda>cycleProgress.
           if LoadInterval r < cycleProgress then Ok (1, r)
           else obind (go_div t cycleInterval) (\<lambda>cycleNumber.
             if Step r < cycleNumber then
               let newTps = StartTps r + IncrementTps r * of_int cycleNumber
               in Ok (newTps, r\<lparr>Step := cycleNumber, rc_CurrentTPS := newTps\<rparr>)
             else Ok (rc_CurrentTPS r, r))))"

definition GetCurveStats :: "ramp_curve_step \<Rightarrow> rat option" where
  "GetCurveStats r =
     (let step = Step r - 1 in if step < 0 then None else Some (StartTps r + IncrementTps r * of_int step))"

text \<open>The curve as a function of time alone.\<close>

definition ramp_target :: "rat \<Rightarrow> rat \<Rightarrow> duration \<Rightarrow> duration \<Rightarrow> duration \<Rightarrow> rat" where
  "ramp_target start inc load rec t =
     (if load < t mod (load + rec) then 1 else start + inc * of_int (t div (load + rec)))"

definition wf_curve :: "ramp_curve_step \<Rightarrow> bool" where
  "wf_curve r \<longleftrightarrow> 0 < LoadInterval r \<and> 0 \<le> RecoveryInterval r \<and>
     LoadInterval r + RecoveryInterval r \<le> max_i64 \<and> 0 \<le> Step r \<and>
     rc_CurrentTPS r = StartTps r + IncrementTps r * of_int (Step r)"

lemma wf_curve_new:
  "0 < load \<Longrightarrow> 0 \<le> rec \<Longrightarrow> load + rec \<le> max_i64 \<Longrightarrow> wf_curve (NewRampCurveStep start inc load rec)"
  by (simp add: wf_curve_def NewRampCurveStep_def)

text \<open>Asked at a time no earlier than the step it is on, the curve is on target.\<close>

lemma GetTPS_target:
  assumes wf: "wf_curve r" and t: "0 \<le> t" "is_i64 t" "Step r \<le> t div (LoadInterval r + RecoveryInterval r)"
  shows "\<exists>r'. GetTPS t r =
      Ok (ramp_target (StartTps r) (IncrementTps r) (LoadInterval r) (RecoveryInterval r) t, r') \<and>
    wf_curve r' \<and> StartTps r' = StartTps r \<and> IncrementTps r' = IncrementTps r \<and>
    LoadInterval r' = LoadInterval r \<and> RecoveryInterval r' = RecoveryInterval r \<and>
    Step r \<le> Step r' \<and> Step r' \<le> t div (LoadInterval r + RecoveryInterval r)"
proof -
  let ?c = "LoadInterval r + RecoveryInterval r"
  have c: "0 < ?c" "?c \<le> max_i64" using wf by (auto simp: wf_curve_def)
  have ci: "is_i64 ?c" using c by (intro is_i64_nonneg) auto
  have m: "go_mod t ?c = Ok (t mod ?c)" by (rule go_mod_pos [OF c(1) t(1) ci])
  have d: "go_div t ?c = Ok (t div ?c)" by (rule go_div_pos [OF c(1) t(1,2)])
  show ?thesis
  proof (cases "Step r < t div ?c")
    case True
    then show ?thesis using wf t(3) m d ci
      by (auto simp: GetTPS_def i64_id ramp_target_def wf_curve_def Let_def)
  next
    case False
    then have "Step r = t div ?c" using t(3) by simp
    then show ?thesis using wf m d ci
      by (auto simp: GetTPS_def i64_id ramp_target_def wf_curve_def Let_def)
  qed
qed

fun ask_curve :: "duration list \<Rightarrow> ramp_curve_step \<Rightarrow> (rat list \<times> ramp_curve_step) outcome" where
  "ask_curve [] r = Ok ([], r)"
| "ask_curve (t # ts) r = obind (GetTPS t r) (\<lambda>(v, r'). obind (ask_curve ts r') (\<lambda>(vs, r''). Ok (v # vs, r'')))"

lemma ask_curve_target:
  assumes "wf_curve r" "sorted ts" "\<forall>t \<in> set ts. 0 \<le> t \<and> is_i64 t \<and> Step r \<le> t div (LoadInterval r + RecoveryInterval r)"
  shows "\<exists>r'. ask_curve ts r =
    Ok (map (ramp_target (StartTps r) (IncrementTps r) (LoadInterval r) (RecoveryInterval r)) ts, r') \<and>
    wf_curve r' \<and> Step r \<le> Step r'"
  using assms
proof (induction ts arbitrary: r)
  case (Cons t ts)
  let ?c = "LoadInterval r + RecoveryInterval r"
  obtain r1 where r1: "GetTPS t r = Ok (ramp_target (StartTps r) (IncrementTps r) (LoadInterval r) (RecoveryInterval r) t, r1)"
    "wf_curve r1" "StartTps r1 = StartTps r" "IncrementTps r1 = IncrementTps r"
    "LoadInterval r1 = LoadInterval r" "RecoveryInterval r1 = RecoveryInterval r" "Step r \<le> Step r1" "Step r1 \<le> t div ?c"
    using GetTPS_target [OF Cons.prems(1), of t] Cons.prems(3) by auto
  have c: "0 < ?c" using Cons.prems(1) by (auto simp: wf_curve_def)
  have later: "Step r1 \<le> u div ?c" if "u \<in> set ts" for u
  proof -
    have "t \<le> u" using Cons.prems(2) that by simp
    then show ?thesis using zdiv_mono1 [of t u ?c] c r1(8) by linarith
  qed
  obtain r2 where "ask_curve ts r1 =
      Ok (map (ramp_target (StartTps r1) (IncrementTps r1) (LoadInterval r1) (RecoveryInterval r1)) ts, r2)"
    "wf_curve r2" "Step r1 \<le> Step r2"
    using Cons.IH [OF r1(2)] Cons.prems(2,3) later by (auto simp: r1(5,6))
  then show ?case using r1 by auto
qed simp

lemma GetTPS_zero_cycle: "LoadInterval r = 0 \<Longrightarrow> RecoveryInterval r = 0 \<Longrightarrow> panics (GetTPS t r)"
  by (simp add: GetTPS_def go_mod_def)

subsection \<open>The ramper\<close>

record ramper =
  rm_limit :: rat
  rm_blocks :: block_collector
  rm_currentTps :: rat
  rm_startTime :: instant
  rm_curve :: ramp_curve_step
  rm_lastWindow :: block_stats

definition NewRamper :: "ramp_curve_step \<Rightarrow> block_collector \<Rightarrow> ramper" where
  "NewRamper curve blocks =
     \<lparr>rm_limit = 1, rm_blocks = blocks, rm_currentTps = 0, rm_startTime = 0, rm_curve = curve,
      rm_lastWindow = zero_block_stats\<rparr>"

definition UpdateTPS :: "instant \<Rightarrow> ramper \<Rightarrow> ramper outcome" where
  "UpdateTPS now r =
     obind (GetTPS (time_sub now (rm_startTime r)) (rm_curve r)) (\<lambda>(tps, curve).
       Ok (r\<lparr>rm_currentTps := tps, rm_curve := curve, rm_limit := tps\<rparr>))"

text \<open>
  \<open>Run\<close> and the goroutine of \<open>WatchSLO\<close>. The watcher watches, then offers the violation on
  the channel, then has closed the channel; the runner loops or has returned its error.
\<close>

datatype watcher = Watching | Offering | Closed
datatype runner = Looping | Returned_err go_error

record ramp_run =
  rr_ramper :: ramper
  rr_watcher :: watcher
  rr_runner :: runner
  rr_ctx :: "go_error option"
  rr_violated :: bool

text \<open>One tick of the objective: the 90th percentile of the window exceeds one second.\<close>

definition slo_violated :: "ramper \<Rightarrow> bool" where
  "slo_violated r \<longleftrightarrow> (case GetWindowBlockTimePercentile 90 (rm_blocks r) of Ok d \<Rightarrow> second < d | _ \<Rightarrow> False)"

definition reset_window :: "instant \<Rightarrow> ramper \<Rightarrow> ramper outcome" where
  "reset_window now r =
     obind (GetWindowBlockStats (rm_blocks r)) (\<lambda>st.
       Ok (r\<lparr>rm_lastWindow := st, rm_blocks := bc_ResetWindowStats now (rm_blocks r)\<rparr>))"

definition slo_failed :: "ramp_run \<Rightarrow> ramp_run" where
  "slo_failed s = s\<lparr>rr_ramper := (rr_ramper s)\<lparr>rm_limit := 1\<rparr>, rr_runner := Returned_err ErrRampTestFailedSLO\<rparr>"

definition ramp_start :: "instant \<Rightarrow> instant \<Rightarrow> ramper \<Rightarrow> ramp_run" where
  "ramp_start now1 now2 r =
     \<lparr>rr_ramper = r\<lparr>rm_startTime := now1, rm_blocks := bc_ResetWindowStats now2 (rm_blocks r)\<rparr>,
      rr_watcher = Watching, rr_runner = Looping, rr_ctx = None, rr_violated = False\<rparr>"

inductive ramp_step :: "ramp_run \<Rightarrow> ramp_run \<Rightarrow> bool" where
  rs_cancel: "rr_ctx s = None \<Longrightarrow> ramp_step s (s\<lparr>rr_ctx := Some e\<rparr>)"
| rs_block: "ramp_step s (s\<lparr>rr_ramper := (rr_ramper s)\<lparr>rm_blocks := fst (processNewBlock now hdr (rm_blocks (rr_ramper s)))\<rparr>\<rparr>)"
| rs_check: "rr_watcher s = Watching \<Longrightarrow> slo_violated (rr_ramper s) \<Longrightarrow>
     ramp_step s (s\<lparr>rr_watcher := Offering, rr_violated := True\<rparr>)"
| rs_reset: "rr_watcher s = Watching \<Longrightarrow> reset_window now (rr_ramper s) = Ok r \<Longrightarrow> ramp_step s (s\<lparr>rr_ramper := r\<rparr>)"
| rs_watch_done: "rr_watcher s \<noteq> Closed \<Longrightarrow> rr_ctx s = Some e \<Longrightarrow> ramp_step s (s\<lparr>rr_watcher := Closed\<rparr>)"
| rs_deliver: "rr_watcher s = Offering \<Longrightarrow> rr_runner s = Looping \<Longrightarrow> ramp_step s (slo_failed (s\<lparr>rr_watcher := Closed\<rparr>))"
| rs_recv_closed: "rr_watcher s = Closed \<Longrightarrow> rr_runner s = Looping \<Longrightarrow> ramp_step s (slo_failed s)"
| rs_update: "rr_runner s = Looping \<Longrightarrow> UpdateTPS now (rr_ramper s) = Ok r \<Longrightarrow> ramp_step s (s\<lparr>rr_ramper := r\<rparr>)"
| rs_done: "rr_runner s = Looping \<Longrightarrow> rr_ctx s = Some e \<Longrightarrow> ramp_step s (s\<lparr>rr_runner := Returned_err e\<rparr>)"

inductive_cases ramp_stepE: "ramp_step s s'"

text \<open>
  The watcher closes its channel only for a violation or a cancelled context; so without a
  cancellation the failure is reported only after a violation, with the limiter back at 1.
\<close>

definition ramp_inv :: "ramp_run \<Rightarrow> bool" where
  "ramp_inv s \<longleftrightarrow>
     bc_bounded (rm_blocks (rr_ramper s)) \<and>
     (rr_watcher s = Offering \<longrightarrow> rr_violated s) \<and>
     (rr_watcher s = Closed \<longrightarrow> rr_violated s \<or> rr_ctx s \<noteq> None) \<and>
     (rr_runner s = Returned_err ErrRampTestFailedSLO \<longrightarrow>
        (rr_violated s \<or> rr_ctx s \<noteq> None)) \<and>
     (\<forall>e. rr_runner s = Returned_err e \<longrightarrow> e = ErrRampTestFailedSLO \<or> rr_ctx s = Some e)"

lemma ramp_inv_start: "bc_bounded (rm_blocks r) \<Longrightarrow> ramp_inv (ramp_start now1 now2 r)"
  by (simp add: ramp_inv_def ramp_start_def bc_bounded_reset)

lemma reset_window_bounded: "reset_window now r = Ok r' \<Longrightarrow> bc_bounded (rm_blocks r) \<Longrightarrow> bc_bounded (rm_blocks r')"
  by (auto simp: reset_window_def outcome_simps bc_bounded_reset)

lemma UpdateTPS_blocks: "UpdateTPS now r = Ok r' \<Longrightarrow> rm_blocks r' = rm_blocks r \<and> rm_limit r' = rm_currentTps r'"
  by (auto simp: UpdateTPS_def outcome_simps)

lemma ramp_step_inv: "ramp_step s s' \<Longrightarrow> ramp_inv s \<Longrightarrow> ramp_inv s'"
  by (induction rule: ramp_step.induct)
    (auto simp: ramp_inv_def slo_failed_def bc_bounded_process dest: reset_window_bounded UpdateTPS_blocks)

lemma ramp_steps_inv: "ramp_step\<^sup>*\<^sup>* s s' \<Longrightarrow> ramp_inv s \<Longrightarrow> ramp_inv s'"
  by (induction rule: rtranclp_induct) (auto intro: ramp_step_inv)

lemma ramp_limit_failed:
  "ramp_step s s' \<Longrightarrow> (rr_runner s = Returned_err ErrRampTestFailedSLO \<longrightarrow> rr_ctx s = Some ErrRampTestFailedSLO \<or> rm_limit (rr_ramper s) = 1) \<Longrightarrow>
   (rr_runner s' = Returned_err ErrRampTestFailedSLO \<longrightarrow> rr_ctx s' = Some ErrRampTestFailedSLO \<or> rm_limit (rr_ramper s') = 1)"
  by (induction rule: ramp_step.induct)
    (auto simp: slo_failed_def reset_window_def outcome_simps)

end
