(* ===== verification/Utils.thy ===== *)
theory Utils
  imports GoBase
begin

text \<open>
  The helpers of package \<open>utils\<close> and the text codecs of the configuration: fixed-width integer
  casts (\<open>utils/math.go\<close>), optional values (\<open>utils/option.go\<close>), protobuf converters
  (\<open>utils/proto.go\<close>), endpoint names (\<open>utils/endpoint.go\<close>), and the decimal strings in which the
  configuration writes amounts (\<open>config/funding.go\<close>). What a codec promises is the locale \<open>codec\<close>.
\<close>

subsection \<open>Integer types\<close>

text \<open>A Go integer type is its width and its signedness; a conversion keeps the low bits.\<close>

record int_type =
  it_bits :: nat
  it_signed :: bool

definition Bits :: "int_type \<Rightarrow> nat" where
  "Bits t = it_bits t"

definition conv :: "int_type \<Rightarrow> int \<Rightarrow> int" where
  "conv t v = (if it_signed t then signed_take_bit (it_bits t - 1) v else take_bit (it_bits t) v)"

definition Min_int :: "int_type \<Rightarrow> int" where
  "Min_int t = (if it_signed t then conv t (push_bit (Bits t - 1) 1) else 0)"

definition Max_int :: "int_type \<Rightarrow> int" where
  "Max_int t = conv t (not (Min_int t))"

definition SafeCast :: "int_type \<Rightarrow> int_type \<Rightarrow> int \<Rightarrow> int \<times> bool" where
  "SafeCast to_t from_t v = (let x = conv to_t v in (x, conv from_t x = v \<and> (x < 0 \<longleftrightarrow> v < 0)))"

definition Clamp :: "int_type \<Rightarrow> int_type \<Rightarrow> int \<Rightarrow> int" where
  "Clamp to_t from_t v =
     (case SafeCast to_t from_t v of (x, okay) \<Rightarrow>
        if okay then x else if 0 \<le> v then Max_int to_t else Min_int to_t)"

definition in_type :: "int_type \<Rightarrow> int \<Rightarrow> bool" where
  "in_type t v \<longleftrightarrow> (if it_signed t then - (2 ^ (it_bits t - 1)) \<le> v \<and> v < 2 ^ (it_bits t - 1) else 0 \<le> v \<and> v < 2 ^ it_bits t)"

lemma conv_in_type: "0 < it_bits t \<Longrightarrow> in_type t (conv t v)"
  by (simp add: in_type_def conv_def signed_take_bit_int_greater_eq_minus_exp signed_take_bit_int_less_exp)

lemma conv_id: "in_type t v \<Longrightarrow> conv t v = v"
  by (auto simp: in_type_def conv_def signed_take_bit_int_eq_self take_bit_int_eq_self split: if_splits)

lemma Min_int_val: "0 < it_bits t \<Longrightarrow> Min_int t = (if it_signed t then - (2 ^ (it_bits t - 1)) else 0)"
proof -
  assume b: "0 < it_bits t"
  have "signed_take_bit n (2 ^ n) = - (2 ^ n :: int)" for n
    by (simp add: signed_take_bit_eq_take_bit_minus bit_exp_iff)
  then show ?thesis by (simp add: Min_int_def conv_def Bits_def)
qed

lemma Max_int_val: "0 < it_bits t \<Longrightarrow> Max_int t = (if it_signed t then 2 ^ (it_bits t - 1) - 1 else 2 ^ it_bits t - 1)"
proof -
  assume b: "0 < it_bits t"
  have "in_type t (2 ^ (it_bits t - 1) - 1)" if "it_signed t" using that by (simp add: in_type_def)
  moreover have "take_bit n (- 1) = (2 ^ n - 1 :: int)" for n by (simp add: take_bit_minus_one_eq_mask mask_eq_exp_minus_1)
  ultimately show ?thesis
    using b by (auto simp: Max_int_def Min_int_val not_int_def conv_id) (simp_all add: conv_def)
qed

lemma SafeCast_exact:
  assumes "0 < it_bits to_t" "0 < it_bits from_t" "in_type from_t v"
  shows "snd (SafeCast to_t from_t v) \<longleftrightarrow> in_type to_t v"
    and "in_type to_t v \<Longrightarrow> fst (SafeCast to_t from_t v) = v"
proof -
  show v: "in_type to_t v \<Longrightarrow> fst (SafeCast to_t from_t v) = v" by (simp add: SafeCast_def conv_id)
  show "snd (SafeCast to_t from_t v) \<longleftrightarrow> in_type to_t v"
  proof
    assume "in_type to_t v"
    then show "snd (SafeCast to_t from_t v)" using assms(3) by (simp add: SafeCast_def conv_id)
  next
    assume okay: "snd (SafeCast to_t from_t v)"
    let ?x = "conv to_t v"
    have x: "conv from_t ?x = v" "?x < 0 \<longleftrightarrow> v < 0" using okay by (simp_all add: SafeCast_def Let_def)
    have xt: "in_type to_t ?x" by (rule conv_in_type [OF assms(1)])
    show "in_type to_t v"
    proof (rule ccontr)
      assume vt: "\<not> in_type to_t v"
      have "\<not> in_type from_t ?x" using x(1) xt vt conv_id [of from_t ?x] by auto
      with xt vt x(2) assms(3) show False by (auto simp: in_type_def split: if_splits)
    qed
  qed
qed

lemma Clamp_nearest:
  assumes "0 < it_bits to_t" "0 < it_bits from_t" "in_type from_t v"
  shows "Clamp to_t from_t v = max (Min_int to_t) (min (Max_int to_t) v)"
proof -
  obtain x okay where c: "SafeCast to_t from_t v = (x, okay)" by fastforce
  have "okay \<longleftrightarrow> in_type to_t v" "in_type to_t v \<Longrightarrow> x = v"
    using SafeCast_exact [OF assms] c by simp_all
  moreover have "in_type to_t v \<longleftrightarrow> Min_int to_t \<le> v \<and> v \<le> Max_int to_t"
    using assms(1) by (auto simp: in_type_def Min_int_val Max_int_val)
  moreover have "Min_int to_t \<le> 0" "0 \<le> Max_int to_t"
    using assms(1) by (simp_all add: Min_int_val Max_int_val)
  ultimately show ?thesis by (auto simp: Clamp_def c)
qed

subsection \<open>Endpoints\<close>

definition starts :: "string \<Rightarrow> string \<Rightarrow> bool" where
  "starts p s \<longleftrightarrow> take (length p) s = p"

text \<open>\<open>strings.Replace\<close> with count 1, and \<open>strings.Contains\<close>.\<close>

fun replace_first :: "string \<Rightarrow> string \<Rightarrow> string \<Rightarrow> string" where
  "replace_first old new [] = (if old = [] then new else [])"
| "replace_first old new (c # cs) =
     (if starts old (c # cs) then new @ drop (length old) (c # cs) else c # replace_first old new cs)"

fun contains_str :: "string \<Rightarrow> string \<Rightarrow> bool" where
  "contains_str p [] = (p = [])"
| "contains_str p (c # cs) = (starts p (c # cs) \<or> contains_str p cs)"

definition GetWSEndpoint :: "string \<Rightarrow> string" where
  "GetWSEndpoint endpoint =
     (let ws = replace_first ''http://'' ''ws://'' endpoint;
          ws = replace_first ''https://'' ''wss://'' ws;
          ws = (if contains_str '':'' endpoint then replace_first '':8545'' '':8546'' ws else ws)
      in if contains_str ''evm-rpc'' endpoint then replace_first ''evm-rpc'' ''evm-ws'' ws else ws)"

lemma replace_first_absent: "\<not> contains_str old s \<Longrightarrow> replace_first old new s = s"
  by (induction s) auto

subsection \<open>Optional values\<close>

text \<open>The zero value is what \<open>Get\<close> returns for an absent one.\<close>

definition Option_Get :: "'a \<Rightarrow> 'a option \<Rightarrow> 'a \<times> bool" where
  "Option_Get zero v = (case v of Some x \<Rightarrow> (x, True) | None \<Rightarrow> (zero, False))"

definition Option_IsPresent :: "'a option \<Rightarrow> bool" where
  "Option_IsPresent v = (case v of Some x \<Rightarrow> True | None \<Rightarrow> False)"

definition Option_Or :: "'a option \<Rightarrow> 'a \<Rightarrow> 'a" where
  "Option_Or v d = (case v of Some x \<Rightarrow> x | None \<Rightarrow> d)"

definition Option_OrPanic :: "'a option \<Rightarrow> string \<Rightarrow> 'a outcome" where
  "Option_OrPanic v msg = (case v of Some x \<Rightarrow> Ok x | None \<Rightarrow> Panic msg)"

definition MapOpt :: "'a option \<Rightarrow> ('a \<Rightarrow> 'b) \<Rightarrow> 'b option" where
  "MapOpt v f = (case v of Some x \<Rightarrow> Some (f x) | None \<Rightarrow> None)"

text \<open>JSON: an absent value is \<open>null\<close>, and \<open>null\<close> is an absent value.\<close>

definition Option_MarshalJSON :: "('a \<Rightarrow> string) \<Rightarrow> 'a option \<Rightarrow> string" where
  "Option_MarshalJSON enc v = (case v of Some x \<Rightarrow> enc x | None \<Rightarrow> ''null'')"

definition Option_UnmarshalJSON :: "(string \<Rightarrow> 'a outcome) \<Rightarrow> string \<Rightarrow> 'a option outcome" where
  "Option_UnmarshalJSON dec data =
     (if data = ''null'' then Ok None else obind (dec data) (\<lambda>x. Ok (Some x)))"

subsection \<open>Protobuf converters\<close>

text \<open>A message is \<open>None\<close> for the nil pointer.\<close>

definition EncodeSlice :: "('a \<Rightarrow> 'p) \<Rightarrow> 'a list \<Rightarrow> 'p list" where
  "EncodeSlice enc ts = map enc ts"

fun DecodeSlice_from :: "('p \<Rightarrow> 'a outcome) \<Rightarrow> nat \<Rightarrow> 'p list \<Rightarrow> 'a list outcome" where
  "DecodeSlice_from dec i [] = Ok []"
| "DecodeSlice_from dec i (p # ps) =
     obind (omap_err (Wrap (''['' @ decimal i @ '']'')) (dec p)) (\<lambda>t.
       obind (DecodeSlice_from dec (Suc i) ps) (\<lambda>ts. Ok (t # ts)))"

definition DecodeSlice :: "('p \<Rightarrow> 'a outcome) \<Rightarrow> 'p list \<Rightarrow> 'a list outcome" where
  "DecodeSlice dec ps = DecodeSlice_from dec 0 ps"

definition EncodeOpt :: "('a \<Rightarrow> 'p option) \<Rightarrow> 'a option \<Rightarrow> 'p option" where
  "EncodeOpt enc v = (case v of None \<Rightarrow> None | Some x \<Rightarrow> enc x)"

definition DecodeReq :: "('p option \<Rightarrow> 'a outcome) \<Rightarrow> 'p option \<Rightarrow> 'a outcome" where
  "DecodeReq dec p = (if p = None then Err (Errorf ''missing'') else dec p)"

definition DecodeOpt :: "('p option \<Rightarrow> 'a outcome) \<Rightarrow> 'p option \<Rightarrow> 'a option outcome" where
  "DecodeOpt dec p = (if p = None then Ok None else obind (DecodeReq dec p) (\<lambda>t. Ok (Some t)))"

subsection \<open>Decimal strings\<close>

definition is_digit :: "char \<Rightarrow> bool" where
  "is_digit c \<longleftrightarrow> 48 \<le> (of_char c :: nat) \<and> (of_char c :: nat) \<le> 57"

definition digits_value :: "string \<Rightarrow> nat" where
  "digits_value s = foldl (\<lambda>n c. 10 * n + (of_char c - 48)) 0 s"

definition parse_digits :: "string \<Rightarrow> nat option" where
  "parse_digits s = (if s \<noteq> [] \<and> list_all is_digit s then Some (digits_value s) else None)"

text \<open>\<open>big.Int\<close>: \<open>String\<close>, and \<open>SetString\<close> in base 10.\<close>

definition big_String :: "int \<Rightarrow> string" where
  "big_String n = (if n < 0 then ''-'' @ decimal (nat (- n)) else decimal (nat n))"

definition SetString10 :: "string \<Rightarrow> int option" where
  "SetString10 s =
     (case s of
        [] \<Rightarrow> None
      | c # cs \<Rightarrow>
          if c = CHR ''-'' then map_option (\<lambda>n. - int n) (parse_digits cs)
          else if c = CHR ''+'' then map_option int (parse_digits cs)
          else map_option int (parse_digits s))"

text \<open>
  JSON strings: \<open>json_quote\<close> writes one that needs no escapes, \<open>json_string\<close> reads any. A character
  outside ASCII, which no number contains, is read as one byte 0xFF.
\<close>

definition plain_char :: "char \<Rightarrow> bool" where
  "plain_char c \<longleftrightarrow> c \<noteq> CHR 0x22 \<and> c \<noteq> CHR 0x5C \<and> 32 \<le> (of_char c :: nat)"

definition json_quote :: "string \<Rightarrow> string" where
  "json_quote s = CHR 0x22 # s @ [CHR 0x22]"

definition json_escape :: "char \<Rightarrow> char option" where
  "json_escape c =
     (if c = CHR 0x22 \<or> c = CHR 0x5C \<or> c = CHR ''/'' then Some c
      else if c = CHR ''b'' then Some (CHR 0x08) else if c = CHR ''f'' then Some (CHR 0x0C)
      else if c = CHR ''n'' then Some (CHR 0x0A) else if c = CHR ''r'' then Some (CHR 0x0D)
      else if c = CHR ''t'' then Some (CHR 0x09) else None)"

definition hex_value :: "char \<Rightarrow> nat option" where
  "hex_value c =
     (let n = of_char c :: nat
      in if 48 \<le> n \<and> n \<le> 57 then Some (n - 48)
         else if 65 \<le> n \<and> n \<le> 70 then Some (n - 55)
         else if 97 \<le> n \<and> n \<le> 102 then Some (n - 87) else None)"

definition unicode_char :: "char list \<Rightarrow> char option" where
  "unicode_char hs =
     (if list_all (\<lambda>h. hex_value h \<noteq> None) hs
      then let n = foldl (\<lambda>n h. 16 * n + the (hex_value h)) 0 hs
           in Some (if n < 128 then char_of n else CHR 0xFF)
      else None)"

text \<open>The rest of a string literal up to its closing quote, which has to be the last character.\<close>

fun json_body :: "string \<Rightarrow> string option" where
  "json_body [] = None"
| "json_body (c # cs) =
     (if c = CHR 0x22 then (if cs = [] then Some [] else None)
      else if c = CHR 0x5C then
        (case cs of
           [] \<Rightarrow> None
         | e # cs \<Rightarrow>
             if e = CHR ''u'' then
               (case cs of
                  a # b # c # d # cs \<Rightarrow>
                    (case unicode_char [a, b, c, d] of
                       None \<Rightarrow> None
                     | Some x \<Rightarrow> map_option (Cons x) (json_body cs))
                | _ \<Rightarrow> None)
             else
               (case json_escape e of
                  None \<Rightarrow> None
                | Some x \<Rightarrow> map_option (Cons x) (json_body cs)))
      else if (of_char c :: nat) < 32 then None
      else map_option (Cons c) (json_body cs))"

definition json_string :: "string \<Rightarrow> string option" where
  "json_string data =
     (if data = ''null'' then Some ''''
      else case data of [] \<Rightarrow> None | c # cs \<Rightarrow> if c = CHR 0x22 then json_body cs else None)"

definition BigInt_MarshalJSON :: "int \<Rightarrow> string" where
  "BigInt_MarshalJSON b = json_quote (big_String b)"

definition BigInt_UnmarshalJSON :: "string \<Rightarrow> int outcome" where
  "BigInt_UnmarshalJSON data =
     (case json_string data of
        None \<Rightarrow> Err (Wrap ''BigInt must be a decimal string'' (External ''json''))
      | Some s \<Rightarrow>
          (case SetString10 s of
             None \<Rightarrow> Err (Errorf ''BigInt: invalid decimal string'')
           | Some v \<Rightarrow> Ok v))"

subsection \<open>Round trips\<close>

text \<open>An encoder and a decoder that gives back what was encoded.\<close>

locale codec =
  fixes enc :: "'a \<Rightarrow> 'p" and dec :: "'p \<Rightarrow> 'a outcome"
  assumes decode_encode: "dec (enc x) = Ok x"
begin

lemma encode_inj: "enc x = enc y \<Longrightarrow> x = y"
  by (metis decode_encode outcome.inject(1))

lemma slice_round_trip: "DecodeSlice dec (EncodeSlice enc xs) = Ok xs"
proof -
  have "DecodeSlice_from dec i (map enc xs) = Ok xs" for i
    by (induction xs arbitrary: i) (simp_all add: decode_encode)
  then show ?thesis by (simp add: DecodeSlice_def EncodeSlice_def)
qed

end

text \<open>Values that are written as text, never as \<open>null\<close>: then optional ones can be written too.\<close>

locale json_codec = codec enc dec for enc :: "'a \<Rightarrow> string" and dec +
  assumes not_null: "enc x \<noteq> ''null''"
begin

lemma option_round_trip: "Option_UnmarshalJSON dec (Option_MarshalJSON enc v) = Ok v"
  using not_null by (cases v) (simp_all add: Option_MarshalJSON_def Option_UnmarshalJSON_def decode_encode)

end

text \<open>Messages that are never the nil pointer: an optional value is one that may be nil.\<close>

locale proto_codec = codec enc dec for enc :: "'a \<Rightarrow> 'p option" and dec +
  assumes not_nil: "enc x \<noteq> None"
begin

lemma opt_round_trip: "DecodeOpt dec (EncodeOpt enc v) = Ok v"
  using not_nil by (cases v) (simp_all add: DecodeOpt_def EncodeOpt_def DecodeReq_def decode_encode)

lemma req_round_trip: "DecodeReq dec (enc x) = Ok x"
  using not_nil by (simp add: DecodeReq_def decode_encode)

end

lemma is_digit_decimal: "list_all is_digit (decimal n) \<and> decimal n \<noteq> []"
proof (induction n rule: decimal.induct)
  case (1 n)
  have "is_digit (char_of (48 + d))" if "d < 10" for d :: nat
    using that by (simp add: is_digit_def)
  then show ?case using 1 by (cases "n < 10") (simp_all add: decimal.simps [of n])
qed

lemma digits_value_decimal: "digits_value (decimal n) = n"
proof (induction n rule: decimal.induct)
  case (1 n)
  have d: "of_char (char_of (48 + d) :: char) = 48 + d" if "d < 10" for d :: nat
    using that by simp
  show ?case
  proof (cases "n < 10")
    case True
    then show ?thesis using d [of n] by (simp add: decimal.simps [of n] digits_value_def)
  next
    case False
    then have "digits_value (decimal n) = 10 * digits_value (decimal (n div 10)) + n mod 10"
      using d [of "n mod 10"] by (simp add: decimal.simps [of n] digits_value_def)
    then show ?thesis using 1 False by simp
  qed
qed

lemma parse_decimal: "parse_digits (decimal n) = Some n"
  using is_digit_decimal [of n] by (simp add: parse_digits_def digits_value_decimal)

lemma SetString_String: "SetString10 (big_String n) = Some n"
proof (cases "n < 0")
  case True
  then show ?thesis by (simp add: SetString10_def big_String_def parse_decimal)
next
  case False
  obtain c cs where d: "decimal (nat n) = c # cs" using is_digit_decimal [of "nat n"] by (cases "decimal (nat n)") auto
  then have "is_digit c" using is_digit_decimal [of "nat n"] by simp
  then have "c \<noteq> CHR ''-''" "c \<noteq> CHR ''+''" by (auto simp: is_digit_def)
  then show ?thesis using False d parse_decimal [of "nat n"] by (simp add: SetString10_def big_String_def)
qed

lemma json_body_plain: "list_all plain_char s \<Longrightarrow> json_body (s @ [CHR 0x22]) = Some s"
  by (induction s) (auto simp: plain_char_def not_less)

lemma json_string_quote: "list_all plain_char s \<Longrightarrow> json_string (json_quote s) = Some s"
  by (simp add: json_string_def json_quote_def json_body_plain)

lemma plain_big_String: "list_all plain_char (big_String n)"
proof -
  have "plain_char c" if "is_digit c" for c using that by (auto simp: is_digit_def plain_char_def)
  then have "list_all plain_char (decimal m)" for m using is_digit_decimal [of m] by (auto simp: list_all_iff)
  moreover have "plain_char (CHR ''-'')" by (simp add: plain_char_def)
  ultimately show ?thesis by (simp add: big_String_def)
qed

interpretation bigint: json_codec BigInt_MarshalJSON BigInt_UnmarshalJSON
proof
  show "BigInt_UnmarshalJSON (BigInt_MarshalJSON n) = Ok n" for n
    using plain_big_String [of n]
    by (simp add: BigInt_UnmarshalJSON_def BigInt_MarshalJSON_def json_string_quote SetString_String)
  show "BigInt_MarshalJSON n \<noteq> ''null''" for n
    by (simp add: BigInt_MarshalJSON_def json_quote_def)
qed

text \<open>A message type that holds one optional amount.\<close>

interpretation bigint_msg: proto_codec "\<lambda>n. Some (BigInt_MarshalJSON n)" "\<lambda>p. BigInt_UnmarshalJSON (the p)"
  by unfold_locales (simp_all add: bigint.decode_encode)

end
