(* ===== verification/DurationText.thy ===== *)
theory DurationText
  imports Utils
begin

text \<open>
  The text of a duration in the configuration (\<open>Duration\<close> of \<open>config/config.go\<close> and \<open>utils/wait.go\<close>),
  written by \<open>time.Duration.String\<close> and read by \<open>time.ParseDuration\<close>. \<open>ParseDuration\<close> scales a fraction
  in floating point; here the quotient is exact.
\<close>

subsection \<open>Writing a duration\<close>

text \<open>The digits after the point, without trailing zeros; the rest of the number is left over.\<close>

fun frac_digits :: "nat \<Rightarrow> nat \<Rightarrow> bool \<Rightarrow> string \<Rightarrow> bool \<times> string \<times> nat" where
  "frac_digits 0 v pr buf = (pr, buf, v)"
| "frac_digits (Suc i) v pr buf =
     (let digit = v mod 10; pr = (pr \<or> digit \<noteq> 0);
          buf = (if pr then char_of (48 + digit) # buf else buf)
      in frac_digits i (v div 10) pr buf)"

definition fmtFrac :: "string \<Rightarrow> nat \<Rightarrow> nat \<Rightarrow> string \<times> nat" where
  "fmtFrac buf v prec =
     (case frac_digits prec v False buf of (pr, buf, v) \<Rightarrow> (if pr then CHR ''.'' # buf else buf, v))"

definition micro_sign :: string where
  "micro_sign = [CHR 0xC2, CHR 0xB5]"

definition small_unit :: "nat \<Rightarrow> nat \<times> string" where
  "small_unit u =
     (if u < 1000 then (0, ''ns'') else if u < 1000000 then (3, micro_sign @ ''s'') else (6, ''ms''))"

definition clock_text :: "nat \<Rightarrow> string" where
  "clock_text u =
     (let (buf, u) = fmtFrac ''s'' u 9; buf = decimal (u mod 60) @ buf; u = u div 60
      in if 0 < u then
           let buf = decimal (u mod 60) @ ''m'' @ buf; u = u div 60
           in if 0 < u then decimal u @ ''h'' @ buf else buf
         else buf)"

definition Duration_String :: "duration \<Rightarrow> string" where
  "Duration_String d =
     (let u = nat \<bar>d\<bar>;
          s = (if u < 1000000000 then
                 (if u = 0 then ''0s''
                  else case small_unit u of (prec, unit) \<Rightarrow>
                         (case fmtFrac unit u prec of (buf, v) \<Rightarrow> decimal v @ buf))
               else clock_text u)
      in if d < 0 then CHR ''-'' # s else s)"

subsection \<open>Reading a duration\<close>

definition digit_val :: "char \<Rightarrow> nat" where
  "digit_val c = of_char c - 48"

fun leadingInt :: "nat \<Rightarrow> string \<Rightarrow> (nat \<times> string) option" where
  "leadingInt x [] = Some (x, [])"
| "leadingInt x (c # s) =
     (if is_digit c then
        (if 2 ^ 63 div 10 < x then None
         else let x = x * 10 + digit_val c in if 2 ^ 63 < x then None else leadingInt x s)
      else Some (x, c # s))"

fun leadingFraction :: "nat \<Rightarrow> nat \<Rightarrow> bool \<Rightarrow> string \<Rightarrow> nat \<times> nat \<times> string" where
  "leadingFraction x scale over [] = (x, scale, [])"
| "leadingFraction x scale over (c # s) =
     (if is_digit c then
        (if over then leadingFraction x scale True s
         else if (2 ^ 63 - 1) div 10 < x then leadingFraction x scale True s
         else let y = x * 10 + digit_val c
              in if 2 ^ 63 < y then leadingFraction x scale True s else leadingFraction y (scale * 10) False s)
      else (x, scale, c # s))"

definition unit_char :: "char \<Rightarrow> bool" where
  "unit_char c \<longleftrightarrow> c \<noteq> CHR ''.'' \<and> \<not> is_digit c"

definition unitMap :: "string \<Rightarrow> nat option" where
  "unitMap u = map_of [(''ns'', 1), (''us'', 1000), (micro_sign @ ''s'', 1000), ([CHR 0xCE, CHR 0xBC] @ ''s'', 1000),
     (''ms'', 1000000), (''s'', 1000000000), (''m'', 60000000000), (''h'', 3600000000000)] u"

text \<open>A number and its unit, in nanoseconds; and what follows.\<close>

definition parse_unit :: "nat \<Rightarrow> nat \<Rightarrow> nat \<Rightarrow> string \<Rightarrow> (nat \<times> string) option" where
  "parse_unit v f scale s =
     (let u = takeWhile unit_char s; rest = dropWhile unit_char s
      in if u = [] then None
         else case unitMap u of
                None \<Rightarrow> None
              | Some unit \<Rightarrow>
                  if 2 ^ 63 div unit < v then None
                  else let v = v * unit
                       in if 0 < f then
                            let v = v + f * unit div scale in if 2 ^ 63 < v then None else Some (v, rest)
                          else Some (v, rest))"

definition parse_term :: "string \<Rightarrow> (nat \<times> string) option" where
  "parse_term s =
     (case s of
        [] \<Rightarrow> None
      | c # _ \<Rightarrow>
          if c = CHR ''.'' \<or> is_digit c then
            (case leadingInt 0 s of
               None \<Rightarrow> None
             | Some (v, s') \<Rightarrow>
                 let pre = (length s' \<noteq> length s)
                 in if s' \<noteq> [] \<and> hd s' = CHR ''.'' then
                      (case leadingFraction 0 1 False (tl s') of
                         (f, scale, t) \<Rightarrow>
                           if pre \<or> length t \<noteq> length (tl s') then parse_unit v f scale t else None)
                    else if pre then parse_unit v 0 1 s' else None)
          else None)"

lemma leadingInt_length: "leadingInt x s = Some (v, r) \<Longrightarrow> length r \<le> length s"
  by (induction x s rule: leadingInt.induct) (auto simp: Let_def split: if_splits)

lemma leadingFraction_length: "leadingFraction x scale over s = (f, sc, r) \<Longrightarrow> length r \<le> length s"
  by (induction x scale over s rule: leadingFraction.induct) (auto simp: Let_def split: if_splits)

lemma parse_unit_length:
  assumes "parse_unit v f scale s = Some (n, r)"
  shows "length r < length s"
proof -
  have u: "takeWhile unit_char s \<noteq> []" "r = dropWhile unit_char s"
    using assms by (auto simp: parse_unit_def Let_def split: if_splits option.splits)
  have "length s = length (takeWhile unit_char s) + length (dropWhile unit_char s)"
    by (metis length_append takeWhile_dropWhile_id)
  then show ?thesis using u by simp
qed

lemma parse_term_length:
  assumes "parse_term s = Some (n, r)"
  shows "length r < length s"
proof -
  obtain v s' where i: "leadingInt 0 s = Some (v, s')"
    using assms by (auto simp: parse_term_def split: list.splits if_splits option.splits)
  have "\<exists>f scale t. parse_unit v f scale t = Some (n, r) \<and> length t \<le> length s'"
  proof (cases "s' \<noteq> [] \<and> hd s' = CHR ''.''")
    case True
    obtain f scale t where t: "leadingFraction 0 1 False (tl s') = (f, scale, t)" by (cases "leadingFraction 0 1 False (tl s')") auto
    have "length t \<le> length s'" using leadingFraction_length [OF t] by simp
    moreover have "parse_unit v f scale t = Some (n, r)"
      using assms i True t by (auto simp: parse_term_def Let_def split: list.splits if_splits)
    ultimately show ?thesis by blast
  next
    case False
    then have "parse_unit v 0 1 s' = Some (n, r)"
      using assms i by (auto simp: parse_term_def Let_def split: list.splits if_splits)
    then show ?thesis by blast
  qed
  then show ?thesis using parse_unit_length leadingInt_length [OF i] by fastforce
qed

text \<open>The loop of \<open>ParseDuration\<close>: the sum of the terms, while it is at most \<open>2^63\<close>.\<close>

function parse_terms :: "nat \<Rightarrow> string \<Rightarrow> nat option" where
  "parse_terms d s =
     (if s = [] then Some d
      else case parse_term s of
             None \<Rightarrow> None
           | Some (v, r) \<Rightarrow> let d = d + v in if 2 ^ 63 < d then None else parse_terms d r)"
  by pat_completeness auto
termination
  by (relation "measure (\<lambda>(d, s). length s)") (auto dest: parse_term_length)

declare parse_terms.simps [simp del]

definition ParseDuration :: "string \<Rightarrow> duration outcome" where
  "ParseDuration s =
     (let neg = (s \<noteq> [] \<and> hd s = CHR ''-'');
          t = (if s \<noteq> [] \<and> (hd s = CHR ''-'' \<or> hd s = CHR ''+'') then tl s else s)
      in if t = ''0'' then Ok 0
         else if t = [] then Err (Errorf ''time: invalid duration'')
         else case parse_terms 0 t of
                None \<Rightarrow> Err (Errorf ''time: invalid duration'')
              | Some d \<Rightarrow>
                  if neg then Ok (- int d)
                  else if 2 ^ 63 - 1 < d then Err (Errorf ''time: invalid duration'') else Ok (int d))"

text \<open>The codec of the configuration: a JSON string with that text.\<close>

definition Duration_MarshalJSON :: "duration \<Rightarrow> string" where
  "Duration_MarshalJSON d = json_quote (Duration_String d)"

definition Duration_UnmarshalJSON :: "string \<Rightarrow> duration outcome" where
  "Duration_UnmarshalJSON data =
     (case json_string data of
        None \<Rightarrow> Err (External ''json'')
      | Some s \<Rightarrow> omap_err (Wrap ''invalid duration format'') (ParseDuration s))"

definition Duration_MarshalText :: "duration \<Rightarrow> string" where
  "Duration_MarshalText d = Duration_String d"

definition Duration_UnmarshalText :: "string \<Rightarrow> duration outcome" where
  "Duration_UnmarshalText b = ParseDuration b"

subsection \<open>What is written is read back\<close>

definition digits_from :: "nat \<Rightarrow> string \<Rightarrow> nat" where
  "digits_from x ds = foldl (\<lambda>n c. 10 * n + digit_val c) x ds"

lemma digits_from_simps [simp]:
  "digits_from x [] = x" "digits_from x (c # ds) = digits_from (10 * x + digit_val c) ds"
  "digits_from x (ds @ es) = digits_from (digits_from x ds) es"
  by (simp_all add: digits_from_def)

lemma digits_from_ge: "x \<le> digits_from x ds"
proof (induction ds arbitrary: x)
  case (Cons c ds)
  have "x \<le> 10 * x + digit_val c" by simp
  also have "\<dots> \<le> digits_from (10 * x + digit_val c) ds" by (rule Cons)
  finally show ?case by simp
qed simp

lemma digits_from_decimal: "digits_from 0 (decimal n) = n"
  using digits_value_decimal [of n] by (simp add: digits_from_def digits_value_def digit_val_def)

lemma leadingInt_digits:
  "list_all is_digit ds \<Longrightarrow> digits_from x ds \<le> 2 ^ 63 \<Longrightarrow> leadingInt x (ds @ s) = leadingInt (digits_from x ds) s"
proof (induction ds arbitrary: x)
  case (Cons c ds)
  have le: "10 * x + digit_val c \<le> 2 ^ 63" using digits_from_ge [of "10 * x + digit_val c" ds] Cons.prems(2) by simp
  then have "\<not> 2 ^ 63 div 10 < x" "\<not> 2 ^ 63 < x * 10 + digit_val c" by simp_all
  then show ?case using Cons by (simp add: Let_def mult.commute)
qed simp

definition stops_digits :: "string \<Rightarrow> bool" where
  "stops_digits s \<longleftrightarrow> s = [] \<or> \<not> is_digit (hd s)"

lemma leadingInt_stop: "stops_digits s \<Longrightarrow> leadingInt x s = Some (x, s)"
  by (cases s) (simp_all add: stops_digits_def)

lemma leadingInt_decimal:
  "n \<le> 2 ^ 63 \<Longrightarrow> stops_digits s \<Longrightarrow> leadingInt 0 (decimal n @ s) = Some (n, s)"
  using leadingInt_digits [of "decimal n" 0 s] is_digit_decimal [of n]
  by (simp add: digits_from_decimal leadingInt_stop)

lemma leadingFraction_digits:
  "list_all is_digit ds \<Longrightarrow> digits_from x ds < 2 ^ 62 \<Longrightarrow> stops_digits s \<Longrightarrow>
     leadingFraction x scale False (ds @ s) = (digits_from x ds, scale * 10 ^ length ds, s)"
proof (induction ds arbitrary: x scale)
  case Nil
  then show ?case by (cases s) (simp_all add: stops_digits_def)
next
  case (Cons c ds)
  have le: "10 * x + digit_val c < 2 ^ 62" using digits_from_ge [of "10 * x + digit_val c" ds] Cons.prems(2) by simp
  then have "\<not> (2 ^ 63 - 1) div 10 < x" "\<not> 2 ^ 63 < x * 10 + digit_val c" by simp_all
  then show ?case using Cons by (simp add: Let_def mult.commute)
qed

text \<open>What \<open>frac_digits\<close> writes.\<close>

lemma digit_char: "d < 10 \<Longrightarrow> is_digit (char_of (48 + d)) \<and> digit_val (char_of (48 + d)) = d"
  by (simp add: is_digit_def digit_val_def)

lemma frac_digits_spec:
  "\<exists>ds. frac_digits i v pr buf = (pr \<or> v mod 10 ^ i \<noteq> 0, ds @ buf, v div 10 ^ i) \<and> list_all is_digit ds \<and> length ds \<le> i \<and>
     digits_from 0 ds * 10 ^ (i - length ds) = v mod 10 ^ i \<and> (pr \<longrightarrow> length ds = i) \<and>
     (ds = [] \<longleftrightarrow> i = 0 \<or> \<not> pr \<and> v mod 10 ^ i = 0)"
proof (induction i arbitrary: v pr buf)
  case (Suc i)
  let ?d = "v mod 10" and ?pr = "pr \<or> v mod 10 \<noteq> 0"
  let ?buf = "if ?pr then char_of (48 + ?d) # buf else buf"
  from Suc.IH [of "v div 10" ?pr ?buf] obtain ds where ds:
    "frac_digits i (v div 10) ?pr ?buf = (?pr \<or> v div 10 mod 10 ^ i \<noteq> 0, ds @ ?buf, v div 10 div 10 ^ i)"
    "list_all is_digit ds" "length ds \<le> i" "digits_from 0 ds * 10 ^ (i - length ds) = v div 10 mod 10 ^ i"
    "?pr \<longrightarrow> length ds = i" "ds = [] \<longleftrightarrow> i = 0 \<or> \<not> ?pr \<and> v div 10 mod 10 ^ i = 0"
    by (elim exE conjE)
  have m: "v mod 10 ^ Suc i = 10 * (v div 10 mod 10 ^ i) + v mod 10"
    unfolding power_Suc by (rule mod_mult2_eq)
  have q: "v div 10 div 10 ^ i = v div 10 ^ Suc i" unfolding power_Suc by (rule div_mult2_eq [symmetric])
  show ?case
  proof (cases ?pr)
    case True
    then show ?thesis using ds m q digit_char [of ?d]
      by (intro exI [of _ "ds @ [char_of (48 + ?d)]"]) (auto simp: Let_def)
  next
    case False
    then show ?thesis using ds m q by (intro exI [of _ ds]) (auto simp: Let_def Suc_diff_le)
  qed
qed simp

lemma fmtFrac_spec:
  "\<exists>ds. fmtFrac buf v i = ((if ds = [] then buf else CHR ''.'' # ds @ buf), v div 10 ^ i) \<and> list_all is_digit ds \<and>
     length ds \<le> i \<and> digits_from 0 ds * 10 ^ (i - length ds) = v mod 10 ^ i"
proof -
  obtain ds where ds: "frac_digits i v False buf = (v mod 10 ^ i \<noteq> 0, ds @ buf, v div 10 ^ i)" "list_all is_digit ds" "length ds \<le> i"
    "digits_from 0 ds * 10 ^ (i - length ds) = v mod 10 ^ i" "ds = [] \<longleftrightarrow> i = 0 \<or> v mod 10 ^ i = 0"
    using frac_digits_spec [of i v False buf] by (elim exE conjE) (rule that, simp_all)
  have "ds = [] \<longleftrightarrow> v mod 10 ^ i = 0" using ds(5) by (cases "i = 0") simp_all
  then show ?thesis using ds(1-4) by (intro exI [of _ ds]) (simp add: fmtFrac_def)
qed

text \<open>One term: an integer, perhaps a fraction, and a unit of \<open>k\<close> nanoseconds.\<close>

definition unit_text :: "string \<Rightarrow> nat \<Rightarrow> bool" where
  "unit_text u k \<longleftrightarrow> unitMap u = Some k \<and> u \<noteq> [] \<and> list_all unit_char u \<and> 0 < k"

definition starts_number :: "string \<Rightarrow> bool" where
  "starts_number s \<longleftrightarrow> s = [] \<or> is_digit (hd s)"

lemma parse_unit_text:
  assumes "unit_text u k" "starts_number rest" "n * k + f * k div scale \<le> 2 ^ 63"
  shows "parse_unit n f scale (u @ rest) = Some (n * k + (if 0 < f then f * k div scale else 0), rest)"
proof -
  have "\<not> unit_char (hd rest)" if "rest \<noteq> []" using assms(2) that by (auto simp: starts_number_def unit_char_def)
  then have r: "takeWhile unit_char rest = []" "dropWhile unit_char rest = rest" by (cases rest; simp)+
  have u: "takeWhile unit_char (u @ rest) = u" "dropWhile unit_char (u @ rest) = rest"
    using assms(1) r by (auto simp: unit_text_def list_all_iff)
  have "n * k \<le> 2 ^ 63" using assms(3) by simp
  then have "n \<le> 2 ^ 63 div k" using assms(1) by (simp add: unit_text_def less_eq_div_iff_mult_less_eq)
  then show ?thesis using assms u by (simp add: parse_unit_def unit_text_def Let_def)
qed

lemma parse_term_text:
  assumes "unit_text u k" "starts_number rest" "list_all is_digit ds" "digits_from 0 ds < 2 ^ 62"
    "n * k + digits_from 0 ds * k div 10 ^ length ds \<le> 2 ^ 63"
  shows "parse_term (decimal n @ (if ds = [] then u else CHR ''.'' # ds @ u) @ rest) =
    Some (n * k + digits_from 0 ds * k div 10 ^ length ds, rest)"
proof -
  let ?tail = "(if ds = [] then u else CHR ''.'' # ds @ u) @ rest"
  obtain c cs where d: "decimal n = c # cs" "is_digit c" using is_digit_decimal [of n] by (cases "decimal n") auto
  have k: "0 < k" "u \<noteq> []" "unit_char (hd u)" using assms(1) by (auto simp: unit_text_def list_all_iff)
  have "n \<le> n * k" using k(1) by simp
  then have n: "n \<le> 2 ^ 63" using assms(5) by linarith
  have "\<not> is_digit (CHR ''.'')" by (simp add: is_digit_def)
  then have "stops_digits ?tail" using k(2,3) by (auto simp: stops_digits_def unit_char_def)
  then have i: "leadingInt 0 (decimal n @ ?tail) = Some (n, ?tail)" by (rule leadingInt_decimal [OF n])
  show ?thesis
  proof (cases ds)
    case Nil
    have "hd u \<noteq> CHR ''.''" using k(3) by (simp add: unit_char_def)
    then show ?thesis using i d Nil k(2) parse_unit_text [OF assms(1,2), of n 0 1] assms(5)
      by (simp add: parse_term_def Let_def)
  next
    case (Cons e es)
    have "stops_digits (u @ rest)" using k(2,3) by (simp add: stops_digits_def unit_char_def)
    then have f: "leadingFraction 0 1 False (ds @ u @ rest) = (digits_from 0 ds, 10 ^ length ds, u @ rest)"
      using leadingFraction_digits [OF assms(3,4), of "u @ rest" 1] by simp
    have "parse_unit n (digits_from 0 ds) (10 ^ length ds) (u @ rest) =
        Some (n * k + digits_from 0 ds * k div 10 ^ length ds, rest)"
      using parse_unit_text [OF assms(1,2,5)] by (cases "0 < digits_from 0 ds") simp_all
    moreover have "parse_term (decimal n @ ?tail) = parse_unit n (digits_from 0 ds) (10 ^ length ds) (u @ rest)"
      using i d f Cons by (simp add: parse_term_def Let_def)
    ultimately show ?thesis by simp
  qed
qed

lemma unit_texts:
  "unit_text ''ns'' 1" "unit_text (micro_sign @ ''s'') 1000" "unit_text ''ms'' 1000000" "unit_text ''s'' 1000000000"
  "unit_text ''m'' 60000000000" "unit_text ''h'' 3600000000000"
  by (simp_all add: unit_text_def unitMap_def micro_sign_def unit_char_def is_digit_def)

lemma starts_decimal [simp]: "starts_number (decimal n @ s)"
  using is_digit_decimal [of n] by (cases "decimal n") (auto simp: starts_number_def)

lemma frac_term:
  assumes "fmtFrac u v prec = (buf, w)" "unit_text u (10 ^ prec)" "prec \<le> 9"
  shows "w = v div 10 ^ prec" "starts_number rest \<Longrightarrow> n * 10 ^ prec + v mod 10 ^ prec \<le> 2 ^ 63 \<Longrightarrow>
    parse_term (decimal n @ buf @ rest) = Some (n * 10 ^ prec + v mod 10 ^ prec, rest)"
proof -
  obtain ds where ds: "fmtFrac u v prec = ((if ds = [] then u else CHR ''.'' # ds @ u), v div 10 ^ prec)" "list_all is_digit ds"
    "length ds \<le> prec" "digits_from 0 ds * 10 ^ (prec - length ds) = v mod 10 ^ prec"
    using fmtFrac_spec [of u v prec] by (elim exE conjE)
  have buf: "buf = (if ds = [] then u else CHR ''.'' # ds @ u)" "w = v div 10 ^ prec" using ds(1) assms(1) by simp_all
  show "w = v div 10 ^ prec" by (rule buf(2))
  have "(10 :: nat) ^ prec = 10 ^ (prec - length ds) * 10 ^ length ds" using ds(3) by (simp flip: power_add)
  then have frac: "digits_from 0 ds * 10 ^ prec div 10 ^ length ds = v mod 10 ^ prec"
    using ds(4) by (simp flip: mult.assoc)
  have "digits_from 0 ds \<le> v mod 10 ^ prec" unfolding ds(4) [symmetric] by simp
  also have "\<dots> < 10 ^ prec" by simp
  also have "\<dots> \<le> 10 ^ 9" using assms(3) by (intro power_increasing) simp_all
  finally have small: "digits_from 0 ds < 2 ^ 62" by simp
  show "parse_term (decimal n @ buf @ rest) = Some (n * 10 ^ prec + v mod 10 ^ prec, rest)"
    if "starts_number rest" "n * 10 ^ prec + v mod 10 ^ prec \<le> 2 ^ 63"
    using parse_term_text [OF assms(2) that(1) ds(2) small, of n] that(2) unfolding frac buf(1) by blast
qed

lemma whole_term:
  assumes "unit_text u k" "starts_number rest" "n * k \<le> 2 ^ 63"
  shows "parse_term (decimal n @ u @ rest) = Some (n * k, rest)"
  using parse_term_text [OF assms(1,2), of "[]" n] assms(3) by simp

lemma parse_terms_step:
  "parse_term s = Some (v, r) \<Longrightarrow> d + v \<le> 2 ^ 63 \<Longrightarrow> parse_terms d s = parse_terms (d + v) r"
proof -
  assume p: "parse_term s = Some (v, r)" "d + v \<le> 2 ^ 63"
  then have "s \<noteq> []" by (auto simp: parse_term_def)
  then show "parse_terms d s = parse_terms (d + v) r" using p by (simp add: parse_terms.simps [of d s] Let_def)
qed

lemma parse_terms_nil: "parse_terms d [] = Some d"
  by (simp add: parse_terms.simps)

lemma clock_text_read:
  assumes "u \<le> 2 ^ 63"
  shows "parse_terms 0 (clock_text u) = Some u \<and> (\<exists>n s. clock_text u = decimal n @ s)"
proof -
  obtain buf w where f: "fmtFrac ''s'' u 9 = (buf, w)" by (cases "fmtFrac ''s'' u 9") auto
  have unit: "unit_text ''s'' (10 ^ 9)" using unit_texts(4) by simp
  note w = frac_term(1) [OF f unit order.refl]
  let ?s = "w mod 60" and ?m = "w div 60 mod 60" and ?h = "w div 60 div 60"
  have u: "u = w * 10 ^ 9 + u mod 10 ^ 9" unfolding w by simp
  have pow: "(10 :: nat) ^ 9 = 1000000000" by simp
  have "w = 60 * (w div 60) + ?s" "w div 60 = 60 * ?h + ?m" by simp_all
  then have sum: "u = ?h * 3600000000000 + (?m * 60000000000 + (?s * 10 ^ 9 + u mod 10 ^ 9))"
    using u unfolding pow by linarith
  have secs: "parse_terms d (decimal ?s @ buf) = Some (d + (?s * 10 ^ 9 + u mod 10 ^ 9))"
    if "d + (?s * 10 ^ 9 + u mod 10 ^ 9) \<le> 2 ^ 63" for d
    using frac_term(2) [OF f unit order.refl, of "[]" ?s] parse_terms_step [OF _ that] that
    by (simp add: starts_number_def parse_terms_nil)
  have mins: "parse_terms d (decimal ?m @ ''m'' @ decimal ?s @ buf) = Some (d + (?m * 60000000000 + (?s * 10 ^ 9 + u mod 10 ^ 9)))"
    if "d + (?m * 60000000000 + (?s * 10 ^ 9 + u mod 10 ^ 9)) \<le> 2 ^ 63" for d
    using whole_term [OF unit_texts(5), of "decimal ?s @ buf" ?m] parse_terms_step [of _ "?m * 60000000000" _ d]
      secs [of "d + ?m * 60000000000"] that by (simp add: add.assoc)
  have shape: "clock_text u =
      (if 0 < w div 60 then if 0 < ?h then decimal ?h @ ''h'' @ decimal ?m @ ''m'' @ decimal ?s @ buf
                            else decimal ?m @ ''m'' @ decimal ?s @ buf
       else decimal ?s @ buf)"
    unfolding clock_text_def f by (simp add: Let_def)
  consider (h) "0 < ?h" | (m) "?h = 0" "0 < w div 60" | (s) "w div 60 = 0" by blast
  then show ?thesis
  proof cases
    case h
    then have t: "clock_text u = decimal ?h @ ''h'' @ decimal ?m @ ''m'' @ decimal ?s @ buf" using shape by simp
    have le: "?h * 3600000000000 \<le> 2 ^ 63" using sum assms by linarith
    have "parse_terms 0 (clock_text u) = parse_terms (0 + ?h * 3600000000000) (decimal ?m @ ''m'' @ decimal ?s @ buf)"
      unfolding t by (rule parse_terms_step [OF whole_term [OF unit_texts(6) starts_decimal le]]) (use le in simp)
    then show ?thesis using mins [of "?h * 3600000000000"] sum assms t by auto
  next
    case m
    then show ?thesis using shape mins [of 0] sum assms by auto
  next
    case s
    then show ?thesis using shape secs [of 0] sum assms by auto
  qed
qed

definition magnitude_text :: "nat \<Rightarrow> string" where
  "magnitude_text u =
     (if u < 1000000000 then
        (if u = 0 then ''0s''
         else case small_unit u of (prec, unit) \<Rightarrow> (case fmtFrac unit u prec of (buf, v) \<Rightarrow> decimal v @ buf))
      else clock_text u)"

lemma magnitude_read:
  assumes "u \<le> 2 ^ 63"
  shows "parse_terms 0 (magnitude_text u) = Some u \<and> (\<exists>n s. magnitude_text u = decimal n @ s)"
proof -
  consider (zero) "u = 0" | (small) "0 < u" "u < 1000000000" | (large) "1000000000 \<le> u" by linarith
  then show ?thesis
  proof cases
    case zero
    have "''0s'' = decimal 0 @ ''s'' @ []" by (simp add: decimal.simps [of 0] char_of_def bit_0)
    then have t: "magnitude_text u = decimal 0 @ ''s'' @ []" using zero by (simp add: magnitude_text_def)
    have "parse_term (decimal 0 @ ''s'' @ []) = Some (0, [])" using whole_term [OF unit_texts(4), of "[]" 0] by (simp add: starts_number_def)
    from parse_terms_step [OF this, of 0] zero show ?thesis unfolding t by (auto simp: parse_terms_nil)
  next
    case small
    obtain prec unit where pu: "small_unit u = (prec, unit)" by (cases "small_unit u") auto
    then have unit: "unit_text unit (10 ^ prec)" "prec \<le> 9"
      using unit_texts by (auto simp: small_unit_def split: if_splits)
    obtain buf v where f: "fmtFrac unit u prec = (buf, v)" by (cases "fmtFrac unit u prec") auto
    have t: "magnitude_text u = decimal v @ buf @ []" using small pu f by (simp add: magnitude_text_def)
    have sum: "v * 10 ^ prec + u mod 10 ^ prec = u" unfolding frac_term(1) [OF f unit] by (rule div_mult_mod_eq)
    have "parse_term (decimal v @ buf @ []) = Some (u, [])"
      using frac_term(2) [OF f unit, of "[]" v] assms unfolding sum by (simp add: starts_number_def)
    from parse_terms_step [OF this, of 0] assms show ?thesis unfolding t by (auto simp: parse_terms_nil)
  next
    case large
    then show ?thesis using clock_text_read [OF assms] by (simp add: magnitude_text_def)
  qed
qed

lemma Duration_String_magnitude:
  "Duration_String d = (if d < 0 then CHR ''-'' # magnitude_text (nat (- d)) else magnitude_text (nat d))"
  by (simp add: Duration_String_def magnitude_text_def Let_def)

lemma parse_terms_0: "parse_terms 0 ''0'' = None"
  by (simp add: parse_terms.simps parse_term_def is_digit_def digit_val_def parse_unit_def)

lemma ParseDuration_String:
  assumes "is_i64 d"
  shows "ParseDuration (Duration_String d) = Ok d"
proof -
  let ?u = "nat \<bar>d\<bar>" and ?t = "magnitude_text (nat \<bar>d\<bar>)"
  have u: "?u \<le> 2 ^ 63" "0 \<le> d \<longrightarrow> ?u \<le> 2 ^ 63 - 1" using assms by (auto simp: is_i64_def)
  obtain n s where t: "parse_terms 0 ?t = Some ?u" "?t = decimal n @ s" using magnitude_read [OF u(1)] by blast
  obtain c cs where c: "?t = c # cs" "is_digit c" using is_digit_decimal [of n] t(2) by (cases "decimal n") auto
  then have "c \<noteq> CHR ''-''" "c \<noteq> CHR ''+''" by (auto simp: is_digit_def)
  moreover have "?t \<noteq> ''0''" using t(1) parse_terms_0 by auto
  ultimately show ?thesis using t(1) c u(2)
    by (cases "d < 0") (auto simp: ParseDuration_def Duration_String_magnitude Let_def)
qed

text \<open>The text needs no JSON escapes.\<close>

lemma plain_digits: "list_all is_digit ds \<Longrightarrow> list_all plain_char ds"
  by (auto simp: list_all_iff is_digit_def plain_char_def)

lemma plain_decimal: "list_all plain_char (decimal n)"
  using is_digit_decimal [of n] by (simp add: plain_digits)

lemma plain_frac:
  assumes "fmtFrac unit v prec = (buf, w)" "list_all plain_char unit"
  shows "list_all plain_char buf"
proof -
  obtain ds where ds: "fmtFrac unit v prec = ((if ds = [] then unit else CHR ''.'' # ds @ unit), v div 10 ^ prec)" "list_all is_digit ds"
    using fmtFrac_spec [of unit v prec] by (elim exE conjE)
  have "plain_char (CHR ''.'')" by (simp add: plain_char_def)
  then show ?thesis using ds assms plain_digits [OF ds(2)] by auto
qed

lemma plain_units: "list_all plain_char ''s''" "list_all plain_char ''ms''" "list_all plain_char ''ns''"
  "list_all plain_char (micro_sign @ ''s'')" "list_all plain_char ''m''" "list_all plain_char ''h''"
  by (simp_all add: plain_char_def micro_sign_def)

lemma plain_magnitude: "list_all plain_char (magnitude_text u)"
proof (cases "u < 1000000000")
  case True
  obtain prec unit where pu: "small_unit u = (prec, unit)" by (cases "small_unit u") auto
  then have "list_all plain_char unit" using plain_units by (auto simp: small_unit_def split: if_splits)
  moreover have "list_all plain_char ''0s''" by (simp add: plain_char_def)
  ultimately show ?thesis using True pu plain_frac plain_decimal
    by (auto simp: magnitude_text_def split: prod.split)
next
  case False
  then show ?thesis using plain_frac [OF _ plain_units(1)] plain_decimal plain_units(5,6)
    by (auto simp: magnitude_text_def clock_text_def Let_def split: prod.split)
qed

lemma Duration_text_round_trip:
  assumes "is_i64 d"
  shows "Duration_UnmarshalJSON (Duration_MarshalJSON d) = Ok d" "Duration_UnmarshalText (Duration_MarshalText d) = Ok d"
proof -
  have "plain_char (CHR ''-'')" by (simp add: plain_char_def)
  then have "list_all plain_char (Duration_String d)" using plain_magnitude by (simp add: Duration_String_magnitude)
  then show "Duration_UnmarshalJSON (Duration_MarshalJSON d) = Ok d"
    using ParseDuration_String [OF assms] by (simp add: Duration_UnmarshalJSON_def Duration_MarshalJSON_def json_string_quote)
  show "Duration_UnmarshalText (Duration_MarshalText d) = Ok d"
    using ParseDuration_String [OF assms] by (simp add: Duration_UnmarshalText_def Duration_MarshalText_def)
qed

end
