(* ===== verification/Report.thy ===== *)
theory Report
  imports Collector Ramper DurationText
begin

text \<open>
  The texts a run prints: the formatting verbs of \<open>fmt\<close> they use, the line of block statistics
  (\<open>stats/block_collector.go\<close>), the statistics of the ramp (\<open>sender/ramper.go\<close>), the report of the
  collector (\<open>stats/collector.go\<close>) and the lines, the loop and the final report of the logger
  (\<open>stats/logger.go\<close>). The order in which Go ranges over a map is an argument.
\<close>

subsection \<open>The verbs\<close>

definition nl :: string where
  "nl = [CHR 0x0A]"

text \<open>\<open>%d\<close> of a signed and of an unsigned number.\<close>

definition fmt_d :: "int \<Rightarrow> string" where
  "fmt_d n = (if n < 0 then CHR ''-'' # decimal (nat (- n)) else decimal (nat n))"

definition fmt_u :: "u64 \<Rightarrow> string" where
  "fmt_u n = decimal (unat n)"

text \<open>\<open>%.pf\<close>: the nearest number with \<open>p\<close> digits after the point, of two the one with the even digit.\<close>

definition round_half_even :: "rat \<Rightarrow> int" where
  "round_half_even x =
     (let n = floor x; d = x - of_int n
      in if d < 1 / 2 then n else if 1 / 2 < d then n + 1 else if even n then n else n + 1)"

definition pad_zeros :: "nat \<Rightarrow> string \<Rightarrow> string" where
  "pad_zeros w s = replicate (w - length s) (CHR ''0'') @ s"

definition fixed_text :: "nat \<Rightarrow> rat \<Rightarrow> string" where
  "fixed_text p x =
     (let n = nat (round_half_even (\<bar>x\<bar> * 10 ^ p))
      in (if x < 0 then ''-'' else '''') @ decimal (n div 10 ^ p) @
         (if p = 0 then '''' else ''.'' @ pad_zeros p (decimal (n mod 10 ^ p))))"

fun fmt_f :: "nat \<Rightarrow> f64 \<Rightarrow> string" where
  "fmt_f p (Fin x) = fixed_text p x"
| "fmt_f p PosInf = ''+Inf''"
| "fmt_f p NegInf = ''-Inf''"
| "fmt_f p NaN = ''NaN''"

text \<open>\<open>time.Duration.Round\<close>: to the nearest multiple of \<open>m\<close>, halves away from zero, saturating.\<close>

definition lessThanHalf :: "duration \<Rightarrow> duration \<Rightarrow> bool" where
  "lessThanHalf x y \<longleftrightarrow> (of_int x + of_int x :: u64) < of_int y"

definition Duration_Round :: "duration \<Rightarrow> duration \<Rightarrow> duration" where
  "Duration_Round d m =
     (if m \<le> 0 then d
      else let r = d smod m
           in if d < 0 then
                let r = - r
                in if lessThanHalf r m then i64 (d + r)
                   else let d1 = i64 (d - m + r) in if d1 < d then d1 else min_i64
              else if lessThanHalf r m then i64 (d - r)
              else let d1 = i64 (d + m - r) in if d < d1 then d1 else max_i64)"

definition fmt_ms :: "duration \<Rightarrow> string" where
  "fmt_ms d = Duration_String (Duration_Round d millisecond)"

definition fmt_s :: "duration \<Rightarrow> string" where
  "fmt_s d = Duration_String (Duration_Round d second)"

subsection \<open>Block statistics and the ramp\<close>

definition FormatBlockStats :: "block_stats \<Rightarrow> string" where
  "FormatBlockStats bs =
     (if SampleCount bs = 0 then ''block stats: no data available''
      else ''block height='' @ fmt_u (MaxBlockNumber bs) @
           '', times(p50='' @ fmt_ms (P50BlockTime bs) @ '' p99='' @ fmt_ms (P99BlockTime bs) @
           '' max='' @ fmt_ms (MaxBlockTime bs) @
           ''), gas(p50='' @ fmt_u (P50GasUsed bs) @ '' p99='' @ fmt_u (P99GasUsed bs) @
           '' max='' @ fmt_u (MaxGasUsed bs) @ '') samples='' @ decimal (SampleCount bs))"

definition curve_text :: "ramp_curve_step \<Rightarrow> string" where
  "curve_text r =
     (case GetCurveStats r of
        None \<Rightarrow> ''no ramp curve stats available''
      | Some tps \<Rightarrow> ''Highest Passed TPS: '' @ fmt_f 2 (Fin tps))"

definition rule_line :: string where
  "rule_line = concat (replicate 41 [CHR 0xE2, CHR 0x94, CHR 0x80])"

definition FormatRampStats :: "ramper \<Rightarrow> string" where
  "FormatRampStats r =
     nl @ rule_line @ nl @ ''              RAMP STATISTICS'' @ nl @ rule_line @ nl @
     '' Ramp Curve Stats:'' @ nl @ '' '' @ curve_text (rm_curve r) @ nl @ rule_line @ nl @
     '' Window Block Stats:'' @ nl @ '' '' @ FormatBlockStats (rm_lastWindow r) @ nl @ rule_line"

definition Ramper_LogFinalStats :: "ramper \<Rightarrow> string" where
  "Ramper_LogFinalStats r = ''Final Ramp stats: '' @ nl @ FormatRampStats r"

subsection \<open>The report of the collector\<close>

definition count_lines :: "(string \<rightharpoonup> u64) \<Rightarrow> string list \<Rightarrow> string" where
  "count_lines counts order =
     concat (map (\<lambda>s. ''  '' @ s @ '': '' @ fmt_u (the (counts s)) @ nl) order)"

text \<open>The paragraph on transactions, which the two reports share word for word.\<close>

definition performance_text :: "transaction_stats \<Rightarrow> string" where
  "performance_text t =
     nl @ ''Transaction Performance:'' @ nl @
     ''  Latency P50: '' @ fmt_ms (P50Latency t) @ '' | P99: '' @ fmt_ms (P99Latency t) @
     '' (samples: '' @ decimal (TxSampleCount t) @ '')'' @ nl @
     ''  TPS Current: '' @ fmt_f 2 (CurrentTPS t) @ '' | Max (10s): '' @ fmt_f 2 (MaxTPS t) @ nl @
     ''  Window TXs: '' @ fmt_u (WindowTxCount t) @ '' | Latency Sum: '' @ fmt_ms (WindowLatencySum t) @
     '' | Latency Count: '' @ fmt_d (WindowLatencyCount t) @ nl @
     ''  Window Max Latency: '' @ fmt_ms (WindowMaxLatency t) @ '' | Window Min Latency: '' @ fmt_ms (WindowMinLatency t) @ nl @
     ''  Cumulative Max TPS: '' @ fmt_f 2 (CumulativeMaxTPS t) @ '' | Cumulative Max Latency: '' @
     fmt_ms (CumulativeMaxLatency t) @ nl"

definition run_line :: "duration \<Rightarrow> u64 \<Rightarrow> f64 \<Rightarrow> string" where
  "run_line runtime txs avgTPS =
     ''Runtime: '' @ fmt_s runtime @ '' | Total TXs: '' @ fmt_u txs @ '' | Avg TPS: '' @ fmt_f 2 avgTPS @ nl @ nl"

definition overall_line :: "f64 \<Rightarrow> f64 \<Rightarrow> string" where
  "overall_line cur mx = nl @ ''Overall TPS: Current: '' @ fmt_f 2 cur @ '' | Max (10s): '' @ fmt_f 2 mx @ nl"

definition FormatStats :: "instant \<Rightarrow> string list \<Rightarrow> stats \<Rightarrow> string" where
  "FormatStats now order s =
     (let duration = time_sub now (StartTime s);
          avgTPS = f_div (of_nat (unat (TotalTxs s))) (seconds duration)
      in nl @ ''=== Load Test Statistics ==='' @ nl @ run_line duration (TotalTxs s) avgTPS @
         ''Transaction Counts by Scenario:'' @ nl @ count_lines (TxCounts s) order @
         performance_text (TransactionStats s) @
         overall_line (OverallCurrentTPS s) (OverallMaxTPS s) @
         (case BlockStatsOpt s of None \<Rightarrow> '''' | Some bs \<Rightarrow> nl @ FormatBlockStats bs))"

subsection \<open>The report of the logger\<close>

fun f_percent :: "f64 \<Rightarrow> f64" where
  "f_percent (Fin x) = Fin (x * 100)"
| "f_percent x = x"

definition scenario_share :: "u64 \<Rightarrow> u64 \<Rightarrow> f64" where
  "scenario_share n_txs txs = f_percent (f_div (of_nat (unat n_txs)) (of_nat (unat txs)))"

definition block_part :: "block_stats option \<Rightarrow> string" where
  "block_part b =
     (case b of
        None \<Rightarrow> ''''
      | Some bs \<Rightarrow>
          if 0 < SampleCount bs then
            nl @ ''Block Statistics:'' @ nl @
            ''  Height: '' @ fmt_u (MaxBlockNumber bs) @ '' | Samples: '' @ decimal (SampleCount bs) @ nl @
            ''  Block Times: P50='' @ fmt_ms (P50BlockTime bs) @ '' | P99='' @ fmt_ms (P99BlockTime bs) @
            '' | Max='' @ fmt_ms (MaxBlockTime bs) @ nl @
            ''  Gas Usage: P50='' @ fmt_u (P50GasUsed bs) @ '' | P99='' @ fmt_u (P99GasUsed bs) @
            '' | Max='' @ fmt_u (MaxGasUsed bs) @ nl
          else '''')"

definition gas_part :: "block_stats option \<Rightarrow> string" where
  "gas_part b =
     (case b of
        None \<Rightarrow> ''''
      | Some bs \<Rightarrow>
          if 0 < SampleCount bs then
            nl @ ''Overall Gas Statistics:'' @ nl @
            ''  Max Block Number: '' @ fmt_u (MaxBlockNumber bs) @ nl @
            ''  Block Times: p50='' @ fmt_ms (P50BlockTime bs) @ '' p99='' @ fmt_ms (P99BlockTime bs) @
            '' max='' @ fmt_ms (MaxBlockTime bs) @ nl @
            ''  Gas Usage: p50='' @ fmt_u (P50GasUsed bs) @ '' p99='' @ fmt_u (P99GasUsed bs) @
            '' max='' @ fmt_u (MaxGasUsed bs) @ nl @
            ''  Block Samples: '' @ decimal (SampleCount bs) @ nl
          else '''')"

definition share_lines :: "(string \<rightharpoonup> u64) \<Rightarrow> u64 \<Rightarrow> string list \<Rightarrow> string" where
  "share_lines counts all order =
     concat (map (\<lambda>s. ''  '' @ s @ '': '' @ fmt_u (the (counts s)) @ '' ('' @
       fmt_f 1 (scenario_share (the (counts s)) all) @ ''%)'' @ nl) order)"

definition FinalStats_String :: "string list \<Rightarrow> string list \<Rightarrow> final_stats \<Rightarrow> string" where
  "FinalStats_String order1 order2 fs =
     (let lts = fs_LoadTestStatistics fs; perf = fs_OverallPerformance fs
      in nl @ ''============================='' @ nl @ ''FINAL LOAD TEST RESULTS'' @ nl @
         ''============================='' @ nl @ nl @
         ''=== Load Test Statistics ==='' @ nl @ run_line (lts_Runtime lts) (lts_TotalTxs lts) (lts_AvgTPS lts) @
         ''Transaction Counts by Scenario:'' @ nl @ count_lines (fs_ScenarioDistribution fs) order1 @
         performance_text (fs_TransactionStats fs) @
         overall_line (fst (fs_OverallTPS fs)) (snd (fs_OverallTPS fs)) @
         block_part (fs_BlockStatistics fs) @
         nl @ ''Overall Performance Summary:'' @ nl @
         ''  Total Runtime: '' @ fmt_s (op_TotalRuntime perf) @ nl @
         ''  Total Transactions: '' @ fmt_u (op_TotalTransactions perf) @ nl @
         ''  Average TPS: '' @ fmt_f 2 (op_AverageTPS perf) @ nl @
         ''  Max TPS: '' @ fmt_f 2 (op_MaxTPS perf) @ nl @
         nl @ ''Scenario Distribution:'' @ nl @
         share_lines (fs_ScenarioDistribution fs) (lts_TotalTxs lts) order2 @
         gas_part (fs_GasStatistics fs) @
         ''=============================='' @ nl)"

subsection \<open>The logger\<close>

record logger =
  lg_interval :: duration
  lg_debug :: bool
  lg_reportPath :: string

definition NewLogger :: "duration \<Rightarrow> string \<Rightarrow> bool \<Rightarrow> logger" where
  "NewLogger interval reportPath debug = \<lparr>lg_interval = interval, lg_debug = debug, lg_reportPath = reportPath\<rparr>"

text \<open>What one tick prints: the rate and the mean latency of the window and what \<open>GetStats\<close> returned.\<close>

definition tick_lines :: "bool \<Rightarrow> string \<Rightarrow> f64 \<times> duration \<times> stats \<Rightarrow> string list" where
  "tick_lines debug clock r =
     (case r of (windowTPS, avg, st) \<Rightarrow>
        let t = TransactionStats st
        in (if debug then
              [''['' @ clock @ ''] TXs: '' @ fmt_u (TotalTxs st) @ '' | TPS: '' @ fmt_f 1 windowTPS @ ''('' @
               fmt_f 1 (CumulativeMaxTPS t) @ '') | Lat: '' @ fmt_ms avg @ ''('' @ fmt_ms (CumulativeMaxLatency t) @
               '') | P50: '' @ fmt_ms (P50Latency t) @ '' P99: '' @ fmt_ms (P99Latency t)]
            else []) @
           [''throughput tps='' @ fmt_f 2 windowTPS @ '', txs='' @ fmt_u (TotalTxs st) @ '',  latency(avg='' @ fmt_ms avg @
            '' p50='' @ fmt_ms (P50Latency t) @ '' p99='' @ fmt_ms (P99Latency t) @ '' max='' @ fmt_ms (CumulativeMaxLatency t) @ '')''] @
           (case BlockStatsOpt st of
              None \<Rightarrow> []
            | Some bs \<Rightarrow> if 0 < SampleCount bs then [FormatBlockStats bs] else []))"

text \<open>
  The loop: at a tick the statistics are logged and the windows reset, between two ticks the run
  records transactions and blocks arrive. The events say in which order these arrive and when the context ends.
\<close>

datatype logger_event =
    LogTick instant instant instant string
  | Recorded event
  | BlockSeen instant header
  | LogStops go_error

fun logger_loop :: "logger \<Rightarrow> logger_event list \<Rightarrow> collector \<Rightarrow> string list \<Rightarrow> unit outcome option \<times> collector \<times> string list" where
  "logger_loop l [] c out = (None, c, out)"
| "logger_loop l (LogTick n1 n2 n3 clock # evs) c out =
     (case logCurrentStats n1 n2 n3 (lg_interval l) c of
        Ok (r, c') \<Rightarrow> logger_loop l evs c' (out @ tick_lines (lg_debug l) clock r)
      | Err e \<Rightarrow> (Some (Err e), c, out)
      | Panic m \<Rightarrow> (Some (Panic m), c, out))"
| "logger_loop l (Recorded ev # evs) c out = logger_loop l evs (do_event ev c) out"
| "logger_loop l (BlockSeen now hdr # evs) c out =
     logger_loop l evs (c\<lparr>blockCollector := map_option (\<lambda>bc. fst (processNewBlock now hdr bc)) (blockCollector c)\<rparr>) out"
| "logger_loop l (LogStops e # evs) c out = (Some (Err e), c, out)"

definition Logger_Run :: "logger \<Rightarrow> logger_event list \<Rightarrow> collector \<Rightarrow> unit outcome option \<times> collector \<times> string list" where
  "Logger_Run l evs c =
     (case NewTicker (lg_interval l) of
        Ok u \<Rightarrow> logger_loop l evs c []
      | Err e \<Rightarrow> (Some (Err e), c, [])
      | Panic m \<Rightarrow> (Some (Panic m), c, []))"

text \<open>
  The end: the report goes to the standard output and, if there is a path for it, to a file. The
  report is formatted twice, each time with its own two walks over the map. A write that fails
  leaves the part of it that was written.
\<close>

record final_output =
  fo_stdout :: string
  fo_file :: "(string \<times> string) option"
  fo_log :: "string list"

definition LogFinalStats ::
  "logger \<Rightarrow> instant \<Rightarrow> instant \<Rightarrow> (nat \<Rightarrow> string list) \<Rightarrow> string option \<Rightarrow> (nat \<times> string) option \<Rightarrow> collector \<Rightarrow> final_output outcome" where
  "LogFinalStats l now1 now2 order create_err write_err c =
     obind (BuildFinalStats now1 now2 c) (\<lambda>fs.
       let out = \<lparr>fo_stdout = FinalStats_String (order 0) (order 1) fs, fo_file = None, fo_log = []\<rparr>
       in if lg_reportPath l = '''' then Ok out
          else case create_err of
                 Some e \<Rightarrow> Ok (out\<lparr>fo_log := [''Error creating report file: '' @ e]\<rparr>)
               | None \<Rightarrow>
                   let txt = FinalStats_String (order 2) (order 3) fs
                   in case write_err of
                        Some (n, e) \<Rightarrow>
                          Ok (out\<lparr>fo_file := Some (lg_reportPath l, take n txt), fo_log := [''Error writing report file: '' @ e]\<rparr>)
                      | None \<Rightarrow> Ok (out\<lparr>fo_file := Some (lg_reportPath l, txt)\<rparr>))"

subsection \<open>What the figures say\<close>

lemma round_half_even_near: "\<bar>of_int (round_half_even x) - x\<bar> \<le> 1 / 2"
proof -
  have "of_int \<lfloor>x\<rfloor> \<le> x" "x < of_int \<lfloor>x\<rfloor> + 1" by linarith+
  then show ?thesis by (auto simp: round_half_even_def Let_def abs_le_iff)
qed

lemma round_half_even_nonneg: "0 \<le> x \<Longrightarrow> 0 \<le> round_half_even x"
  by (auto simp: round_half_even_def Let_def)

text \<open>
  The digits of \<open>%.pf\<close>, read without the point, are a number of units of the last place, and the number
  printed is within half a unit of the value.
\<close>

lemma digits_from_zeros: "digits_from 0 (replicate n (CHR ''0'') @ ds) = digits_from 0 ds"
  by (induction n) (simp_all add: digit_val_def)

lemma digits_from_shift: "digits_from x ds = x * 10 ^ length ds + digits_from 0 ds"
proof (induction ds arbitrary: x)
  case (Cons c ds)
  show ?case using Cons [of "10 * x + digit_val c"] Cons [of "digit_val c"] by (simp add: algebra_simps)
qed simp

lemma length_decimal: "n < 10 ^ p \<Longrightarrow> 0 < p \<Longrightarrow> length (decimal n) \<le> p"
proof (induction n arbitrary: p rule: decimal.induct)
  case (1 n)
  show ?case
  proof (cases "n < 10")
    case False
    then have "1 < p" using 1(2,3) by (cases p) (auto simp: power_Suc split: if_splits, metis One_nat_def False less_one not_gr_zero power_0 mult_1_right linorder_not_less)
    then have "n div 10 < 10 ^ (p - 1)" using 1(2) by (cases p) (auto simp: less_mult_imp_div_less mult.commute)
    then show ?thesis using 1(1) [OF False, of "p - 1"] False \<open>1 < p\<close> by (simp add: decimal.simps [of n])
  qed (use 1(3) in \<open>simp add: decimal.simps [of n]\<close>)
qed

definition printed_units :: "string \<Rightarrow> nat" where
  "printed_units s = digits_from 0 (filter is_digit s)"

lemma filter_decimal [simp]: "filter is_digit (decimal n) = decimal n"
  using is_digit_decimal [of n] by (simp add: list_all_iff filter_id_conv)

lemma fixed_text_units:
  assumes "0 < p"
  shows "printed_units (fixed_text p x) = nat (round_half_even (\<bar>x\<bar> * 10 ^ p))"
    and "\<bar>of_nat (printed_units (fixed_text p x)) - \<bar>x\<bar> * 10 ^ p\<bar> \<le> 1 / 2"
proof -
  let ?n = "nat (round_half_even (\<bar>x\<bar> * 10 ^ p))"
  have pad: "length (pad_zeros p (decimal (?n mod 10 ^ p))) = p"
    using length_decimal [OF _ assms, of "?n mod 10 ^ p"] by (simp add: pad_zeros_def)
  have z: "is_digit (CHR ''0'')" "\<not> is_digit (CHR ''.'')" "\<not> is_digit (CHR ''-'')" by (simp_all add: is_digit_def)
  have f: "filter is_digit (pad_zeros p (decimal m)) = pad_zeros p (decimal m)" for m
    using z(1) by (simp add: pad_zeros_def)
  have "printed_units (fixed_text p x) = digits_from 0 (decimal (?n div 10 ^ p) @ pad_zeros p (decimal (?n mod 10 ^ p)))"
    using assms z f by (simp add: printed_units_def fixed_text_def Let_def del: digits_from_simps)
  also have "\<dots> = ?n div 10 ^ p * 10 ^ p + ?n mod 10 ^ p"
    using digits_from_shift [of "?n div 10 ^ p" "pad_zeros p (decimal (?n mod 10 ^ p))"] pad
      digits_from_zeros [of _ "decimal (?n mod 10 ^ p)"]
    by (simp add: digits_from_decimal pad_zeros_def del: digits_from_simps(1,2))
  also have "\<dots> = ?n" by (rule div_mult_mod_eq)
  finally show n: "printed_units (fixed_text p x) = ?n" .
  have "0 \<le> round_half_even (\<bar>x\<bar> * 10 ^ p)" by (intro round_half_even_nonneg) simp
  then show "\<bar>of_nat (printed_units (fixed_text p x)) - \<bar>x\<bar> * 10 ^ p\<bar> \<le> 1 / 2"
    using round_half_even_near [of "\<bar>x\<bar> * 10 ^ p"] by (simp add: n)
qed

text \<open>A duration away from the ends of its range is rounded to a multiple that is as near as any.\<close>

lemma lessThanHalf_iff:
  assumes "0 \<le> x" "x < y" "y \<le> max_i64"
  shows "lessThanHalf x y \<longleftrightarrow> 2 * x < y"
proof -
  have "uint (of_int x + of_int x :: u64) = 2 * x" "uint (of_int y :: u64) = y"
    using assms by (simp_all add: uint_word_ariths uint_word_of_int)
  then show ?thesis by (simp add: lessThanHalf_def word_less_def)
qed

lemma Duration_Round_nearest:
  assumes "0 < m" "\<bar>d\<bar> + m \<le> max_i64"
  shows "m dvd Duration_Round d m" "2 * \<bar>Duration_Round d m - d\<bar> \<le> m"
proof -
  let ?r = "\<bar>d\<bar> mod m"
  have r: "0 \<le> ?r" "?r < m" "m dvd \<bar>d\<bar> - ?r" "m dvd \<bar>d\<bar> - ?r + m" using assms(1) by simp_all
  have half: "lessThanHalf ?r m \<longleftrightarrow> 2 * ?r < m" using r assms by (intro lessThanHalf_iff) auto
  have le: "?r \<le> \<bar>d\<bar>" using assms(1) by (simp add: zmod_le_nonneg_dividend)
  have smod: "d smod m = sgn d * ?r" using assms(1) by (simp add: signed_modulo_int_def signed_divide_int_def)
  have val: "Duration_Round d m = (if 2 * ?r < m then d - sgn d * ?r else if d < 0 then d - m + ?r else d + m - ?r)"
  proof (cases "d < 0")
    case True
    then have "d smod m = - ?r" using smod by simp
    then show ?thesis using True assms r le half by (simp add: Duration_Round_def Let_def i64_id is_i64_def)
  next
    case False
    then have "d smod m = ?r" using smod le r by (cases "d = 0") auto
    then show ?thesis using False assms r le half by (cases "d = 0") (simp_all add: Duration_Round_def Let_def i64_id is_i64_def)
  qed
  have sg: "d < 0 \<and> \<bar>d\<bar> = - d \<and> sgn d = - 1 \<or> d = 0 \<and> ?r = 0 \<and> sgn d = 0 \<or> 0 < d \<and> \<bar>d\<bar> = d \<and> sgn d = 1"
    by (cases d "0 :: int" rule: linorder_cases) simp_all
  show "2 * \<bar>Duration_Round d m - d\<bar> \<le> m" using val r sg by auto
  show "m dvd Duration_Round d m"
    using sg
  proof (elim disjE conjE)
    assume "d < 0" "\<bar>d\<bar> = - d" "sgn d = - 1"
    then have "Duration_Round d m = - (\<bar>d\<bar> - ?r) \<or> Duration_Round d m = - (\<bar>d\<bar> - ?r + m)" using val by auto
    then show ?thesis using r(3,4) by (metis dvd_minus_iff)
  next
    assume "0 < d" "\<bar>d\<bar> = d" "sgn d = 1"
    then have "Duration_Round d m = \<bar>d\<bar> - ?r \<or> Duration_Round d m = \<bar>d\<bar> - ?r + m" using val by auto
    then show ?thesis using r(3,4) by metis
  qed (use val assms(1) in auto)
qed

subsection \<open>What a run recorded is what its report says\<close>

text \<open>The transactions recorded before the loop stopped.\<close>

fun recorded :: "logger_event list \<Rightarrow> event list" where
  "recorded [] = []"
| "recorded (Recorded ev # evs) = ev # recorded evs"
| "recorded (LogStops e # evs) = []"
| "recorded (_ # evs) = recorded evs"

definition occurrences :: "event list \<Rightarrow> string \<Rightarrow> nat" where
  "occurrences es s = length (filter (\<lambda>e. ev_scenario e = s) es)"

text \<open>A tick prints and resets, but touches no total.\<close>

lemma logCurrentStats_ok:
  assumes "coll_bounded c"
  shows "\<exists>r c'. logCurrentStats n1 n2 n3 interval c = Ok (r, c') \<and> coll_bounded c' \<and> txCounts c' = txCounts c \<and>
    totalTxs c' = totalTxs c"
proof -
  obtain st where st: "GetStats n1 c = Ok st" using GetStats_ok [OF assms, of n1] by blast
  have "\<exists>avg. (if 0 < WindowLatencyCount (TransactionStats st)
      then go_div (WindowLatencySum (TransactionStats st)) (WindowLatencyCount (TransactionStats st)) else Ok 0) = Ok avg"
    by (simp add: go_div_def)
  then obtain avg where avg: "(if 0 < WindowLatencyCount (TransactionStats st)
      then go_div (WindowLatencySum (TransactionStats st)) (WindowLatencyCount (TransactionStats st)) else Ok 0) = Ok avg" ..
  define c1 where "c1 = ResetWindowStats n2 c"
  define c' where "c' = (case blockCollector c1 of None \<Rightarrow> c1
    | Some bc \<Rightarrow> c1\<lparr>blockCollector := Some (bc_ResetWindowStats n3 bc)\<rparr>)"
  have c1: "coll_bounded c1" "txCounts c1 = txCounts c" "totalTxs c1 = totalTxs c"
    using coll_bounded_reset [OF assms] by (simp_all add: c1_def ResetWindowStats_def)
  then have "coll_bounded c' \<and> txCounts c' = txCounts c \<and> totalTxs c' = totalTxs c"
    by (auto simp: c'_def coll_bounded_def bc_bounded_reset split: option.split)
  moreover have "logCurrentStats n1 n2 n3 interval c =
      Ok ((if 0 < WindowTxCount (TransactionStats st)
           then f_div (of_nat (unat (WindowTxCount (TransactionStats st)))) (seconds interval) else Fin 0, avg, st), c')"
    unfolding logCurrentStats_def st obind.simps Let_def avg c1_def [symmetric] c'_def by simp
  ultimately show ?thesis by blast
qed

lemma logger_loop_counts:
  assumes "coll_bounded c" "logger_loop l evs c out = (r, c', out')"
  shows "coll_bounded c' \<and> totalTxs c' = totalTxs c + of_nat (length (recorded evs)) \<and>
    dom (txCounts c') = dom (txCounts c) \<union> ev_scenario ` set (recorded evs) \<and>
    (\<forall>s. count_of c' s = count_of c s + of_nat (occurrences (recorded evs) s)) \<and>
    (r = None \<or> (\<exists>e. r = Some (Err e)))"
  using assms
proof (induction evs arbitrary: c out)
  case (Cons ev evs)
  show ?case
  proof (cases ev)
    case (LogTick n1 n2 n3 clock)
    obtain x d where d: "logCurrentStats n1 n2 n3 (lg_interval l) c = Ok (x, d)" "coll_bounded d"
      "txCounts d = txCounts c" "totalTxs d = totalTxs c"
      using logCurrentStats_ok [OF Cons.prems(1), of n1 n2 n3 "lg_interval l"] by (elim exE conjE)
    have "count_of d = count_of c" using d(3) by (intro ext) (simp add: count_of_def)
    then show ?thesis using Cons.IH [OF d(2), of "out @ tick_lines (lg_debug l) clock x"] Cons.prems(2) LogTick d by simp
  next
    case (Recorded e)
    show ?thesis
      using Cons.IH [OF coll_bounded_event [OF Cons.prems(1)], of e out] Cons.prems(2) Recorded
      by (auto simp: do_event_sel(2) count_of_event occurrences_def) (auto simp: do_event_sel(1))
  next
    case (BlockSeen now hdr)
    let ?d = "c\<lparr>blockCollector := map_option (\<lambda>bc. fst (processNewBlock now hdr bc)) (blockCollector c)\<rparr>"
    have "coll_bounded ?d" using Cons.prems(1) by (auto simp: coll_bounded_def bc_bounded_process split: option.splits)
    then show ?thesis using Cons.IH [of ?d out] Cons.prems(2) BlockSeen by (simp add: count_of_def)
  next
    case (LogStops e)
    then show ?thesis using Cons.prems by (auto simp: occurrences_def)
  qed
qed (auto simp: occurrences_def)

lemma BuildFinalStats_ok:
  assumes "coll_bounded c"
  shows "\<exists>fs. BuildFinalStats n1 n2 c = Ok fs \<and> lts_TotalTxs (fs_LoadTestStatistics fs) = totalTxs c \<and>
    fs_ScenarioDistribution fs = txCounts c \<and> op_TotalTransactions (fs_OverallPerformance fs) = totalTxs c"
proof -
  obtain st where st: "GetStats n1 c = Ok st" "TotalTxs st = totalTxs c" "TxCounts st = txCounts c"
    using GetStats_ok [OF assms, of n1] by (elim exE conjE)
  obtain gas where "GetCumulativeBlockStats c = Ok gas"
  proof (cases "blockCollector c")
    case (Some bc)
    then have "bc_bounded bc" using assms by (simp add: coll_bounded_def)
    then obtain g where "GetBlockStats bc = Ok g"
      using stats_of_ok [of "allBlockTimes bc" "allGasUsed bc"] by (auto simp: bc_bounded_def GetBlockStats_def)
    with that Some show thesis by (simp add: GetCumulativeBlockStats_def)
  qed (use that in \<open>simp add: GetCumulativeBlockStats_def\<close>)
  then show ?thesis using st by (simp add: BuildFinalStats_def Let_def)
qed

text \<open>The line of a scenario with \<open>n\<close> of \<open>k\<close> transactions.\<close>

definition share_line :: "nat \<Rightarrow> nat \<Rightarrow> string \<Rightarrow> string" where
  "share_line n k s = ''  '' @ s @ '': '' @ decimal n @ '' ('' @ fixed_text 1 (of_nat n / of_nat k * 100) @ ''%)'' @ nl"

lemma share_lines_exact:
  assumes "unat all_txs = k" "0 < k" "\<And>s. s \<in> set order \<Longrightarrow> unat (the (counts s)) = n s"
  shows "share_lines counts all_txs order = concat (map (\<lambda>s. share_line (n s) k s) order)"
proof -
  have "scenario_share (the (counts s)) all_txs = Fin (of_nat (n s) / of_nat k * 100)" if "s \<in> set order" for s
    using assms that by (simp add: scenario_share_def f_div_def)
  then show ?thesis using assms(3)
    by (auto simp: share_lines_def share_line_def fmt_u_def intro!: arg_cong [where f = concat])
qed

definition fresh_collector :: "instant \<Rightarrow> instant \<Rightarrow> instant \<Rightarrow> string option \<Rightarrow> collector" where
  "fresh_collector n1 n2 n3 chain = SetBlockCollector (map_option NewBlockCollector chain) (NewCollector n1 n2 n3)"

lemma fresh_collector_sel [simp]:
  "coll_bounded (fresh_collector n1 n2 n3 chain)" "totalTxs (fresh_collector n1 n2 n3 chain) = 0"
  "txCounts (fresh_collector n1 n2 n3 chain) = Map.empty" "count_of (fresh_collector n1 n2 n3 chain) s = 0"
  by (cases chain; simp add: fresh_collector_def SetBlockCollector_def NewCollector_def coll_bounded_def bc_bounded_new count_of_def)+

lemma sum_occurrences:
  assumes "distinct order" "set order = ev_scenario ` set es"
  shows "(\<Sum>s \<leftarrow> order. occurrences es s) = length es"
proof -
  have "(\<Sum>s \<in> A. occurrences es s) = length es" if "finite A" "ev_scenario ` set es \<subseteq> A" for A
    using that(2)
  proof (induction es)
    case (Cons e es)
    have "(\<Sum>s \<in> A. occurrences (e # es) s) = (\<Sum>s \<in> A. occurrences es s + (if ev_scenario e = s then 1 else 0))"
      by (intro sum.cong) (auto simp: occurrences_def)
    also have "\<dots> = length es + 1" using Cons that(1) by (simp add: sum.distrib sum.delta')
    finally show ?case by simp
  qed (simp add: occurrences_def)
  then show ?thesis using assms by (simp add: sum_list_distinct_conv_sum_set)
qed

lemma FinalStats_String_shares:
  assumes "share_lines (fs_ScenarioDistribution fs) (lts_TotalTxs (fs_LoadTestStatistics fs)) order2 = x"
  shows "\<exists>pre post. FinalStats_String order1 order2 fs = pre @ x @ post"
proof -
  have "\<exists>pre. FinalStats_String order1 order2 fs =
      pre @ x @ gas_part (fs_GasStatistics fs) @ ''=============================='' @ nl"
    unfolding FinalStats_String_def Let_def assms by (simp only: append_assoc [symmetric] append_same_eq) blast
  then show ?thesis by blast
qed

lemma share_printed:
  "\<bar>of_nat (printed_units (fixed_text 1 (of_nat n / of_nat k * 100))) / 10 - of_nat n / of_nat k * 100\<bar> \<le> (1 / 20 :: rat)"
proof -
  define x u :: rat where "x = of_nat n / of_nat k * 100" and "u = of_nat (printed_units (fixed_text 1 x))"
  have "0 \<le> x" by (simp add: x_def)
  then have "\<bar>u - x * 10\<bar> \<le> 1 / 2" using fixed_text_units(2) [of 1 x] unfolding u_def by simp
  then have "\<bar>u / 10 - x\<bar> \<le> 1 / 20" unfolding abs_le_iff by linarith
  then show ?thesis unfolding u_def x_def .
qed

end
