(* ===== verification/Metrics.thy ===== *)
theory Metrics
  imports Inclusion EthClient
begin

text \<open>
  The instruments of the program (\<open>stats/metrics.go\<close>, \<open>sender/metrics.go\<close>) and the gauge that is read by
  callback. Descriptions are left out.
\<close>

datatype instrument_kind =
    Int64Counter
  | Int64Gauge
  | Float64Gauge
  | Int64Histogram "rat list"
  | Float64Histogram "rat list"
  | Int64ObservableGauge

record instrument =
  in_meter :: string
  in_name :: string
  in_kind :: instrument_kind
  in_unit :: string

definition stats_meter :: string where
  "stats_meter = ''github.com/sei-protocol/sei-load/stats''"

definition sender_meter :: string where
  "sender_meter = ''github.com/sei-protocol/sei-load/sender''"

definition instrument_of :: "string \<Rightarrow> string \<times> instrument_kind \<times> string \<Rightarrow> instrument" where
  "instrument_of m x = (case x of (n, k, u) \<Rightarrow> \<lparr>in_meter = m, in_name = n, in_kind = k, in_unit = u\<rparr>)"

definition stats_instruments :: "instrument list" where
  "stats_instruments = map (instrument_of stats_meter)
     [(''gas_used'', Int64Histogram [1, 1000, 10000, 50000, 100000, 200000, 300000, 400000, 500000, 600000, 700000,
         800000, 1000000], ''{gas}''),
      (''block_number'', Int64Gauge, ''{height}''),
      (''block_time'', Float64Histogram [1 / 10, 2 / 10, 3 / 10, 4 / 10, 5 / 10, 6 / 10, 7 / 10, 8 / 10, 9 / 10, 1, 2, 5,
         10, 20], ''s''),
      (''run_tps_final'', Float64Gauge, ''{transactions}/s''),
      (''run_duration'', Float64Gauge, ''s''),
      (''run_txs_accepted_total'', Int64Gauge, ''{transactions}''),
      (''run_txs_dropped_total'', Int64Gauge, ''{transactions}''),
      (''run_txs_failed_total'', Int64Gauge, ''{transactions}''),
      (''inclusion_latency'', Float64Histogram [1 / 2, 1, 2, 5, 10, 30, 60, 120], ''s''),
      (''inclusion_outcome'', Int64Counter, ''{transactions}''),
      (''block_gaps'', Int64Counter, ''{blocks}''),
      (''block_fetch_errors'', Int64Counter, ''{blocks}''),
      (''run_inflight_at_shutdown'', Int64Gauge, ''{transactions}''),
      (''inclusion_inflight'', Int64ObservableGauge, ''{transactions}'')]"

definition sender_instruments :: "instrument list" where
  "sender_instruments = map (instrument_of sender_meter)
     [(''send_latency'', Float64Histogram [1 / 10, 2 / 10, 3 / 10, 5 / 10, 1, 2, 3, 5, 10, 20], ''s''),
      (''txs_accepted'', Int64Counter, ''{transactions}''),
      (''txs_rejected'', Int64Counter, ''{transactions}'')]"

definition instruments :: "instrument list" where
  "instruments = stats_instruments @ sender_instruments"

text \<open>The callback of the in-flight gauge reads every tracker that was metered, in the order they were.\<close>

definition meterInclusionInflight :: "inclusion_tracker \<Rightarrow> inclusion_tracker list \<Rightarrow> inclusion_tracker list" where
  "meterInclusionInflight t trackers = trackers @ [t]"

definition observe_inflight :: "inclusion_tracker list \<Rightarrow> metric list" where
  "observe_inflight trackers =
     map (\<lambda>t. metric_int ''inclusion_inflight'' (int (inflight_len (it_state t))) [(''chain_id'', it_seiChainID t)]) trackers"

subsection \<open>What a recording must look like\<close>

fun kind_fits :: "instrument_kind \<Rightarrow> metric_value \<Rightarrow> bool" where
  "kind_fits Int64Counter (MInt n) = True"
| "kind_fits Int64Gauge (MInt n) = True"
| "kind_fits (Int64Histogram bs) (MInt n) = True"
| "kind_fits Int64ObservableGauge (MInt n) = True"
| "kind_fits Float64Gauge (MFloat x) = True"
| "kind_fits (Float64Histogram bs) (MFloat x) = True"
| "kind_fits _ _ = False"

text \<open>The labels of each series: the same at every place that records it.\<close>

definition labels :: "(string \<times> string list) list" where
  "labels =
     [(''gas_used'', [''chain_id'']), (''block_number'', [''chain_id'']), (''block_time'', [''chain_id'']),
      (''run_tps_final'', []), (''run_duration'', []), (''run_txs_accepted_total'', []),
      (''run_txs_dropped_total'', [''arrival_model'']), (''run_txs_failed_total'', [''arrival_model'']),
      (''inclusion_latency'', [''chain_id'', ''scenario'', ''operation'']),
      (''inclusion_outcome'', [''chain_id'', ''scenario'', ''operation'', ''outcome'']),
      (''block_gaps'', [''chain_id'']), (''block_fetch_errors'', [''chain_id'']), (''run_inflight_at_shutdown'', []),
      (''inclusion_inflight'', [''chain_id'']),
      (''send_latency'', [''scenario'', ''operation'', ''chain_id'', ''status'']),
      (''txs_accepted'', [''scenario'', ''operation'']), (''txs_rejected'', [''scenario'', ''operation'', ''reason''])]"

definition well_recorded :: "metric \<Rightarrow> bool" where
  "well_recorded m \<longleftrightarrow>
     (case find (\<lambda>i. in_name i = m_name m) instruments of
        Some i \<Rightarrow> kind_fits (in_kind i) (m_val m) \<and> map_of labels (m_name m) = Some (map fst (m_attrs m))
      | None \<Rightarrow> False)"

lemmas metric_tables = instruments_def stats_instruments_def sender_instruments_def instrument_of_def labels_def

text \<open>One lemma per series.\<close>

lemma well_recorded_series [simp]:
  "well_recorded (metric_int ''gas_used'' n [(''chain_id'', c)])"
  "well_recorded (metric_int ''block_number'' n [(''chain_id'', c)])"
  "well_recorded (metric_float ''block_time'' x [(''chain_id'', c)])"
  "well_recorded (metric_float ''run_tps_final'' x [])"
  "well_recorded (metric_float ''run_duration'' x [])"
  "well_recorded (metric_int ''run_txs_accepted_total'' n [])"
  "well_recorded (metric_int ''run_txs_dropped_total'' n [(''arrival_model'', c)])"
  "well_recorded (metric_int ''run_txs_failed_total'' n [(''arrival_model'', c)])"
  "well_recorded (metric_float ''inclusion_latency'' x [(''chain_id'', c), (''scenario'', s), (''operation'', p)])"
  "well_recorded (metric_int ''inclusion_outcome'' n [(''chain_id'', c), (''scenario'', s), (''operation'', p), (''outcome'', o')])"
  "well_recorded (metric_int ''block_gaps'' n [(''chain_id'', c)])"
  "well_recorded (metric_int ''block_fetch_errors'' n [(''chain_id'', c)])"
  "well_recorded (metric_int ''run_inflight_at_shutdown'' n [])"
  "well_recorded (metric_int ''inclusion_inflight'' n [(''chain_id'', c)])"
  "well_recorded (metric_float ''send_latency'' x [(''scenario'', s), (''operation'', p), (''chain_id'', c), (''status'', o')])"
  "well_recorded (metric_int ''txs_accepted'' n [(''scenario'', s), (''operation'', p)])"
  "well_recorded (metric_int ''txs_rejected'' n [(''scenario'', s), (''operation'', p), (''reason'', c)])"
  by (simp_all add: well_recorded_def metric_int_def metric_float_def metric_tables)

lemma block_well_recorded: "\<forall>m \<in> set (snd (processNewBlock now hdr s)). well_recorded m"
  by (simp add: processNewBlock_def Let_def split: prod.split)

lemma outcome_well_recorded [simp]: "well_recorded (recordOutcome outc sc t)"
  by (simp add: recordOutcome_def)

lemma match_well_recorded: "matchBlock source num arrival t = (t', stamped, out) \<Longrightarrow> \<forall>m \<in> set out. well_recorded m"
  by (auto simp: matchBlock_def split: sum.splits prod.splits)

lemma head_well_recorded: "processHead source num arrival lastSeen t = (n, t', stamped, out) \<Longrightarrow> \<forall>m \<in> set out. well_recorded m"
  using match_well_recorded [of source num arrival t] by (auto simp: processHead_def Let_def split: if_splits prod.splits)

lemma send_well_recorded: "client_Send cfg clients io tx col = Ok (e, tx', col', out) \<Longrightarrow> \<forall>m \<in> set out. well_recorded m"
  by (auto simp: client_Send_def Let_def outcome_simps statusAttrFromError_def split: if_splits option.splits)

lemma tables_consistent:
  "distinct (map in_name instruments)" "set (map fst labels) = set (map in_name instruments)"
  "\<forall>i \<in> set instruments. case in_kind i of
     Int64Histogram bs \<Rightarrow> sorted_wrt (<) bs | Float64Histogram bs \<Rightarrow> sorted_wrt (<) bs | _ \<Rightarrow> True"
  by (auto simp: metric_tables)

end
