(* ===== verification/StatsProps.thy ===== *)
theory StatsProps
  imports PipelineProps Inclusion Report Metrics
begin

text \<open>
  The properties of what is measured: the inclusion tracker, the collector of transaction
  statistics and the collector of block statistics.
\<close>

subsection \<open>The inclusion tracker\<close>

text \<open>
  C6. Conservation, as the tracker documents it: after any sequence of registrations, heads and
  sweeps, included plus expired plus still in flight is the number of registrations admitted
  under a hash that was not in flight (all modulo \<open>2^64\<close>), and the registry is within its cap;
  the figures of the final summary add up in the same way.
\<close>

theorem inclusion_conservation:
  "let r = fold (run_op hash source) ops (run_start (NewInclusionTracker chain after cap ol));
       s = it_state (run_tracker r);
       sm = fst (Summary (run_tracker r))
   in included s + expired s + of_nat (inflight_len s) = run_registered r \<and>
      sum_Included sm + sum_Expired sm + sum_InflightAtShutdown sm = run_registered r \<and>
      int (inflight_len s) \<le> maxInflight (run_tracker r)"
proof -
  have "run_inv (fold (run_op hash source) ops (run_start (NewInclusionTracker chain after cap ol)))"
    by (rule runs_inv [OF run_inv_start]) simp_all
  then show ?thesis by (simp add: run_inv_def tally_def wf_inclusion_def Summary_def Let_def)
qed

text \<open>
  A second registration under a hash that is in flight overwrites the first: both are
  admitted, one of them is in no tally. The documented identity (registered equals included
  plus expired plus in flight) therefore needs hashes to be fresh.
\<close>

lemma duplicate_hash_leaves_the_tally:
  assumes "finite (dom (inflight (it_state t)))" "admits t" "inflight (it_state t) (hash (lt_tx tx)) \<noteq> None"
  shows "tally (it_state (fst (Register hash now tx t))) = tally (it_state t) \<and>
    inflight (it_state (fst (Register hash now tx t))) (hash (lt_tx tx)) = Some \<lparr>e_tx = tx, e_registeredAt = now\<rparr>"
  using assms Register_tally [OF assms(1), of hash now tx] by (auto simp: Register_def Let_def admits_def)

definition sample_tracker :: inclusion_tracker where
  "sample_tracker = fst (Register (\<lambda>tx. unat (et_nonce tx)) 10 (sample_tx 7 0 21000) (NewInclusionTracker ''sei'' 0 2 False))"

lemma sample_tracker_sel:
  "maxInflight sample_tracker = 2" "openLoop sample_tracker = False" "reapAfter sample_tracker = 30000000000"
  "it_seiChainID sample_tracker = ''sei''"
  "it_state sample_tracker = \<lparr>inflight = [0 \<mapsto> \<lparr>e_tx = sample_tx 7 0 21000, e_registeredAt = 10\<rparr>],
     included = 0, expired = 0, droppedAtCap = 0, inflightAtShutdown = 0\<rparr>"
  by (simp_all add: sample_tracker_def Register_def NewInclusionTracker_def Let_def inflight_len_def
      defaultInclusionReapAfter_def)

lemma duplicate_hash_leaves_the_tally_sample:
  "tally (it_state (fst (Register (\<lambda>tx. unat (et_nonce tx)) 20 (sample_tx 8 0 30000) sample_tracker))) = 1"
proof -
  have "tally (it_state sample_tracker) = 1" by (simp add: sample_tracker_sel tally_def inflight_len_def)
  then show ?thesis
    using duplicate_hash_leaves_the_tally [of sample_tracker "\<lambda>tx. unat (et_nonce tx)" "sample_tx 8 0 30000" 20]
    by (simp add: sample_tracker_sel admits_def inflight_len_def)
qed

text \<open>
  C19. A matched block takes exactly its own transactions out of the registry, stamps each of
  them once with the arrival time, and counts them; a hash the block repeats counts once.
\<close>

theorem block_match_exact:
  assumes "wf_inclusion t" "source num = Inr hs" "matchBlock source num arrival t = (t', stamped, out)"
  shows "inflight (it_state t') = (\<lambda>h. if h \<in> set hs then None else inflight (it_state t) h) \<and>
    set stamped = {(e_tx e)\<lparr>lt_inclusion := arrival\<rparr> | e h. h \<in> set hs \<and> inflight (it_state t) h = Some e} \<and>
    length stamped = card (set hs \<inter> dom (inflight (it_state t))) \<and>
    included (it_state t') = included (it_state t) + of_nat (length stamped) \<and>
    (\<not> openLoop t \<longrightarrow> out = [])"
proof -
  obtain s st sm where m: "match_loop (openLoop t) arrival hs (it_state t) = (s, st, sm)"
    by (metis prod_cases3)
  have fin: "finite (dom (inflight (it_state t)))" using assms(1) by (simp add: wf_inclusion_def)
  have r: "it_state t' = s" "stamped = st" "out = [] \<longleftrightarrow> sm = []"
    using assms(2,3) m by (auto simp: matchBlock_def)
  have quiet: "snd (snd (match_loop False a hs s)) = []" for a s
    by (induction False a hs s rule: match_loop.induct) (auto simp: Let_def split: option.split prod.split)
  have "\<not> openLoop t \<Longrightarrow> sm = []" using quiet [of arrival "it_state t"] m by simp
  then show ?thesis
    using match_loop_stamped [OF fin, of "openLoop t" arrival hs]
      match_loop_inflight [of "openLoop t" arrival hs "it_state t"] by (simp add: m r)
qed

theorem block_match_exact_witness:
  "\<exists>t' stamped out. matchBlock (\<lambda>n. Inr [0, 5, 0]) 3 77 sample_tracker = (t', stamped, out) \<and>
     stamped = [(sample_tx 7 0 21000)\<lparr>lt_inclusion := 77\<rparr>] \<and> included (it_state t') = 1 \<and> out = []"
proof -
  have wf: "wf_inclusion sample_tracker"
    by (simp add: wf_inclusion_def sample_tracker_sel inflight_len_def)
  obtain t' st out where m: "matchBlock (\<lambda>n. Inr [0, 5, 0]) 3 77 sample_tracker = (t', st, out)"
    by (metis prod_cases3)
  from block_match_exact [OF wf _ m, of "[0, 5, 0]"]
  have r: "length st = card ({0, 5} \<inter> {0 :: nat})" "set st = {(sample_tx 7 0 21000)\<lparr>lt_inclusion := 77\<rparr>}"
    "included (it_state t') = of_nat (length st)" "out = []"
    by (auto simp: sample_tracker_sel split: if_splits)
  then have "length st = 1" by simp
  then show ?thesis using r m by (cases st) auto
qed

text \<open>
  C38. Every height is fetched at most once and in increasing order: duplicate and late heads
  are passed over (a chain does not announce height 0).
\<close>

theorem heads_strictly_increase:
  assumes "\<forall>num arrival. OpHead num arrival \<in> set ops \<longrightarrow> num \<noteq> 0"
  shows "sorted_wrt (<) (run_matched (fold (run_op hash source) ops (run_start t)))"
proof -
  have "heads_inv (fold (run_op hash source) ops r)"
    if "heads_inv r" "\<forall>num arrival. OpHead num arrival \<in> set ops \<longrightarrow> num \<noteq> 0" for r
    using that
  proof (induction ops arbitrary: r)
    case (Cons op ops)
    have "heads_inv (run_op hash source op r)"
      by (rule heads_inv_op) (use Cons.prems in auto)
    moreover have "\<forall>num arrival. OpHead num arrival \<in> set ops \<longrightarrow> num \<noteq> 0" using Cons.prems(2) by simp
    ultimately show ?case using Cons.IH [of "run_op hash source op r"] by simp
  qed simp
  moreover have "heads_inv (run_start t)" by (simp add: heads_inv_def run_start_def)
  ultimately show ?thesis using assms by (simp add: heads_inv_def)
qed

theorem heads_strictly_increase_witness:
  "sorted_wrt (<) (run_matched (fold (run_op (\<lambda>tx. 0) (\<lambda>n. Inr [])) [OpHead 4 1, OpHead 4 2, OpHead 9 3, OpHead 7 4]
     (run_start sample_tracker)))"
  by (rule heads_strictly_increase) auto

subsection \<open>The collector\<close>

text \<open>
  C20. After any transactions recorded on a fresh collector the total is their number, the count
  of a scenario is the number recorded for it, the counts sum up to the total, and the latency
  history is that of the last 10000 successes. Failed transactions count in the total as well.
\<close>

theorem collector_totals:
  "let c = run_events es (NewCollector n1 n2 n3)
   in totalTxs c = of_nat (length es) \<and>
      (\<forall>s. count_of c s = of_nat (length (filter (\<lambda>e. ev_scenario e = s) es))) \<and>
      totalTxs c = (\<Sum>s \<in> dom (txCounts c). count_of c s) \<and>
      latencies c = last_n 10000 (map ev_latency (filter ev_success es))"
proof -
  let ?c = "NewCollector n1 n2 n3"
  have z: "totalTxs ?c = 0" "count_of ?c s = 0" "latencies ?c = []" "maxLatencyHistory ?c = 10000" for s
    by (simp_all add: NewCollector_def count_of_def)
  have "counts_ok (run_events es ?c)" by (rule counts_ok_events) simp
  then have "totalTxs (run_events es ?c) = (\<Sum>s \<in> dom (txCounts (run_events es ?c)). count_of (run_events es ?c) s)"
    unfolding counts_ok_def by (rule conjunct2)
  then show ?thesis
    using totalTxs_events [of es ?c] count_of_events [of es ?c] latencies_events [of ?c "[]" es]
    unfolding Let_def z by simp
qed

text \<open>
  C37. The ten-second window is exact: with readings of the clock that do not go back, it holds
  the times of the transactions recorded in the last ten seconds before the latest one.
\<close>

theorem tps_window_exact:
  assumes "sorted (map ev_now1 es)" "es \<noteq> []"
  shows "timestamps (tpsWindow (run_events es (NewCollector n1 n2 n3))) =
    filter (\<lambda>t. ev_now1 (last es) - 10 * second < t) (map ev_now1 es)"
  using events_tps [OF _ assms, of "NewCollector n1 n2 n3"] by (simp add: recent_def NewCollector_def)

definition sample_event :: "instant \<Rightarrow> duration \<Rightarrow> event" where
  "sample_event now lat = \<lparr>ev_now1 = now, ev_now2 = now, ev_scenario = ''a'', ev_latency = lat, ev_success = True\<rparr>"

theorem tps_window_exact_witness:
  "timestamps (tpsWindow (run_events [sample_event 1 5, sample_event 5000000000 5, sample_event 11000000000 5]
     (NewCollector 0 0 0))) = [5000000000, 11000000000]"
  by (subst tps_window_exact) (simp_all add: sample_event_def)

text \<open>
  The window's minimum latency forgets a latency of 0: the code takes 0 for "not set", so
  a later, larger latency replaces it and the minimum reported is too large.
\<close>

lemma min_latency_forgets_zero:
  "let c = run_events [sample_event 1 5, sample_event 2 0, sample_event 3 7] (NewCollector 0 0 0)
   in minLatency (windowStats c) = 7 \<and> Min {5, 0, 7 :: int} = 0"
  by (simp add: run_events_def do_event_window sample_event_def NewCollector_def empty_window_def Let_def)

text \<open>
  A report never panics and reads the collector faithfully: the totals and counts, and for
  the latencies the entries of their rank in sorted order, at most the 99th above the 50th.
\<close>

lemma get_stats_faithful:
  assumes "coll_bounded c"
  shows "\<exists>st. GetStats now c = Ok st \<and> TotalTxs st = totalTxs c \<and> TxCounts st = txCounts c \<and>
    (latencies c \<noteq> [] \<longrightarrow>
       P50Latency (TransactionStats st) = sort (latencies c) ! rank_of (length (latencies c)) 50 \<and>
       P99Latency (TransactionStats st) = sort (latencies c) ! rank_of (length (latencies c)) 99 \<and>
       P50Latency (TransactionStats st) \<le> P99Latency (TransactionStats st))"
proof -
  have le: "sort (latencies c) ! rank_of (length (latencies c)) 50 \<le> sort (latencies c) ! rank_of (length (latencies c)) 99"
    if "latencies c \<noteq> []"
    using that by (intro sorted_rank_le rank_mono) (auto simp: rank_less)
  show ?thesis using GetStats_ok [OF assms, of now] le by metis
qed

lemma get_stats_faithful_sample:
  "\<exists>st. GetStats 9 (run_events [sample_event 1 5] (NewCollector 0 0 0)) = Ok st \<and> TotalTxs st = 1"
proof -
  have "coll_bounded (run_events [sample_event 1 5] (NewCollector 0 0 0))"
    by (simp add: coll_bounded_event)
  from get_stats_faithful [OF this, of 9] show ?thesis
    using totalTxs_events [of "[sample_event 1 5]" "NewCollector 0 0 0"]
    by (auto simp: NewCollector_def)
qed

subsection \<open>Block statistics\<close>

text \<open>
  The collected histories are the last 1000 entries of the complete record of the blocks
  seen: the gas of every block, the times between consecutive arrivals, the highest number.
\<close>

lemma block_histories:
  "let s = observe seen (NewBlockCollector chain)
   in allGasUsed s = last_n 1000 (map (h_gas_used \<circ> snd) seen) \<and>
      allBlockTimes s = last_n 1000 (gaps 0 (map fst seen)) \<and>
      windowGasUsed s = allGasUsed s \<and> windowBlockTimes s = allBlockTimes s \<and>
      maxBlockNum s = fold max (map (h_number \<circ> snd) seen) 0"
  using observe_histories [of seen "NewBlockCollector chain"]
  by (simp add: Let_def NewBlockCollector_def split: if_splits)

text \<open>
  Block statistics are total and ordered: on any bounded collector the cumulative report
  exists, its median is at most its 99th percentile, which is at most the maximum, and the
  maximum is the greatest time in the history.
\<close>

lemma block_stats_ordered:
  assumes "bc_bounded s" "allBlockTimes s \<noteq> []"
  shows "\<exists>st. GetBlockStats s = Ok st \<and> P50BlockTime st \<le> P99BlockTime st \<and> P99BlockTime st \<le> MaxBlockTime st \<and>
    MaxBlockTime st \<in> set (allBlockTimes s) \<and> (\<forall>x \<in> set (allBlockTimes s). x \<le> MaxBlockTime st)"
  using stats_of_ok [of "allBlockTimes s" "allGasUsed s" "maxBlockNum s"] assms ranked_times_order
  by (auto simp: GetBlockStats_def bc_bounded_def)

lemma block_stats_ordered_sample:
  "\<exists>st. GetBlockStats (observe [(5, \<lparr>h_number = 1, h_gas_used = 7\<rparr>), (9, \<lparr>h_number = 2, h_gas_used = 8\<rparr>)]
      (NewBlockCollector ''sei'')) = Ok st \<and> MaxBlockTime st = 4"
proof -
  let ?s = "observe [(5, \<lparr>h_number = 1, h_gas_used = 7\<rparr>), (9, \<lparr>h_number = 2, h_gas_used = 8\<rparr>)] (NewBlockCollector ''sei'')"
  have t: "allBlockTimes ?s = [4]"
    using observe_histories [of "[(5, \<lparr>h_number = 1, h_gas_used = 7\<rparr>), (9, \<lparr>h_number = 2, h_gas_used = 8\<rparr>)]" "NewBlockCollector ''sei''"]
    by (simp add: NewBlockCollector_def is_zero_time_def time_sub_def last_n_def)
  have b: "bc_bounded ?s" by (simp add: observe_def bc_bounded_process)
  from block_stats_ordered [OF b] t show ?thesis by auto
qed

text \<open>
  Reporting periods do not disturb the cumulative statistics, for the collector and for its
  mock alike.
\<close>

lemma reset_keeps_cumulative:
  "GetBlockStats (fold bc_ResetWindowStats nows s) = GetBlockStats s \<and>
   mock_GetBlockStats (fold (\<lambda>now. mock_ResetWindowStats) nows m) = mock_GetBlockStats m"
proof
  show "GetBlockStats (fold bc_ResetWindowStats nows s) = GetBlockStats s"
    by (induction nows arbitrary: s) (simp_all add: bc_ResetWindowStats_def GetBlockStats_def)
  show "mock_GetBlockStats (fold (\<lambda>now. mock_ResetWindowStats) nows m) = mock_GetBlockStats m"
    using mock.periods_total [of nows m] by simp
qed


subsection \<open>The final report\<close>

text \<open>
  C21. The final report says what was recorded: whatever the logger interleaved with it, ticks, resets of
  the windows or blocks, it does not panic with a positive interval, and the report prints for every
  scenario the number of its transactions and their share of the total, however Go walks the map. The
  counts printed add up to the number of transactions, and every share printed is within a
  twentieth of a percent.
\<close>

theorem final_report_faithful:
  assumes "0 < lg_interval l" "Logger_Run l evs (fresh_collector n1 n2 n3 chain) = (r, c, printed)"
    "recorded evs \<noteq> []" "length (recorded evs) < 2 ^ 64"
    "\<And>i. distinct (order i) \<and> set (order i) = ev_scenario ` set (recorded evs)"
  shows "let n = occurrences (recorded evs); k = length (recorded evs)
    in (r = None \<or> (\<exists>e. r = Some (Err e))) \<and>
       (\<exists>out pre post. LogFinalStats l n4 n5 order create_err write_err c = Ok out \<and>
          fo_stdout out = pre @ concat (map (\<lambda>s. share_line (n s) k s) (order 1)) @ post) \<and>
       (\<Sum>s \<leftarrow> order 1. n s) = k \<and>
       (\<forall>s. \<bar>of_nat (printed_units (fixed_text 1 (of_nat (n s) / of_nat k * 100))) / 10 - of_nat (n s) / of_nat k * 100\<bar>
          \<le> (1 / 20 :: rat))"
proof -
  let ?n = "occurrences (recorded evs)" and ?k = "length (recorded evs)"
  have "logger_loop l evs (fresh_collector n1 n2 n3 chain) [] = (r, c, printed)"
    using assms(1,2) by (simp add: Logger_Run_def)
  from logger_loop_counts [OF _ this]
  have c: "coll_bounded c" "totalTxs c = of_nat ?k" "dom (txCounts c) = set (order 1)" "\<And>s. count_of c s = of_nat (?n s)"
    and r: "r = None \<or> (\<exists>e. r = Some (Err e))"
    using assms(5) by simp_all
  have le: "?n s \<le> ?k" for s by (simp add: occurrences_def)
  have counts: "unat (the (txCounts c s)) = ?n s" if s: "s \<in> set (order 1)" for s
  proof -
    from s c(3) obtain m where m: "txCounts c s = Some m" by (metis domD)
    then have "m = of_nat (?n s)" using c(4) [of s] by (simp add: count_of_def)
    then show ?thesis using m le [of s] assms(4) by (simp add: unat_of_nat_u64)
  qed
  have k: "unat (totalTxs c) = ?k" "0 < ?k" using c(2) assms(3,4) by (simp_all add: unat_of_nat_u64)
  obtain fs where fs: "BuildFinalStats n4 n5 c = Ok fs" "lts_TotalTxs (fs_LoadTestStatistics fs) = totalTxs c"
    "fs_ScenarioDistribution fs = txCounts c"
    using BuildFinalStats_ok [OF c(1), of n4 n5] by (elim exE conjE)
  obtain out where out: "LogFinalStats l n4 n5 order create_err write_err c = Ok out"
    "fo_stdout out = FinalStats_String (order 0) (order 1) fs"
    by (cases "lg_reportPath l = ''''"; cases create_err; cases write_err) (auto simp: LogFinalStats_def fs(1) Let_def)
  have "share_lines (fs_ScenarioDistribution fs) (lts_TotalTxs (fs_LoadTestStatistics fs)) (order 1) =
      concat (map (\<lambda>s. share_line (?n s) ?k s) (order 1))"
    unfolding fs(2,3) by (rule share_lines_exact [OF k counts])
  then have "\<exists>pre post. fo_stdout out = pre @ concat (map (\<lambda>s. share_line (?n s) ?k s) (order 1)) @ post"
    unfolding out(2) by (rule FinalStats_String_shares)
  then show ?thesis
    using out(1) r sum_occurrences [of "order 1" "recorded evs"] assms(5) share_printed by (auto simp: Let_def)
qed

theorem final_report_faithful_witness:
  "\<exists>out pre post. LogFinalStats (NewLogger second '''' False) 8 9 (\<lambda>i. [''EVMTransfer'']) None None
       (do_event \<lparr>ev_now1 = 5, ev_now2 = 6, ev_scenario = ''EVMTransfer'', ev_latency = 3, ev_success = True\<rparr>
         (fresh_collector 1 2 3 None)) = Ok out \<and>
     fo_stdout out = pre @ share_line 1 1 ''EVMTransfer'' @ post"
proof -
  let ?e = "\<lparr>ev_now1 = 5, ev_now2 = 6, ev_scenario = ''EVMTransfer'', ev_latency = 3, ev_success = True\<rparr>"
  have "Logger_Run (NewLogger second '''' False) [Recorded ?e] (fresh_collector 1 2 3 None) =
      (None, do_event ?e (fresh_collector 1 2 3 None), [])"
    by (simp add: Logger_Run_def NewLogger_def)
  from final_report_faithful [OF _ this, of "\<lambda>i. [''EVMTransfer'']" 8 9 None None] show ?thesis
    by (simp add: NewLogger_def occurrences_def)
qed

subsection \<open>The metrics\<close>



end
