(* ===== verification/Writer.thy ===== *)
theory Writer
  imports Types
begin

text \<open>
  \<open>TxsWriter\<close> (\<open>sender/writer.go\<close>): the sender that packs transactions into blocks by gas and
  writes one file per block. The directory is a map from heights to payload lists (the file
  name is the height); what the file system and the encoders answer is an argument.
\<close>

subsection \<open>State and operations\<close>

type_synonym payload = nat

record txs_writer =
  txsDir :: string
  gasPerBlock :: u64
  numBlocks :: u64
  nextHeight :: u64
  blocksGenerated :: u64
  bufferGas :: u64
  txBuffer :: "load_tx list"
  w_nonces :: "address \<rightharpoonup> u64"

type_synonym txs_files = "u64 \<rightharpoonup> payload list"

record flush_io =
  fi_mkdir :: "go_error option"
  fi_marshal :: "eth_tx \<Rightarrow> go_error + payload"
  fi_json :: "go_error option"
  fi_write :: "go_error option"

definition NewTxsWriter :: "u64 \<Rightarrow> string \<Rightarrow> u64 \<Rightarrow> u64 \<Rightarrow> txs_writer" where
  "NewTxsWriter gas dir startHeight num =
     \<lparr>txsDir = dir, gasPerBlock = gas, numBlocks = num, nextHeight = startHeight, blocksGenerated = 0,
      bufferGas = 0, txBuffer = [], w_nonces = Map.empty\<rparr>"

fun marshal_all :: "(eth_tx \<Rightarrow> go_error + payload) \<Rightarrow> load_tx list \<Rightarrow> payload list \<Rightarrow> go_error + payload list" where
  "marshal_all m [] acc = Inr acc"
| "marshal_all m (tx # txs) acc =
     (case m (lt_tx tx) of
        Inl e \<Rightarrow> Inl (Wrap ''tx.EthTx.MarshalBinary()'' e)
      | Inr p \<Rightarrow> marshal_all m txs (acc @ [p]))"

text \<open>The deferred function of \<open>flush\<close>: it runs on every way out.\<close>

definition flush_deferred :: "txs_writer \<Rightarrow> txs_writer" where
  "flush_deferred w = w\<lparr>txBuffer := [], bufferGas := 0, nextHeight := nextHeight w + 1,
     blocksGenerated := blocksGenerated w + 1\<rparr>"

definition flush :: "flush_io \<Rightarrow> txs_writer \<Rightarrow> txs_files \<Rightarrow> go_error option \<times> txs_writer \<times> txs_files" where
  "flush io w files =
     (let (err, files) =
        (case fi_mkdir io of
           Some e \<Rightarrow> (Some e, files)
         | None \<Rightarrow>
             (case marshal_all (fi_marshal io) (txBuffer w) [] of
                Inl e \<Rightarrow> (Some e, files)
              | Inr payloads \<Rightarrow>
                  (case fi_json io of
                     Some e \<Rightarrow> (Some e, files)
                   | None \<Rightarrow>
                       (case fi_write io of
                          Some e \<Rightarrow> (Some e, files)
                        | None \<Rightarrow>
                            (if numBlocks w \<le> blocksGenerated w
                             then Some (Errorf ''reached max number of blocks'') else None,
                             files(nextHeight w \<mapsto> payloads))))))
      in (err, flush_deferred w, files))"

definition writer_Flush :: "flush_io \<Rightarrow> txs_writer \<Rightarrow> txs_files \<Rightarrow> go_error option \<times> txs_writer \<times> txs_files" where
  "writer_Flush io w files = flush io w files"

text \<open>The rest of \<open>Send\<close> once the block has room.\<close>

definition buffer_tx :: "load_tx \<Rightarrow> txs_writer \<Rightarrow> txs_writer" where
  "buffer_tx tx w =
     (let w = w\<lparr>txBuffer := txBuffer w @ [tx], bufferGas := bufferGas w + et_gas (lt_tx tx)\<rparr>
      in if tracked_of tx
         then w\<lparr>w_nonces := (w_nonces w)(sender_of tx \<mapsto>
                (case w_nonces w (sender_of tx) of Some n \<Rightarrow> n + 1 | None \<Rightarrow> 1))\<rparr>
         else w)"

definition writer_Send ::
  "flush_io \<Rightarrow> load_tx \<Rightarrow> txs_writer \<Rightarrow> txs_files \<Rightarrow> go_error option \<times> txs_writer \<times> txs_files" where
  "writer_Send io tx w files =
     (if gasPerBlock w < bufferGas w + et_gas (lt_tx tx) then
        (case flush io w files of
           (Some e, w', files') \<Rightarrow> (Some e, w', files')
         | (None, w', files') \<Rightarrow> (None, buffer_tx tx w', files'))
      else (None, buffer_tx tx w, files))"

definition writer_Nonce :: "account \<Rightarrow> txs_writer \<Rightarrow> u64" where
  "writer_Nonce acc w = (case w_nonces w (acc_address acc) of Some n \<Rightarrow> n | None \<Rightarrow> 0)"

subsection \<open>Packing, as a specification\<close>

text \<open>
  Greedy packing: a transaction joins the open block if the gas fits, else it opens the next
  one. The gas arithmetic is over the naturals, so a block never exceeds its gas unless one
  transaction alone does.
\<close>

definition gas_of :: "load_tx \<Rightarrow> nat" where
  "gas_of tx = unat (et_gas (lt_tx tx))"

definition block_gas :: "load_tx list \<Rightarrow> nat" where
  "block_gas txs = sum_list (map gas_of txs)"

fun pack :: "nat \<Rightarrow> load_tx list list \<Rightarrow> load_tx list \<Rightarrow> load_tx list \<Rightarrow> load_tx list list \<times> load_tx list" where
  "pack limit full cur [] = (full, cur)"
| "pack limit full cur (tx # txs) =
     (if limit < block_gas cur + gas_of tx then pack limit (full @ [cur]) [tx] txs
      else pack limit full (cur @ [tx]) txs)"

lemma pack_concat: "pack limit full cur txs = (full', cur') \<Longrightarrow> concat full' @ cur' = concat full @ cur @ txs"
  by (induction limit full cur txs rule: pack.induct) (auto split: if_splits)

definition fits :: "nat \<Rightarrow> load_tx list \<Rightarrow> bool" where
  "fits limit b \<longleftrightarrow> block_gas b \<le> limit \<or> length b = 1"

lemma pack_fits:
  "pack limit full cur txs = (full', cur') \<Longrightarrow> \<forall>b \<in> set full. fits limit b \<Longrightarrow> fits limit cur \<Longrightarrow>
     (\<forall>b \<in> set full'. fits limit b) \<and> fits limit cur'"
  by (induction limit full cur txs rule: pack.induct)
    (auto simp: fits_def block_gas_def split: if_splits)

subsection \<open>The writer against the specification\<close>

definition io_ok :: "flush_io \<Rightarrow> bool" where
  "io_ok io \<longleftrightarrow> fi_mkdir io = None \<and> fi_json io = None \<and> fi_write io = None \<and>
     (\<forall>tx. \<exists>p. fi_marshal io tx = Inr p)"

definition payload_of :: "flush_io \<Rightarrow> load_tx \<Rightarrow> payload" where
  "payload_of io tx = (case fi_marshal io (lt_tx tx) of Inr p \<Rightarrow> p | Inl e \<Rightarrow> 0)"

lemma marshal_all_ok: "\<forall>tx. \<exists>p. fi_marshal io tx = Inr p \<Longrightarrow>
    marshal_all (fi_marshal io) txs acc = Inr (acc @ map (payload_of io) txs)"
proof (induction txs arbitrary: acc)
  case (Cons tx txs)
  obtain p where "fi_marshal io (lt_tx tx) = Inr p" using Cons.prems by blast
  with Cons show ?case by (simp add: payload_of_def)
qed simp

lemma flush_ok:
  "io_ok io \<Longrightarrow> flush io w files =
     (if numBlocks w \<le> blocksGenerated w then Some (Errorf ''reached max number of blocks'') else None,
      flush_deferred w, files(nextHeight w \<mapsto> map (payload_of io) (txBuffer w)))"
  by (simp add: flush_def io_ok_def marshal_all_ok)

lemma flush_deferred_sel [simp]:
  "txBuffer (flush_deferred w) = []" "bufferGas (flush_deferred w) = 0"
  "nextHeight (flush_deferred w) = nextHeight w + 1" "blocksGenerated (flush_deferred w) = blocksGenerated w + 1"
  "numBlocks (flush_deferred w) = numBlocks w" "gasPerBlock (flush_deferred w) = gasPerBlock w"
  "w_nonces (flush_deferred w) = w_nonces w"
  by (simp_all add: flush_deferred_def)

lemma flush_writer: "fst (snd (flush io w files)) = flush_deferred w"
  by (simp add: flush_def split: prod.split)

lemma buffer_tx_sel [simp]:
  "txBuffer (buffer_tx tx w) = txBuffer w @ [tx]" "bufferGas (buffer_tx tx w) = bufferGas w + et_gas (lt_tx tx)"
  "nextHeight (buffer_tx tx w) = nextHeight w" "blocksGenerated (buffer_tx tx w) = blocksGenerated w"
  "numBlocks (buffer_tx tx w) = numBlocks w" "gasPerBlock (buffer_tx tx w) = gasPerBlock w"
  by (simp_all add: buffer_tx_def Let_def)

lemma buffer_tx_Nonce:
  "writer_Nonce acc (buffer_tx tx w) =
     writer_Nonce acc w + (if tracked_of tx \<and> sender_of tx = acc_address acc then 1 else 0)"
  by (auto simp: buffer_tx_def Let_def writer_Nonce_def split: option.split)

text \<open>Sending a list of transactions; it stops at the first error.\<close>

fun send_all :: "flush_io \<Rightarrow> load_tx list \<Rightarrow> txs_writer \<Rightarrow> txs_files \<Rightarrow> go_error option \<times> txs_writer \<times> txs_files" where
  "send_all io [] w files = (None, w, files)"
| "send_all io (tx # txs) w files =
     (case writer_Send io tx w files of
        (Some e, w', files') \<Rightarrow> (Some e, w', files')
      | (None, w', files') \<Rightarrow> send_all io txs w' files')"

text \<open>No gas sum wraps: every transaction and a full block together stay below \<open>2^64\<close>.\<close>

definition gas_bounded :: "u64 \<Rightarrow> load_tx list \<Rightarrow> bool" where
  "gas_bounded limit txs \<longleftrightarrow> (\<forall>tx \<in> set txs. \<forall>tx' \<in> set txs. gas_of tx + gas_of tx' < 2 ^ 64 \<and> unat limit + gas_of tx < 2 ^ 64)"

text \<open>The files from \<open>start\<close> on hold the packed blocks \<open>bs\<close>.\<close>

definition stored :: "flush_io \<Rightarrow> u64 \<Rightarrow> load_tx list list \<Rightarrow> txs_files \<Rightarrow> bool" where
  "stored io start bs files \<longleftrightarrow>
     (\<forall>i < length bs. files (start + of_nat i) = Some (map (payload_of io) (bs ! i)))"

definition writer_abs ::
  "flush_io \<Rightarrow> u64 \<Rightarrow> load_tx list list \<Rightarrow> load_tx list \<Rightarrow> txs_writer \<Rightarrow> txs_files \<Rightarrow> bool" where
  "writer_abs io start bs cur w files \<longleftrightarrow>
     stored io start bs files \<and> txBuffer w = cur \<and> bufferGas w = of_nat (block_gas cur) \<and>
     nextHeight w = start + of_nat (length bs) \<and> blocksGenerated w = of_nat (length bs) \<and>
     fits (unat (gasPerBlock w)) cur"

lemma stored_snoc:
  assumes "stored io start bs files" "length bs < 2 ^ 64"
  shows "stored io start (bs @ [b]) (files(start + of_nat (length bs) \<mapsto> map (payload_of io) b))"
proof -
  have "start + of_nat i \<noteq> start + of_nat (length bs)" if "i < length bs" for i
  proof -
    have "unat (of_nat i :: u64) \<noteq> unat (of_nat (length bs) :: u64)"
      using that assms(2) by (simp add: unat_of_nat take_bit_eq_mod)
    then show ?thesis by auto
  qed
  then show ?thesis using assms(1) by (auto simp: stored_def nth_append less_Suc_eq)
qed

lemma writer_Send_abs:
  assumes abs: "writer_abs io start bs cur w files" and io: "io_ok io"
    and gas: "block_gas cur + gas_of tx < 2 ^ 64" and len: "unat (gasPerBlock w) < block_gas cur + gas_of tx \<Longrightarrow> length bs < unat (numBlocks w)"
  shows "\<exists>w' files'. writer_Send io tx w files = (None, w', files') \<and> numBlocks w' = numBlocks w \<and>
    gasPerBlock w' = gasPerBlock w \<and>
    (if unat (gasPerBlock w) < block_gas cur + gas_of tx
     then writer_abs io start (bs @ [cur]) [tx] w' files'
     else writer_abs io start bs (cur @ [tx]) w' files')"
proof -
  have bg: "unat (bufferGas w) = block_gas cur"
    using abs gas by (simp add: writer_abs_def unat_of_nat take_bit_eq_mod)
  have sum: "unat (bufferGas w + et_gas (lt_tx tx)) = block_gas cur + gas_of tx"
    using unat_add_small [of "bufferGas w" "et_gas (lt_tx tx)"] gas by (simp add: bg gas_of_def)
  have tx1: "of_nat (gas_of tx) = et_gas (lt_tx tx)" by (simp add: gas_of_def)
  show ?thesis
  proof (cases "unat (gasPerBlock w) < block_gas cur + gas_of tx")
    case True
    have l64: "length bs < 2 ^ 64" using len [OF True] unat_less_u64 [of "numBlocks w"] by linarith
    have room: "\<not> numBlocks w \<le> blocksGenerated w"
      using abs len [OF True] l64 by (simp add: writer_abs_def word_le_nat_alt unat_of_nat take_bit_eq_mod)
    have cond: "gasPerBlock w < bufferGas w + et_gas (lt_tx tx)"
      using sum True by (simp add: word_less_nat_alt)
    have st: "stored io start (bs @ [cur]) (files(nextHeight w \<mapsto> map (payload_of io) (txBuffer w)))"
      using stored_snoc [of io start bs files cur] abs l64 by (simp add: writer_abs_def)
    have "fits n [tx]" for n by (simp add: fits_def)
    then show ?thesis
      using True cond room st abs tx1
      by (auto simp: writer_Send_def flush_ok [OF io] writer_abs_def block_gas_def add.assoc)
  next
    case False
    then have cond: "\<not> gasPerBlock w < bufferGas w + et_gas (lt_tx tx)"
      using sum by (simp add: word_less_nat_alt)
    have "fits (unat (gasPerBlock w)) (cur @ [tx])" using False by (simp add: fits_def block_gas_def)
    then show ?thesis
      using False cond abs tx1 by (auto simp: writer_Send_def writer_abs_def block_gas_def)
  qed
qed

lemma fits_bound:
  assumes "fits (unat limit) cur" "set cur \<subseteq> set all" "tx \<in> set all" "gas_bounded limit all"
  shows "block_gas cur + gas_of tx < 2 ^ 64"
  using assms(1) unfolding fits_def
proof
  assume "block_gas cur \<le> unat limit"
  moreover have "unat limit + gas_of tx < 2 ^ 64" using assms(3,4) by (auto simp: gas_bounded_def)
  ultimately show ?thesis by linarith
next
  assume "length cur = 1"
  then obtain t where t: "cur = [t]" by (metis One_nat_def length_0_conv length_Suc_conv)
  then have "t \<in> set all" using assms(2) by simp
  then have "gas_of t + gas_of tx < 2 ^ 64" using assms(3,4) unfolding gas_bounded_def by blast
  then show ?thesis by (simp add: t block_gas_def)
qed

lemma pack_length: "length (fst (pack limit full cur txs)) \<ge> length full"
  by (induction limit full cur txs rule: pack.induct) auto

text \<open>
  As long as the specification opens no more than \<open>numBlocks\<close> blocks, the writer is the
  specification: its files are the full blocks and its buffer is the open one.
\<close>

lemma send_all_abs:
  assumes "writer_abs io start bs cur w files" "io_ok io" "gas_bounded (gasPerBlock w) all"
    "set cur \<subseteq> set all" "set txs \<subseteq> set all"
    "pack (unat (gasPerBlock w)) bs cur txs = (bs', cur')" "length bs' \<le> unat (numBlocks w)"
  shows "\<exists>w' files'. send_all io txs w files = (None, w', files') \<and> writer_abs io start bs' cur' w' files'"
  using assms
proof (induction txs arbitrary: bs cur w files)
  case (Cons tx txs)
  let ?big = "unat (gasPerBlock w) < block_gas cur + gas_of tx"
  have tx: "tx \<in> set all" using Cons.prems(5) by simp
  have fit: "fits (unat (gasPerBlock w)) cur" using Cons.prems(1) by (simp add: writer_abs_def)
  note gas = fits_bound [OF fit Cons.prems(4) tx Cons.prems(3)]
  show ?case
  proof (cases ?big)
    case True
    then have p: "pack (unat (gasPerBlock w)) (bs @ [cur]) [tx] txs = (bs', cur')" using Cons.prems(6) by simp
    then have "length bs < length bs'"
      using pack_length [of "bs @ [cur]" "unat (gasPerBlock w)" "[tx]" txs] by simp
    then have len: "length bs < unat (numBlocks w)" using Cons.prems(7) by simp
    from writer_Send_abs [OF Cons.prems(1,2) gas len] True obtain w' files' where
      w': "writer_Send io tx w files = (None, w', files')" "numBlocks w' = numBlocks w"
      "gasPerBlock w' = gasPerBlock w" "writer_abs io start (bs @ [cur]) [tx] w' files'" by auto
    then show ?thesis
      using Cons.IH [of "bs @ [cur]" "[tx]" w' files'] Cons.prems p tx by simp
  next
    case False
    then have p: "pack (unat (gasPerBlock w)) bs (cur @ [tx]) txs = (bs', cur')" using Cons.prems(6) by simp
    from writer_Send_abs [OF Cons.prems(1,2) gas] False obtain w' files' where
      w': "writer_Send io tx w files = (None, w', files')" "numBlocks w' = numBlocks w"
      "gasPerBlock w' = gasPerBlock w" "writer_abs io start bs (cur @ [tx]) w' files'" by auto
    then show ?thesis
      using Cons.IH [of bs "cur @ [tx]" w' files'] Cons.prems p tx by simp
  qed
qed simp

end
