(* ===== verification/Rng.thy ===== *)
theory Rng
  imports GoBase
begin

text \<open>
  The pseudo-random source every draw of a run comes from (\<open>math/rand/v2\<close>): a tape of 64-bit
  words and a position on it. The tape holds the words the source accepts; a word that
  \<open>Uint64N\<close> rejects for its bias is not on it. A draw that takes no randomness leaves the
  position where it is.
\<close>

unbundle bit_operations_syntax

record rng =
  tape :: "nat \<Rightarrow> u64"
  pos :: nat

definition next_u64 :: "rng \<Rightarrow> u64 \<times> rng" where
  "next_u64 r = (tape r (pos r), r\<lparr>pos := Suc (pos r)\<rparr>)"

text \<open>The reduction of an accepted word to \<open>[0, n)\<close>: a mask for a power of two, else the high
  half of the 128-bit product.\<close>

definition uint64n :: "u64 \<Rightarrow> u64 \<Rightarrow> u64" where
  "uint64n x n = (if n AND (n - 1) = 0 then x AND (n - 1) else of_nat (unat x * unat n div 2 ^ 64))"

definition Uint64N :: "u64 \<Rightarrow> rng \<Rightarrow> (u64 \<times> rng) outcome" where
  "Uint64N n r =
     (if n = 0 then Panic ''invalid argument to Uint64N''
      else case next_u64 r of (x, r') \<Rightarrow> Ok (uint64n x n, r'))"

definition Float64 :: "rng \<Rightarrow> rat \<times> rng" where
  "Float64 r = (case next_u64 r of (x, r') \<Rightarrow> (of_nat (unat (take_bit 53 x)) / 2 ^ 53, r'))"

text \<open>\<open>Shuffle\<close>: the Fisher-Yates loop, from the last index down.\<close>

definition swap :: "nat \<Rightarrow> nat \<Rightarrow> 'a list \<Rightarrow> 'a list" where
  "swap i j xs = xs[i := xs ! j, j := xs ! i]"

fun shuffle_from :: "nat \<Rightarrow> 'a list \<Rightarrow> rng \<Rightarrow> 'a list \<times> rng" where
  "shuffle_from 0 xs r = (xs, r)"
| "shuffle_from (Suc i) xs r =
     (case next_u64 r of (x, r') \<Rightarrow>
        shuffle_from i (swap (Suc i) (unat (uint64n x (of_nat (Suc (Suc i))))) xs) r')"

definition Shuffle :: "'a list \<Rightarrow> rng \<Rightarrow> 'a list \<times> rng" where
  "Shuffle xs r = shuffle_from (length xs - 1) xs r"

subsection \<open>Bounds\<close>

lemma unat_pred_u64: "(n :: u64) \<noteq> 0 \<Longrightarrow> unat (n - 1) = unat n - 1"
  by (simp add: unat_sub word_le_nat_alt unat_gt_0 Suc_le_eq)

lemma uint64n_less: "n \<noteq> 0 \<Longrightarrow> uint64n x n < n"
proof (cases "n AND (n - 1) = 0")
  case True
  assume n: "n \<noteq> 0"
  have "x AND (n - 1) \<le> n - 1" by (rule word_and_le1)
  moreover have "n - 1 < n"
    using n unat_pred_u64 [OF n] by (simp add: word_less_nat_alt unat_gt_0)
  ultimately show ?thesis using True by (simp add: uint64n_def)
next
  case False
  assume n: "n \<noteq> 0"
  have xn: "unat x * unat n < 2 ^ 64 * unat n"
    using unat_less_u64 [of x] n by (simp add: unat_gt_0)
  then have d: "unat x * unat n div 2 ^ 64 < unat n"
    by (simp add: less_mult_imp_div_less mult.commute)
  then have "unat x * unat n div 2 ^ 64 < 2 ^ 64" using unat_less_u64 [of n] by linarith
  then have "unat (of_nat (unat x * unat n div 2 ^ 64) :: u64) = unat x * unat n div 2 ^ 64"
    by (simp add: unat_of_nat take_bit_eq_mod)
  then show ?thesis using False d by (simp add: uint64n_def word_less_nat_alt)
qed

lemma Uint64N_Ok: "n \<noteq> 0 \<Longrightarrow> \<exists>v. Uint64N n r = Ok (v, r\<lparr>pos := Suc (pos r)\<rparr>) \<and> v < n"
  by (simp add: Uint64N_def next_u64_def uint64n_less)

lemma Uint64N_bound: "Uint64N n r = Ok (v, r') \<Longrightarrow> v < n \<and> pos r' = Suc (pos r) \<and> tape r' = tape r"
  by (auto simp: Uint64N_def next_u64_def uint64n_less split: if_splits)

lemma Uint64N_zero: "panics (Uint64N 0 r)"
  by (simp add: Uint64N_def)

lemma Float64_range: "0 \<le> fst (Float64 r) \<and> fst (Float64 r) < 1"
proof -
  have "unat (take_bit 53 x) < 2 ^ 53" for x :: u64
    unfolding unsigned_take_bit_eq by (rule take_bit_nat_less_exp)
  then have "of_nat (unat (take_bit 53 x)) < (2 ^ 53 :: rat)" for x :: u64
    by (metis of_nat_less_iff of_nat_numeral of_nat_power)
  moreover have "(0 :: rat) \<le> of_nat (unat (take_bit 53 (tape r (pos r))))" by (rule of_nat_0_le_iff)
  ultimately show ?thesis by (simp add: Float64_def next_u64_def)
qed

lemma Float64_pos [simp]: "pos (snd (Float64 r)) = Suc (pos r)" "tape (snd (Float64 r)) = tape r"
  by (simp_all add: Float64_def next_u64_def)

subsection \<open>A shuffle permutes\<close>

lemma swap_mset: "i < length xs \<Longrightarrow> j < length xs \<Longrightarrow> mset (swap i j xs) = mset xs"
  by (simp add: swap_def mset_swap)

lemma swap_length [simp]: "length (swap i j xs) = length xs"
  by (simp add: swap_def)

lemma shuffle_from_mset:
  "i < length xs \<Longrightarrow> length xs < 2 ^ 64 \<Longrightarrow>
   mset (fst (shuffle_from i xs r)) = mset xs \<and> length (fst (shuffle_from i xs r)) = length xs \<and>
   pos (snd (shuffle_from i xs r)) = pos r + i"
proof (induction i xs r rule: shuffle_from.induct)
  case (2 i xs r)
  obtain x r' where x: "next_u64 r = (x, r')" by (cases "next_u64 r")
  let ?n = "of_nat (Suc (Suc i)) :: u64" and ?j = "unat (uint64n x (of_nat (Suc (Suc i))))"
  have un: "unat ?n = Suc (Suc i)" using 2(2,3) by (subst unat_of_nat) (simp add: take_bit_eq_mod)
  then have "?n \<noteq> 0" by (metis nat.distinct(1) unat_0)
  then have "?j < Suc (Suc i)" using uint64n_less [of ?n x] un unfolding word_less_nat_alt by metis
  then have j: "?j < length xs" using 2(2) by linarith
  have "pos r' = Suc (pos r)" using x by (auto simp: next_u64_def)
  then show ?case
    using 2(1) [OF x [symmetric]] 2(2,3) j swap_mset [of "Suc i" xs ?j] x by simp
qed auto

lemma Shuffle_mset:
  assumes "length xs < 2 ^ 64"
  shows "mset (fst (Shuffle xs r)) = mset xs"
proof (cases xs)
  case (Cons y ys)
  then show ?thesis using shuffle_from_mset [of "length xs - 1" xs r] assms by (simp add: Shuffle_def)
qed (simp add: Shuffle_def)

lemma Shuffle_pos:
  assumes "length xs < 2 ^ 64"
  shows "pos (snd (Shuffle xs r)) = pos r + (length xs - 1)"
proof (cases xs)
  case (Cons y ys)
  then show ?thesis using shuffle_from_mset [of "length xs - 1" xs r] assms by (simp add: Shuffle_def)
qed (simp add: Shuffle_def)

end
