(* ===== verification/Sampling.thy ===== *)
theory Sampling
  imports Rng
begin

text \<open>
  The samplers of package \<open>config\<close>: keyspace distributions (\<open>config/distribution.go\<close>) and gas
  pickers (\<open>config/gas.go\<close>), each a tagged choice between implementations of one interface.
  The zipfian constants are real numbers: \<open>math.Pow\<close> is \<open>powr\<close> without rounding.
\<close>

subsection \<open>The zipfian sampler\<close>

fun zeta_loop :: "nat \<Rightarrow> real \<Rightarrow> real \<Rightarrow> real" where
  "zeta_loop 0 theta acc = acc"
| "zeta_loop (Suc i) theta acc = zeta_loop i theta (acc + 1 / (real (Suc i) powr theta))"

definition zeta :: "u64 \<Rightarrow> real \<Rightarrow> real" where
  "zeta n theta = zeta_loop (unat n) theta 0"

record zipf_state =
  zs_n :: u64
  zs_theta :: real
  zetaN :: real
  zs_alpha :: real
  zs_eta :: real
  halfPowTheta :: real

definition newZipfState :: "u64 \<Rightarrow> real \<Rightarrow> zipf_state" where
  "newZipfState n theta =
     (let zeta_n = zeta n theta;
          zeta2 = zeta 2 theta;
          denom = 1 - zeta2 / zeta_n;
          eta = (if denom \<noteq> 0 then (1 - (2 / real (unat n)) powr (1 - theta)) / denom else 0)
      in \<lparr>zs_n = n, zs_theta = theta, zetaN = zeta_n, zs_alpha = 1 / (1 - theta), zs_eta = eta,
          halfPowTheta = (1 / 2) powr theta\<rparr>)"

record zipfian =
  Theta :: real
  z_state :: "zipf_state option"

definition zipfian_validate :: "zipfian \<Rightarrow> unit outcome" where
  "zipfian_validate z =
     (if Theta z < 0 \<or> 1 \<le> Theta z then Err (Errorf ''zipfian theta out of range'') else Ok ())"

text \<open>The memo: the constants are recomputed when the keyspace or the exponent changed.\<close>

definition zipf_memo :: "u64 \<Rightarrow> zipfian \<Rightarrow> zipf_state" where
  "zipf_memo n z =
     (case z_state z of
        None \<Rightarrow> newZipfState n (Theta z)
      | Some st \<Rightarrow> if zs_n st \<noteq> n \<or> zs_theta st \<noteq> Theta z then newZipfState n (Theta z) else st)"

definition zipf_index :: "zipf_state \<Rightarrow> u64 \<Rightarrow> real \<Rightarrow> u64" where
  "zipf_index st n u =
     (let uz = u * zetaN st
      in if uz < 1 then 0
         else if uz < 1 + halfPowTheta st then 1
         else let idx = of_int \<lfloor>real (unat n) * (zs_eta st * u - zs_eta st + 1) powr zs_alpha st\<rfloor>
              in if n \<le> idx then n - 1 else idx)"

definition zipfian_SampleIndex :: "zipfian \<Rightarrow> rng \<Rightarrow> u64 \<Rightarrow> (u64 \<times> zipfian \<times> rng) outcome" where
  "zipfian_SampleIndex z r n =
     (if n = 0 then Err (Errorf ''zipfian sample: empty keyspace (n == 0)'')
      else let st = zipf_memo n z;
               z' = z\<lparr>z_state := Some st\<rparr>;
               (u, r') = Float64 r
           in Ok (zipf_index st n (of_rat u), z', r'))"

definition uniform_SampleIndex :: "rng \<Rightarrow> u64 \<Rightarrow> (u64 \<times> rng) outcome" where
  "uniform_SampleIndex r n =
     (if n = 0 then Err (Errorf ''uniform sample: empty keyspace (n == 0)'') else Uint64N n r)"

subsection \<open>The tagged choice\<close>

datatype sampler = Uniform | Zipfian zipfian

record distribution =
  d_name :: string
  d_delegate :: "sampler option"

text \<open>\<open>UnmarshalJSON\<close> once the JSON is decoded to a name and, for the zipfian, its exponent.\<close>

definition decode_distribution :: "string \<Rightarrow> real \<Rightarrow> distribution outcome" where
  "decode_distribution name theta =
     (if name = '''' then Ok \<lparr>d_name = name, d_delegate = None\<rparr>
      else if name = ''uniform'' then Ok \<lparr>d_name = name, d_delegate = Some Uniform\<rparr>
      else if name = ''zipfian'' then
        let z = \<lparr>Theta = theta, z_state = None\<rparr>
        in obind (zipfian_validate z) (\<lambda>_. Ok \<lparr>d_name = name, d_delegate = Some (Zipfian z)\<rparr>)
      else Err (Errorf ''unknown distribution name''))"

definition SampleIndex :: "distribution \<Rightarrow> rng \<Rightarrow> u64 \<Rightarrow> (u64 \<times> distribution \<times> rng) outcome" where
  "SampleIndex d r n =
     (case d_delegate d of
        None \<Rightarrow> Ok (0, d, r)
      | Some Uniform \<Rightarrow> obind (uniform_SampleIndex r n) (\<lambda>(i, r'). Ok (i, d, r'))
      | Some (Zipfian z) \<Rightarrow>
          obind (zipfian_SampleIndex z r n) (\<lambda>(i, z', r'). Ok (i, d\<lparr>d_delegate := Some (Zipfian z')\<rparr>, r')))"

subsection \<open>The interface of a sampler\<close>

text \<open>
  A sampler answers every non-empty keyspace with an index in it, and stays well formed. The
  client draws a sequence; \<open>draws\<close> is what a run does with one sampler.
\<close>

locale index_sampler =
  fixes sample :: "'s \<Rightarrow> rng \<Rightarrow> u64 \<Rightarrow> (u64 \<times> 's \<times> rng) outcome"
    and ok :: "'s \<Rightarrow> bool"
  assumes sample_total: "ok s \<Longrightarrow> n \<noteq> 0 \<Longrightarrow> \<exists>i s' r'. sample s r n = Ok (i, s', r') \<and> i < n \<and> ok s'"
    and sample_pos: "sample s r n = Ok (i, s', r') \<Longrightarrow> pos r \<le> pos r' \<and> pos r' \<le> Suc (pos r)"
begin

fun draws :: "nat \<Rightarrow> u64 \<Rightarrow> 's \<Rightarrow> rng \<Rightarrow> (u64 list \<times> 's \<times> rng) outcome" where
  "draws 0 n s r = Ok ([], s, r)"
| "draws (Suc k) n s r =
     obind (sample s r n) (\<lambda>(i, s', r'). obind (draws k n s' r') (\<lambda>(ixs, s'', r''). Ok (i # ixs, s'', r'')))"

lemma draws_total:
  "ok s \<Longrightarrow> n \<noteq> 0 \<Longrightarrow> \<exists>ixs s' r'. draws k n s r = Ok (ixs, s', r') \<and> length ixs = k \<and> (\<forall>i \<in> set ixs. i < n) \<and>
     ok s' \<and> pos r' \<le> pos r + k"
proof (induction k arbitrary: s r)
  case (Suc k)
  obtain i s1 r1 where 1: "sample s r n = Ok (i, s1, r1)" "i < n" "ok s1"
    using sample_total [OF Suc.prems] by blast
  obtain ixs s2 r2 where 2: "draws k n s1 r1 = Ok (ixs, s2, r2)" "length ixs = k" "\<forall>i \<in> set ixs. i < n"
    "ok s2" "pos r2 \<le> pos r1 + k"
    using Suc.IH [OF 1(3) Suc.prems(2)] by blast
  then show ?case using 1 sample_pos [OF 1(1)] by auto
qed simp

end

lemma uniform_bound: "n \<noteq> 0 \<Longrightarrow> \<exists>i r'. uniform_SampleIndex r n = Ok (i, r') \<and> i < n"
  using Uint64N_Ok [of n r] by (auto simp: uniform_SampleIndex_def)

interpretation uniform: index_sampler "\<lambda>(s :: unit) r n. obind (uniform_SampleIndex r n) (\<lambda>(i, r'). Ok (i, (), r'))"
  "\<lambda>s. True"
proof
  fix s :: unit and n :: u64 and r :: rng
  assume "n \<noteq> 0"
  then obtain i r' where "uniform_SampleIndex r n = Ok (i, r')" "i < n" using uniform_bound by blast
  then show "\<exists>i s' r'. obind (uniform_SampleIndex r n) (\<lambda>(i, r'). Ok (i, (), r')) = Ok (i, s', r') \<and> i < n \<and> True"
    by auto
qed (auto simp: outcome_simps uniform_SampleIndex_def split: if_splits dest!: Uint64N_bound)

lemma zeta_loop_acc: "zeta_loop i theta s = s + zeta_loop i theta 0"
proof (induction i arbitrary: s)
  case (Suc i)
  then show ?case by (metis add.assoc add_0 zeta_loop.simps(2))
qed simp

lemma zeta_sum: "zeta n theta = (\<Sum>i = 1..unat n. 1 / (real i powr theta))"
proof -
  have "zeta_loop k theta 0 = (\<Sum>i = 1..k. 1 / (real i powr theta))" for k
  proof (induction k)
    case (Suc k)
    then show ?case using zeta_loop_acc [of k theta "1 / (real (Suc k) powr theta)"] by simp
  qed simp
  then show ?thesis by (simp add: zeta_def)
qed

lemma zeta_one [simp]: "zeta 1 theta = 1"
  by (simp add: zeta_sum)

definition zipf_ok :: "zipfian \<Rightarrow> bool" where
  "zipf_ok z \<longleftrightarrow> (case z_state z of None \<Rightarrow> True | Some st \<Rightarrow> st = newZipfState (zs_n st) (zs_theta st))"

text \<open>The memo is transparent.\<close>

lemma zipf_memo_eq: "zipf_ok z \<Longrightarrow> zipf_memo n z = newZipfState n (Theta z)"
  by (auto simp: zipf_ok_def zipf_memo_def split: option.splits)

lemma newZipfState_sel [simp]:
  "zs_n (newZipfState n theta) = n" "zs_theta (newZipfState n theta) = theta"
  "zetaN (newZipfState n theta) = zeta n theta" "halfPowTheta (newZipfState n theta) = (1 / 2) powr theta"
  by (simp_all add: newZipfState_def Let_def)

lemma zipf_index_less:
  assumes n: "n \<noteq> 0" and u: "0 \<le> u" "u < 1"
  shows "zipf_index (newZipfState n theta) n u < n"
proof -
  have top: "n - 1 < n" using n unat_pred_u64 [OF n] by (simp add: word_less_nat_alt unat_gt_0)
  have one: "1 < n" if "1 \<le> u * zeta n theta"
  proof (rule ccontr)
    assume "\<not> 1 < n"
    then have "unat n \<le> 1" "unat n \<noteq> 0" using n by (auto simp: word_less_nat_alt unat_eq_zero)
    then have "n = 1" by (simp add: word_unat_eq_iff)
    with that u(2) show False by simp
  qed
  show ?thesis using n top one by (auto simp: zipf_index_def Let_def word_gt_0)
qed

lemma zipfian_SampleIndex_Ok:
  assumes "n \<noteq> 0" "zipf_ok z"
  shows "zipfian_SampleIndex z r n =
    Ok (zipf_index (newZipfState n (Theta z)) n (of_rat (fst (Float64 r))),
        z\<lparr>z_state := Some (newZipfState n (Theta z))\<rparr>, snd (Float64 r))"
  using assms by (simp add: zipfian_SampleIndex_def Let_def zipf_memo_eq split: prod.split)

lemma zipfian_bound:
  assumes "n \<noteq> 0" "zipf_ok z"
  shows "\<exists>i z' r'. zipfian_SampleIndex z r n = Ok (i, z', r') \<and> i < n \<and> zipf_ok z'"
proof -
  have "(0 :: real) \<le> of_rat (fst (Float64 r))" "(of_rat (fst (Float64 r)) :: real) < 1"
    using Float64_range [of r] by (simp_all add: zero_le_of_rat_iff of_rat_less_1_iff)
  then show ?thesis
    using zipfian_SampleIndex_Ok [OF assms] zipf_index_less [OF assms(1)] by (simp add: zipf_ok_def)
qed

interpretation zipf: index_sampler zipfian_SampleIndex zipf_ok
proof
  fix s n r i s' r'
  assume "zipfian_SampleIndex s r n = Ok (i, s', r')"
  then have "r' = snd (Float64 r)"
    by (auto simp: zipfian_SampleIndex_def Let_def split: prod.splits if_splits)
  then show "pos r \<le> pos r' \<and> pos r' \<le> Suc (pos r)" by simp
qed (use zipfian_bound in blast)

definition dist_ok :: "distribution \<Rightarrow> bool" where
  "dist_ok d \<longleftrightarrow> (case d_delegate d of Some (Zipfian z) \<Rightarrow> zipf_ok z | _ \<Rightarrow> True)"

lemma decode_distribution_ok: "decode_distribution name theta = Ok d \<Longrightarrow> dist_ok d"
  by (auto simp: decode_distribution_def Let_def dist_ok_def zipf_ok_def outcome_simps split: if_splits)

text \<open>An unnamed distribution answers every draw with 0 and takes no randomness.\<close>

lemma SampleIndex_unnamed: "d_delegate d = None \<Longrightarrow> SampleIndex d r n = Ok (0, d, r)"
  by (simp add: SampleIndex_def)

interpretation dist: index_sampler SampleIndex dist_ok
proof
  fix d :: distribution and n :: u64 and r
  assume ok: "dist_ok d" and n: "n \<noteq> 0"
  show "\<exists>i d' r'. SampleIndex d r n = Ok (i, d', r') \<and> i < n \<and> dist_ok d'"
  proof (cases "d_delegate d")
    case None
    then show ?thesis using n ok by (simp add: SampleIndex_def word_gt_0)
  next
    case (Some sm)
    show ?thesis
    proof (cases sm)
      case Uniform
      then show ?thesis using uniform_bound [OF n, of r] Some ok by (auto simp: SampleIndex_def)
    next
      case (Zipfian z)
      then have "zipf_ok z" using ok Some by (simp add: dist_ok_def)
      from zipfian_bound [OF n this, of r] Some Zipfian show ?thesis
        by (auto simp: SampleIndex_def dist_ok_def)
    qed
  qed
next
  fix d :: distribution and n i :: u64 and r d' r'
  assume "SampleIndex d r n = Ok (i, d', r')"
  then show "pos r \<le> pos r' \<and> pos r' \<le> Suc (pos r)"
    by (auto simp: SampleIndex_def outcome_simps uniform_SampleIndex_def
        split: option.splits sampler.splits if_splits dest!: zipf.sample_pos Uint64N_bound)
qed

text \<open>With exponent 0 the zipfian draw is the uniform one: the index is \<open>n * u\<close>, rounded down.\<close>

lemma zeta_zero: "zeta n 0 = real (unat n)"
  by (simp add: zeta_sum)

lemma floor_word:
  assumes "0 \<le> x" "x < real (unat (n :: u64))"
  shows "of_int \<lfloor>x\<rfloor> < n" "\<not> n \<le> of_int \<lfloor>x\<rfloor>"
proof -
  have f: "0 \<le> \<lfloor>x\<rfloor>" "\<lfloor>x\<rfloor> < int (unat n)" using assms by (simp_all add: floor_less_iff)
  moreover have "int (unat n) < 2 ^ 64"
    using of_nat_less_iff [where 'a = int, of "unat n" "2 ^ 64"] unat_less_u64 [of n] by (simp del: of_nat_unat of_nat_less_iff)
  ultimately have "\<lfloor>x\<rfloor> < 2 ^ 64" by linarith
  with f(1) have "uint (of_int \<lfloor>x\<rfloor> :: u64) = \<lfloor>x\<rfloor>"
    by (simp add: uint_word_of_int take_bit_eq_mod)
  then show "of_int \<lfloor>x\<rfloor> < n" using f(2) by (simp add: word_less_def)
  then show "\<not> n \<le> of_int \<lfloor>x\<rfloor>" by simp
qed

lemma zipf_uniform:
  assumes n: "n \<noteq> 0" and u: "0 \<le> u" "u < 1"
  shows "zipf_index (newZipfState n 0) n u = of_int \<lfloor>real (unat n) * u\<rfloor>"
proof -
  let ?N = "real (unat n)"
  have "0 < unat n" using n by (simp add: unat_gt_0)
  then have N: "0 < ?N" by (simp del: of_nat_unat)
  have nu: "0 \<le> ?N * u" "?N * u < ?N" using u N by simp_all
  consider (zero) "?N * u < 1" | (one) "1 \<le> ?N * u" "?N * u < 2" | (big) "2 \<le> ?N * u" by linarith
  then show ?thesis
  proof cases
    case zero
    then have "\<lfloor>?N * u\<rfloor> = 0" using nu by (simp add: floor_eq_iff)
    then show ?thesis using zero by (simp add: zipf_index_def zeta_zero mult.commute)
  next
    case one
    then have "\<lfloor>?N * u\<rfloor> = 1" by (simp add: floor_eq_iff)
    then show ?thesis using one by (simp add: zipf_index_def zeta_zero mult.commute)
  next
    case big
    then have N2: "2 < ?N" using nu by linarith
    have den: "1 - 2 / ?N \<noteq> 0" "0 < 2 / ?N" using N2 by simp_all
    have z2: "zeta 2 0 = 2" by (simp add: zeta_zero)
    have c: "zs_eta (newZipfState n 0) = 1" "zs_alpha (newZipfState n 0) = 1"
      using den by (simp_all add: newZipfState_def Let_def zeta_zero z2)
    have upos: "0 < u" using big N by (smt (verit) mult_nonneg_nonpos u(1))
    have "zipf_index (newZipfState n 0) n u =
        (let idx = of_int \<lfloor>?N * u\<rfloor> in if n \<le> idx then n - 1 else idx)"
      using big upos by (simp add: zipf_index_def Let_def zeta_zero c mult.commute [of u])
    then show ?thesis using floor_word(2) [OF nu] by simp
  qed
qed

subsection \<open>Gas pickers\<close>

record random_gas =
  rg_Min :: u64
  rg_Max :: u64

datatype gas_gen = FixedGas u64 | RandomGas random_gas

record gas_picker =
  g_name :: string
  g_delegate :: "gas_gen option"

definition decode_gas_picker :: "string \<Rightarrow> u64 \<Rightarrow> random_gas \<Rightarrow> gas_picker outcome" where
  "decode_gas_picker name gas random =
     (if name = '''' then Ok \<lparr>g_name = name, g_delegate = None\<rparr>
      else if name = ''fixed'' then Ok \<lparr>g_name = name, g_delegate = Some (FixedGas gas)\<rparr>
      else if name = ''random'' then Ok \<lparr>g_name = name, g_delegate = Some (RandomGas random)\<rparr>
      else Err (Errorf ''unknown gas generator name''))"

definition fixed_GenerateGas :: "u64 \<Rightarrow> rng \<Rightarrow> (u64 \<times> rng) outcome" where
  "fixed_GenerateGas gas r = Ok (gas, r)"

definition random_GenerateGas :: "random_gas \<Rightarrow> rng \<Rightarrow> (u64 \<times> rng) outcome" where
  "random_GenerateGas g r =
     (if rg_Max g \<le> rg_Min g then Err (Errorf ''invalid random gas range'')
      else let span = rg_Max g - rg_Min g + 1
           in obind (Uint64N span r) (\<lambda>(v, r'). Ok (rg_Min g + v, r')))"

definition GenerateGas :: "gas_picker \<Rightarrow> rng \<Rightarrow> (u64 \<times> rng) outcome" where
  "GenerateGas g r =
     (case g_delegate g of
        None \<Rightarrow> Ok (0, r)
      | Some (FixedGas gas) \<Rightarrow> fixed_GenerateGas gas r
      | Some (RandomGas random) \<Rightarrow> random_GenerateGas random r)"

text \<open>A generator stays within its bounds and takes at most one word of randomness.\<close>

locale gas_generator =
  fixes gen :: "'g \<Rightarrow> rng \<Rightarrow> (u64 \<times> rng) outcome"
    and lo :: "'g \<Rightarrow> u64"
    and hi :: "'g \<Rightarrow> u64"
    and ok :: "'g \<Rightarrow> bool"
  assumes gen_total: "ok g \<Longrightarrow> \<exists>v r'. gen g r = Ok (v, r')"
    and gen_range: "ok g \<Longrightarrow> gen g r = Ok (v, r') \<Longrightarrow> lo g \<le> v \<and> v \<le> hi g"
    and gen_pos: "gen g r = Ok (v, r') \<Longrightarrow> pos r \<le> pos r' \<and> pos r' \<le> Suc (pos r)"
begin

lemma gen_in_range: "ok g \<Longrightarrow> \<exists>v r'. gen g r = Ok (v, r') \<and> lo g \<le> v \<and> v \<le> hi g \<and> pos r' \<le> Suc (pos r)"
  using gen_total gen_range gen_pos by metis

end

interpretation fixed_gas: gas_generator fixed_GenerateGas "\<lambda>g. g" "\<lambda>g. g" "\<lambda>g. True"
  by unfold_locales (auto simp: fixed_GenerateGas_def)

text \<open>
  The range is drawn from unless it is the whole of the 64-bit integers, whose size wraps to 0.
\<close>

definition random_gas_ok :: "random_gas \<Rightarrow> bool" where
  "random_gas_ok g \<longleftrightarrow> rg_Min g < rg_Max g \<and> \<not> (rg_Min g = 0 \<and> rg_Max g = max_u64)"

lemma random_span:
  assumes "(lo :: u64) < hi" "\<not> (lo = 0 \<and> hi = max_u64)"
  shows "unat (hi - lo + 1) = unat hi - unat lo + 1" "hi - lo + 1 \<noteq> 0"
proof -
  have d: "unat (hi - lo) = unat hi - unat lo"
    using assms(1) by (simp add: unat_sub word_le_nat_alt word_less_nat_alt)
  have "hi - lo \<noteq> max_u64"
  proof
    assume eq: "hi - lo = max_u64"
    have "unat hi - unat lo = 2 ^ 64 - 1" unfolding d [symmetric] eq
      by (simp add: unsigned_minus_1_eq_mask mask_eq_exp_minus_1)
    then have "unat hi = 2 ^ 64 - 1" "unat lo = 0" using unat_less_u64 [of hi] by auto
    then have "hi = max_u64" "lo = 0"
      by (simp_all add: word_unat_eq_iff unsigned_minus_1_eq_mask mask_eq_exp_minus_1)
    with assms(2) show False by simp
  qed
  then have "unat (hi - lo + 1) = Suc (unat (hi - lo))" by (rule unat_Suc_not_max)
  then show "unat (hi - lo + 1) = unat hi - unat lo + 1" "hi - lo + 1 \<noteq> 0"
    by (simp_all add: d) (metis nat.distinct(1) unat_0)
qed

lemma random_GenerateGas_ok:
  assumes "random_gas_ok g"
  shows "\<exists>v r'. random_GenerateGas g r = Ok (v, r') \<and> rg_Min g \<le> v \<and> v \<le> rg_Max g"
proof -
  let ?s = "rg_Max g - rg_Min g + 1"
  have lt: "rg_Min g < rg_Max g" and nz: "?s \<noteq> 0"
    and sp: "unat ?s = unat (rg_Max g) - unat (rg_Min g) + 1"
    using assms random_span [of "rg_Min g" "rg_Max g"] by (auto simp: random_gas_ok_def)
  from Uint64N_Ok [OF nz, of r] obtain v r' where v: "Uint64N ?s r = Ok (v, r')" "v < ?s" by blast
  have "unat v \<le> unat (rg_Max g) - unat (rg_Min g)" using v(2) sp by (simp add: word_less_nat_alt)
  then have le: "unat (rg_Min g) + unat v \<le> unat (rg_Max g)"
    using lt by (simp add: word_less_nat_alt)
  then have "unat (rg_Min g + v) = unat (rg_Min g) + unat v"
    using unat_less_u64 [of "rg_Max g"] by (simp add: unat_word_ariths)
  then have "rg_Min g \<le> rg_Min g + v" "rg_Min g + v \<le> rg_Max g" using le by (simp_all add: word_le_nat_alt)
  then show ?thesis using v lt by (simp add: random_GenerateGas_def Let_def not_le [symmetric] leD)
qed

interpretation random_gas: gas_generator random_GenerateGas rg_Min rg_Max random_gas_ok
proof
  fix g :: random_gas and r v r'
  assume "random_gas_ok g" "random_GenerateGas g r = Ok (v, r')"
  then show "rg_Min g \<le> v \<and> v \<le> rg_Max g" using random_GenerateGas_ok [of g r] by auto
next
  fix g :: random_gas and r v r'
  assume "random_GenerateGas g r = Ok (v, r')"
  then show "pos r \<le> pos r' \<and> pos r' \<le> Suc (pos r)"
    by (auto simp: random_GenerateGas_def Let_def outcome_simps split: if_splits dest!: Uint64N_bound)
qed (use random_GenerateGas_ok in blast)

lemma random_GenerateGas_full_range: "panics (random_GenerateGas \<lparr>rg_Min = 0, rg_Max = max_u64\<rparr> r)"
  by (simp add: random_GenerateGas_def Uint64N_def)

text \<open>The picker adds the unnamed case, which is 0 and no randomness.\<close>

definition picker_lo :: "gas_picker \<Rightarrow> u64" where
  "picker_lo g = (case g_delegate g of None \<Rightarrow> 0 | Some (FixedGas v) \<Rightarrow> v | Some (RandomGas rg) \<Rightarrow> rg_Min rg)"

definition picker_hi :: "gas_picker \<Rightarrow> u64" where
  "picker_hi g = (case g_delegate g of None \<Rightarrow> 0 | Some (FixedGas v) \<Rightarrow> v | Some (RandomGas rg) \<Rightarrow> rg_Max rg)"

definition picker_ok :: "gas_picker \<Rightarrow> bool" where
  "picker_ok g \<longleftrightarrow> (case g_delegate g of Some (RandomGas rg) \<Rightarrow> random_gas_ok rg | _ \<Rightarrow> True)"

interpretation picker: gas_generator GenerateGas picker_lo picker_hi picker_ok
proof
  fix g :: gas_picker and r
  show "picker_ok g \<Longrightarrow> \<exists>v r'. GenerateGas g r = Ok (v, r')"
    using random_gas.gen_total
    by (auto simp: GenerateGas_def picker_ok_def fixed_GenerateGas_def split: option.split gas_gen.split)
next
  fix g :: gas_picker and r v r'
  assume g: "GenerateGas g r = Ok (v, r')"
  then show "pos r \<le> pos r' \<and> pos r' \<le> Suc (pos r)"
    using random_gas.gen_pos
    by (auto simp: GenerateGas_def fixed_GenerateGas_def split: option.splits gas_gen.splits)
next
  fix g :: gas_picker and r v r'
  assume "picker_ok g" "GenerateGas g r = Ok (v, r')"
  then show "picker_lo g \<le> v \<and> v \<le> picker_hi g"
    using random_gas.gen_range
    by (auto simp: GenerateGas_def fixed_GenerateGas_def picker_ok_def picker_lo_def picker_hi_def
        split: option.splits gas_gen.splits)
qed

end
