(* ===== verification/Operation.thy ===== *)
theory Operation
  imports Rng "HOL-Library.List_Lexorder" "HOL-Library.Char_ord"
begin

text \<open>
  Operation sets, mixes and weighted draws (\<open>config/operation.go\<close>). A Go map is an association
  list with distinct keys; \<open>None\<close> is the nil map. Strings are ordered byte by byte.
\<close>

subsection \<open>Operation sets\<close>

definition OpRmw :: string where "OpRmw = ''rmw''"
definition OpRead :: string where "OpRead = ''read''"
definition OpWrite :: string where "OpWrite = ''write''"
definition OpTransfer :: string where "OpTransfer = ''transfer''"
definition OpSelfTransfer :: string where "OpSelfTransfer = ''self_transfer''"
definition OpERC20Transfer :: string where "OpERC20Transfer = ''erc20_transfer''"
definition OpERC721Mint :: string where "OpERC721Mint = ''erc721_mint''"
definition OpDisperseEther :: string where "OpDisperseEther = ''disperse_ether''"

record operation_set =
  os_names :: "string list"
  os_known :: "string set"

fun declare_names :: "string list \<Rightarrow> string set \<Rightarrow> string set outcome" where
  "declare_names [] known = Ok known"
| "declare_names (name # names) known =
     (if name \<in> known then Panic ''operation set: declared twice''
      else declare_names names (insert name known))"

definition NewOperationSet :: "string list \<Rightarrow> operation_set outcome" where
  "NewOperationSet names =
     (if length names = 0 then Panic ''operation set: at least one operation is required''
      else obind (declare_names names {}) (\<lambda>known. Ok \<lparr>os_names = names, os_known = known\<rparr>))"

definition Names :: "operation_set \<Rightarrow> string list" where
  "Names s = os_names s"

lemma declare_names_Ok: "declare_names names known = Ok k \<longleftrightarrow>
    distinct names \<and> set names \<inter> known = {} \<and> k = set names \<union> known"
  by (induction names known rule: declare_names.induct) auto

definition wf_set :: "operation_set \<Rightarrow> bool" where
  "wf_set s \<longleftrightarrow> os_names s \<noteq> [] \<and> distinct (os_names s) \<and> os_known s = set (os_names s)"

lemma NewOperationSet_Ok: "NewOperationSet names = Ok s \<longleftrightarrow>
    names \<noteq> [] \<and> distinct names \<and> s = \<lparr>os_names = names, os_known = set names\<rparr>"
  by (auto simp: NewOperationSet_def outcome_simps declare_names_Ok)

lemma NewOperationSet_wf: "NewOperationSet names = Ok s \<Longrightarrow> wf_set s"
  by (auto simp: NewOperationSet_Ok wf_set_def)

definition StorageRWOperations :: operation_set where
  "StorageRWOperations =
     \<lparr>os_names = [OpRmw, OpRead, OpWrite], os_known = {OpRmw, OpRead, OpWrite}\<rparr>"

lemma StorageRWOperations_declared: "NewOperationSet [OpRmw, OpRead, OpWrite] = Ok StorageRWOperations"
  by (simp add: NewOperationSet_Ok StorageRWOperations_def OpRmw_def OpRead_def OpWrite_def)

text \<open>\<open>strings.ToLower\<close> on ASCII.\<close>

definition to_lower :: "string \<Rightarrow> string" where
  "to_lower s = map (\<lambda>c. if 65 \<le> (of_char c :: nat) \<and> (of_char c :: nat) \<le> 90 then char_of (of_char c + 32 :: nat) else c) s"

definition operationsFor :: "string \<Rightarrow> operation_set option" where
  "operationsFor scenario = (if to_lower scenario = ''storagerw'' then Some StorageRWOperations else None)"

subsection \<open>Mixes\<close>

type_synonym operation_mix = "(string \<times> u64) list option"

definition mix_weight :: "operation_mix \<Rightarrow> string \<Rightarrow> u64" where
  "mix_weight m name = (case m of None \<Rightarrow> 0 | Some kvs \<Rightarrow> (case map_of kvs name of Some w \<Rightarrow> w | None \<Rightarrow> 0))"

definition sorted_keys :: "operation_mix \<Rightarrow> string list" where
  "sorted_keys m = (case m of None \<Rightarrow> [] | Some kvs \<Rightarrow> sort (map fst kvs))"

definition mix_MarshalJSON :: "operation_mix \<Rightarrow> (string \<times> u64) list" where
  "mix_MarshalJSON m = (case m of None \<Rightarrow> [] | Some kvs \<Rightarrow> filter (\<lambda>(name, weight). weight \<noteq> 0) kvs)"

fun validate_loop :: "operation_set \<Rightarrow> operation_mix \<Rightarrow> string list \<Rightarrow> u64 \<Rightarrow> u64 outcome" where
  "validate_loop s m [] tot = Ok tot"
| "validate_loop s m (name # names) tot =
     (if name \<notin> os_known s then Err (Errorf ''unknown operation'')
      else if tot + mix_weight m name < tot then Err (Errorf ''operations weights sum past uint64'')
      else validate_loop s m names (tot + mix_weight m name))"

definition mix_validate :: "operation_set option \<Rightarrow> operation_mix \<Rightarrow> unit outcome" where
  "mix_validate oset m =
     (case m of
        None \<Rightarrow> Ok ()
      | Some kvs \<Rightarrow>
          (case oset of
             None \<Rightarrow> Err (Errorf ''operations is set but this scenario has no operations'')
           | Some s \<Rightarrow>
               obind (validate_loop s m (sorted_keys m) 0) (\<lambda>tot.
                 if tot = 0 then Err (Errorf ''operations is set but every weight is 0'') else Ok ())))"

definition wf_mix :: "operation_mix \<Rightarrow> bool" where
  "wf_mix m \<longleftrightarrow> (case m of None \<Rightarrow> True | Some kvs \<Rightarrow> distinct (map fst kvs))"

subsection \<open>Sums that do not wrap\<close>

lemma no_carry: "(t :: u64) + w < t \<longleftrightarrow> 2 ^ 64 \<le> unat t + unat w"
proof (cases "unat t + unat w < 2 ^ 64")
  case True
  then have "unat (t + w) = unat t + unat w" by (simp add: unat_word_ariths)
  then show ?thesis using True by (simp add: word_less_nat_alt)
next
  case False
  have "unat t + unat w < 2 ^ 64 + 2 ^ 64" using unat_less_u64 [of t] unat_less_u64 [of w] by linarith
  then have "(unat t + unat w) mod 2 ^ 64 = unat t + unat w - 2 ^ 64"
    using False by (metis add_diff_inverse_nat less_diff_conv2 mod_add_self1 mod_less linorder_not_less)
  then have "unat (t + w) = unat t + unat w - 2 ^ 64" by (simp add: unat_word_ariths)
  then show ?thesis using False unat_less_u64 [of w] by (simp add: word_less_nat_alt)
qed

definition weight_sum :: "operation_mix \<Rightarrow> string list \<Rightarrow> nat" where
  "weight_sum m names = (\<Sum>n \<leftarrow> names. unat (mix_weight m n))"

lemma validate_loop_Ok:
  "validate_loop s m names t = Ok tot \<longleftrightarrow>
     set names \<subseteq> os_known s \<and> unat t + weight_sum m names < 2 ^ 64 \<and> unat tot = unat t + weight_sum m names"
proof (induction names arbitrary: t)
  case Nil
  show ?case using unat_less_u64 [of t] by (auto simp: weight_sum_def word_unat_eq_iff)
next
  case (Cons name names)
  show ?case
  proof (cases "t + mix_weight m name < t")
    case True
    then have "2 ^ 64 \<le> unat t + weight_sum m (name # names)" by (simp add: no_carry weight_sum_def)
    then show ?thesis using True by auto
  next
    case False
    then have "unat (t + mix_weight m name) = unat t + unat (mix_weight m name)"
      by (intro unat_add_small) (simp add: no_carry)
    then show ?thesis using False Cons.IH [of "t + mix_weight m name"]
      by (auto simp: weight_sum_def add.assoc)
  qed
qed

text \<open>What \<open>validate\<close> accepts.\<close>

definition mix_total :: "operation_mix \<Rightarrow> nat" where
  "mix_total m = (case m of None \<Rightarrow> 0 | Some kvs \<Rightarrow> (\<Sum>(name, w) \<leftarrow> kvs. unat w))"

lemma weight_sum_keys:
  assumes "wf_mix (Some kvs)"
  shows "weight_sum (Some kvs) (map fst kvs) = mix_total (Some kvs)"
proof -
  have "map (\<lambda>n. unat (mix_weight (Some kvs) n)) (map fst kvs) = map (\<lambda>(n, w). unat w) kvs"
    using assms by (auto simp: mix_weight_def wf_mix_def)
  then show ?thesis unfolding weight_sum_def mix_total_def by (metis option.simps(5))
qed

lemma weight_sum_mset: "mset xs = mset ys \<Longrightarrow> weight_sum m xs = weight_sum m ys"
  unfolding weight_sum_def by (metis mset_map sum_mset_sum_list)

lemma mix_validate_iff:
  assumes "wf_mix m"
  shows "mix_validate oset m = Ok () \<longleftrightarrow> m = None \<or>
    (\<exists>s kvs. oset = Some s \<and> m = Some kvs \<and> fst ` set kvs \<subseteq> os_known s \<and>
       0 < mix_total m \<and> mix_total m < 2 ^ 64)"
proof (cases m)
  case (Some kvs)
  have sum: "weight_sum m (sort (map fst kvs)) = mix_total m"
    using weight_sum_keys [of kvs] assms Some weight_sum_mset [of "sort (map fst kvs)" "map fst kvs" m] by simp
  have key: "(\<exists>tot. validate_loop s m (sorted_keys m) 0 = Ok tot \<and> tot \<noteq> 0) \<longleftrightarrow>
      fst ` set kvs \<subseteq> os_known s \<and> 0 < mix_total m \<and> mix_total m < 2 ^ 64" (is "?L = ?R") for s
  proof
    assume ?L
    then show ?R by (auto simp: validate_loop_Ok sorted_keys_def Some sum [unfolded Some] unat_gt_0
          simp flip: unat_gt_0)
  next
    assume ?R
    moreover from this have "unat (of_nat (mix_total m) :: u64) = mix_total m"
      by (simp add: unat_of_nat take_bit_eq_mod)
    ultimately show ?L
      by (intro exI [of _ "of_nat (mix_total m)"])
        (auto simp: validate_loop_Ok sorted_keys_def Some sum [unfolded Some] simp flip: unat_gt_0)
  qed
  have "mix_validate (Some s) m = Ok () \<longleftrightarrow> (\<exists>tot. validate_loop s m (sorted_keys m) 0 = Ok tot \<and> tot \<noteq> 0)" for s
    by (auto simp: mix_validate_def Some outcome_simps split: if_splits)
  then show ?thesis unfolding key by (cases oset) (simp_all add: Some mix_validate_def)
qed (simp add: mix_validate_def)

subsection \<open>Pickers\<close>

record operation_picker =
  op_names :: "string list"
  op_cum :: "u64 list"
  op_total :: u64
  op_fallback :: string

fun picker_check :: "operation_set \<Rightarrow> string list \<Rightarrow> unit outcome" where
  "picker_check s [] = Ok ()"
| "picker_check s (name # names) =
     (if name \<notin> os_known s then Panic ''operation is not one of the set'' else picker_check s names)"

fun picker_loop :: "operation_mix \<Rightarrow> string list \<Rightarrow> operation_picker \<Rightarrow> operation_picker outcome" where
  "picker_loop m [] p = Ok p"
| "picker_loop m (name # names) p =
     (let weight = mix_weight m name
      in if weight = 0 then picker_loop m names p
         else if op_total p + weight < op_total p then Panic ''operation weights sum past uint64''
         else picker_loop m names
                (p\<lparr>op_total := op_total p + weight, op_names := op_names p @ [name],
                   op_cum := op_cum p @ [op_total p + weight]\<rparr>))"

definition Picker :: "operation_set \<Rightarrow> operation_mix \<Rightarrow> operation_picker outcome" where
  "Picker s m =
     obind (index_at (os_names s) 0) (\<lambda>fallback.
     obind (picker_check s (sorted_keys m)) (\<lambda>_.
       picker_loop m (os_names s)
         \<lparr>op_names = [], op_cum = [], op_total = 0, op_fallback = fallback\<rparr>))"

fun select_loop :: "u64 \<Rightarrow> string list \<Rightarrow> u64 list \<Rightarrow> string option" where
  "select_loop u (name # names) (c # cum) = (if u < c then Some name else select_loop u names cum)"
| "select_loop u names cum = None"

definition Select :: "operation_picker \<Rightarrow> rng \<Rightarrow> (string \<times> rng) outcome" where
  "Select p r =
     (if op_total p = 0 then Ok (op_fallback p, r)
      else obind (Uint64N (op_total p) r) (\<lambda>(u, r').
             case select_loop u (op_names p) (op_cum p) of
               Some name \<Rightarrow> Ok (name, r')
             | None \<Rightarrow> obind (index_at (op_names p) (int (length (op_names p)) - 1)) (\<lambda>name. Ok (name, r'))))"

lemma picker_check_Ok: "picker_check s names = Ok () \<longleftrightarrow> set names \<subseteq> os_known s"
  by (induction s names rule: picker_check.induct) auto

lemma picker_check_cases: "picker_check s names = Ok () \<or> panics (picker_check s names)"
  by (induction s names rule: picker_check.induct) auto

text \<open>
  The running totals, as natural numbers: after the operations \<open>names\<close>, the list of those with
  a weight and, for each, the sum of the weights up to it.
\<close>

fun running :: "operation_mix \<Rightarrow> string list \<Rightarrow> nat \<Rightarrow> (string \<times> nat) list" where
  "running m [] t = []"
| "running m (name # names) t =
     (let w = unat (mix_weight m name)
      in (if w = 0 then [] else [(name, t + w)]) @ running m names (t + w))"

lemma picker_loop_Ok:
  assumes "unat (op_total p) + weight_sum m names < 2 ^ 64"
  shows "\<exists>q. picker_loop m names p = Ok q \<and> op_fallback q = op_fallback p \<and>
    unat (op_total q) = unat (op_total p) + weight_sum m names \<and>
    op_names q = op_names p @ map fst (running m names (unat (op_total p))) \<and>
    op_cum q = op_cum p @ map (of_nat \<circ> snd) (running m names (unat (op_total p)))"
  using assms
proof (induction names arbitrary: p)
  case Nil
  show ?case by (simp add: weight_sum_def)
next
  case (Cons name names)
  let ?w = "mix_weight m name"
  have add: "unat (op_total p + ?w) = unat (op_total p) + unat ?w"
    by (rule unat_add_small) (use Cons.prems in \<open>simp add: weight_sum_def\<close>)
  show ?case
  proof (cases "?w = 0")
    case True
    then show ?thesis using Cons.IH [of p] Cons.prems by (simp add: weight_sum_def)
  next
    case False
    let ?p = "p\<lparr>op_total := op_total p + ?w, op_names := op_names p @ [name], op_cum := op_cum p @ [op_total p + ?w]\<rparr>"
    have nc: "\<not> op_total p + ?w < op_total p" unfolding no_carry using Cons.prems by (simp add: weight_sum_def)
    have w: "unat ?w \<noteq> 0" using False by (simp add: unat_eq_zero)
    have "of_nat (unat (op_total p) + unat ?w) = op_total p + ?w" by simp
    moreover obtain q where "picker_loop m names ?p = Ok q" "op_fallback q = op_fallback p"
      "unat (op_total q) = unat (op_total p) + unat ?w + weight_sum m names"
      "op_names q = op_names p @ name # map fst (running m names (unat (op_total p) + unat ?w))"
      "op_cum q = op_cum p @ (op_total p + ?w) # map (of_nat \<circ> snd) (running m names (unat (op_total p) + unat ?w))"
      using Cons.IH [of ?p] Cons.prems by (auto simp: weight_sum_def add add.assoc)
    ultimately show ?thesis using False nc w by (simp add: weight_sum_def Let_def add.assoc)
  qed
qed

text \<open>The draw read on natural numbers: the first operation whose running total exceeds it.\<close>

fun pick :: "nat \<Rightarrow> (string \<times> nat) list \<Rightarrow> string option" where
  "pick u [] = None"
| "pick u ((name, c) # rest) = (if u < c then Some name else pick u rest)"

lemma running_bound: "(name, c) \<in> set (running m names t) \<Longrightarrow> t < c \<and> c \<le> t + weight_sum m names"
proof (induction m names t rule: running.induct)
  case (2 m x names t)
  then show ?case by (auto simp: Let_def weight_sum_def split: if_splits)
qed simp

lemma select_loop_pick:
  assumes "\<forall>x \<in> set xs. snd x < 2 ^ 64"
  shows "select_loop u (map fst xs) (map (of_nat \<circ> snd) xs) = pick (unat u) xs"
  using assms
proof (induction xs)
  case (Cons x xs)
  then have "u < of_nat (snd x) \<longleftrightarrow> unat u < snd x"
    by (simp add: word_less_nat_alt unat_of_nat take_bit_eq_mod)
  with Cons show ?case by (cases x) simp
qed simp

lemma pick_some: "u < t + weight_sum m names \<Longrightarrow> t \<le> u \<Longrightarrow> pick u (running m names t) \<noteq> None"
proof (induction m names t rule: running.induct)
  case (2 m x names t)
  then show ?case by (auto simp: Let_def weight_sum_def)
qed (simp add: weight_sum_def)

text \<open>Exactly as many draws select an operation as its weight says.\<close>

lemma pick_count:
  "distinct names \<Longrightarrow>
   card {u. t \<le> u \<and> u < t + weight_sum m names \<and> pick u (running m names t) = Some name} =
     (if name \<in> set names then unat (mix_weight m name) else 0)"
proof (induction m names t rule: running.induct)
  case (1 m t)
  then show ?case by simp
next
  case (2 m x names t)
  let ?w = "unat (mix_weight m x)" and ?R = "running m names (t + unat (mix_weight m x))"
  let ?A = "{u. t \<le> u \<and> u < t + ?w \<and> x = name}"
  let ?B = "{u. t + ?w \<le> u \<and> u < t + ?w + weight_sum m names \<and> pick u ?R = Some name}"
  have split: "{u. t \<le> u \<and> u < t + weight_sum m (x # names) \<and> pick u (running m (x # names) t) = Some name} = ?A \<union> ?B"
    by (auto simp: Let_def weight_sum_def split: if_splits)
  have B: "card ?B = (if name \<in> set names then unat (mix_weight m name) else 0)"
    using 2 by simp
  have "finite ?B" by (rule finite_subset [of _ "{..<t + ?w + weight_sum m names}"]) auto
  then have un: "card (?A \<union> ?B) = card ?A + card ?B" by (intro card_Un_disjoint) auto
  have "?A = (if x = name then {t..<t + ?w} else {})" by auto
  then have A: "card ?A = (if x = name then ?w else 0)" by simp
  show ?case unfolding split un A B using 2(2) by auto
qed

lemma Picker_ok:
  assumes "wf_set s" "mix_validate (Some s) m = Ok ()" "wf_mix m"
  shows "\<exists>p. Picker s m = Ok p \<and> op_fallback p = hd (os_names s) \<and>
    unat (op_total p) = weight_sum m (os_names s) \<and>
    op_names p = map fst (running m (os_names s) 0) \<and>
    op_cum p = map (of_nat \<circ> snd) (running m (os_names s) 0) \<and> weight_sum m (os_names s) < 2 ^ 64"
proof -
  have keys: "set (sorted_keys m) \<subseteq> os_known s"
    using assms(2) mix_validate_iff [OF assms(3), of "Some s"] by (auto simp: sorted_keys_def split: option.splits)
  have sum: "weight_sum m (os_names s) = mix_total m"
  proof (cases m)
    case None
    then have "mix_weight m n = 0" for n by (simp add: mix_weight_def)
    then show ?thesis using None by (simp add: weight_sum_def mix_total_def)
  next
    case (Some kvs)
    let ?K = "map fst kvs"
    have d: "distinct ?K" "distinct (os_names s)" using assms(1,3) Some by (auto simp: wf_mix_def wf_set_def)
    have sub: "set ?K \<subseteq> set (os_names s)" using keys assms(1) Some by (auto simp: sorted_keys_def wf_set_def)
    have zero: "mix_weight m n = 0" if "n \<notin> set ?K" for n
      using that by (auto simp: mix_weight_def Some map_of_eq_None_iff split: option.split) (metis image_eqI map_of_SomeD fst_conv)+
    have "weight_sum m (os_names s) = (\<Sum>n \<in> set (os_names s). unat (mix_weight m n))"
      unfolding weight_sum_def using d(2) by (simp add: sum_list_distinct_conv_sum_set)
    also have "\<dots> = (\<Sum>n \<in> set ?K. unat (mix_weight m n))"
      by (rule sum.mono_neutral_right) (use sub zero in auto)
    also have "\<dots> = weight_sum m ?K"
      unfolding weight_sum_def by (rule sum_list_distinct_conv_sum_set [OF d(1), symmetric])
    finally show ?thesis using weight_sum_keys [of kvs] assms(3) Some by simp
  qed
  have lt: "mix_total m < 2 ^ 64"
    using assms(2) mix_validate_iff [OF assms(3), of "Some s"] by (auto simp: mix_total_def)
  have ne: "index_at (os_names s) 0 = Ok (hd (os_names s))"
    using assms(1) by (cases "os_names s") (auto simp: wf_set_def)
  have ck: "picker_check s (sorted_keys m) = Ok ()" using keys by (simp add: picker_check_Ok)
  show ?thesis
    using picker_loop_Ok [of "\<lparr>op_names = [], op_cum = [], op_total = 0, op_fallback = hd (os_names s)\<rparr>" m "os_names s"]
      lt sum by (auto simp: Picker_def ne ck)
qed

lemma Select_ok:
  assumes p: "op_names p = map fst (running m names 0)" "op_cum p = map (of_nat \<circ> snd) (running m names 0)"
    and t: "unat (op_total p) = weight_sum m names" "op_total p \<noteq> 0"
  shows "\<exists>u name. Select p r = Ok (name, r\<lparr>pos := Suc (pos r)\<rparr>) \<and> unat u < weight_sum m names \<and>
    uint64n (tape r (pos r)) (op_total p) = u \<and> pick (unat u) (running m names 0) = Some name"
proof -
  let ?u = "uint64n (tape r (pos r)) (op_total p)"
  have lt: "unat ?u < weight_sum m names"
    using uint64n_less [OF t(2), of "tape r (pos r)"] t(1) by (simp add: word_less_nat_alt)
  have "weight_sum m names < 2 ^ 64" using t(1) unat_less_u64 [of "op_total p"] by simp
  then have "\<forall>x \<in> set (running m names 0). snd x < 2 ^ 64" using running_bound [of _ _ m names 0] by fastforce
  then have sel: "select_loop ?u (op_names p) (op_cum p) = pick (unat ?u) (running m names 0)"
    using select_loop_pick [of "running m names 0" ?u] by (simp add: p)
  obtain name where "pick (unat ?u) (running m names 0) = Some name"
    using pick_some [of "unat ?u" 0 m names] lt by auto
  then show ?thesis using sel lt t(2) by (auto simp: Select_def Uint64N_def next_u64_def)
qed

lemma Select_fallback: "op_total p = 0 \<Longrightarrow> Select p r = Ok (op_fallback p, r)"
  by (simp add: Select_def)

lemma pick_weighted: "pick u (running m names t) = Some name \<Longrightarrow> mix_weight m name \<noteq> 0 \<and> name \<in> set names"
  by (induction m names t rule: running.induct) (auto simp: Let_def split: if_splits)

end
