(* ===== verification/Config.thy ===== *)
theory Config
  imports Sampling Operation
begin

text \<open>
  The load configuration (\<open>config/config.go\<close>), its funding section (\<open>config/funding.go\<close>) and the
  settings (\<open>config/settings.go\<close>), decoded; and the checks every run makes on them before it starts.
\<close>

subsection \<open>Data\<close>

record account_config =
  NewAccountRate :: rat
  ac_Accounts :: int

record scenario =
  sc_Name :: string
  sc_Weight :: int
  sc_Accounts :: "account_config option"
  sc_GasPicker :: "gas_picker option"
  sc_GasFeeCapPicker :: "gas_picker option"
  sc_GasTipCapPicker :: "gas_picker option"
  sc_KeyDistribution :: "distribution option"
  sc_SizeDistribution :: "distribution option"
  sc_RecordCount :: u64
  sc_SizeBuckets :: "int list"
  sc_Operations :: operation_mix

record funding_config =
  RootKeyFile :: string
  RootKeyEnv :: string
  FundAmountWei :: "int option"
  BatchSize :: int

record settings =
  TPS :: rat
  StatsInterval :: duration
  InclusionReapAfter :: duration
  BufferSize :: int
  st_DryRun :: bool
  st_Debug :: bool
  TrackReceipts :: bool
  TrackBlocks :: bool
  TrackUserLatency :: bool
  st_Prewarm :: bool
  RampUp :: bool
  st_ReportPath :: string
  TxsDir :: string
  TargetGas :: u64
  NumBlocksToWrite :: int
  PostSummaryFlushDelay :: duration
  st_ArrivalModel :: string
  MaxInFlight :: int

record load_config =
  lc_ChainID :: int
  lc_SeiChainID :: string
  lc_Endpoints :: "string list"
  lc_Accounts :: "account_config option"
  lc_Scenarios :: "scenario list"
  lc_MockDeploy :: bool
  lc_Settings :: "settings option"
  lc_Funding :: "funding_config option"
  lc_ReportPath :: string
  lc_Seed :: "u64 option"

subsection \<open>Settings\<close>

definition ArrivalModelClosedLoop :: string where "ArrivalModelClosedLoop = ''closed_loop''"
definition ArrivalModelOpenLoop :: string where "ArrivalModelOpenLoop = ''open_loop''"

definition DefaultSettings :: settings where
  "DefaultSettings =
     \<lparr>TPS = 0, StatsInterval = 10 * second, InclusionReapAfter = 30 * second, BufferSize = 1000,
      st_DryRun = False, st_Debug = False, TrackReceipts = False, TrackBlocks = False,
      TrackUserLatency = False, st_Prewarm = False, RampUp = False, st_ReportPath = '''', TxsDir = '''',
      TargetGas = 10000000, NumBlocksToWrite = 100, PostSummaryFlushDelay = 25 * second,
      st_ArrivalModel = ArrivalModelClosedLoop, MaxInFlight = 10000\<rparr>"

definition Settings_Validate :: "settings \<Rightarrow> unit outcome" where
  "Settings_Validate s = (if MaxInFlight s \<le> 0 then Err (Errorf ''MaxInFlight, want > 0'') else Ok ())"

definition TotalQueueSize :: "load_config \<Rightarrow> int outcome" where
  "TotalQueueSize c =
     (case lc_Settings c of
        None \<Rightarrow> Panic ''nil pointer dereference''
      | Some s \<Rightarrow> Ok (i64 (int (length (lc_Endpoints c)) * BufferSize s)))"

definition GetChainID :: "load_config \<Rightarrow> int" where
  "GetChainID c = lc_ChainID c"

subsection \<open>Scenario checks\<close>

definition maxCalldataPadBytes :: int where
  "maxCalldataPadBytes = 131072"

definition maxRecordCount :: u64 where
  "maxRecordCount = 10000000"

fun validate_buckets :: "int list \<Rightarrow> unit outcome" where
  "validate_buckets [] = Ok ()"
| "validate_buckets (n # ns) =
     (if n < 0 then Err (Errorf ''sizeBuckets is negative'')
      else if maxCalldataPadBytes < n then Err (Errorf ''sizeBuckets exceeds the 1 MiB cap'')
      else validate_buckets ns)"

definition Scenario_Validate :: "scenario \<Rightarrow> unit outcome" where
  "Scenario_Validate s =
     obind (validate_buckets (sc_SizeBuckets s)) (\<lambda>_.
       if maxRecordCount < sc_RecordCount s then Err (Errorf ''recordCount exceeds the cap'')
       else if sc_KeyDistribution s \<noteq> None \<and> sc_RecordCount s = 0 then
         Err (Errorf ''keyDistribution is set but recordCount is 0'')
       else if sc_KeyDistribution s = None \<and> sc_RecordCount s \<noteq> 0 then
         Err (Errorf ''recordCount is set but no keyDistribution samples it'')
       else if sc_SizeDistribution s \<noteq> None \<and> length (sc_SizeBuckets s) = 0 then
         Err (Errorf ''sizeDistribution is set but sizeBuckets is empty'')
       else if sc_SizeDistribution s = None \<and> length (sc_SizeBuckets s) \<noteq> 0 then
         Err (Errorf ''sizeBuckets is set but no sizeDistribution samples them'')
       else mix_validate (operationsFor (sc_Name s)) (sc_Operations s))"

fun ValidateScenarios :: "scenario list \<Rightarrow> unit outcome" where
  "ValidateScenarios [] = Ok ()"
| "ValidateScenarios (s # ss) = obind (Scenario_Validate s) (\<lambda>_. ValidateScenarios ss)"

text \<open>What a scenario that passed is good for: both halves of each axis, and weights that select.\<close>

definition axis_ok :: "scenario \<Rightarrow> bool" where
  "axis_ok s \<longleftrightarrow>
     (\<forall>n \<in> set (sc_SizeBuckets s). 0 \<le> n \<and> n \<le> maxCalldataPadBytes) \<and>
     sc_RecordCount s \<le> maxRecordCount \<and>
     (sc_KeyDistribution s = None \<longleftrightarrow> sc_RecordCount s = 0) \<and>
     (sc_SizeDistribution s = None \<longleftrightarrow> sc_SizeBuckets s = [])"

lemma validate_buckets_Ok: "validate_buckets ns = Ok () \<longleftrightarrow> (\<forall>n \<in> set ns. 0 \<le> n \<and> n \<le> maxCalldataPadBytes)"
  by (induction ns) auto

lemma Scenario_Validate_Ok:
  "Scenario_Validate s = Ok () \<longleftrightarrow>
     axis_ok s \<and> mix_validate (operationsFor (sc_Name s)) (sc_Operations s) = Ok ()"
  by (auto simp: Scenario_Validate_def axis_ok_def outcome_simps validate_buckets_Ok not_less
      split: if_splits)

lemma validate_buckets_no_panic: "\<not> panics (validate_buckets ns)"
  by (induction ns) auto

lemma validate_loop_no_panic: "\<not> panics (validate_loop s m names t)"
  by (induction s m names t rule: validate_loop.induct) auto

lemma mix_validate_no_panic: "\<not> panics (mix_validate oset m)"
proof (cases m)
  case (Some kvs)
  show ?thesis
  proof (cases oset)
    case (Some s)
    then show ?thesis using validate_loop_no_panic [of s m "sorted_keys m" 0] \<open>m = Some kvs\<close>
      by (cases "validate_loop s m (sorted_keys m) 0") (simp_all add: mix_validate_def)
  qed (simp add: mix_validate_def Some)
qed (simp add: mix_validate_def)

lemma Scenario_Validate_no_panic: "\<not> panics (Scenario_Validate s)"
  using validate_buckets_no_panic [of "sc_SizeBuckets s"]
    mix_validate_no_panic [of "operationsFor (sc_Name s)" "sc_Operations s"]
  by (cases "validate_buckets (sc_SizeBuckets s)") (auto simp: Scenario_Validate_def)

lemma ValidateScenarios_Ok: "ValidateScenarios ss = Ok () \<longleftrightarrow> (\<forall>s \<in> set ss. Scenario_Validate s = Ok ())"
  by (induction ss) (auto simp: outcome_simps)

lemma ValidateScenarios_first_error:
  "ValidateScenarios ss = Err e \<longleftrightarrow>
     (\<exists>before s after. ss = before @ s # after \<and> (\<forall>b \<in> set before. Scenario_Validate b = Ok ()) \<and>
        Scenario_Validate s = Err e)"
proof (induction ss)
  case (Cons x xs)
  show ?case
  proof (cases "Scenario_Validate x")
    case (Ok u)
    then show ?thesis using Cons
      by (auto simp: Cons_eq_append_conv) (metis append_Cons list.set_intros set_ConsD)+
  next
    case (Err e')
    then show ?thesis by (auto simp: Cons_eq_append_conv) (rule exI [of _ "[]"], simp)
  next
    case (Panic msg)
    then show ?thesis using Scenario_Validate_no_panic [of x] by simp
  qed
qed simp

subsection \<open>Funding\<close>

definition DefaultFundAmountWei :: int where
  "DefaultFundAmountWei = 1000000000000000000"

definition DefaultFundBatchSize :: int where
  "DefaultFundBatchSize = 200"

definition FundAmount :: "funding_config option \<Rightarrow> int" where
  "FundAmount f =
     (case f of None \<Rightarrow> DefaultFundAmountWei
      | Some fc \<Rightarrow> (case FundAmountWei fc of None \<Rightarrow> DefaultFundAmountWei | Some n \<Rightarrow> n))"

definition Batch :: "funding_config option \<Rightarrow> int" where
  "Batch f =
     (case f of None \<Rightarrow> DefaultFundBatchSize
      | Some fc \<Rightarrow> if BatchSize fc \<le> 0 then DefaultFundBatchSize else BatchSize fc)"

lemma Batch_pos: "0 < Batch f"
  by (auto simp: Batch_def DefaultFundBatchSize_def split: option.split)

definition bad_accounts :: "account_config option \<Rightarrow> unit outcome" where
  "bad_accounts a =
     (case a of None \<Rightarrow> Ok ()
      | Some ac \<Rightarrow> if 0 < NewAccountRate ac then Err (Errorf ''funding: requires newAccountRate=0'') else Ok ())"

fun bad_scenarios :: "scenario list \<Rightarrow> unit outcome" where
  "bad_scenarios [] = Ok ()"
| "bad_scenarios (s # ss) = obind (bad_accounts (sc_Accounts s)) (\<lambda>_. bad_scenarios ss)"

definition ValidateFunding :: "load_config \<Rightarrow> unit outcome" where
  "ValidateFunding c =
     (case lc_Funding c of
        None \<Rightarrow> Ok ()
      | Some f \<Rightarrow>
          if RootKeyFile f = '''' \<and> RootKeyEnv f = '''' then
            Err (Errorf ''funding: one of rootKeyFile or rootKeyEnv is required'')
          else obind (bad_accounts (lc_Accounts c)) (\<lambda>_. bad_scenarios (lc_Scenarios c)))"

definition fixed_pool :: "account_config option \<Rightarrow> bool" where
  "fixed_pool a \<longleftrightarrow> (case a of None \<Rightarrow> True | Some ac \<Rightarrow> NewAccountRate ac \<le> 0)"

lemma bad_accounts_Ok: "bad_accounts a = Ok () \<longleftrightarrow> fixed_pool a"
  by (auto simp: bad_accounts_def fixed_pool_def split: option.split)

lemma bad_scenarios_Ok: "bad_scenarios ss = Ok () \<longleftrightarrow> (\<forall>s \<in> set ss. fixed_pool (sc_Accounts s))"
  by (induction ss) (auto simp: outcome_simps bad_accounts_Ok)

lemma ValidateFunding_Ok:
  "ValidateFunding c = Ok () \<longleftrightarrow> (case lc_Funding c of None \<Rightarrow> True
     | Some f \<Rightarrow> (RootKeyFile f \<noteq> '''' \<or> RootKeyEnv f \<noteq> '''') \<and>
         fixed_pool (lc_Accounts c) \<and> (\<forall>s \<in> set (lc_Scenarios c). fixed_pool (sc_Accounts s)))"
  by (auto simp: ValidateFunding_def outcome_simps bad_accounts_Ok bad_scenarios_Ok split: option.split)

end
