(* ===== verification/InputProps.thy ===== *)
theory InputProps
  imports PipelineProps Writer Ramper Config
begin

text \<open>
  The properties of the block writer, of the ramper, of the samplers and pickers that shape the
  load, of the configuration checks and of the client's connections.
\<close>

subsection \<open>The block writer\<close>

text \<open>
  C18. The writer is the greedy packing: if packing the transactions by gas fills at most
  \<open>numBlocks\<close> blocks and no gas sum wraps, every send succeeds, the file of height
  \<open>start + i\<close> holds the payloads of the \<open>i\<close>-th full block in order, and the buffer is the
  open block; the full blocks and the buffer together are the transactions sent, in order,
  and no block exceeds its gas unless a single transaction does.
\<close>

theorem writer_packs:
  assumes "io_ok io" "gas_bounded gas ts" "pack (unat gas) [] [] ts = (blocks, cur)" "length blocks \<le> unat num"
  shows "\<exists>w files. send_all io ts (NewTxsWriter gas dir start num) Map.empty = (None, w, files) \<and>
    (\<forall>i < length blocks. files (start + of_nat i) = Some (map (payload_of io) (blocks ! i))) \<and>
    txBuffer w = cur \<and> concat blocks @ cur = ts \<and> (\<forall>b \<in> set blocks. fits (unat gas) b)"
proof -
  let ?w = "NewTxsWriter gas dir start num"
  have abs: "writer_abs io start [] [] ?w Map.empty"
    by (simp add: writer_abs_def stored_def NewTxsWriter_def fits_def block_gas_def)
  have g: "gasPerBlock ?w = gas" "numBlocks ?w = num" by (simp_all add: NewTxsWriter_def)
  have empty: "\<forall>b \<in> set []. fits (unat gas) b" "fits (unat gas) []" by (simp_all add: fits_def block_gas_def)
  have fit: "\<forall>b \<in> set blocks. fits (unat gas) b" by (rule conjunct1 [OF pack_fits [OF assms(3) empty]])
  have "\<exists>w' files'. send_all io ts ?w Map.empty = (None, w', files') \<and> writer_abs io start blocks cur w' files'"
    by (rule send_all_abs [OF abs assms(1), of ts ts blocks cur, unfolded g, OF assms(2) _ _ assms(3,4)]) simp_all
  then obtain w files where run: "send_all io ts ?w Map.empty = (None, w, files)"
    and post: "writer_abs io start blocks cur w files" by (elim exE conjE)
  have "\<forall>i < length blocks. files (start + of_nat i) = Some (map (payload_of io) (blocks ! i))" "txBuffer w = cur"
    using post by (simp_all add: writer_abs_def stored_def)
  moreover have "concat blocks @ cur = ts" using pack_concat [OF assms(3)] by simp
  ultimately show ?thesis using run fit by (intro exI [of _ w] exI [of _ files]) simp
qed

definition sample_io :: flush_io where
  "sample_io = \<lparr>fi_mkdir = None, fi_marshal = \<lambda>tx. Inr (unat (et_nonce tx)), fi_json = None, fi_write = None\<rparr>"

lemma sample_io_ok: "io_ok sample_io"
  by (simp add: io_ok_def sample_io_def)

lemma sample_gas [simp]: "gas_of (sample_tx a n g) = unat g"
  by (simp add: gas_of_def sample_tx_def NewEnqueuedTx_def sample_eth_def)

theorem writer_packs_witness:
  "\<exists>w files. send_all sample_io [sample_tx 7 0 21000, sample_tx 7 1 21000, sample_tx 7 2 21000]
      (NewTxsWriter 42000 ''/tmp'' 1 3) Map.empty = (None, w, files) \<and>
    files 1 = Some [0, 1] \<and> txBuffer w = [sample_tx 7 2 21000]"
proof -
  let ?txs = "[sample_tx 7 0 21000, sample_tx 7 1 21000, sample_tx 7 2 21000]"
  have g: "gas_bounded 42000 ?txs" by (simp add: gas_bounded_def)
  have p: "pack (unat (42000 :: u64)) [] [] ?txs = ([[sample_tx 7 0 21000, sample_tx 7 1 21000]], [sample_tx 7 2 21000])"
    by (simp add: block_gas_def)
  have "payload_of sample_io (sample_tx 7 n 21000) = unat n" for n
    by (simp add: payload_of_def sample_io_def)
  with writer_packs [OF sample_io_ok g p, of 3 "''/tmp''" 1] show ?thesis by auto
qed

text \<open>
  The limit on blocks is checked after the file is written and before the count goes up:
  a writer for \<open>num\<close> blocks accepts \<open>num\<close> flushes, and only the next one reports the limit,
  having written its file too. So \<open>num + 1\<close> files exist when it stops.
\<close>

lemma writer_limit_off_by_one:
  assumes "io_ok io"
  shows "flush io w files =
    (if blocksGenerated w < numBlocks w then None else Some (Errorf ''reached max number of blocks''),
     flush_deferred w, files(nextHeight w \<mapsto> map (payload_of io) (txBuffer w)))"
  by (simp add: flush_ok [OF assms] not_less)

lemma writer_limit_off_by_one_sample:
  "flush sample_io ((NewTxsWriter 42000 ''/tmp'' 1 1)\<lparr>blocksGenerated := 1, nextHeight := 2\<rparr>) [1 \<mapsto> []] =
     (Some (Errorf ''reached max number of blocks''),
      (NewTxsWriter 42000 ''/tmp'' 1 1)\<lparr>blocksGenerated := 2, nextHeight := 3\<rparr>, [1 \<mapsto> [], 2 \<mapsto> []])"
  by (subst writer_limit_off_by_one [OF sample_io_ok]) (simp add: NewTxsWriter_def flush_deferred_def)

subsection \<open>The ramper\<close>

text \<open>
  C36. Asked at times that do not go back, the step curve is a function of the time alone: the
  start rate plus one increment per completed cycle while loading, and 1 while recovering.
\<close>

theorem ramp_on_target:
  assumes "0 < load" "0 \<le> rec" "load + rec \<le> max_i64" "sorted ts" "\<forall>t \<in> set ts. 0 \<le> t \<and> t \<le> max_i64"
  shows "\<exists>r. ask_curve ts (NewRampCurveStep start inc load rec) = Ok (map (ramp_target start inc load rec) ts, r)"
proof -
  have wf: "wf_curve (NewRampCurveStep start inc load rec)" using assms(1-3) by (rule wf_curve_new)
  have "\<forall>t \<in> set ts. 0 \<le> t \<and> is_i64 t \<and> (0 :: int) \<le> t div (load + rec)"
    using assms(1,2,5) by (auto simp: pos_imp_zdiv_nonneg_iff intro: is_i64_nonneg)
  then show ?thesis
    using ask_curve_target [OF wf assms(4)] by (auto simp: NewRampCurveStep_def)
qed

theorem ramp_on_target_witness:
  "\<exists>r. ask_curve [0, 1000, 2500, 3000] (NewRampCurveStep 50 25 2000 1000) = Ok ([50, 50, 1, 75], r)"
  using ramp_on_target [of 2000 1000 "[0, 1000, 2500, 3000]" 50 25] by (simp add: ramp_target_def)

text \<open>
  As long as its context is not cancelled, a run of the ramper returns only one error, the
  failed objective, and only after a check found the 90th percentile above one second.
\<close>

lemma ramp_fails_only_on_violation:
  assumes "bc_bounded (rm_blocks r)" "ramp_step\<^sup>*\<^sup>* (ramp_start now1 now2 r) s" "rr_ctx s = None"
    "rr_runner s = Returned_err e"
  shows "e = ErrRampTestFailedSLO \<and> rr_violated s"
  using ramp_steps_inv [OF assms(2) ramp_inv_start [OF assms(1)]] assms(3,4) by (auto simp: ramp_inv_def)

definition sample_ramper :: ramper where
  "sample_ramper = NewRamper (NewRampCurveStep 50 25 2000 1000) (NewBlockCollector ''sei'')"

lemma ramp_fails_only_on_violation_sample:
  "\<exists>s. ramp_step\<^sup>*\<^sup>* (ramp_start 0 0 sample_ramper) s \<and> rr_runner s = Returned_err ErrRampTestFailedSLO \<and> rr_violated s"
proof -
  let ?hd = "\<lparr>h_number = 1, h_gas_used = 0\<rparr>"
  let ?s0 = "ramp_start 0 0 sample_ramper"
  define s1 where "s1 = ?s0\<lparr>rr_ramper := (rr_ramper ?s0)\<lparr>rm_blocks := fst (processNewBlock 5 ?hd (rm_blocks (rr_ramper ?s0)))\<rparr>\<rparr>"
  define s2 where "s2 = s1\<lparr>rr_ramper := (rr_ramper s1)\<lparr>rm_blocks := fst (processNewBlock 2000000005 ?hd (rm_blocks (rr_ramper s1)))\<rparr>\<rparr>"
  define s3 where "s3 = s2\<lparr>rr_watcher := Offering, rr_violated := True\<rparr>"
  define s4 where "s4 = slo_failed (s3\<lparr>rr_watcher := Closed\<rparr>)"
  have w: "windowBlockTimes (rm_blocks (rr_ramper s2)) = [2000000000]"
    by (simp add: s2_def s1_def processNewBlock_state ramp_start_def sample_ramper_def NewRamper_def
        NewBlockCollector_def bc_ResetWindowStats_def is_zero_time_def time_sub_def last_n_def)
  have v: "slo_violated (rr_ramper s2)"
    by (simp add: slo_violated_def w GetWindowBlockTimePercentile_def calculatePercentile_def go_div_def i64_def
        signed_divide_int_def)
  have sel: "rr_watcher s2 = Watching" "rr_runner s2 = Looping"
    by (simp_all add: s2_def s1_def ramp_start_def)
  have "ramp_step ?s0 s1" "ramp_step s1 s2" unfolding s1_def s2_def by (rule rs_block)+
  moreover have "ramp_step s2 s3" unfolding s3_def by (rule rs_check [OF sel(1) v])
  moreover have "ramp_step s3 s4" unfolding s4_def by (rule rs_deliver) (simp_all add: s3_def sel)
  ultimately have run: "ramp_step\<^sup>*\<^sup>* ?s0 s4"
    by (meson r_into_rtranclp rtranclp.rtrancl_into_rtrancl)
  have c: "rr_ctx s4 = None" "rr_runner s4 = Returned_err ErrRampTestFailedSLO"
    by (simp_all add: s4_def s3_def s2_def s1_def ramp_start_def slo_failed_def)
  have b: "bc_bounded (rm_blocks sample_ramper)" by (simp add: sample_ramper_def NewRamper_def)
  from ramp_fails_only_on_violation [OF b run c] run c(2) show ?thesis by blast
qed

text \<open>
  A cancelled ramper can report a failed objective that never failed: the watcher closes
  its channel when the context ends, and the runner's receive takes the closed channel for
  the signal of a violation.
\<close>

lemma ramp_failure_on_cancel:
  "\<exists>s. ramp_step\<^sup>*\<^sup>* (ramp_start now1 now2 r) s \<and> rr_ctx s = Some Canceled \<and> \<not> rr_violated s \<and>
     rr_runner s = Returned_err ErrRampTestFailedSLO"
proof -
  let ?s0 = "ramp_start now1 now2 r"
  let ?s1 = "?s0\<lparr>rr_ctx := Some Canceled\<rparr>"
  let ?s2 = "?s1\<lparr>rr_watcher := Closed\<rparr>"
  have "ramp_step ?s0 ?s1" by (rule rs_cancel) (simp add: ramp_start_def)
  moreover have "ramp_step ?s1 ?s2" by (rule rs_watch_done [where e = Canceled]) (simp_all add: ramp_start_def)
  moreover have "ramp_step ?s2 (slo_failed ?s2)" by (rule rs_recv_closed) (simp_all add: ramp_start_def)
  ultimately have "ramp_step\<^sup>*\<^sup>* ?s0 (slo_failed ?s2)"
    by (meson r_into_rtranclp rtranclp.rtrancl_into_rtrancl)
  then show ?thesis
    by (intro exI [of _ "slo_failed ?s2"]) (simp add: slo_failed_def ramp_start_def)
qed

subsection \<open>Samplers and pickers\<close>

text \<open>
  Every configured distribution samples every non-empty keyspace: a sequence of draws
  succeeds, stays in the keyspace, and takes at most one word of randomness per draw.
\<close>

lemma distribution_in_range:
  assumes "decode_distribution name theta = Ok d" "n \<noteq> 0"
  shows "\<exists>ixs d' r'. dist.draws k n d r = Ok (ixs, d', r') \<and> length ixs = k \<and> (\<forall>i \<in> set ixs. i < n) \<and> pos r' \<le> pos r + k"
  using dist.draws_total [OF decode_distribution_ok [OF assms(1)] assms(2), of k r] by blast

definition sample_rng :: rng where
  "sample_rng = \<lparr>tape = \<lambda>i. of_nat (3 * i), pos = 0\<rparr>"

lemma distribution_in_range_sample:
  "\<exists>ixs d' r'. dist.draws 4 10 \<lparr>d_name = ''zipfian'', d_delegate = Some (Zipfian \<lparr>Theta = 1 / 2, z_state = None\<rparr>)\<rparr> sample_rng =
     Ok (ixs, d', r') \<and> (\<forall>i \<in> set ixs. i < 10)"
  using distribution_in_range [of "''zipfian''" "1 / 2" _ 10 4 sample_rng]
  by (force simp: decode_distribution_def zipfian_validate_def)

text \<open>
  The memoised zipfian sampler is the one that recomputes its constants on every draw, and
  with exponent 0 it is the uniform sampler on the same random number.
\<close>

lemma zipfian_memo_and_uniform:
  assumes "zipf_ok z" "n \<noteq> 0"
  shows "map_outcome (\<lambda>(i, z', r'). (i, r')) (zipfian_SampleIndex z r n) =
    map_outcome (\<lambda>(i, z', r'). (i, r')) (zipfian_SampleIndex (z\<lparr>z_state := None\<rparr>) r n) \<and>
    (Theta z = 0 \<longrightarrow> map_outcome fst (zipfian_SampleIndex z r n) =
       Ok (of_int \<lfloor>real (unat n) * of_rat (fst (Float64 r))\<rfloor>))"
proof -
  have "(0 :: real) \<le> of_rat (fst (Float64 r))" "(of_rat (fst (Float64 r)) :: real) < 1"
    using Float64_range [of r] by (simp_all add: zero_le_of_rat_iff of_rat_less_1_iff)
  then show ?thesis
    using zipfian_SampleIndex_Ok [OF assms(2,1), of r] zipfian_SampleIndex_Ok [OF assms(2), of "z\<lparr>z_state := None\<rparr>" r]
      zipf_uniform [OF assms(2)] by (simp add: zipf_ok_def)
qed

lemma zipfian_memo_and_uniform_sample:
  "map_outcome fst (zipfian_SampleIndex \<lparr>Theta = 0, z_state = None\<rparr> \<lparr>tape = \<lambda>i. 2 ^ 52, pos = 0\<rparr> 10) = Ok 5"
  using zipfian_memo_and_uniform [of "\<lparr>Theta = 0, z_state = None\<rparr>" 10 "\<lparr>tape = \<lambda>i. 2 ^ 52, pos = 0\<rparr>"]
  by (simp add: zipf_ok_def Float64_def next_u64_def of_rat_divide)



text \<open>
  A mix of operations is accepted exactly when it is absent, or the scenario has operations,
  every name is one of them, and the weights add up to a positive number below \<open>2^64\<close>.
\<close>

lemma mix_validate_exact:
  assumes "wf_mix m"
  shows "mix_validate oset m = Ok () \<longleftrightarrow> m = None \<or>
    (\<exists>s kvs. oset = Some s \<and> m = Some kvs \<and> fst ` set kvs \<subseteq> os_known s \<and> 0 < mix_total m \<and> mix_total m < 2 ^ 64)"
  by (rule mix_validate_iff [OF assms])

lemma mix_validate_exact_sample:
  "mix_validate (Some StorageRWOperations) (Some [(''write'', 3), (''rmw'', 1)]) = Ok () \<and>
   mix_validate (Some StorageRWOperations) (Some [(''write'', 0)]) \<noteq> Ok ()"
  using mix_validate_exact [of "Some [(''write'', 3), (''rmw'', 1)]" "Some StorageRWOperations"]
    mix_validate_exact [of "Some [(''write'', 0)]" "Some StorageRWOperations"]
  by (simp add: wf_mix_def StorageRWOperations_def OpRmw_def OpRead_def OpWrite_def mix_total_def)

text \<open>
  C30. The weighted draw is exact: of the values a draw can take, each operation is selected by
  as many as its weight says, so an operation of weight 0 never is.
\<close>

theorem select_weight_exact:
  assumes "wf_set s" "wf_mix m" "mix_validate (Some s) m = Ok ()" "name \<in> set (os_names s)"
  shows "\<exists>p. Picker s m = Ok p \<and>
    card {u. u < unat (op_total p) \<and> select_loop (of_nat u) (op_names p) (op_cum p) = Some name} = unat (mix_weight m name)"
proof -
  obtain p where p: "Picker s m = Ok p" "unat (op_total p) = weight_sum m (os_names s)"
    "op_names p = map fst (running m (os_names s) 0)" "op_cum p = map (of_nat \<circ> snd) (running m (os_names s) 0)"
    "weight_sum m (os_names s) < 2 ^ 64"
    using Picker_ok [OF assms(1,3,2)] by blast
  have small: "\<forall>x \<in> set (running m (os_names s) 0). snd x < 2 ^ 64"
    using running_bound [of _ _ m "os_names s" 0] p(5) by fastforce
  have "select_loop (of_nat u) (op_names p) (op_cum p) = pick u (running m (os_names s) 0)"
    if "u < weight_sum m (os_names s)" for u
    using select_loop_pick [OF small, of "of_nat u"] that p(5)
    by (simp add: p(3,4) unat_of_nat take_bit_eq_mod)
  then have "{u. u < unat (op_total p) \<and> select_loop (of_nat u) (op_names p) (op_cum p) = Some name} =
      {u. 0 \<le> u \<and> u < 0 + weight_sum m (os_names s) \<and> pick u (running m (os_names s) 0) = Some name}"
    by (auto simp: p(2))
  moreover have "distinct (os_names s)" using assms(1) by (simp add: wf_set_def)
  ultimately show ?thesis using pick_count [of "os_names s" 0 m name] p(1) assms(4) by simp
qed

theorem select_weight_exact_witness:
  "\<exists>p. Picker StorageRWOperations (Some [(''write'', 3), (''rmw'', 1)]) = Ok p \<and>
     card {u. u < unat (op_total p) \<and> select_loop (of_nat u) (op_names p) (op_cum p) = Some ''write''} = 3"
  using select_weight_exact [of StorageRWOperations "Some [(''write'', 3), (''rmw'', 1)]" "''write''"]
  by (simp add: wf_set_def wf_mix_def StorageRWOperations_def OpRmw_def OpRead_def OpWrite_def mix_validate_def
      sorted_keys_def mix_weight_def)

text \<open>
  An absent or all-zero mix selects the scenario's first operation and takes no randomness
  from the stream.
\<close>

lemma absent_mix_draws_nothing:
  assumes "wf_set s" "\<forall>n \<in> set (os_names s). mix_weight m n = 0" "set (sorted_keys m) \<subseteq> os_known s"
  shows "\<exists>p. Picker s m = Ok p \<and> Select p r = Ok (hd (os_names s), r)"
proof -
  have zero: "weight_sum m names = 0" if "set names \<subseteq> set (os_names s)" for names
    using that assms(2) by (induction names) (auto simp: weight_sum_def)
  have hd: "index_at (os_names s) 0 = Ok (hd (os_names s))"
    using assms(1) by (cases "os_names s") (auto simp: wf_set_def)
  let ?p = "\<lparr>op_names = [], op_cum = [], op_total = 0, op_fallback = hd (os_names s)\<rparr>"
  obtain p where p: "picker_loop m (os_names s) ?p = Ok p" "op_fallback p = hd (os_names s)" "unat (op_total p) = 0"
    using picker_loop_Ok [of ?p m "os_names s"] zero [of "os_names s"] by auto
  have "Picker s m = Ok p" using p(1) hd assms(3) by (simp add: Picker_def iffD2 [OF picker_check_Ok])
  moreover have "op_total p = 0" using p(3) by (simp add: unat_eq_zero)
  ultimately show ?thesis using Select_fallback [of p r] p(2) by simp
qed

lemma absent_mix_sample:
  "\<exists>p. Picker StorageRWOperations None = Ok p \<and> Select p sample_rng = Ok (''rmw'', sample_rng)"
  using absent_mix_draws_nothing [of StorageRWOperations None sample_rng]
  by (simp add: wf_set_def StorageRWOperations_def OpRmw_def OpRead_def OpWrite_def sorted_keys_def mix_weight_def)

subsection \<open>Configuration\<close>

text \<open>
  The scenario check accepts exactly the scenarios whose axes have both halves, whose pads
  are within the cap, whose keyspace is within its cap, and whose mix is valid; it never
  panics.
\<close>

lemma scenario_validate_exact:
  "(Scenario_Validate s = Ok () \<longleftrightarrow>
     (\<forall>n \<in> set (sc_SizeBuckets s). 0 \<le> n \<and> n \<le> 131072) \<and> sc_RecordCount s \<le> 10000000 \<and>
     (sc_KeyDistribution s = None \<longleftrightarrow> sc_RecordCount s = 0) \<and>
     (sc_SizeDistribution s = None \<longleftrightarrow> sc_SizeBuckets s = []) \<and>
     mix_validate (operationsFor (sc_Name s)) (sc_Operations s) = Ok ()) \<and> \<not> panics (Scenario_Validate s)"
  by (auto simp: Scenario_Validate_Ok axis_ok_def maxCalldataPadBytes_def maxRecordCount_def Scenario_Validate_no_panic)

definition sample_scenario :: scenario where
  "sample_scenario = \<lparr>sc_Name = ''StorageRW'', sc_Weight = 1, sc_Accounts = None, sc_GasPicker = None,
     sc_GasFeeCapPicker = None, sc_GasTipCapPicker = None,
     sc_KeyDistribution = Some \<lparr>d_name = ''uniform'', d_delegate = Some Uniform\<rparr>, sc_SizeDistribution = None,
     sc_RecordCount = 100, sc_SizeBuckets = [], sc_Operations = None\<rparr>"

lemma scenario_validate_exact_sample:
  "Scenario_Validate sample_scenario = Ok () \<and> Scenario_Validate (sample_scenario\<lparr>sc_RecordCount := 0\<rparr>) \<noteq> Ok ()"
  using scenario_validate_exact [of sample_scenario] scenario_validate_exact [of "sample_scenario\<lparr>sc_RecordCount := 0\<rparr>"]
  by (simp add: sample_scenario_def mix_validate_def)

subsection \<open>The client\<close>

text \<open>
  If an endpoint cannot be parsed or dialled, exactly the connections opened before it are
  closed again; if all can, there is one connection per endpoint and none is closed.
\<close>

lemma client_closes_on_error:
  "case newEthClient parse dial cfg of
     (Ok cs, shut) \<Rightarrow> shut = [] \<and> length cs = length (Endpoints cfg)
   | (Err e, shut) \<Rightarrow> length shut < length (Endpoints cfg) \<and>
       (\<forall>i < length shut. \<exists>h. dial (Endpoints cfg ! i) h = Inr (shut ! i))
   | (Panic m, shut) \<Rightarrow> False"
proof -
  have np: "fst (dial_all parse dial eps acc) \<noteq> Panic m" for eps acc m
    by (induction parse dial eps acc rule: dial_all.induct) (auto split: sum.split)
  obtain x shut where d: "dial_all parse dial (Endpoints cfg) [] = (x, shut)" by fastforce
  then show ?thesis
    using np [of "Endpoints cfg" "[]"] dial_all_Ok [of parse dial "Endpoints cfg" "[]"]
      dial_all_Err [of parse dial "Endpoints cfg" "[]"]
    by (cases x) (auto simp: newEthClient_def)
qed

lemma client_closes_on_error_sample:
  "snd (newEthClient (\<lambda>ep. Inr ''http'') (\<lambda>ep h. if ep = ''b'' then Inl (Errorf ''refused'') else Inr (ep, h))
     \<lparr>DryRun = False, cc_ChainID = ''sei'', Endpoints = [''a'', ''b'']\<rparr>) = [(''a'', True)] \<and>
   (\<exists>shut. length shut < 2 \<and> shut = [(''a'', True)])"
  using client_closes_on_error [where parse = "\<lambda>ep. Inr ''http''" and
      dial = "\<lambda>ep h. if ep = ''b'' then Inl (Errorf ''refused'') else Inr (ep, h)" and
      cfg = "\<lparr>DryRun = False, cc_ChainID = ''sei'', Endpoints = [''a'', ''b'']\<rparr>"]
  by (simp add: newEthClient_def)


end
