(* ===== verification/AccountPool.thy ===== *)
theory AccountPool
  imports Types Rng
begin

text \<open>
  The pool a scenario draws its senders and receivers from (\<open>types/account_pool.go\<close>): a
  round-robin over fixed accounts, with fresh accounts mixed in at a configured rate. The keys
  of fresh accounts come from the operating system: a stream of the keys still to be drawn.
\<close>

type_synonym key_stream = "nat \<Rightarrow> priv_key"

record account_pool =
  newAccountRate :: rat
  ap_accounts :: "account list"
  ap_idx :: int

definition NewAccountPool ::
  "(priv_key \<Rightarrow> address) \<Rightarrow> int \<Rightarrow> rat \<Rightarrow> key_stream \<Rightarrow> (account_pool \<times> key_stream) outcome" where
  "NewAccountPool pk sz rate keys =
     (if sz < 0 then Panic ''makeslice: len out of range''
      else case GenerateAccounts pk (nat sz) True keys of
        (as, keys') \<Rightarrow> Ok (\<lparr>newAccountRate = rate, ap_accounts = as, ap_idx = 0\<rparr>, keys'))"

definition nextIndex :: "account_pool \<Rightarrow> (int \<times> account_pool) outcome" where
  "nextIndex a =
     obind (go_mod (i64 (ap_idx a + 1)) (int (length (ap_accounts a)))) (\<lambda>i. Ok (i, a\<lparr>ap_idx := i\<rparr>))"

definition NextAccount ::
  "(priv_key \<Rightarrow> address) \<Rightarrow> account_pool \<Rightarrow> rng \<Rightarrow> key_stream \<Rightarrow>
     (account \<times> account_pool \<times> rng \<times> key_stream) outcome" where
  "NextAccount pk a r keys =
     (let (fresh, r) =
        (if 0 < newAccountRate a then case Float64 r of (f, r) \<Rightarrow> (f \<le> newAccountRate a, r) else (False, r))
      in if fresh then case NewAccount pk False keys of (acc, keys) \<Rightarrow> Ok (acc, a, r, keys)
         else obind (nextIndex a) (\<lambda>(i, a).
                obind (index_at (ap_accounts a) i) (\<lambda>acc. Ok (acc, a, r, keys))))"

definition Accounts :: "account_pool \<Rightarrow> account list" where
  "Accounts a = ap_accounts a"

subsection \<open>Round-robin\<close>

text \<open>A pool in use: some account, and a position within the accounts.\<close>

definition pool_ok :: "account_pool \<Rightarrow> bool" where
  "pool_ok a \<longleftrightarrow> ap_accounts a \<noteq> [] \<and> int (length (ap_accounts a)) \<le> max_i64 \<and>
     0 \<le> ap_idx a \<and> ap_idx a < int (length (ap_accounts a))"

definition pool_next :: "account_pool \<Rightarrow> int" where
  "pool_next a = (ap_idx a + 1) mod int (length (ap_accounts a))"

lemma pool_next_range: "pool_ok a \<Longrightarrow> 0 \<le> pool_next a \<and> pool_next a < int (length (ap_accounts a))"
  by (simp add: pool_ok_def pool_next_def)

lemma nextIndex_Ok: "pool_ok a \<Longrightarrow> nextIndex a = Ok (pool_next a, a\<lparr>ap_idx := pool_next a\<rparr>)"
  unfolding nextIndex_def pool_next_def pool_ok_def
  by (simp add: i64_id is_i64_def go_mod_pos)

lemma pool_ok_next: "pool_ok a \<Longrightarrow> pool_ok (a\<lparr>ap_idx := pool_next a\<rparr>)"
  using pool_next_range [of a] by (simp add: pool_ok_def)

lemma NewAccountPool_ok:
  assumes "0 < sz" "sz \<le> max_i64"
  shows "\<exists>a keys'. NewAccountPool pk sz rate keys = Ok (a, keys') \<and> pool_ok a \<and>
    newAccountRate a = rate \<and> int (length (ap_accounts a)) = sz \<and> (\<forall>acc \<in> set (ap_accounts a). acc_tracked acc)"
proof -
  obtain as keys' where g: "GenerateAccounts pk (nat sz) True keys = (as, keys')" by fastforce
  then have "length as = nat sz" "\<forall>acc \<in> set as. acc_tracked acc"
    using GenerateAccounts_length [of pk "nat sz" True keys] GenerateAccounts_tracked [of _ pk "nat sz" True keys]
    by simp_all
  moreover have "nat sz \<le> 9223372036854775807" "as \<noteq> []" using assms \<open>length as = nat sz\<close> by auto
  ultimately show ?thesis using assms g by (simp add: NewAccountPool_def pool_ok_def)
qed

text \<open>
  The draw in closed form: a fresh untracked account, or the next of the round-robin. It takes
  one word of randomness exactly when the pool has a rate.
\<close>

lemma NextAccount_cases:
  assumes "pool_ok a"
  shows "NextAccount pk a r keys =
    (if 0 < newAccountRate a \<and> fst (Float64 r) \<le> newAccountRate a
     then Ok (AccountFromKey pk (keys 0) False, a, snd (Float64 r), \<lambda>i. keys (Suc i))
     else Ok (ap_accounts a ! nat (pool_next a), a\<lparr>ap_idx := pool_next a\<rparr>,
              if 0 < newAccountRate a then snd (Float64 r) else r, keys))"
  using nextIndex_Ok [OF assms] pool_next_range [OF assms]
  by (cases "Float64 r") (auto simp: NextAccount_def NewAccount_def Let_def)

lemma NextAccount_total: "pool_ok a \<Longrightarrow> \<exists>acc a' r' keys'. NextAccount pk a r keys = Ok (acc, a', r', keys') \<and> pool_ok a'"
  using NextAccount_cases [of a pk r keys] pool_ok_next [of a] by (auto split: if_splits)

text \<open>A pool of no accounts panics, unless its rate makes every account a fresh one.\<close>

lemma NextAccount_empty:
  assumes "ap_accounts a = []"
  shows "panics (NextAccount pk a r keys) \<longleftrightarrow> \<not> (0 < newAccountRate a \<and> fst (Float64 r) \<le> newAccountRate a)"
  by (cases "Float64 r") (auto simp: NextAccount_def Let_def assms nextIndex_def go_mod_def NewAccount_def)

text \<open>
  Several draws in a row, and what they are for a pool without a rate: position by position
  around the accounts, taking no randomness and no keys.
\<close>

fun next_accounts ::
  "(priv_key \<Rightarrow> address) \<Rightarrow> nat \<Rightarrow> account_pool \<Rightarrow> rng \<Rightarrow> key_stream \<Rightarrow>
     (account list \<times> account_pool \<times> rng \<times> key_stream) outcome" where
  "next_accounts pk 0 a r keys = Ok ([], a, r, keys)"
| "next_accounts pk (Suc k) a r keys =
     obind (NextAccount pk a r keys) (\<lambda>(acc, a, r, keys).
       obind (next_accounts pk k a r keys) (\<lambda>(accs, a, r, keys). Ok (acc # accs, a, r, keys)))"

definition turn :: "account_pool \<Rightarrow> nat \<Rightarrow> account" where
  "turn a i = ap_accounts a ! nat ((ap_idx a + 1 + int i) mod int (length (ap_accounts a)))"

lemma turn_0: "turn a 0 = ap_accounts a ! nat (pool_next a)"
  by (simp add: turn_def pool_next_def)

lemma turn_Suc: "turn (a\<lparr>ap_idx := pool_next a\<rparr>) i = turn a (Suc i)"
proof -
  let ?n = "int (length (ap_accounts a))"
  have "((ap_idx a + 1) mod ?n + (1 + int i)) mod ?n = (ap_idx a + 1 + (1 + int i)) mod ?n"
    by (rule mod_add_left_eq)
  then show ?thesis by (simp add: turn_def pool_next_def algebra_simps)
qed

lemma pool_next_step:
  "(pool_next a + int k) mod int (length (ap_accounts a)) = (ap_idx a + int (Suc k)) mod int (length (ap_accounts a))"
  unfolding pool_next_def by (simp add: mod_simps algebra_simps)

lemma next_accounts_turns:
  assumes "pool_ok a" "newAccountRate a \<le> 0"
  shows "next_accounts pk k a r keys =
    Ok (map (turn a) [0..<k], a\<lparr>ap_idx := (ap_idx a + int k) mod int (length (ap_accounts a))\<rparr>, r, keys)"
  using assms
proof (induction k arbitrary: a)
  case 0
  then show ?case by (simp add: pool_ok_def)
next
  case (Suc k)
  let ?a = "a\<lparr>ap_idx := pool_next a\<rparr>"
  have "NextAccount pk a r keys = Ok (turn a 0, ?a, r, keys)"
    using NextAccount_cases [OF Suc.prems(1)] Suc.prems(2) by (simp add: turn_0)
  moreover have "next_accounts pk k ?a r keys = Ok (map (\<lambda>i. turn a (Suc i)) [0..<k],
      a\<lparr>ap_idx := (ap_idx a + int (Suc k)) mod int (length (ap_accounts a))\<rparr>, r, keys)"
    using Suc.IH [OF pool_ok_next [OF Suc.prems(1)]] Suc.prems(2)
    by (simp add: turn_Suc pool_next_step del: of_nat_Suc)
  moreover have "map (turn a) [0..<Suc k] = turn a 0 # map (\<lambda>i. turn a (Suc i)) [0..<k]"
    by (simp add: map_upt_Suc del: upt_Suc)
  ultimately show ?case by simp
qed

text \<open>In as many draws as it has accounts, the pool hands out each of them once.\<close>

lemma nat_mod_shift: "0 \<le> c \<Longrightarrow> nat ((c + int i) mod int n) = (nat c + i) mod n"
  by (simp add: nat_mod_as_int [symmetric] nat_mod_distrib nat_add_distrib)

lemma rotate_as_map: "map (\<lambda>i. xs ! ((m + i) mod length xs)) [0..<length xs] = rotate m xs"
proof (rule nth_equalityI)
  fix i
  assume "i < length (map (\<lambda>i. xs ! ((m + i) mod length xs)) [0..<length xs])"
  then show "map (\<lambda>i. xs ! ((m + i) mod length xs)) [0..<length xs] ! i = rotate m xs ! i"
    by (simp add: nth_rotate add.commute)
qed simp

lemma turns_rotate:
  assumes "pool_ok a"
  shows "map (turn a) [0..<length (ap_accounts a)] = rotate (nat (ap_idx a + 1)) (ap_accounts a)"
proof -
  have "turn a i = ap_accounts a ! ((nat (ap_idx a + 1) + i) mod length (ap_accounts a))" for i
    using assms nat_mod_shift [of "ap_idx a + 1" i "length (ap_accounts a)"] by (simp add: turn_def pool_ok_def)
  then have "turn a = (\<lambda>i. ap_accounts a ! ((nat (ap_idx a + 1) + i) mod length (ap_accounts a)))" ..
  then show ?thesis by (simp only: rotate_as_map)
qed

text \<open>
  A generator that draws a sender and a receiver in turn from a pool of even size sees only
  the accounts of one parity as senders.
\<close>

lemma even_pool_parity:
  assumes "pool_ok a" "even (length (ap_accounts a))"
  shows "turn a (2 * i) \<in> {ap_accounts a ! j | j. j < length (ap_accounts a) \<and> odd (int j + ap_idx a)}"
proof -
  let ?n = "int (length (ap_accounts a))" and ?j = "nat ((ap_idx a + 1 + int (2 * i)) mod int (length (ap_accounts a)))"
  have n: "0 < ?n" using assms(1) by (simp add: pool_ok_def)
  then have j: "int ?j = (ap_idx a + 1 + int (2 * i)) mod ?n" by simp
  have "even ?n" using assms(2) by simp
  then have "even ((ap_idx a + 1 + int (2 * i)) mod ?n) = even (ap_idx a + 1 + int (2 * i))"
    by (simp add: dvd_mod_iff)
  then have "odd (int ?j + ap_idx a)" unfolding j by simp
  moreover have "?j < length (ap_accounts a)" using j n by (metis of_nat_less_iff pos_mod_bound)
  ultimately show ?thesis unfolding turn_def by (intro CollectI exI [of _ ?j] conjI refl)
qed

end
