(* ===== verification/Scenarios.thy ===== *)
theory Scenarios
  imports AccountPool Config Budget
begin

text \<open>
  The scenarios (\<open>generator/scenarios\<close>) and the transact options they are built from
  (\<open>generator/utils\<close>). go-ethereum and the node are the fields of
  \<open>chain_env\<close>; a bound contract is the address it is bound to.
\<close>

subsection \<open>Options\<close>

record transact_opts =
  o_from :: address
  o_nonce :: "u64 option"
  o_no_send :: bool
  o_value :: int
  o_gas_limit :: u64
  o_tip_cap :: int
  o_fee_cap :: int
  o_signer :: "address \<Rightarrow> eth_tx \<Rightarrow> go_error + eth_tx"

text \<open>
  \<open>ce_transactor\<close> is \<open>bind.NewKeyedTransactorWithChainID\<close>, \<open>ce_dial\<close> the error of dialling an endpoint,
  \<open>ce_bind\<close> that of binding a contract, \<open>ce_transact\<close> the \<open>Transact\<close> of a bound contract,
  \<open>ce_deploy\<close> the sending of a contract creation, \<open>ce_mined\<close> the wait for its receipt: whether
  it succeeded.
\<close>

record chain_env =
  ce_pubkey :: "priv_key \<Rightarrow> address"
  ce_transactor :: "priv_key option \<Rightarrow> int \<Rightarrow> transact_opts outcome"
  ce_dial :: "string \<Rightarrow> go_error option"
  ce_bind :: "string \<Rightarrow> address \<Rightarrow> go_error option"
  ce_transact :: "transact_opts \<Rightarrow> address \<Rightarrow> calldata \<Rightarrow> eth_tx outcome"
  ce_deploy :: "string \<Rightarrow> abi_arg list \<Rightarrow> transact_opts \<Rightarrow> go_error + address \<times> nat"
  ce_mined :: "nat \<Rightarrow> go_error + bool"

definition deployGasLimit :: u64 where "deployGasLimit = 3000000"
definition txGasLimit :: u64 where "txGasLimit = 200000"
definition gasTipCapWei :: int where "gasTipCapWei = 2000000000"
definition gasFeeCapWei :: int where "gasFeeCapWei = 20000000000"
definition deployGasFeeCapWei :: int where "deployGasFeeCapWei = 100000000000"

definition CreateDeploymentOpts :: "chain_env \<Rightarrow> int \<Rightarrow> account \<Rightarrow> transact_opts outcome" where
  "CreateDeploymentOpts env chainID acc =
     obind (ce_transactor env (acc_priv acc) chainID) (\<lambda>auth.
       Ok (auth\<lparr>o_gas_limit := deployGasLimit, o_tip_cap := gasTipCapWei, o_fee_cap := deployGasFeeCapWei\<rparr>))"

definition CreateTransactionOpts :: "chain_env \<Rightarrow> int \<Rightarrow> tx_scenario \<Rightarrow> transact_opts outcome" where
  "CreateTransactionOpts env chainID sc =
     (case ce_transactor env (acc_priv (ts_sender sc)) chainID of
        Err e \<Rightarrow> Panic ''Failed to create transaction options''
      | Panic m \<Rightarrow> Panic m
      | Ok auth \<Rightarrow>
          Ok (auth\<lparr>o_nonce := Some (ts_nonce sc), o_no_send := True, o_gas_limit := txGasLimit,
                   o_tip_cap := gasTipCapWei, o_fee_cap := gasFeeCapWei,
                   o_signer := \<lambda>address tx. if address \<noteq> acc_address (ts_sender sc)
                                            then Inl (External ''not authorized to sign this account'') else Inr tx\<rparr>))"

subsection \<open>State of a scenario\<close>

datatype scenario_impl =
    EVMTransferScenario
  | EVMTransferFastScenario
  | EVMTransferNoopScenario
  | DisperseScenario "address option" account_pool
  | ERC20ConflictScenario "address option"
  | ERC20NoopScenario "address option"
  | ERC20Scenario "address option"
  | ERC721Scenario "address option" int
  | StorageRWScenario "address option" operation_picker

record tx_generator =
  tg_config :: "load_config option"
  tg_deployed :: bool
  tg_address :: address
  tg_scenario :: scenario
  tg_impl :: scenario_impl

fun scenario_Name :: "scenario_impl \<Rightarrow> string" where
  "scenario_Name EVMTransferScenario = ''evmtransfer''"
| "scenario_Name EVMTransferFastScenario = ''evmtransferfast''"
| "scenario_Name EVMTransferNoopScenario = ''evmtransfernoop''"
| "scenario_Name (DisperseScenario c p) = ''disperse''"
| "scenario_Name (ERC20ConflictScenario c) = ''erc20conflict''"
| "scenario_Name (ERC20NoopScenario c) = ''erc20noop''"
| "scenario_Name (ERC20Scenario c) = ''erc20''"
| "scenario_Name (ERC721Scenario c n) = ''erc721''"
| "scenario_Name (StorageRWScenario c p) = ''storagerw''"

fun scenario_Operation :: "scenario_impl \<Rightarrow> string" where
  "scenario_Operation EVMTransferScenario = OpTransfer"
| "scenario_Operation EVMTransferFastScenario = OpTransfer"
| "scenario_Operation EVMTransferNoopScenario = OpSelfTransfer"
| "scenario_Operation (DisperseScenario c p) = OpDisperseEther"
| "scenario_Operation (ERC20ConflictScenario c) = OpERC20Transfer"
| "scenario_Operation (ERC20NoopScenario c) = OpERC20Transfer"
| "scenario_Operation (ERC20Scenario c) = OpERC20Transfer"
| "scenario_Operation (ERC721Scenario c n) = OpERC721Mint"
| "scenario_Operation (StorageRWScenario c p) = OpRmw"

fun SetContract :: "address option \<Rightarrow> scenario_impl \<Rightarrow> scenario_impl" where
  "SetContract c (DisperseScenario _ p) = DisperseScenario c p"
| "SetContract c (ERC20ConflictScenario _) = ERC20ConflictScenario c"
| "SetContract c (ERC20NoopScenario _) = ERC20NoopScenario c"
| "SetContract c (ERC20Scenario _) = ERC20Scenario c"
| "SetContract c (ERC721Scenario _ n) = ERC721Scenario c n"
| "SetContract c (StorageRWScenario _ p) = StorageRWScenario c p"
| "SetContract c impl = impl"

text \<open>The contract a scenario deploys, with its constructor arguments.\<close>

fun contract_of :: "scenario_impl \<Rightarrow> (string \<times> abi_arg list) option" where
  "contract_of (DisperseScenario c p) = Some (''Disperse'', [ArgInt 1, ArgInt 1])"
| "contract_of (ERC20ConflictScenario c) = Some (''ERC20Conflict'', [ArgString ''ConflictToken'', ArgString ''CT''])"
| "contract_of (ERC20NoopScenario c) = Some (''ERC20Noop'', [ArgString ''NoopToken'', ArgString ''NT''])"
| "contract_of (ERC20Scenario c) = Some (''ERC20'', [ArgString ''LoadToken'', ArgString ''LT''])"
| "contract_of (ERC721Scenario c n) = Some (''ERC721'', [])"
| "contract_of (StorageRWScenario c p) = Some (''StorageRWv1'', [])"
| "contract_of impl = None"

fun bound_to :: "scenario_impl \<Rightarrow> address option" where
  "bound_to (DisperseScenario c p) = c"
| "bound_to (ERC20ConflictScenario c) = c"
| "bound_to (ERC20NoopScenario c) = c"
| "bound_to (ERC20Scenario c) = c"
| "bound_to (ERC721Scenario c n) = c"
| "bound_to (StorageRWScenario c p) = c"
| "bound_to impl = None"

definition NewScenarioBase :: "scenario_impl \<Rightarrow> scenario \<Rightarrow> tx_generator" where
  "NewScenarioBase impl cfg =
     \<lparr>tg_config = None, tg_deployed = False, tg_address = 0, tg_scenario = cfg, tg_impl = impl\<rparr>"

text \<open>The factory: a panic for an unknown name, and for a mix the scenario cannot select from.\<close>

definition NewDisperseScenario :: "chain_env \<Rightarrow> scenario \<Rightarrow> key_stream \<Rightarrow> (tx_generator \<times> key_stream) outcome" where
  "NewDisperseScenario env cfg keys =
     obind (NewAccountPool (ce_pubkey env) 0 1 keys) (\<lambda>(pool, keys).
       Ok (NewScenarioBase (DisperseScenario None pool) cfg, keys))"

definition NewStorageRWScenario :: "scenario \<Rightarrow> tx_generator outcome" where
  "NewStorageRWScenario cfg =
     obind (Picker StorageRWOperations (sc_Operations cfg)) (\<lambda>p.
       Ok (NewScenarioBase (StorageRWScenario None p) cfg))"

definition CreateScenario :: "chain_env \<Rightarrow> scenario \<Rightarrow> key_stream \<Rightarrow> (tx_generator \<times> key_stream) outcome" where
  "CreateScenario env cfg keys =
     (let name = to_lower (sc_Name cfg);
          simple = (\<lambda>impl. Ok (NewScenarioBase impl cfg, keys))
      in if name = ''evmtransfer'' then simple EVMTransferScenario
         else if name = ''evmtransferfast'' then simple EVMTransferFastScenario
         else if name = ''evmtransfernoop'' then simple EVMTransferNoopScenario
         else if name = ''disperse'' then NewDisperseScenario env cfg keys
         else if name = ''erc20conflict'' then simple (ERC20ConflictScenario None)
         else if name = ''erc20noop'' then simple (ERC20NoopScenario None)
         else if name = ''erc20'' then simple (ERC20Scenario None)
         else if name = ''erc721'' then simple (ERC721Scenario None 0)
         else if name = ''storagerw'' then obind (NewStorageRWScenario cfg) (\<lambda>g. Ok (g, keys))
         else Panic ''Unknown scenario'')"

subsection \<open>Attaching and deploying\<close>

definition dial :: "chain_env \<Rightarrow> load_config \<Rightarrow> go_error option" where
  "dial env cfg = (case lc_Endpoints cfg of [] \<Rightarrow> None | ep # _ \<Rightarrow> ce_dial env ep)"

definition AttachScenario ::
  "chain_env \<Rightarrow> load_config \<Rightarrow> address \<Rightarrow> scenario_impl \<Rightarrow> (address \<times> scenario_impl) outcome" where
  "AttachScenario env cfg address impl =
     (case contract_of impl of
        None \<Rightarrow> Ok (0, impl)
      | Some (name, args) \<Rightarrow>
          (case dial env cfg of
             Some e \<Rightarrow> Panic ''Failed to connect to Ethereum client''
           | None \<Rightarrow>
               (case ce_bind env name address of
                  Some e \<Rightarrow> Panic ''Failed to bind contract''
                | None \<Rightarrow> Ok (address, SetContract (Some address) impl))))"

definition base_Attach :: "chain_env \<Rightarrow> load_config \<Rightarrow> address \<Rightarrow> tx_generator \<Rightarrow> tx_generator outcome" where
  "base_Attach env cfg address g =
     obind (AttachScenario env cfg address (tg_impl g)) (\<lambda>(a, impl).
       Ok (g\<lparr>tg_config := Some cfg, tg_address := a, tg_deployed := True, tg_impl := impl\<rparr>))"

text \<open>
  The contract scenarios bind once more after the base did. The state is returned with an
  error too: the base has marked the scenario ready by then.
\<close>

definition rebind :: "chain_env \<Rightarrow> string \<Rightarrow> address \<Rightarrow> tx_generator \<Rightarrow> go_error option \<times> tx_generator" where
  "rebind env name address g =
     (case ce_bind env name address of
        Some e \<Rightarrow> (Some e, g\<lparr>tg_impl := SetContract None (tg_impl g)\<rparr>)
      | None \<Rightarrow> (None, g\<lparr>tg_impl := SetContract (Some address) (tg_impl g)\<rparr>))"

definition Attach ::
  "chain_env \<Rightarrow> load_config \<Rightarrow> address \<Rightarrow> tx_generator \<Rightarrow> (go_error option \<times> tx_generator) outcome" where
  "Attach env cfg address g =
     obind (base_Attach env cfg address g) (\<lambda>g.
       case contract_of (tg_impl g) of
         None \<Rightarrow> Ok (None, g)
       | Some (name, args) \<Rightarrow>
           if lc_MockDeploy cfg then Ok (rebind env name address g)
           else obind (index_at (lc_Endpoints cfg) 0) (\<lambda>ep.
                  case ce_dial env ep of
                    Some e \<Rightarrow> Ok (Some e, g)
                  | None \<Rightarrow> Ok (rebind env name address g)))"

definition failedDeployment :: go_error where
  "failedDeployment = Errorf ''deployment transaction failed''"

definition deployWithin ::
  "chain_env \<Rightarrow> load_config \<Rightarrow> account \<Rightarrow> string \<Rightarrow> abi_arg list \<Rightarrow> scenario_impl \<Rightarrow> (address \<times> scenario_impl) outcome" where
  "deployWithin env cfg deployer name args impl =
     (case dial env cfg of
        Some e \<Rightarrow> Err (Wrap ''dial'' e)
      | None \<Rightarrow>
          obind (omap_err (Wrap ''deployment options'') (CreateDeploymentOpts env (GetChainID cfg) deployer)) (\<lambda>auth.
            case ce_deploy env name args auth of
              Inl e \<Rightarrow> Err (Wrap ''send deployment'' e)
            | Inr (address, tx) \<Rightarrow>
                (case ce_mined env tx of
                   Inl e \<Rightarrow> Err (Wrap ''wait for deployment'' e)
                 | Inr success \<Rightarrow>
                     if \<not> success then Err failedDeployment
                     else case ce_bind env name address of
                            Some e \<Rightarrow> Err (Wrap ''bind contract'' e)
                          | None \<Rightarrow> Ok (address, SetContract (Some address) impl))))"

text \<open>\<open>ctx\<close> and \<open>expired\<close> are the state of the run's context and of the deployment's budget at its end.\<close>

definition DeployScenario ::
  "chain_env \<Rightarrow> go_error option \<Rightarrow> bool \<Rightarrow> load_config \<Rightarrow> account \<Rightarrow> scenario_impl \<Rightarrow> (address \<times> scenario_impl) outcome" where
  "DeployScenario env ctx expired cfg deployer impl =
     (case contract_of impl of
        None \<Rightarrow> Ok (0, impl)
      | Some (name, args) \<Rightarrow>
          WithinBudget ctx expired ''deployment'' (deployWithin env cfg deployer name args impl))"

definition Deploy ::
  "chain_env \<Rightarrow> go_error option \<Rightarrow> bool \<Rightarrow> load_config \<Rightarrow> account \<Rightarrow> tx_generator \<Rightarrow> address outcome \<times> tx_generator" where
  "Deploy env ctx expired cfg deployer g =
     (let g = g\<lparr>tg_config := Some cfg\<rparr>
      in case DeployScenario env ctx expired cfg deployer (tg_impl g) of
           Err e \<Rightarrow> (Err e, g)
         | Panic m \<Rightarrow> (Panic m, g)
         | Ok (address, impl) \<Rightarrow>
             (Ok address, g\<lparr>tg_address := address, tg_deployed := True, tg_impl := impl\<rparr>))"

end
