(* ===== verification/TxBuild.thy ===== *)
theory TxBuild
  imports Scenarios
begin

text \<open>
  How a scenario shapes one transaction (the \<open>CreateTransaction\<close> and \<open>CreateContractTransaction\<close>
  methods of \<open>generator/scenarios\<close>, and \<open>Generate\<close> of the base). A call takes the randomness and
  the keys it needs and returns what is left of them, with the scenario's new state.
\<close>

subsection \<open>Plain transfers\<close>

definition pick_gas :: "gas_picker option \<Rightarrow> u64 \<Rightarrow> rng \<Rightarrow> (u64 \<times> rng) outcome" where
  "pick_gas picker gas r = (case picker of None \<Rightarrow> Ok (gas, r) | Some p \<Rightarrow> GenerateGas p r)"

definition pick_cap :: "gas_picker option \<Rightarrow> int \<Rightarrow> rng \<Rightarrow> (int \<times> rng) outcome" where
  "pick_cap picker cap r =
     (case picker of
        None \<Rightarrow> Ok (cap, r)
      | Some p \<Rightarrow> obind (GenerateGas p r) (\<lambda>(v, r). Ok (sint v, r)))"

definition price_tx :: "scenario \<Rightarrow> eth_tx \<Rightarrow> rng \<Rightarrow> (eth_tx \<times> rng) outcome" where
  "price_tx cfg tx r =
     obind (pick_gas (sc_GasPicker cfg) (et_gas tx) r) (\<lambda>(gas, r).
       obind (pick_cap (sc_GasTipCapPicker cfg) (et_tip_cap tx) r) (\<lambda>(tip, r).
         obind (pick_cap (sc_GasFeeCapPicker cfg) (et_fee_cap tx) r) (\<lambda>(fee, r).
           Ok (tx\<lparr>et_gas := gas, et_tip_cap := tip, et_fee_cap := fee\<rparr>, r))))"

text \<open>\<open>unix\<close> is the clock in seconds: a timed transfer carries it as its value.\<close>

definition EVMTransfer_CreateTransaction :: "int \<Rightarrow> scenario \<Rightarrow> tx_scenario \<Rightarrow> rng \<Rightarrow> (eth_tx \<times> rng) outcome" where
  "EVMTransfer_CreateTransaction unix cfg sc r =
     price_tx cfg \<lparr>et_nonce = ts_nonce sc, et_to = Some (ts_receiver sc), et_amount = unix, et_gas = 21000,
       et_tip_cap = 2000000000, et_fee_cap = 200000000000, et_data = NoData, et_signed_by = None\<rparr> r"

definition EVMTransferFast_CreateTransaction :: "scenario \<Rightarrow> tx_scenario \<Rightarrow> rng \<Rightarrow> (eth_tx \<times> rng) outcome" where
  "EVMTransferFast_CreateTransaction cfg sc r =
     price_tx cfg \<lparr>et_nonce = ts_nonce sc, et_to = Some (ts_receiver sc), et_amount = 1000000000000, et_gas = 21000,
       et_tip_cap = 0, et_fee_cap = 200000000000, et_data = NoData, et_signed_by = None\<rparr> r"

definition EVMTransferNoop_CreateTransaction :: "scenario \<Rightarrow> tx_scenario \<Rightarrow> rng \<Rightarrow> (eth_tx \<times> rng) outcome" where
  "EVMTransferNoop_CreateTransaction cfg sc r =
     price_tx cfg \<lparr>et_nonce = ts_nonce sc, et_to = Some (acc_address (ts_sender sc)), et_amount = 0, et_gas = 21000,
       et_tip_cap = 2000000000, et_fee_cap = 20000000000, et_data = NoData, et_signed_by = None\<rparr> r"

subsection \<open>Contract calls\<close>

text \<open>A method of a bound contract; the binding is a nil pointer until the scenario is attached.\<close>

definition transact :: "chain_env \<Rightarrow> address option \<Rightarrow> transact_opts \<Rightarrow> calldata \<Rightarrow> eth_tx outcome" where
  "transact env contract auth data =
     (case contract of None \<Rightarrow> Panic ''nil pointer dereference'' | Some a \<Rightarrow> ce_transact env auth a data)"

definition ERC20_CreateContractTransaction ::
  "chain_env \<Rightarrow> address option \<Rightarrow> transact_opts \<Rightarrow> tx_scenario \<Rightarrow> eth_tx outcome" where
  "ERC20_CreateContractTransaction env c auth sc =
     transact env c (auth\<lparr>o_gas_limit := 72156\<rparr>) (Call ''transfer'' [ArgAddress (ts_receiver sc), ArgInt 1])"

definition ERC20Noop_CreateContractTransaction ::
  "chain_env \<Rightarrow> address option \<Rightarrow> transact_opts \<Rightarrow> tx_scenario \<Rightarrow> eth_tx outcome" where
  "ERC20Noop_CreateContractTransaction env c auth sc =
     transact env c (auth\<lparr>o_gas_limit := 22460\<rparr>) (Call ''transfer'' [ArgAddress (ts_receiver sc), ArgInt 1])"

definition ERC20Conflict_CreateContractTransaction ::
  "chain_env \<Rightarrow> address option \<Rightarrow> transact_opts \<Rightarrow> tx_scenario \<Rightarrow> eth_tx outcome" where
  "ERC20Conflict_CreateContractTransaction env c auth sc =
     transact env c (auth\<lparr>o_gas_limit := 22460\<rparr>) (Call ''transfer'' [ArgAddress (ts_receiver sc), ArgInt 1])"

definition ERC721_CreateContractTransaction ::
  "chain_env \<Rightarrow> address option \<Rightarrow> int \<Rightarrow> transact_opts \<Rightarrow> tx_scenario \<Rightarrow> (eth_tx \<times> int) outcome" where
  "ERC721_CreateContractTransaction env c n auth sc =
     (let n = i64 (n + 1)
      in obind (transact env c (auth\<lparr>o_gas_limit := 22460\<rparr>) (Call ''mint'' [ArgAddress (ts_receiver sc), ArgInt n]))
           (\<lambda>tx. Ok (tx, n)))"

definition Disperse_CreateContractTransaction ::
  "chain_env \<Rightarrow> address option \<Rightarrow> account_pool \<Rightarrow> transact_opts \<Rightarrow> rng \<Rightarrow> key_stream \<Rightarrow>
     (eth_tx \<times> account_pool \<times> rng \<times> key_stream) outcome" where
  "Disperse_CreateContractTransaction env c pool auth r keys =
     obind (next_accounts (ce_pubkey env) 100 pool r keys) (\<lambda>(targets, pool, r, keys).
       obind (transact env c auth (Call ''disperseEtherFixed'' [ArgAddresses (map acc_address targets)]))
         (\<lambda>tx. Ok (tx, pool, r, keys)))"

subsection \<open>StorageRW\<close>

definition storageRWBaseGas :: u64 where "storageRWBaseGas = 50000"
definition storageRWWriteValue :: int where "storageRWWriteValue = 1"
definition abiWord :: u64 where "abiWord = 32"
definition calldataFloorGasPerByte :: u64 where "calldataFloorGasPerByte = 10"
definition storageRWDefaultSlot :: int where "storageRWDefaultSlot = 0"

definition pickSlot :: "scenario \<Rightarrow> rng \<Rightarrow> (int \<times> scenario \<times> rng) outcome" where
  "pickSlot cfg r =
     (case sc_KeyDistribution cfg of
        None \<Rightarrow> Ok (storageRWDefaultSlot, cfg, r)
      | Some d \<Rightarrow>
          if sc_RecordCount cfg = 0 then Ok (storageRWDefaultSlot, cfg, r)
          else obind (SampleIndex d r (sc_RecordCount cfg)) (\<lambda>(i, d, r).
                 Ok (uint i, cfg\<lparr>sc_KeyDistribution := Some d\<rparr>, r)))"

text \<open>The pad is all zero bytes, so its length says it all; \<open>make\<close> panics on a negative one.\<close>

definition pickPad :: "scenario \<Rightarrow> rng \<Rightarrow> (nat \<times> scenario \<times> rng) outcome" where
  "pickPad cfg r =
     (case sc_SizeDistribution cfg of
        None \<Rightarrow> Ok (0, cfg, r)
      | Some d \<Rightarrow>
          if length (sc_SizeBuckets cfg) = 0 then Ok (0, cfg, r)
          else obind (SampleIndex d r (of_nat (length (sc_SizeBuckets cfg)))) (\<lambda>(bucket, d, r).
                 obind (index_at (sc_SizeBuckets cfg) (uint bucket)) (\<lambda>n.
                   if n < 0 then Panic ''makeslice: len out of range''
                   else Ok (nat n, cfg\<lparr>sc_SizeDistribution := Some d\<rparr>, r))))"

definition paddedPad :: "nat \<Rightarrow> u64" where
  "paddedPad n = (of_nat n + abiWord - 1) div abiWord * abiWord"

definition storageRW_gas :: "nat \<Rightarrow> u64" where
  "storageRW_gas n = storageRWBaseGas + paddedPad n * calldataFloorGasPerByte"

definition storageRW_call :: "string \<Rightarrow> int \<Rightarrow> nat \<Rightarrow> calldata option" where
  "storageRW_call op slot n =
     (if op = OpRmw then Some (Call ''rmw'' [ArgInt slot, ArgZeroBytes n])
      else if op = OpRead then Some (Call ''read'' [ArgInt slot, ArgZeroBytes n])
      else if op = OpWrite then Some (Call ''write'' [ArgInt slot, ArgInt storageRWWriteValue, ArgZeroBytes n])
      else None)"

definition StorageRW_CreateContractTransaction ::
  "chain_env \<Rightarrow> address option \<Rightarrow> operation_picker \<Rightarrow> scenario \<Rightarrow> transact_opts \<Rightarrow> tx_scenario \<Rightarrow> rng \<Rightarrow>
     (eth_tx \<times> tx_scenario \<times> scenario \<times> rng) outcome" where
  "StorageRW_CreateContractTransaction env c operations cfg auth sc r =
     obind (pickSlot cfg r) (\<lambda>(slot, cfg, r).
       obind (pickPad cfg r) (\<lambda>(pad, cfg, r).
         obind (Select operations r) (\<lambda>(op, r).
           let auth = auth\<lparr>o_gas_limit := storageRW_gas pad\<rparr>;
               sc = sc\<lparr>ts_operation := op\<rparr>
           in case storageRW_call op slot pad of
                None \<Rightarrow> Err (Errorf ''storagerw: no contract method for operation'')
              | Some call \<Rightarrow> obind (transact env c auth call) (\<lambda>tx. Ok (tx, sc, cfg, r)))))"

subsection \<open>Generate\<close>

type_synonym generated = "eth_tx \<times> tx_scenario \<times> tx_generator \<times> rng \<times> key_stream"

definition plain :: "(eth_tx \<times> rng) outcome \<Rightarrow> tx_scenario \<Rightarrow> tx_generator \<Rightarrow> key_stream \<Rightarrow> generated outcome" where
  "plain x sc g keys = obind x (\<lambda>(tx, r). Ok (tx, sc, g, r, keys))"

definition contract_tx ::
  "chain_env \<Rightarrow> load_config \<Rightarrow> transact_opts \<Rightarrow> tx_scenario \<Rightarrow> tx_generator \<Rightarrow> rng \<Rightarrow> key_stream \<Rightarrow> generated outcome" where
  "contract_tx env cfg auth sc g r keys =
     (case tg_impl g of
        ERC20Scenario c \<Rightarrow>
          obind (ERC20_CreateContractTransaction env c auth sc) (\<lambda>tx. Ok (tx, sc, g, r, keys))
      | ERC20NoopScenario c \<Rightarrow>
          obind (ERC20Noop_CreateContractTransaction env c auth sc) (\<lambda>tx. Ok (tx, sc, g, r, keys))
      | ERC20ConflictScenario c \<Rightarrow>
          obind (ERC20Conflict_CreateContractTransaction env c auth sc) (\<lambda>tx. Ok (tx, sc, g, r, keys))
      | ERC721Scenario c n \<Rightarrow>
          obind (ERC721_CreateContractTransaction env c n auth sc) (\<lambda>(tx, n).
            Ok (tx, sc, g\<lparr>tg_impl := ERC721Scenario c n\<rparr>, r, keys))
      | DisperseScenario c pool \<Rightarrow>
          obind (Disperse_CreateContractTransaction env c pool auth r keys) (\<lambda>(tx, pool, r, keys).
            Ok (tx, sc, g\<lparr>tg_impl := DisperseScenario c pool\<rparr>, r, keys))
      | StorageRWScenario c p \<Rightarrow>
          obind (StorageRW_CreateContractTransaction env c p (tg_scenario g) auth sc r) (\<lambda>(tx, sc, scenario, r).
            Ok (tx, sc, g\<lparr>tg_scenario := scenario\<rparr>, r, keys))
      | _ \<Rightarrow> Panic ''not a contract scenario'')"

definition CreateTransaction ::
  "chain_env \<Rightarrow> int \<Rightarrow> tx_scenario \<Rightarrow> tx_generator \<Rightarrow> rng \<Rightarrow> key_stream \<Rightarrow> generated outcome" where
  "CreateTransaction env unix sc g r keys =
     (case tg_impl g of
        EVMTransferScenario \<Rightarrow> plain (EVMTransfer_CreateTransaction unix (tg_scenario g) sc r) sc g keys
      | EVMTransferFastScenario \<Rightarrow> plain (EVMTransferFast_CreateTransaction (tg_scenario g) sc r) sc g keys
      | EVMTransferNoopScenario \<Rightarrow> plain (EVMTransferNoop_CreateTransaction (tg_scenario g) sc r) sc g keys
      | _ \<Rightarrow>
          (case tg_config g of
             None \<Rightarrow> Panic ''nil pointer dereference''
           | Some cfg \<Rightarrow>
               obind (CreateTransactionOpts env (GetChainID cfg) sc) (\<lambda>auth.
                 contract_tx env cfg auth sc g r keys)))"

definition Generate ::
  "chain_env \<Rightarrow> int \<Rightarrow> tx_scenario \<Rightarrow> tx_generator \<Rightarrow> rng \<Rightarrow> key_stream \<Rightarrow> generated outcome" where
  "Generate env unix sc g r keys =
     (if \<not> tg_deployed g then Err (Errorf ''scenario not deployed/initialized'')
      else CreateTransaction env unix sc g r keys)"

subsection \<open>What the bindings promise\<close>

text \<open>
  The documented behaviour of go-ethereum the scenarios rely on: a keyed transactor signs for
  the address of its key, and a bound contract, told not to send, returns what the signer
  makes of the transaction with the nonce, the gas limit and the prices of the options.
\<close>

definition binds :: "chain_env \<Rightarrow> bool" where
  "binds env \<longleftrightarrow>
     (\<forall>k chain. \<exists>auth. ce_transactor env (Some k) chain = Ok auth \<and> o_from auth = ce_pubkey env k \<and> o_value auth = 0) \<and>
     (\<forall>auth a data n. o_no_send auth \<longrightarrow> o_nonce auth = Some n \<longrightarrow> o_gas_limit auth \<noteq> 0 \<longrightarrow>
        ce_transact env auth a data =
          (case o_signer auth (o_from auth) \<lparr>et_nonce = n, et_to = Some a, et_amount = o_value auth,
              et_gas = o_gas_limit auth, et_tip_cap = o_tip_cap auth, et_fee_cap = o_fee_cap auth,
              et_data = data, et_signed_by = None\<rparr> of
             Inl e \<Rightarrow> Err e
           | Inr tx \<Rightarrow> Ok tx))"

definition well_keyed :: "chain_env \<Rightarrow> account \<Rightarrow> bool" where
  "well_keyed env acc \<longleftrightarrow> (\<exists>k. acc_priv acc = Some k \<and> acc_address acc = ce_pubkey env k)"

lemma well_keyed_from_key: "well_keyed env (AccountFromKey (ce_pubkey env) k tracked)"
  by (simp add: well_keyed_def AccountFromKey_def)

text \<open>The transaction a contract call becomes: unsigned, under the nonce it was given.\<close>

definition call_tx :: "tx_scenario \<Rightarrow> address \<Rightarrow> u64 \<Rightarrow> calldata \<Rightarrow> eth_tx" where
  "call_tx sc a gas data = \<lparr>et_nonce = ts_nonce sc, et_to = Some a, et_amount = 0, et_gas = gas,
     et_tip_cap = gasTipCapWei, et_fee_cap = gasFeeCapWei, et_data = data, et_signed_by = None\<rparr>"

definition calls_as :: "chain_env \<Rightarrow> transact_opts \<Rightarrow> tx_scenario \<Rightarrow> bool" where
  "calls_as env auth sc \<longleftrightarrow> (\<forall>gas a data. gas \<noteq> 0 \<longrightarrow>
     transact env (Some a) (auth\<lparr>o_gas_limit := gas\<rparr>) data = Ok (call_tx sc a gas data))"

lemma calls_asD: "calls_as env auth sc \<Longrightarrow> gas \<noteq> 0 \<Longrightarrow>
    transact env (Some a) (auth\<lparr>o_gas_limit := gas\<rparr>) data = Ok (call_tx sc a gas data)"
  by (simp add: calls_as_def)

lemma CreateTransactionOpts_ok:
  assumes "binds env" "well_keyed env (ts_sender sc)"
  obtains auth where "CreateTransactionOpts env chain sc = Ok auth" "o_gas_limit auth = txGasLimit"
    "calls_as env auth sc"
proof -
  obtain k where k: "acc_priv (ts_sender sc) = Some k" "acc_address (ts_sender sc) = ce_pubkey env k"
    using assms(2) unfolding well_keyed_def by (elim exE conjE)
  have "\<exists>auth. ce_transactor env (Some k) chain = Ok auth \<and> o_from auth = ce_pubkey env k \<and> o_value auth = 0"
    using assms(1) unfolding binds_def by (elim conjE allE)
  then obtain auth where a: "ce_transactor env (Some k) chain = Ok auth" "o_from auth = ce_pubkey env k" "o_value auth = 0"
    by (elim exE conjE)
  let ?auth = "auth\<lparr>o_nonce := Some (ts_nonce sc), o_no_send := True, o_gas_limit := txGasLimit,
     o_tip_cap := gasTipCapWei, o_fee_cap := gasFeeCapWei,
     o_signer := \<lambda>address tx. if address \<noteq> acc_address (ts_sender sc)
        then Inl (External ''not authorized to sign this account'') else Inr tx\<rparr>"
  have "CreateTransactionOpts env chain sc = Ok ?auth" by (simp add: CreateTransactionOpts_def k a)
  moreover have "calls_as env ?auth sc"
    using assms(1) by (simp add: calls_as_def binds_def transact_def call_tx_def a k)
  ultimately show thesis using that by simp
qed

subsection \<open>Each draw is answered\<close>

definition priced_ok :: "scenario \<Rightarrow> bool" where
  "priced_ok cfg \<longleftrightarrow> (\<forall>p \<in> set_option (sc_GasPicker cfg) \<union> set_option (sc_GasTipCapPicker cfg) \<union>
     set_option (sc_GasFeeCapPicker cfg). picker_ok p)"

lemma pick_gas_ok: "\<forall>p \<in> set_option picker. picker_ok p \<Longrightarrow> \<exists>v r'. pick_gas picker gas r = Ok (v, r')"
proof (cases picker)
  case (Some p)
  assume "\<forall>p \<in> set_option picker. picker_ok p"
  then obtain v r' where "GenerateGas p r = Ok (v, r')" using picker.gen_in_range [of p r] Some by auto
  then show ?thesis by (simp add: pick_gas_def Some)
qed (simp add: pick_gas_def)

lemma pick_cap_ok: "\<forall>p \<in> set_option picker. picker_ok p \<Longrightarrow> \<exists>v r'. pick_cap picker cap r = Ok (v, r')"
proof (cases picker)
  case (Some p)
  assume "\<forall>p \<in> set_option picker. picker_ok p"
  then obtain v r' where "GenerateGas p r = Ok (v, r')" using picker.gen_in_range [of p r] Some by auto
  then show ?thesis by (simp add: pick_cap_def Some)
qed (simp add: pick_cap_def)

lemma price_tx_ok:
  assumes "priced_ok cfg"
  shows "\<exists>gas tip fee r'. price_tx cfg tx r = Ok (tx\<lparr>et_gas := gas, et_tip_cap := tip, et_fee_cap := fee\<rparr>, r')"
proof -
  have ok: "\<forall>p \<in> set_option (sc_GasPicker cfg). picker_ok p" "\<forall>p \<in> set_option (sc_GasTipCapPicker cfg). picker_ok p"
    "\<forall>p \<in> set_option (sc_GasFeeCapPicker cfg). picker_ok p"
    using assms unfolding priced_ok_def by blast+
  obtain gas r1 where 1: "pick_gas (sc_GasPicker cfg) (et_gas tx) r = Ok (gas, r1)"
    using pick_gas_ok [OF ok(1), of "et_gas tx" r] by blast
  obtain tip r2 where 2: "pick_cap (sc_GasTipCapPicker cfg) (et_tip_cap tx) r1 = Ok (tip, r2)"
    using pick_cap_ok [OF ok(2), of "et_tip_cap tx" r1] by blast
  obtain fee r3 where 3: "pick_cap (sc_GasFeeCapPicker cfg) (et_fee_cap tx) r2 = Ok (fee, r3)"
    using pick_cap_ok [OF ok(3), of "et_fee_cap tx" r2] by blast
  show ?thesis by (intro exI [of _ gas] exI [of _ tip] exI [of _ fee]) (simp add: price_tx_def 1 2 3)
qed

text \<open>Fresh accounts only: a pool whose rate is at least 1 never looks at its accounts.\<close>

lemma next_accounts_fresh:
  assumes "1 \<le> newAccountRate pool"
  shows "\<exists>accs r' keys'. next_accounts pk k pool r keys = Ok (accs, pool, r', keys') \<and> length accs = k \<and>
    pos r' = pos r + k \<and> (\<forall>acc \<in> set accs. \<not> acc_tracked acc)"
proof (induction k arbitrary: r keys)
  case (Suc k)
  have rate: "0 < newAccountRate pool" using assms by linarith
  have "fst (Float64 r) \<le> newAccountRate pool" using Float64_range [of r] assms by linarith
  then have "NextAccount pk pool r keys = Ok (AccountFromKey pk (keys 0) False, pool, snd (Float64 r), \<lambda>i. keys (Suc i))"
    using rate by (cases "Float64 r") (simp add: NextAccount_def NewAccount_def)
  then show ?case using Suc.IH [of "snd (Float64 r)" "\<lambda>i. keys (Suc i)"]
    by (auto simp: AccountFromKey_def)
qed simp

subsection \<open>StorageRW draws\<close>

text \<open>A scenario that passed its checks, with distributions that were decoded.\<close>

definition storage_ok :: "scenario \<Rightarrow> bool" where
  "storage_ok cfg \<longleftrightarrow> axis_ok cfg \<and> length (sc_SizeBuckets cfg) < 2 ^ 64 \<and>
     (\<forall>d \<in> set_option (sc_KeyDistribution cfg) \<union> set_option (sc_SizeDistribution cfg). dist_ok d)"

definition same_axes :: "scenario \<Rightarrow> scenario \<Rightarrow> bool" where
  "same_axes cfg cfg' \<longleftrightarrow> sc_RecordCount cfg' = sc_RecordCount cfg \<and> sc_SizeBuckets cfg' = sc_SizeBuckets cfg \<and>
     sc_Operations cfg' = sc_Operations cfg \<and> sc_Name cfg' = sc_Name cfg \<and> sc_GasPicker cfg' = sc_GasPicker cfg \<and>
     sc_GasTipCapPicker cfg' = sc_GasTipCapPicker cfg \<and> sc_GasFeeCapPicker cfg' = sc_GasFeeCapPicker cfg"

lemma same_axes_trans: "same_axes a b \<Longrightarrow> same_axes b c \<Longrightarrow> same_axes a c"
  by (simp add: same_axes_def)

text \<open>A slot within the keyspace, and slot 0 without randomness if no distribution is configured.\<close>

lemma pickSlot_ok:
  assumes "storage_ok cfg"
  shows "\<exists>slot cfg' r'. pickSlot cfg r = Ok (slot, cfg', r') \<and> storage_ok cfg' \<and> same_axes cfg cfg' \<and>
    (if sc_KeyDistribution cfg = None then slot = 0 \<and> r' = r \<and> cfg' = cfg else 0 \<le> slot \<and> slot < uint (sc_RecordCount cfg))"
proof (cases "sc_KeyDistribution cfg")
  case None
  then show ?thesis using assms by (simp add: pickSlot_def storageRWDefaultSlot_def same_axes_def)
next
  case (Some d)
  have n: "sc_RecordCount cfg \<noteq> 0" "dist_ok d" using assms Some by (auto simp: storage_ok_def axis_ok_def)
  obtain i d' r' where s: "SampleIndex d r (sc_RecordCount cfg) = Ok (i, d', r')" "i < sc_RecordCount cfg" "dist_ok d'"
    using dist.sample_total [OF n(2,1), of r] by blast
  have "storage_ok (cfg\<lparr>sc_KeyDistribution := Some d'\<rparr>)" using assms s(3) Some by (auto simp: storage_ok_def axis_ok_def)
  then show ?thesis using s(1,2) n(1) by (simp add: pickSlot_def Some same_axes_def word_less_def)
qed

lemma pickPad_ok:
  assumes "storage_ok cfg"
  shows "\<exists>n cfg' r'. pickPad cfg r = Ok (n, cfg', r') \<and> storage_ok cfg' \<and> same_axes cfg cfg' \<and> n \<le> 131072 \<and>
    (if sc_SizeDistribution cfg = None then n = 0 \<and> r' = r \<and> cfg' = cfg else int n \<in> set (sc_SizeBuckets cfg))"
proof (cases "sc_SizeDistribution cfg")
  case None
  then show ?thesis using assms by (simp add: pickPad_def same_axes_def)
next
  case (Some d)
  let ?k = "of_nat (length (sc_SizeBuckets cfg)) :: u64"
  have k: "unat ?k = length (sc_SizeBuckets cfg)"
    using assms by (simp add: storage_ok_def unat_of_nat take_bit_eq_mod)
  have ne: "sc_SizeBuckets cfg \<noteq> []" "dist_ok d" using assms Some by (auto simp: storage_ok_def axis_ok_def)
  then have k0: "?k \<noteq> 0" using k by (metis length_0_conv unat_0)
  obtain b d' r' where s: "SampleIndex d r ?k = Ok (b, d', r')" "b < ?k" "dist_ok d'"
    using dist.sample_total [OF ne(2) k0, of r] by blast
  have lt: "unat b < length (sc_SizeBuckets cfg)" using s(2) k by (simp add: word_less_nat_alt)
  let ?n = "sc_SizeBuckets cfg ! unat b"
  have mem: "?n \<in> set (sc_SizeBuckets cfg)" using lt by simp
  then have n: "0 \<le> ?n" "?n \<le> 131072"
    using assms by (auto simp: storage_ok_def axis_ok_def maxCalldataPadBytes_def)
  have at: "index_at (sc_SizeBuckets cfg) (uint b) = Ok ?n"
    using lt index_at_Ok [of "int (unat b)" "sc_SizeBuckets cfg"] by (simp only: uint_nat nat_int of_nat_less_iff of_nat_0_le_iff)
  have "storage_ok (cfg\<lparr>sc_SizeDistribution := Some d'\<rparr>)" using assms s(3) Some by (auto simp: storage_ok_def axis_ok_def)
  then show ?thesis using s(1) ne(1) n mem by (simp add: pickPad_def Some at same_axes_def)
qed

text \<open>
  The gas limit against the calldata floor of EIP-7623: 21000 and 10 for each token, a zero
  byte one token and any other byte four. The head is at most a selector and four words.
\<close>

definition floor_gas :: "nat \<Rightarrow> nat \<Rightarrow> nat" where
  "floor_gas head_bytes zero_bytes = 21000 + 10 * (4 * head_bytes + zero_bytes)"

definition round_up :: "nat \<Rightarrow> nat" where
  "round_up n = (n + 31) div 32 * 32"

lemma round_up_ge: "n \<le> round_up n \<and> round_up n < n + 32 \<and> 32 dvd round_up n"
  unfolding round_up_def by presburger

lemma paddedPad_nat:
  assumes "n \<le> 131072"
  shows "unat (paddedPad n) = round_up n"
proof -
  have n: "unat (of_nat n :: u64) = n" using assms by (intro unat_of_nat_u64) simp
  have "of_nat n + abiWord - 1 = (31 + of_nat n :: u64)" by (simp add: abiWord_def)
  moreover have "unat (31 + of_nat n :: u64) = n + 31"
    using assms n unat_add_small [of 31 "of_nat n"] by simp
  ultimately have "unat ((of_nat n + abiWord - 1 :: u64) div abiWord) = (n + 31) div 32"
    by (simp add: unat_div_distrib abiWord_def)
  moreover have "(n + 31) div 32 * 32 < 2 ^ 64" using assms by auto
  ultimately show ?thesis unfolding paddedPad_def round_up_def
    using unat_mult_small [of "(of_nat n + abiWord - 1) div abiWord" abiWord] by (simp add: abiWord_def)
qed

lemma storageRW_gas_nat:
  assumes "n \<le> 131072"
  shows "unat (storageRW_gas n) = 50000 + 10 * round_up n"
proof -
  have r: "round_up n < n + 32" using round_up_ge [of n] by simp
  have m: "unat (paddedPad n * calldataFloorGasPerByte) = 10 * round_up n"
    using r assms unat_mult_small [of "paddedPad n" calldataFloorGasPerByte] paddedPad_nat [OF assms]
    by (simp add: calldataFloorGasPerByte_def)
  show ?thesis unfolding storageRW_gas_def
    using r assms m unat_add_small [of storageRWBaseGas "paddedPad n * calldataFloorGasPerByte"]
    by (simp add: storageRWBaseGas_def)
qed

subsection \<open>Every ready scenario generates\<close>

definition storage_picks :: "scenario \<Rightarrow> operation_picker \<Rightarrow> bool" where
  "storage_picks cfg p \<longleftrightarrow> Picker StorageRWOperations (sc_Operations cfg) = Ok p \<and> wf_mix (sc_Operations cfg) \<and>
     mix_validate (Some StorageRWOperations) (sc_Operations cfg) = Ok ()"

lemma storage_set: "wf_set StorageRWOperations" "set (os_names StorageRWOperations) = {OpRmw, OpRead, OpWrite}"
  "hd (os_names StorageRWOperations) = OpRmw"
  by (auto simp: wf_set_def StorageRWOperations_def OpRmw_def OpRead_def OpWrite_def)

lemma Select_storage:
  assumes "storage_picks cfg p"
  shows "\<exists>op r'. Select p r = Ok (op, r') \<and> op \<in> {OpRmw, OpRead, OpWrite} \<and>
    (sc_Operations cfg = None \<longrightarrow> op = OpRmw \<and> r' = r)"
proof -
  let ?m = "sc_Operations cfg" and ?names = "os_names StorageRWOperations"
  have p: "op_fallback p = OpRmw" "unat (op_total p) = weight_sum ?m ?names"
    "op_names p = map fst (running ?m ?names 0)" "op_cum p = map (of_nat \<circ> snd) (running ?m ?names 0)"
    using Picker_ok [OF storage_set(1), of ?m] assms storage_set(3) by (auto simp: storage_picks_def)
  show ?thesis
  proof (cases "op_total p = 0")
    case True
    then show ?thesis using Select_fallback [OF True, of r] p(1) by simp
  next
    case False
    have "?m \<noteq> None"
    proof
      assume "?m = None"
      then have "weight_sum ?m ?names = 0" by (simp add: weight_sum_def mix_weight_def)
      then show False using False p(2) by (simp add: unat_eq_zero)
    qed
    then show ?thesis
      using Select_ok [OF p(3,4,2) False, of r] pick_weighted [of _ ?m ?names 0] storage_set(2) by fastforce
  qed
qed

definition impl_ok :: "scenario \<Rightarrow> scenario_impl \<Rightarrow> bool" where
  "impl_ok cfg impl \<longleftrightarrow>
     (case impl of
        DisperseScenario c p \<Rightarrow> 1 \<le> newAccountRate p
      | StorageRWScenario c p \<Rightarrow> storage_ok cfg \<and> storage_picks cfg p
      | _ \<Rightarrow> True)"

definition gen_ready :: "tx_generator \<Rightarrow> bool" where
  "gen_ready g \<longleftrightarrow> tg_deployed g \<and> priced_ok (tg_scenario g) \<and>
     (contract_of (tg_impl g) \<noteq> None \<longrightarrow> tg_config g \<noteq> None \<and> bound_to (tg_impl g) \<noteq> None) \<and> impl_ok (tg_scenario g) (tg_impl g)"

text \<open>
  What a generated transaction has in common whatever the scenario: the nonce and the sender
  it was asked for, no signature yet; and the scenario it comes from is ready for the next.
\<close>

definition generated_ok :: "tx_scenario \<Rightarrow> tx_generator \<Rightarrow> generated outcome \<Rightarrow> bool" where
  "generated_ok sc g x \<longleftrightarrow> (\<exists>tx sc' g' r' keys'. x = Ok (tx, sc', g', r', keys') \<and>
     et_nonce tx = ts_nonce sc \<and> et_signed_by tx = None \<and> sc' = sc\<lparr>ts_operation := ts_operation sc'\<rparr> \<and>
     gen_ready g' \<and> scenario_Name (tg_impl g') = scenario_Name (tg_impl g) \<and> bound_to (tg_impl g') = bound_to (tg_impl g))"

lemma generated_okI:
  "x = Ok (tx, sc', g', r', keys') \<Longrightarrow> et_nonce tx = ts_nonce sc \<Longrightarrow> et_signed_by tx = None \<Longrightarrow>
   sc' = sc\<lparr>ts_operation := ts_operation sc'\<rparr> \<Longrightarrow> gen_ready g' \<Longrightarrow>
   scenario_Name (tg_impl g') = scenario_Name (tg_impl g) \<Longrightarrow> bound_to (tg_impl g') = bound_to (tg_impl g) \<Longrightarrow>
   generated_ok sc g x"
  unfolding generated_ok_def by blast

lemma price_tx_generated:
  assumes "gen_ready g" "et_nonce tx = ts_nonce sc" "et_signed_by tx = None"
  shows "generated_ok sc g (plain (price_tx (tg_scenario g) tx r) sc g keys)"
proof -
  obtain gas tip fee r' where
    "price_tx (tg_scenario g) tx r = Ok (tx\<lparr>et_gas := gas, et_tip_cap := tip, et_fee_cap := fee\<rparr>, r')"
    using price_tx_ok [of "tg_scenario g" tx r] assms(1) unfolding gen_ready_def by (elim conjE) blast
  then show ?thesis using assms by (intro generated_okI [of _ "tx\<lparr>et_gas := gas, et_tip_cap := tip, et_fee_cap := fee\<rparr>" sc g r' keys])
      (simp_all add: plain_def)
qed

lemma call_tx_sel [simp]: "et_nonce (call_tx sc a gas d) = ts_nonce sc" "et_signed_by (call_tx sc a gas d) = None"
  "et_to (call_tx sc a gas d) = Some a" "et_gas (call_tx sc a gas d) = gas" "et_data (call_tx sc a gas d) = d"
  by (simp_all add: call_tx_def)

lemma storageRW_call_ok: "op \<in> {OpRmw, OpRead, OpWrite} \<Longrightarrow> storageRW_call op slot n \<noteq> None"
  by (auto simp: storageRW_call_def)

text \<open>A StorageRW transaction: the drawn slot, pad and operation, and a gas limit that covers the pad.\<close>

lemma StorageRW_tx_ok:
  assumes call: "calls_as env auth sc"
    and cfg: "storage_ok cfg" "storage_picks cfg p"
  shows "\<exists>op slot n cfg' r'. StorageRW_CreateContractTransaction env (Some a) p cfg auth sc r =
      Ok (call_tx sc a (storageRW_gas n) (the (storageRW_call op slot n)), sc\<lparr>ts_operation := op\<rparr>, cfg', r') \<and>
    op \<in> {OpRmw, OpRead, OpWrite} \<and> n \<le> 131072 \<and> storage_ok cfg' \<and> same_axes cfg cfg' \<and>
    (sc_KeyDistribution cfg = None \<and> sc_SizeDistribution cfg = None \<and> sc_Operations cfg = None \<longrightarrow>
       slot = 0 \<and> n = 0 \<and> op = OpRmw \<and> r' = r) \<and>
    (sc_KeyDistribution cfg \<noteq> None \<longrightarrow> 0 \<le> slot \<and> slot < uint (sc_RecordCount cfg)) \<and>
    (sc_SizeDistribution cfg \<noteq> None \<longrightarrow> int n \<in> set (sc_SizeBuckets cfg))"
proof -
  obtain slot cfg1 r1 where 1: "pickSlot cfg r = Ok (slot, cfg1, r1)" "storage_ok cfg1" "same_axes cfg cfg1"
    "if sc_KeyDistribution cfg = None then slot = 0 \<and> r1 = r \<and> cfg1 = cfg else 0 \<le> slot \<and> slot < uint (sc_RecordCount cfg)"
    using pickSlot_ok [OF cfg(1), of r] by blast
  have sd: "sc_SizeDistribution cfg1 = sc_SizeDistribution cfg"
    using 1(1) by (auto simp: pickSlot_def outcome_simps split: option.splits if_splits)
  obtain n cfg2 r2 where 2: "pickPad cfg1 r1 = Ok (n, cfg2, r2)" "storage_ok cfg2" "same_axes cfg1 cfg2" "n \<le> 131072"
    "if sc_SizeDistribution cfg1 = None then n = 0 \<and> r2 = r1 \<and> cfg2 = cfg1 else int n \<in> set (sc_SizeBuckets cfg1)"
    using pickPad_ok [OF 1(2), of r1] by blast
  obtain op r3 where 3: "Select p r2 = Ok (op, r3)" "op \<in> {OpRmw, OpRead, OpWrite}"
    "sc_Operations cfg = None \<longrightarrow> op = OpRmw \<and> r3 = r2"
    using Select_storage [OF cfg(2), of r2] by (elim exE conjE)
  obtain d where d: "storageRW_call op slot n = Some d" using storageRW_call_ok [OF 3(2), of slot n] by blast
  have "unat (storageRW_gas n) \<noteq> 0" using storageRW_gas_nat [OF 2(4)] by simp
  then have gas: "storageRW_gas n \<noteq> 0" by (metis unat_0)
  have "StorageRW_CreateContractTransaction env (Some a) p cfg auth sc r =
      Ok (call_tx sc a (storageRW_gas n) (the (storageRW_call op slot n)), sc\<lparr>ts_operation := op\<rparr>, cfg2, r3)"
    by (simp add: StorageRW_CreateContractTransaction_def 1(1) 2(1) 3(1) d calls_asD [OF call gas])
  moreover have "same_axes cfg cfg2" by (rule same_axes_trans [OF 1(3) 2(3)])
  moreover have "sc_SizeBuckets cfg1 = sc_SizeBuckets cfg" using 1(3) by (simp add: same_axes_def)
  ultimately show ?thesis using 1(4) 2(2,4,5) 3(2,3) sd
    by (intro exI [of _ op] exI [of _ slot] exI [of _ n] exI [of _ cfg2] exI [of _ r3]) (auto split: if_splits)
qed

text \<open>The storage scenario stays ready: its axes and its mix do not change with the draws.\<close>

lemma storage_picks_same: "storage_picks cfg p \<Longrightarrow> same_axes cfg cfg' \<Longrightarrow> storage_picks cfg' p"
  by (simp add: storage_picks_def same_axes_def)

lemma priced_ok_same: "priced_ok cfg \<Longrightarrow> same_axes cfg cfg' \<Longrightarrow> priced_ok cfg'"
  by (simp add: priced_ok_def same_axes_def)

lemma contract_tx_ok:
  assumes call: "calls_as env auth sc"
    and lim: "o_gas_limit auth = txGasLimit"
    and g: "gen_ready g" "contract_of (tg_impl g) \<noteq> None"
  shows "generated_ok sc g (contract_tx env cfg auth sc g r keys)"
proof -
  obtain a where a: "bound_to (tg_impl g) = Some a" using g by (auto simp: gen_ready_def impl_ok_def)
  have "auth\<lparr>o_gas_limit := txGasLimit\<rparr> = auth" using lim by (cases auth) simp
  then have dflt: "transact env (Some a) auth data = Ok (call_tx sc a txGasLimit data)" for data
    using calls_asD [OF call, of txGasLimit a data] by (simp add: txGasLimit_def)
  show ?thesis
  proof (cases "tg_impl g")
    case (DisperseScenario c pool)
    obtain accs r' keys' where d: "next_accounts (ce_pubkey env) 100 pool r keys = Ok (accs, pool, r', keys')"
      using next_accounts_fresh [of pool "ce_pubkey env" 100 r keys] g(1) DisperseScenario by (auto simp: gen_ready_def impl_ok_def)
    have "contract_tx env cfg auth sc g r keys =
        Ok (call_tx sc a txGasLimit (Call ''disperseEtherFixed'' [ArgAddresses (map acc_address accs)]), sc, g, r', keys')"
      using a DisperseScenario d dflt
      by (simp add: contract_tx_def Disperse_CreateContractTransaction_def)
    then show ?thesis by (rule generated_okI) (use g(1) in simp_all)
  next
    case (ERC20ConflictScenario c)
    then have "contract_tx env cfg auth sc g r keys =
        Ok (call_tx sc a 22460 (Call ''transfer'' [ArgAddress (ts_receiver sc), ArgInt 1]), sc, g, r, keys)"
      using a calls_asD [OF call] by (simp add: contract_tx_def ERC20Conflict_CreateContractTransaction_def)
    then show ?thesis by (rule generated_okI) (use g(1) in simp_all)
  next
    case (ERC20NoopScenario c)
    then have "contract_tx env cfg auth sc g r keys =
        Ok (call_tx sc a 22460 (Call ''transfer'' [ArgAddress (ts_receiver sc), ArgInt 1]), sc, g, r, keys)"
      using a calls_asD [OF call] by (simp add: contract_tx_def ERC20Noop_CreateContractTransaction_def)
    then show ?thesis by (rule generated_okI) (use g(1) in simp_all)
  next
    case (ERC20Scenario c)
    then have "contract_tx env cfg auth sc g r keys =
        Ok (call_tx sc a 72156 (Call ''transfer'' [ArgAddress (ts_receiver sc), ArgInt 1]), sc, g, r, keys)"
      using a calls_asD [OF call] by (simp add: contract_tx_def ERC20_CreateContractTransaction_def)
    then show ?thesis by (rule generated_okI) (use g(1) in simp_all)
  next
    case (ERC721Scenario c n)
    then have "contract_tx env cfg auth sc g r keys =
        Ok (call_tx sc a 22460 (Call ''mint'' [ArgAddress (ts_receiver sc), ArgInt (i64 (n + 1))]), sc,
            g\<lparr>tg_impl := ERC721Scenario c (i64 (n + 1))\<rparr>, r, keys)"
      using a calls_asD [OF call] by (simp add: contract_tx_def ERC721_CreateContractTransaction_def Let_def)
    then show ?thesis by (rule generated_okI) (use g(1) ERC721Scenario in \<open>simp_all add: gen_ready_def impl_ok_def\<close>)
  next
    case (StorageRWScenario c p)
    then have cfg: "storage_ok (tg_scenario g)" "storage_picks (tg_scenario g) p" "c = Some a"
      using g(1) a by (simp_all add: gen_ready_def impl_ok_def)
    obtain op slot n cfg' r' where s: "StorageRW_CreateContractTransaction env (Some a) p (tg_scenario g) auth sc r =
        Ok (call_tx sc a (storageRW_gas n) (the (storageRW_call op slot n)), sc\<lparr>ts_operation := op\<rparr>, cfg', r')"
      "storage_ok cfg'" "same_axes (tg_scenario g) cfg'"
      using StorageRW_tx_ok [OF call cfg(1,2), of a r] by (elim exE conjE)
    have "priced_ok cfg'" using priced_ok_same [OF _ s(3)] g(1) by (simp add: gen_ready_def impl_ok_def)
    then have ready: "gen_ready (g\<lparr>tg_scenario := cfg'\<rparr>)"
      using g(1) StorageRWScenario s(2) storage_picks_same [OF cfg(2) s(3)] by (simp add: gen_ready_def impl_ok_def)
    have "contract_tx env cfg auth sc g r keys =
        Ok (call_tx sc a (storageRW_gas n) (the (storageRW_call op slot n)), sc\<lparr>ts_operation := op\<rparr>,
            g\<lparr>tg_scenario := cfg'\<rparr>, r', keys)"
      by (simp add: contract_tx_def StorageRWScenario cfg(3) s(1))
    then show ?thesis by (rule generated_okI) (use ready in simp_all)
  qed (use g(2) in simp_all)
qed

lemma Generate_ok:
  assumes "binds env" "well_keyed env (ts_sender sc)" "gen_ready g"
  shows "generated_ok sc g (Generate env unix sc g r keys)"
proof -
  have dep: "tg_deployed g" using assms(3) by (simp add: gen_ready_def impl_ok_def)
  show ?thesis
  proof (cases "contract_of (tg_impl g)")
    case None
    then show ?thesis
      using price_tx_generated [OF assms(3)] dep
      by (cases "tg_impl g") (simp_all add: Generate_def CreateTransaction_def EVMTransfer_CreateTransaction_def
          EVMTransferFast_CreateTransaction_def EVMTransferNoop_CreateTransaction_def)
  next
    case (Some x)
    then obtain cfg where cfg: "tg_config g = Some cfg" using assms(3) by (auto simp: gen_ready_def impl_ok_def)
    obtain auth where auth: "CreateTransactionOpts env (GetChainID cfg) sc = Ok auth" "o_gas_limit auth = txGasLimit"
      "calls_as env auth sc"
      by (rule CreateTransactionOpts_ok [OF assms(1,2)]) blast
    have "Generate env unix sc g r keys = contract_tx env cfg auth sc g r keys"
      using Some dep cfg auth(1) by (cases "tg_impl g") (simp_all add: Generate_def CreateTransaction_def)
    then show ?thesis using contract_tx_ok [OF auth(3,2) assms(3)] Some by simp
  qed
qed

text \<open>A scenario that was neither attached nor deployed does not generate.\<close>

lemma Generate_undeployed:
  "\<not> tg_deployed g \<Longrightarrow> Generate env unix sc g r keys = Err (Errorf ''scenario not deployed/initialized'')"
  by (simp add: Generate_def)

subsection \<open>From a checked configuration to a ready scenario\<close>

text \<open>What the decoder yields: pickers with valid ranges, validated distributions, mixes without duplicates.\<close>

definition decoded :: "scenario \<Rightarrow> bool" where
  "decoded cfg \<longleftrightarrow> priced_ok cfg \<and> wf_mix (sc_Operations cfg) \<and> length (sc_SizeBuckets cfg) < 2 ^ 64 \<and>
     (\<forall>d \<in> set_option (sc_KeyDistribution cfg) \<union> set_option (sc_SizeDistribution cfg). dist_ok d)"

lemma SetContract_sel [simp]:
  "scenario_Name (SetContract c impl) = scenario_Name impl" "contract_of (SetContract c impl) = contract_of impl"
  "contract_of impl \<noteq> None \<Longrightarrow> bound_to (SetContract c impl) = c"
  "impl_ok cfg (SetContract c impl) = impl_ok cfg impl"
  by (cases impl; simp add: impl_ok_def)+

text \<open>The factory never panics on a checked scenario of a known name.\<close>

definition scenario_names :: "string list" where
  "scenario_names = [''evmtransfer'', ''evmtransferfast'', ''evmtransfernoop'', ''disperse'', ''erc20conflict'',
     ''erc20noop'', ''erc20'', ''erc721'', ''storagerw'']"

lemma NewDisperse_ok: "\<exists>g. NewDisperseScenario env cfg keys = Ok (g, keys) \<and> \<not> tg_deployed g \<and> tg_scenario g = cfg \<and>
    scenario_Name (tg_impl g) = ''disperse'' \<and> impl_ok cfg (tg_impl g)"
  by (simp add: NewDisperseScenario_def NewAccountPool_def NewScenarioBase_def impl_ok_def)

lemma NewStorageRW_ok:
  assumes "decoded cfg" "axis_ok cfg" "mix_validate (Some StorageRWOperations) (sc_Operations cfg) = Ok ()"
  shows "\<exists>g. NewStorageRWScenario cfg = Ok g \<and> \<not> tg_deployed g \<and> tg_scenario g = cfg \<and>
    scenario_Name (tg_impl g) = ''storagerw'' \<and> impl_ok cfg (tg_impl g)"
proof -
  obtain p where "Picker StorageRWOperations (sc_Operations cfg) = Ok p"
    using Picker_ok [OF storage_set(1) assms(3)] assms(1) by (auto simp: decoded_def)
  then show ?thesis using assms
    by (simp add: NewStorageRWScenario_def NewScenarioBase_def impl_ok_def storage_ok_def storage_picks_def decoded_def)
qed

lemma CreateScenario_ok:
  assumes "decoded cfg" "Scenario_Validate cfg = Ok ()" "to_lower (sc_Name cfg) \<in> set scenario_names"
  shows "\<exists>g. CreateScenario env cfg keys = Ok (g, keys) \<and> \<not> tg_deployed g \<and> tg_scenario g = cfg \<and>
    scenario_Name (tg_impl g) = to_lower (sc_Name cfg) \<and> impl_ok cfg (tg_impl g)"
proof (cases "to_lower (sc_Name cfg) \<in> {''disperse'', ''storagerw''}")
  case True
  have v: "axis_ok cfg" "mix_validate (operationsFor (sc_Name cfg)) (sc_Operations cfg) = Ok ()"
    using assms(2) by (simp_all add: Scenario_Validate_Ok)
  then have "to_lower (sc_Name cfg) = ''storagerw'' \<Longrightarrow> ?thesis"
    using NewStorageRW_ok [OF assms(1) v(1)] by (auto simp: CreateScenario_def operationsFor_def)
  moreover have "to_lower (sc_Name cfg) = ''disperse'' \<Longrightarrow> ?thesis"
    using NewDisperse_ok [of env cfg keys] by (simp add: CreateScenario_def)
  ultimately show ?thesis using True by auto
next
  case False
  then show ?thesis using assms(3)
    by (auto simp: CreateScenario_def scenario_names_def NewScenarioBase_def impl_ok_def)
qed

lemma CreateScenario_unknown:
  "to_lower (sc_Name cfg) \<notin> set scenario_names \<Longrightarrow> panics (CreateScenario env cfg keys)"
  by (simp add: CreateScenario_def scenario_names_def)

text \<open>Attaching makes a scenario ready; so does deploying, unless it fails, which leaves it as undeployed as it was.\<close>

lemma Attach_ok:
  assumes "Attach env cfg address g = Ok (None, g')"
  shows "tg_deployed g' \<and> tg_config g' = Some cfg \<and> tg_scenario g' = tg_scenario g \<and>
    scenario_Name (tg_impl g') = scenario_Name (tg_impl g) \<and> contract_of (tg_impl g') = contract_of (tg_impl g) \<and>
    (contract_of (tg_impl g) \<noteq> None \<longrightarrow> bound_to (tg_impl g') = Some address) \<and>
    impl_ok c (tg_impl g') = impl_ok c (tg_impl g)"
proof (cases "contract_of (tg_impl g)")
  case None
  then show ?thesis using assms by (auto simp: Attach_def base_Attach_def AttachScenario_def)
next
  case (Some x)
  then obtain name args where x: "contract_of (tg_impl g) = Some (name, args)" by (cases x) simp
  let ?g = "g\<lparr>tg_config := Some cfg, tg_address := address, tg_deployed := True, tg_impl := SetContract (Some address) (tg_impl g)\<rparr>"
  have base: "base_Attach env cfg address g = Ok ?g" and bound: "ce_bind env name address = None"
    using assms by (auto simp: Attach_def base_Attach_def AttachScenario_def x split: option.splits)
  have "g' = snd (rebind env name address ?g)"
  proof (cases "lc_MockDeploy cfg")
    case True
    then show ?thesis using assms by (auto simp: Attach_def base x)
  next
    case False
    then show ?thesis using assms
      by (cases "index_at (lc_Endpoints cfg) 0") (auto simp: Attach_def base x split: option.splits)
  qed
  then show ?thesis using x bound by (simp add: rebind_def)
qed

lemma Attach_ready:
  assumes "Attach env cfg address g = Ok (None, g')" "priced_ok (tg_scenario g)" "impl_ok (tg_scenario g) (tg_impl g)"
  shows "gen_ready g'"
  using Attach_ok [OF assms(1), of "tg_scenario g"] assms(2,3) by (auto simp: gen_ready_def)

lemma deployWithin_ok:
  "deployWithin env cfg deployer name args impl = Ok (a, impl') \<Longrightarrow> impl' = SetContract (Some a) impl"
  by (cases "dial env cfg"; cases "CreateDeploymentOpts env (GetChainID cfg) deployer")
    (auto simp: deployWithin_def split: option.splits sum.splits if_splits)

lemma Deploy_ok:
  assumes "Deploy env ctx expired cfg deployer g = (Ok a, g')" "priced_ok (tg_scenario g)" "impl_ok (tg_scenario g) (tg_impl g)"
  shows "gen_ready g' \<and> tg_address g' = a \<and> scenario_Name (tg_impl g') = scenario_Name (tg_impl g)"
proof (cases "contract_of (tg_impl g)")
  case None
  then show ?thesis using assms by (auto simp: Deploy_def DeployScenario_def gen_ready_def)
next
  case (Some x)
  then obtain name args where x: "contract_of (tg_impl g) = Some (name, args)" by (cases x) simp
  from assms(1) have "deployWithin env cfg deployer name args (tg_impl g) = Ok (a, tg_impl g')"
    "tg_deployed g'" "tg_config g' = Some cfg" "tg_scenario g' = tg_scenario g" "tg_address g' = a"
    by (auto simp: Deploy_def DeployScenario_def x outcome_simps Let_def split: outcome.splits)
  then show ?thesis using deployWithin_ok [of env cfg deployer name args "tg_impl g" a "tg_impl g'"] assms(2,3) x
    by (simp add: gen_ready_def)
qed

lemma Deploy_fails:
  "fst (Deploy env ctx expired cfg deployer g) = Err e \<Longrightarrow>
   tg_deployed (snd (Deploy env ctx expired cfg deployer g)) = tg_deployed g"
  by (auto simp: Deploy_def Let_def split: outcome.splits)

text \<open>
  An error of a deployment under a live context is never taken for a shutdown, as long as a
  sentinel only comes out of the node's answers when the budget is spent.
\<close>

lemma Deploy_error_is_failure:
  assumes "fst (Deploy env None expired cfg deployer g) = Err e"
    "\<And>name args. respects_context None expired (deployWithin env cfg deployer name args (tg_impl g))"
  shows "\<not> endedOnRunContext e"
proof (cases "contract_of (tg_impl g)")
  case (Some x)
  then obtain name args where x: "contract_of (tg_impl g) = Some (name, args)" by (cases x) simp
  from assms(1) have "WithinBudget None expired ''deployment'' (deployWithin env cfg deployer name args (tg_impl g)) = Err e"
    by (auto simp: Deploy_def DeployScenario_def x Let_def split: outcome.splits)
  then show ?thesis by (rule WithinBudget_quiet [OF assms(2)])
qed (use assms(1) in \<open>simp add: Deploy_def DeployScenario_def\<close>)

end
