(* ===== verification/Generator.thy ===== *)
theory Generator
  imports TxBuild TxsQueue Writer "HOL-Library.AList"
begin

text \<open>
  The generator (\<open>generator/generator.go\<close>): it creates one instance per configured scenario,
  deploys or attaches them, expands them by weight into a shuffled round-robin, and hands one
  transaction after another to a \<open>TxSender\<close>. Instances share account pools by position, and
  the round-robin refers to instances by position, as the pointers of the code do.
\<close>

subsection \<open>Instances\<close>

record scenario_instance =
  in_Name :: string
  in_Weight :: int
  in_Scenario :: tx_generator
  in_Accounts :: nat

record generator_builder =
  gb_pools :: "account_pool list"
  gb_instances :: "scenario_instance list"

text \<open>A name that occurs more than once gets the number of its occurrence as a suffix.\<close>

definition instance_name :: "scenario list \<Rightarrow> nat \<Rightarrow> string" where
  "instance_name ss i =
     (let name = sc_Name (ss ! i);
          nameCount = length (filter (\<lambda>s. sc_Name s = name) ss);
          nameIndex = length (filter (\<lambda>s. sc_Name s = name) (take i ss))
      in if 1 < nameCount then name @ ''_'' @ decimal nameIndex else name)"

definition add_pool ::
  "chain_env \<Rightarrow> account_config \<Rightarrow> generator_builder \<Rightarrow> key_stream \<Rightarrow> (nat \<times> generator_builder \<times> key_stream) outcome" where
  "add_pool env ac b keys =
     obind (NewAccountPool (ce_pubkey env) (ac_Accounts ac) (NewAccountRate ac) keys) (\<lambda>(p, keys).
       Ok (length (gb_pools b), b\<lparr>gb_pools := gb_pools b @ [p]\<rparr>, keys))"

definition account_pool_for ::
  "chain_env \<Rightarrow> nat option \<Rightarrow> scenario \<Rightarrow> generator_builder \<Rightarrow> key_stream \<Rightarrow> (nat \<times> generator_builder \<times> key_stream) outcome" where
  "account_pool_for env shared s b keys =
     (case sc_Accounts s of
        Some ac \<Rightarrow> add_pool env ac b keys
      | None \<Rightarrow>
          (case shared of
             Some p \<Rightarrow> Ok (p, b, keys)
           | None \<Rightarrow> Err (Errorf ''no accounts config defined'')))"

fun create_loop ::
  "chain_env \<Rightarrow> scenario list \<Rightarrow> nat option \<Rightarrow> nat \<Rightarrow> scenario list \<Rightarrow> generator_builder \<Rightarrow> key_stream \<Rightarrow>
     (generator_builder \<times> key_stream) outcome" where
  "create_loop env all shared i [] b keys = Ok (b, keys)"
| "create_loop env all shared i (s # ss) b keys =
     obind (CreateScenario env s keys) (\<lambda>(g, keys).
       obind (account_pool_for env shared s b keys) (\<lambda>(p, b, keys).
         create_loop env all shared (Suc i) ss
           (b\<lparr>gb_instances := gb_instances b @
               [\<lparr>in_Name = instance_name all i, in_Weight = sc_Weight s, in_Scenario = g, in_Accounts = p\<rparr>]\<rparr>) keys))"

definition createScenarios ::
  "chain_env \<Rightarrow> load_config \<Rightarrow> generator_builder \<Rightarrow> key_stream \<Rightarrow> (generator_builder \<times> key_stream) outcome" where
  "createScenarios env cfg b keys =
     obind (case lc_Accounts cfg of
              None \<Rightarrow> Ok (None, b, keys)
            | Some ac \<Rightarrow> obind (add_pool env ac b keys) (\<lambda>(p, b, keys). Ok (Some p, b, keys))) (\<lambda>(shared, b, keys).
       create_loop env (lc_Scenarios cfg) shared 0 (lc_Scenarios cfg) b keys)"

subsection \<open>Deployment\<close>

fun mock_loop ::
  "chain_env \<Rightarrow> load_config \<Rightarrow> scenario_instance list \<Rightarrow> key_stream \<Rightarrow> (scenario_instance list \<times> key_stream) outcome" where
  "mock_loop env cfg [] keys = Ok ([], keys)"
| "mock_loop env cfg (x # xs) keys =
     (case NewAccount (ce_pubkey env) False keys of (acc, keys) \<Rightarrow>
        obind (Attach env cfg (acc_address acc) (in_Scenario x)) (\<lambda>(err, g).
          case err of
            Some e \<Rightarrow> Err e
          | None \<Rightarrow> obind (mock_loop env cfg xs keys) (\<lambda>(xs, keys). Ok (x\<lparr>in_Scenario := g\<rparr> # xs, keys))))"

text \<open>
  Live deployment, one instance after the other: \<open>envs\<close> and \<open>clock\<close> are the chain's answers and the
  state of the contexts at each of them.
\<close>

fun deploy_loop ::
  "(nat \<Rightarrow> chain_env) \<Rightarrow> (nat \<Rightarrow> go_error option \<times> bool) \<Rightarrow> load_config \<Rightarrow> account \<Rightarrow> nat \<Rightarrow> scenario_instance list \<Rightarrow>
     scenario_instance list outcome" where
  "deploy_loop envs clock cfg deployer i [] = Ok []"
| "deploy_loop envs clock cfg deployer i (x # xs) =
     (case Deploy (envs i) (fst (clock i)) (snd (clock i)) cfg deployer (in_Scenario x) of
        (Err e, g) \<Rightarrow> Err (Wrap (''deploy '' @ in_Name x) e)
      | (Panic m, g) \<Rightarrow> Panic m
      | (Ok a, g) \<Rightarrow>
          obind (deploy_loop envs clock cfg deployer (Suc i) xs) (\<lambda>xs. Ok (x\<lparr>in_Scenario := g\<rparr> # xs)))"

definition deployAll ::
  "(nat \<Rightarrow> chain_env) \<Rightarrow> (nat \<Rightarrow> go_error option \<times> bool) \<Rightarrow> load_config \<Rightarrow> account \<Rightarrow> scenario_instance list \<Rightarrow>
     key_stream \<Rightarrow> (scenario_instance list \<times> key_stream) outcome" where
  "deployAll envs clock cfg deployer xs keys =
     (if lc_MockDeploy cfg then mock_loop (envs 0) cfg xs keys
      else if acc_priv deployer = None then Err (Errorf ''deployer has no private key'')
      else obind (deploy_loop envs clock cfg deployer 0 xs) (\<lambda>xs. Ok (xs, keys)))"

subsection \<open>The round-robin\<close>

record generator =
  gn_pools :: "account_pool list"
  gn_instances :: "scenario_instance list"
  gn_schedule :: "nat list"

text \<open>An instance of weight 0 is skipped; a loop over a negative weight does nothing.\<close>

fun expand_from :: "nat \<Rightarrow> scenario_instance list \<Rightarrow> nat list" where
  "expand_from i [] = []"
| "expand_from i (x # xs) = replicate (nat (in_Weight x)) i @ expand_from (Suc i) xs"

definition expand_weights :: "scenario_instance list \<Rightarrow> nat list" where
  "expand_weights xs = expand_from 0 xs"

definition build :: "generator_builder \<Rightarrow> rng \<Rightarrow> (generator \<times> rng) outcome" where
  "build b r =
     (let gens = expand_weights (gb_instances b)
      in if gens = [] then Err (Errorf ''no scenario instances created (define some scenarios)'')
         else case Shuffle gens r of (gens, r) \<Rightarrow>
           Ok (\<lparr>gn_pools = gb_pools b, gn_instances = gb_instances b, gn_schedule = gens\<rparr>, r))"

definition NewGenerator ::
  "(nat \<Rightarrow> chain_env) \<Rightarrow> (nat \<Rightarrow> go_error option \<times> bool) \<Rightarrow> rng \<Rightarrow> load_config \<Rightarrow> account \<Rightarrow> key_stream \<Rightarrow>
     (generator \<times> rng \<times> key_stream) outcome" where
  "NewGenerator envs clock r cfg deployer keys =
     obind (omap_err (Wrap ''failed to create scenarios'')
              (createScenarios (envs 0) cfg \<lparr>gb_pools = [], gb_instances = []\<rparr> keys)) (\<lambda>(b, keys).
       obind (omap_err (Wrap ''failed to deploy scenarios'')
                (deployAll envs clock cfg deployer (gb_instances b) keys)) (\<lambda>(xs, keys).
         obind (omap_err (Wrap ''failed to create weighted scenarioGenerator'')
                  (build (b\<lparr>gb_instances := xs\<rparr>) r)) (\<lambda>(g, r). Ok (g, r, keys))))"

text \<open>
  The accounts of all pools in the round-robin, one per address; \<open>order\<close> is the order Go's map
  iteration happens to take.
\<close>

definition Generator_Accounts :: "(account list \<Rightarrow> account list) \<Rightarrow> generator \<Rightarrow> account list" where
  "Generator_Accounts order g =
     order (map snd (fold (\<lambda>a. AList.update (acc_address a) a)
       (concat (map (\<lambda>i. Accounts (gn_pools g ! in_Accounts (gn_instances g ! i))) (gn_schedule g))) []))"

text \<open>
  The seed: a configured one is used as it is, else a random one is written back to the
  configuration. \<open>newSeededRand\<close> is the source of \<open>math/rand/v2\<close> for a seed.
\<close>

definition ResolveSeed :: "(u64 \<Rightarrow> rng) \<Rightarrow> go_error + u64 \<Rightarrow> load_config \<Rightarrow> (rng \<times> load_config) outcome" where
  "ResolveSeed newSeededRand randomSeed cfg =
     (case lc_Seed cfg of
        Some seed \<Rightarrow> Ok (newSeededRand seed, cfg)
      | None \<Rightarrow>
          (case randomSeed of
             Inl e \<Rightarrow> Panic ''randomSeed()''
           | Inr seed \<Rightarrow> Ok (newSeededRand seed, cfg\<lparr>lc_Seed := Some seed\<rparr>)))"

subsection \<open>Running\<close>

text \<open>The \<open>TxSender\<close> interface, over the state \<open>'s\<close> of whatever implements it; the first argument of
  \<open>Send\<close> and \<open>Flush\<close> is the error of the context they give up with.\<close>

record 's tx_sender =
  snd_Send :: "go_error option \<Rightarrow> load_tx \<Rightarrow> 's \<Rightarrow> (go_error option \<times> 's) waiting"
  snd_Flush :: "go_error option \<Rightarrow> 's \<Rightarrow> (go_error option \<times> 's) waiting"
  snd_Nonce :: "account \<Rightarrow> 's \<Rightarrow> u64"

text \<open>What the world does during one iteration: the clock in seconds, the instant of the hand-off, and
  the state of the context while \<open>Send\<close> waits.\<close>

record tick =
  tk_unix :: int
  tk_now :: instant
  tk_ctx :: "go_error option"

record 's run_state =
  rs_gen :: generator
  rs_counter :: int
  rs_rng :: rng
  rs_keys :: key_stream
  rs_snd :: 's
  rs_sent :: "load_tx list"

text \<open>Drawing a sender and a receiver from the pool of one instance.\<close>

definition draw_pair ::
  "chain_env \<Rightarrow> nat \<Rightarrow> generator \<Rightarrow> rng \<Rightarrow> key_stream \<Rightarrow> (account \<times> account \<times> generator \<times> rng \<times> key_stream) outcome" where
  "draw_pair env p g r keys =
     obind (NextAccount (ce_pubkey env) (gn_pools g ! p) r keys) (\<lambda>(sender, pool, r, keys).
       obind (NextAccount (ce_pubkey env) pool r keys) (\<lambda>(receiver, pool, r, keys).
         Ok (sender, receiver, g\<lparr>gn_pools := (gn_pools g)[p := pool]\<rparr>, r, keys)))"

definition next_tx ::
  "chain_env \<Rightarrow> ('s tx_sender) \<Rightarrow> tick \<Rightarrow> 's run_state \<Rightarrow> (load_tx \<times> 's run_state) outcome" where
  "next_tx env ops t st =
     (let g = rs_gen st
      in obind (go_mod (rs_counter st) (int (length (gn_schedule g)))) (\<lambda>k.
           obind (index_at (gn_schedule g) k) (\<lambda>i.
             let x = gn_instances g ! i
             in obind (draw_pair env (in_Accounts x) g (rs_rng st) (rs_keys st)) (\<lambda>(sender, receiver, g, r, keys).
                  let sc = NewTxScenario (scenario_Name (tg_impl (in_Scenario x))) (scenario_Operation (tg_impl (in_Scenario x)))
                             (snd_Nonce ops sender (rs_snd st)) sender (acc_address receiver)
                  in obind (omap_err (Wrap ''g.Scenario.Generate()'') (Generate env (tk_unix t) sc (in_Scenario x) r keys))
                       (\<lambda>(tx, sc, y, r, keys).
                          Ok (NewEnqueuedTx tx sc (tk_now t),
                              st\<lparr>rs_gen := g\<lparr>gn_instances := (gn_instances g)[i := x\<lparr>in_Scenario := y\<rparr>]\<rparr>,
                                 rs_counter := i64 (rs_counter st + 1), rs_rng := r, rs_keys := keys\<rparr>))))))"

definition run_once :: "chain_env \<Rightarrow> 's tx_sender \<Rightarrow> tick \<Rightarrow> 's run_state \<Rightarrow> 's run_state outcome waiting" where
  "run_once env ops t st =
     (case next_tx env ops t st of
        Err e \<Rightarrow> Returned (Err e)
      | Panic m \<Rightarrow> Returned (Panic m)
      | Ok (ltx, st) \<Rightarrow>
          (case snd_Send ops (tk_ctx t) ltx (rs_snd st) of
             Waits \<Rightarrow> Waits
           | Returned (Some e, s) \<Rightarrow> Returned (Err e)
           | Returned (None, s) \<Rightarrow> Returned (Ok (st\<lparr>rs_snd := s, rs_sent := rs_sent st @ [ltx]\<rparr>))))"

text \<open>The loop: one iteration per tick, until the context is found done with the error \<open>e\<close>.\<close>

fun gen_Run ::
  "chain_env \<Rightarrow> 's tx_sender \<Rightarrow> go_error \<Rightarrow> tick list \<Rightarrow> 's run_state \<Rightarrow> unit outcome waiting \<times> 's run_state" where
  "gen_Run env ops e [] st = (Returned (Err e), st)"
| "gen_Run env ops e (t # ts) st =
     (case run_once env ops t st of
        Waits \<Rightarrow> (Waits, st)
      | Returned (Err e') \<Rightarrow> (Returned (Err e'), st)
      | Returned (Panic m) \<Rightarrow> (Returned (Panic m), st)
      | Returned (Ok st') \<Rightarrow> gen_Run env ops e ts st')"

text \<open>Prewarming: one transfer of every account to itself, and a flush.\<close>

definition empty_scenario :: scenario where
  "empty_scenario = \<lparr>sc_Name = '''', sc_Weight = 0, sc_Accounts = None, sc_GasPicker = None,
     sc_GasFeeCapPicker = None, sc_GasTipCapPicker = None, sc_KeyDistribution = None, sc_SizeDistribution = None,
     sc_RecordCount = 0, sc_SizeBuckets = [], sc_Operations = None\<rparr>"

fun prewarm_loop ::
  "chain_env \<Rightarrow> 's tx_sender \<Rightarrow> (nat \<Rightarrow> tick) \<Rightarrow> nat \<Rightarrow> account list \<Rightarrow> tx_generator \<Rightarrow> rng \<Rightarrow> key_stream \<Rightarrow> 's \<Rightarrow>
     (go_error option \<times> 's) outcome waiting" where
  "prewarm_loop env ops clk i [] g r keys s =
     (case snd_Flush ops (tk_ctx (clk i)) s of
        Waits \<Rightarrow> Waits
      | Returned (err, s) \<Rightarrow> Returned (Ok (err, s)))"
| "prewarm_loop env ops clk i (acc # accs) g r keys s =
     (let sc = NewTxScenario ''prewarm'' (scenario_Operation (tg_impl g)) (snd_Nonce ops acc s) acc (acc_address acc)
      in case Generate env (tk_unix (clk i)) sc g r keys of
           Err e \<Rightarrow> Returned (Ok (Some (Wrap ''evmScenario.Generate()'' e), s))
         | Panic m \<Rightarrow> Returned (Panic m)
         | Ok (tx, sc, g, r, keys) \<Rightarrow>
             (case snd_Send ops (tk_ctx (clk i)) (NewSetupTx tx sc) s of
                Waits \<Rightarrow> Waits
              | Returned (Some e, s) \<Rightarrow> Returned (Ok (Some e, s))
              | Returned (None, s) \<Rightarrow> prewarm_loop env ops clk (Suc i) accs g r keys s))"

definition Prewarm ::
  "chain_env \<Rightarrow> 's tx_sender \<Rightarrow> load_config \<Rightarrow> (nat \<Rightarrow> tick) \<Rightarrow> account list \<Rightarrow> rng \<Rightarrow> key_stream \<Rightarrow> 's \<Rightarrow>
     (go_error option \<times> 's) outcome waiting" where
  "Prewarm env ops cfg clk accs r keys s =
     (case Attach env cfg 0 (NewScenarioBase EVMTransferScenario empty_scenario) of
        Err e \<Rightarrow> Returned (Ok (Some e, s))
      | Panic m \<Rightarrow> Returned (Panic m)
      | Ok (Some e, g) \<Rightarrow> Returned (Ok (Some (Wrap ''evmScenario.Attach()'' e), s))
      | Ok (None, g) \<Rightarrow> prewarm_loop env ops clk 0 accs g r keys s)"

subsection \<open>The round-robin has every instance as often as its weight says\<close>

lemma expand_from_ge: "j \<in> set (expand_from k xs) \<Longrightarrow> k \<le> j"
  by (induction k xs rule: expand_from.induct) auto

lemma count_expand:
  "count (mset (expand_from k xs)) (k + i) = (if i < length xs then nat (in_Weight (xs ! i)) else 0)"
proof (induction xs arbitrary: k i)
  case (Cons x xs)
  show ?case
  proof (cases i)
    case 0
    have "count (mset (expand_from (Suc k) xs)) k = 0"
      using expand_from_ge [of k "Suc k" xs] by (auto simp: count_mset_0_iff)
    then show ?thesis using 0 by (simp add: count_mset)
  next
    case (Suc j)
    then show ?thesis using Cons.IH [of "Suc k" j] by simp
  qed
qed simp

lemma expand_weights_count:
  "count (mset (expand_weights xs)) i = (if i < length xs then nat (in_Weight (xs ! i)) else 0)"
  using count_expand [of 0 xs i] by (simp add: expand_weights_def)

lemma expand_weights_Nil: "expand_weights xs = [] \<longleftrightarrow> (\<forall>x \<in> set xs. in_Weight x \<le> 0)"
proof -
  have "expand_from k xs = [] \<longleftrightarrow> (\<forall>x \<in> set xs. in_Weight x \<le> 0)" for k
    by (induction k xs rule: expand_from.induct) auto
  then show ?thesis by (simp add: expand_weights_def)
qed

lemma build_ok:
  assumes "build b r = Ok (g, r')" "length (expand_weights (gb_instances b)) < 2 ^ 64"
  shows "gn_pools g = gb_pools b \<and> gn_instances g = gb_instances b \<and> gn_schedule g \<noteq> [] \<and>
    mset (gn_schedule g) = mset (expand_weights (gb_instances b))"
  using assms Shuffle_mset [OF assms(2), of r]
  by (cases "Shuffle (expand_weights (gb_instances b)) r") (auto simp: build_def Let_def split: if_splits)

lemma build_fails_iff: "(\<exists>e. build b r = Err e) \<longleftrightarrow> (\<forall>x \<in> set (gb_instances b). in_Weight x \<le> 0)"
  by (cases "Shuffle (expand_weights (gb_instances b)) r")
    (simp add: build_def Let_def flip: expand_weights_Nil)

subsection \<open>A generator in use\<close>

definition pool_wf :: "chain_env \<Rightarrow> account_pool \<Rightarrow> bool" where
  "pool_wf env p \<longleftrightarrow> pool_ok p \<and> (\<forall>acc \<in> set (ap_accounts p). well_keyed env acc)"

definition gen_wf :: "chain_env \<Rightarrow> generator \<Rightarrow> bool" where
  "gen_wf env g \<longleftrightarrow> gn_schedule g \<noteq> [] \<and> int (length (gn_schedule g)) \<le> max_i64 \<and>
     (\<forall>i \<in> set (gn_schedule g). i < length (gn_instances g)) \<and>
     (\<forall>x \<in> set (gn_instances g). in_Accounts x < length (gn_pools g) \<and> gen_ready (in_Scenario x)) \<and>
     (\<forall>p \<in> set (gn_pools g). pool_wf env p)"

lemma gen_wfD:
  "gen_wf env g \<Longrightarrow> i \<in> set (gn_schedule g) \<Longrightarrow>
     i < length (gn_instances g) \<and> in_Accounts (gn_instances g ! i) < length (gn_pools g) \<and>
     gen_ready (in_Scenario (gn_instances g ! i)) \<and> pool_wf env (gn_pools g ! in_Accounts (gn_instances g ! i))"
  unfolding gen_wf_def by (auto dest!: nth_mem)

lemma NextAccount_wf:
  assumes "pool_wf env p"
  shows "\<exists>acc p' r' keys'. NextAccount (ce_pubkey env) p r keys = Ok (acc, p', r', keys') \<and> well_keyed env acc \<and> pool_wf env p'"
proof -
  have p: "pool_ok p" using assms by (simp add: pool_wf_def)
  have "ap_accounts p ! nat (pool_next p) \<in> set (ap_accounts p)"
    using pool_next_range [OF p] by (intro nth_mem) (simp add: nat_less_iff)
  then have "well_keyed env (ap_accounts p ! nat (pool_next p))" using assms by (simp add: pool_wf_def)
  then show ?thesis
    using NextAccount_cases [OF p] assms pool_ok_next [OF p] by (auto simp: pool_wf_def well_keyed_from_key)
qed

lemma draw_pair_wf:
  assumes "gen_wf env g" "k < length (gn_pools g)"
  shows "\<exists>sender receiver p r' keys'. draw_pair env k g r keys =
      Ok (sender, receiver, g\<lparr>gn_pools := (gn_pools g)[k := p]\<rparr>, r', keys') \<and> well_keyed env sender \<and> pool_wf env p"
proof -
  have "pool_wf env (gn_pools g ! k)" using assms by (simp add: gen_wf_def)
  then obtain s p1 r1 k1 where 1: "NextAccount (ce_pubkey env) (gn_pools g ! k) r keys = Ok (s, p1, r1, k1)"
    "well_keyed env s" "pool_wf env p1" using NextAccount_wf by blast
  obtain t p2 r2 k2 where 2: "NextAccount (ce_pubkey env) p1 r1 k1 = Ok (t, p2, r2, k2)" "pool_wf env p2"
    using NextAccount_wf [OF 1(3), of r1 k1] by blast
  have "draw_pair env k g r keys = Ok (s, t, g\<lparr>gn_pools := (gn_pools g)[k := p2]\<rparr>, r2, k2)"
    by (simp add: draw_pair_def 1(1) 2(1))
  then show ?thesis using 1(2) 2(2) by blast
qed

definition inst_names :: "generator \<Rightarrow> string list" where
  "inst_names g = map (\<lambda>x. scenario_Name (tg_impl (in_Scenario x))) (gn_instances g)"

text \<open>The name of the scenario whose turn it is at counter \<open>c\<close>.\<close>

definition turn_name :: "generator \<Rightarrow> int \<Rightarrow> string" where
  "turn_name g c = inst_names g ! (gn_schedule g ! nat (c mod int (length (gn_schedule g))))"

lemma turn_in_schedule: "gn_schedule g \<noteq> [] \<Longrightarrow> gn_schedule g ! nat (c mod int (length (gn_schedule g))) \<in> set (gn_schedule g)"
  by (intro nth_mem) (simp add: nat_less_iff)

definition same_names :: "generator \<Rightarrow> generator \<Rightarrow> bool" where
  "same_names g g' \<longleftrightarrow> gn_schedule g' = gn_schedule g \<and> inst_names g' = inst_names g"

lemma turn_name_same: "same_names g g' \<Longrightarrow> turn_name g' c = turn_name g c"
  by (simp add: turn_name_def same_names_def)

text \<open>An iteration always produces a transaction, for the scenario whose turn it is, under the
  nonce the sender names.\<close>

lemma gen_wf_step:
  assumes "gen_wf env g" "i \<in> set (gn_schedule g)" "pool_wf env p" "gen_ready y" "k < length (gn_pools g)"
    "scenario_Name (tg_impl y) = scenario_Name (tg_impl (in_Scenario (gn_instances g ! i)))"
  shows "gen_wf env (g\<lparr>gn_pools := (gn_pools g)[k := p],
      gn_instances := (gn_instances g)[i := (gn_instances g ! i)\<lparr>in_Scenario := y\<rparr>]\<rparr>) \<and>
    same_names g (g\<lparr>gn_pools := (gn_pools g)[k := p],
      gn_instances := (gn_instances g)[i := (gn_instances g ! i)\<lparr>in_Scenario := y\<rparr>]\<rparr>)"
proof
  let ?x = "(gn_instances g ! i)\<lparr>in_Scenario := y\<rparr>"
  have i: "i < length (gn_instances g)" "in_Accounts (gn_instances g ! i) < length (gn_pools g)"
    using gen_wfD [OF assms(1,2)] by simp_all
  have "x = ?x \<or> x \<in> set (gn_instances g)" if "x \<in> set ((gn_instances g)[i := ?x])" for x
    using that set_update_subset_insert [of "gn_instances g" i ?x] by auto
  moreover have "q = p \<or> q \<in> set (gn_pools g)" if "q \<in> set ((gn_pools g)[k := p])" for q
    using that set_update_subset_insert [of "gn_pools g" k p] by auto
  ultimately show "gen_wf env (g\<lparr>gn_pools := (gn_pools g)[k := p], gn_instances := (gn_instances g)[i := ?x]\<rparr>)"
    using assms(1,3,4) i(2) unfolding gen_wf_def by fastforce
  have "map (\<lambda>x. scenario_Name (tg_impl (in_Scenario x))) ((gn_instances g)[i := ?x]) =
      map (\<lambda>x. scenario_Name (tg_impl (in_Scenario x))) (gn_instances g)"
    using i(1) by (simp add: map_update assms(6) list_update_same_conv)
  then show "same_names g (g\<lparr>gn_pools := (gn_pools g)[k := p], gn_instances := (gn_instances g)[i := ?x]\<rparr>)"
    by (simp add: same_names_def inst_names_def)
qed

definition stamped :: "'s tx_sender \<Rightarrow> 's \<Rightarrow> load_tx \<Rightarrow> bool" where
  "stamped ops s ltx \<longleftrightarrow> nonce_of ltx = snd_Nonce ops (ts_sender (lt_scenario ltx)) s"

lemma next_tx_ok:
  assumes "binds env" "gen_wf env (rs_gen st)" "0 \<le> rs_counter st"
  shows "\<exists>ltx st'. next_tx env ops t st = Ok (ltx, st') \<and> gen_wf env (rs_gen st') \<and> same_names (rs_gen st) (rs_gen st') \<and>
    rs_counter st' = i64 (rs_counter st + 1) \<and> rs_snd st' = rs_snd st \<and> rs_sent st' = rs_sent st \<and>
    stamped ops (rs_snd st) ltx \<and> ts_name (lt_scenario ltx) = turn_name (rs_gen st) (rs_counter st) \<and>
    et_signed_by (lt_tx ltx) = None \<and> well_keyed env (ts_sender (lt_scenario ltx)) \<and> lt_intended ltx = tk_now t"
proof -
  let ?g = "rs_gen st" and ?c = "rs_counter st"
  let ?n = "int (length (gn_schedule ?g))"
  have ne: "gn_schedule ?g \<noteq> []" "is_i64 ?n" using assms(2) by (simp_all add: gen_wf_def is_i64_nonneg)
  then have md: "go_mod ?c ?n = Ok (?c mod ?n)" using assms(3) by (intro go_mod_pos) simp_all
  let ?i = "gn_schedule ?g ! nat (?c mod ?n)"
  have i: "?i \<in> set (gn_schedule ?g)" using turn_in_schedule [OF ne(1)] .
  have at: "index_at (gn_schedule ?g) (?c mod ?n) = Ok ?i" using ne(1) by simp
  let ?x = "gn_instances ?g ! ?i"
  have x: "?i < length (gn_instances ?g)" "in_Accounts ?x < length (gn_pools ?g)" "gen_ready (in_Scenario ?x)"
    using gen_wfD [OF assms(2) i] by simp_all
  obtain sender receiver p r1 k1 where d: "draw_pair env (in_Accounts ?x) ?g (rs_rng st) (rs_keys st) =
      Ok (sender, receiver, ?g\<lparr>gn_pools := (gn_pools ?g)[in_Accounts ?x := p]\<rparr>, r1, k1)"
    "well_keyed env sender" "pool_wf env p"
    using draw_pair_wf [OF assms(2) x(2)] by blast
  let ?sc = "NewTxScenario (scenario_Name (tg_impl (in_Scenario ?x))) (scenario_Operation (tg_impl (in_Scenario ?x)))
      (snd_Nonce ops sender (rs_snd st)) sender (acc_address receiver)"
  have wk: "well_keyed env (ts_sender ?sc)" using d(2) by (simp add: NewTxScenario_def)
  from Generate_ok [OF assms(1) wk x(3), of "tk_unix t" r1 k1] obtain tx sc' y r2 k2 where
    g: "Generate env (tk_unix t) ?sc (in_Scenario ?x) r1 k1 = Ok (tx, sc', y, r2, k2)" "et_nonce tx = ts_nonce ?sc"
      "et_signed_by tx = None" "sc' = ?sc\<lparr>ts_operation := ts_operation sc'\<rparr>" "gen_ready y"
      "scenario_Name (tg_impl y) = scenario_Name (tg_impl (in_Scenario ?x))"
    unfolding generated_ok_def by (elim exE conjE)
  let ?g' = "?g\<lparr>gn_pools := (gn_pools ?g)[in_Accounts ?x := p], gn_instances := (gn_instances ?g)[?i := ?x\<lparr>in_Scenario := y\<rparr>]\<rparr>"
  have wf: "gen_wf env ?g'" "same_names ?g ?g'" using gen_wf_step [OF assms(2) i d(3) g(5) x(2) g(6)] by simp_all
  have sc: "ts_sender sc' = sender" "ts_name sc' = scenario_Name (tg_impl (in_Scenario ?x))" "ts_nonce ?sc = snd_Nonce ops sender (rs_snd st)"
    by (subst g(4), simp add: NewTxScenario_def)+ (simp add: NewTxScenario_def)
  have tn: "turn_name ?g ?c = scenario_Name (tg_impl (in_Scenario ?x))"
    using x(1) by (simp add: turn_name_def inst_names_def)
  have "next_tx env ops t st = Ok (NewEnqueuedTx tx sc' (tk_now t),
      st\<lparr>rs_gen := ?g', rs_counter := i64 (?c + 1), rs_rng := r2, rs_keys := k2\<rparr>)"
    using md at d(1) g(1) by (simp add: next_tx_def Let_def)
  then show ?thesis using wf g(2,3) sc tn d(2)
    by (simp add: stamped_def NewEnqueuedTx_def)
qed

text \<open>
  A run: what it sends, in order, to a sender whose state may change on its own (\<open>bg\<close>) between
  two sends. \<open>sent_run\<close> says that each transaction carries the nonce the sender named when it
  was built.
\<close>

inductive sent_run :: "'s tx_sender \<Rightarrow> ('s \<Rightarrow> 's \<Rightarrow> bool) \<Rightarrow> 's \<Rightarrow> load_tx list \<Rightarrow> 's \<Rightarrow> bool" for ops bg where
  run_nil: "sent_run ops bg s [] s"
| run_bg: "bg s s' \<Longrightarrow> sent_run ops bg s' ls s'' \<Longrightarrow> sent_run ops bg s ls s''"
| run_send: "stamped ops s tx \<Longrightarrow> snd_Send ops ctx tx s = Returned (None, s') \<Longrightarrow> sent_run ops bg s' ls s'' \<Longrightarrow>
    sent_run ops bg s (tx # ls) s''"

inductive_cases sent_run_NilE: "sent_run ops bg s [] s'"
inductive_cases sent_run_ConsE: "sent_run ops bg s (tx # ls) s'"

definition run_wf :: "chain_env \<Rightarrow> 's run_state \<Rightarrow> bool" where
  "run_wf env st \<longleftrightarrow> gen_wf env (rs_gen st) \<and> 0 \<le> rs_counter st"

lemma run_once_cases:
  assumes "binds env" "run_wf env st"
  shows "\<exists>ltx st1. next_tx env ops t st = Ok (ltx, st1) \<and> stamped ops (rs_snd st) ltx \<and> rs_snd st1 = rs_snd st \<and>
    ts_name (lt_scenario ltx) = turn_name (rs_gen st) (rs_counter st) \<and> same_names (rs_gen st) (rs_gen st1) \<and>
    gen_wf env (rs_gen st1) \<and> rs_counter st1 = i64 (rs_counter st + 1) \<and>
    run_once env ops t st =
      (case snd_Send ops (tk_ctx t) ltx (rs_snd st) of
         Waits \<Rightarrow> Waits
       | Returned (Some e, s) \<Rightarrow> Returned (Err e)
       | Returned (None, s) \<Rightarrow> Returned (Ok (st1\<lparr>rs_snd := s, rs_sent := rs_sent st @ [ltx]\<rparr>)))"
proof -
  have "gen_wf env (rs_gen st)" "0 \<le> rs_counter st" using assms(2) by (simp_all add: run_wf_def)
  from next_tx_ok [OF assms(1) this, of ops t] obtain ltx st1 where
    n: "next_tx env ops t st = Ok (ltx, st1)" "gen_wf env (rs_gen st1)" "same_names (rs_gen st) (rs_gen st1)"
      "rs_counter st1 = i64 (rs_counter st + 1)" "rs_snd st1 = rs_snd st" "rs_sent st1 = rs_sent st"
      "stamped ops (rs_snd st) ltx" "ts_name (lt_scenario ltx) = turn_name (rs_gen st) (rs_counter st)"
    by (elim exE conjE)
  then show ?thesis
    by (intro exI [of _ ltx] exI [of _ st1]) (auto simp: run_once_def split: waiting.split prod.split option.split)
qed

lemma gen_Run_ok:
  assumes "binds env" "run_wf env st" "rs_counter st + int (length ts) \<le> max_i64"
    "gen_Run env ops e ts st = (res, st')"
  shows "\<exists>ls. rs_sent st' = rs_sent st @ ls \<and> length ls \<le> length ts \<and> sent_run ops (\<lambda>s s'. False) (rs_snd st) ls (rs_snd st') \<and>
    map (\<lambda>tx. ts_name (lt_scenario tx)) ls = map (\<lambda>k. turn_name (rs_gen st) (rs_counter st + int k)) [0..<length ls] \<and>
    (res = Waits \<or> (\<exists>e'. res = Returned (Err e'))) \<and> (res = Returned (Err e) \<and> length ls = length ts \<or> length ls < length ts)"
  using assms
proof (induction ts arbitrary: st)
  case Nil
  then show ?case by (auto intro: run_nil)
next
  case (Cons t ts)
  obtain ltx st1 where s: "stamped ops (rs_snd st) ltx" "rs_snd st1 = rs_snd st"
    "ts_name (lt_scenario ltx) = turn_name (rs_gen st) (rs_counter st)" "same_names (rs_gen st) (rs_gen st1)"
    "gen_wf env (rs_gen st1)" "rs_counter st1 = i64 (rs_counter st + 1)"
    "run_once env ops t st =
      (case snd_Send ops (tk_ctx t) ltx (rs_snd st) of
         Waits \<Rightarrow> Waits
       | Returned (Some e, s) \<Rightarrow> Returned (Err e)
       | Returned (None, s) \<Rightarrow> Returned (Ok (st1\<lparr>rs_snd := s, rs_sent := rs_sent st @ [ltx]\<rparr>)))"
    using run_once_cases [OF Cons.prems(1,2), of ops t] by (elim exE conjE)
  show ?case
  proof (cases "\<exists>s. snd_Send ops (tk_ctx t) ltx (rs_snd st) = Returned (None, s)")
    case False
    then have "st' = st" "res = Waits \<or> (\<exists>e'. res = Returned (Err e'))"
      using Cons.prems(4) s(7) by (auto split: waiting.splits prod.splits option.splits)
    then show ?thesis by (auto intro: run_nil)
  next
    case True
    then obtain s1 where send: "snd_Send ops (tk_ctx t) ltx (rs_snd st) = Returned (None, s1)" by blast
    let ?st = "st1\<lparr>rs_snd := s1, rs_sent := rs_sent st @ [ltx]\<rparr>"
    have c: "rs_counter ?st = rs_counter st + 1"
      using s(6) Cons.prems(2,3) by (simp add: run_wf_def i64_id is_i64_nonneg)
    have wf: "run_wf env ?st" using s(5) c Cons.prems(2) by (simp add: run_wf_def)
    have "gen_Run env ops e ts ?st = (res, st')" using Cons.prems(4) s(7) send by simp
    from Cons.IH [OF Cons.prems(1) wf _ this] c Cons.prems(3) obtain ls where
      ls: "rs_sent st' = rs_sent st @ ltx # ls" "length ls \<le> length ts" "sent_run ops (\<lambda>s s'. False) s1 ls (rs_snd st')"
        "map (\<lambda>tx. ts_name (lt_scenario tx)) ls = map (\<lambda>k. turn_name (rs_gen st1) (rs_counter st + 1 + int k)) [0..<length ls]"
        "res = Waits \<or> (\<exists>e'. res = Returned (Err e'))" "res = Returned (Err e) \<and> length ls = length ts \<or> length ls < length ts"
      by auto
    have "map (\<lambda>tx. ts_name (lt_scenario tx)) (ltx # ls) =
        map (\<lambda>k. turn_name (rs_gen st) (rs_counter st + int k)) [0..<length (ltx # ls)]"
      using s(3) ls(4) turn_name_same [OF s(4)] by (simp add: upt_conv_Cons_Cons map_upt_Suc add.assoc del: upt_Suc)
    moreover have "sent_run ops (\<lambda>s s'. False) (rs_snd st) (ltx # ls) (rs_snd st')"
      by (rule run_send [OF s(1) send ls(3)])
    ultimately show ?thesis using ls(1,2,5,6) by (intro exI [of _ "ltx # ls"]) auto
  qed
qed

subsection \<open>The interface of a sender\<close>

text \<open>
  What the generator relies on: \<open>keeps s a\<close> says that the sender keeps the count of the account
  \<open>a\<close>, \<open>bg\<close> is what it does on its own. Sending a transaction of a tracked
  account under the nonce the sender names advances that account's nonce by one and no other;
  what the sender does on its own changes no nonce it keeps.
\<close>

locale nonce_keeper =
  fixes ops :: "'s tx_sender"
    and keeps :: "'s \<Rightarrow> address \<Rightarrow> bool"
    and bg :: "'s \<Rightarrow> 's \<Rightarrow> bool"
  assumes nonce_addr: "acc_address a = acc_address b \<Longrightarrow> snd_Nonce ops a s = snd_Nonce ops b s"
    and send_own: "stamped ops s tx \<Longrightarrow> snd_Send ops ctx tx s = Returned (None, s') \<Longrightarrow>
      keeps s (sender_of tx) \<Longrightarrow> tracked_of tx \<Longrightarrow> acc_address a = sender_of tx \<Longrightarrow>
      keeps s' (sender_of tx) \<and> snd_Nonce ops a s' = snd_Nonce ops a s + 1"
    and send_other: "stamped ops s tx \<Longrightarrow> snd_Send ops ctx tx s = Returned (None, s') \<Longrightarrow> acc_address a \<noteq> sender_of tx \<Longrightarrow>
      keeps s (acc_address a) \<Longrightarrow> keeps s' (acc_address a) \<and> snd_Nonce ops a s' = snd_Nonce ops a s"
    and bg_keeps: "bg s s' \<Longrightarrow> keeps s (acc_address a) \<Longrightarrow> keeps s' (acc_address a) \<and> snd_Nonce ops a s' = snd_Nonce ops a s"
begin

text \<open>The nonces of a tracked account count up without a gap from the first one named.\<close>

lemma nonces_consecutive:
  assumes "sent_run ops bg s ls s'" "keeps s (acc_address a)"
    "\<forall>tx \<in> set ls. sender_of tx = acc_address a \<longrightarrow> tracked_of tx"
  shows "map nonce_of (filter (\<lambda>tx. sender_of tx = acc_address a) ls) =
      map (\<lambda>i. snd_Nonce ops a s + of_nat i) [0..<length (filter (\<lambda>tx. sender_of tx = acc_address a) ls)] \<and>
    snd_Nonce ops a s' = snd_Nonce ops a s + of_nat (length (filter (\<lambda>tx. sender_of tx = acc_address a) ls))"
  using assms
proof (induction rule: sent_run.induct)
  case (run_bg s s1 ls s2)
  then show ?case using bg_keeps [OF run_bg.hyps(1) run_bg.prems(1)] by simp
next
  case (run_send s tx ctx s1 ls s2)
  show ?case
  proof (cases "sender_of tx = acc_address a")
    case True
    have own: "keeps s (sender_of tx)" using run_send.prems(1) unfolding True .
    have trk: "tracked_of tx" using run_send.prems(2) True by simp
    have 1: "keeps s1 (acc_address a)" "snd_Nonce ops a s1 = snd_Nonce ops a s + 1"
      using send_own [OF run_send.hyps(1,2) own trk True [symmetric]] unfolding True by blast+
    have "nonce_of tx = snd_Nonce ops a s"
      using run_send.hyps(1) nonce_addr [OF True, of s] by (simp only: stamped_def)
    have tl: "\<forall>tx \<in> set ls. sender_of tx = acc_address a \<longrightarrow> tracked_of tx" using run_send.prems(2) by simp
    let ?k = "length (filter (\<lambda>tx. sender_of tx = acc_address a) ls)"
    have "map (\<lambda>i. snd_Nonce ops a s + of_nat i) [0..<Suc ?k] =
        snd_Nonce ops a s # map (\<lambda>i. snd_Nonce ops a s1 + of_nat i) [0..<?k]"
      by (simp add: 1(2) map_upt_Suc add.assoc del: upt_Suc)
    then show ?thesis
      using run_send.IH [OF 1(1) tl] True \<open>nonce_of tx = snd_Nonce ops a s\<close> by (simp add: 1(2) add.assoc del: upt_Suc)
  next
    case False
    then have "acc_address a \<noteq> sender_of tx" by simp
    from send_other [OF run_send.hyps(1,2) this run_send.prems(1)]
    show ?thesis using run_send.IH run_send.prems(2) False by simp
  qed
qed simp

end

subsection \<open>The sharded sender and the block writer are such senders\<close>

text \<open>
  \<open>ShardedSender.Send\<close>, \<open>Flush\<close> and \<open>Nonce\<close> are the queue's operations. On its own the queue hands out
  and completes transactions; a \<open>Reset\<close> is the one step that sets a nonce anew.
\<close>

definition sharded_sender :: "txs_queue tx_sender" where
  "sharded_sender =
     \<lparr>snd_Send = Push,
      snd_Flush = \<lambda>ctx q. (case WaitUntilEmpty ctx q of Returned e \<Rightarrow> Returned (e, q) | Waits \<Rightarrow> Waits),
      snd_Nonce = queue_Nonce\<rparr>"

definition queue_keeps :: "txs_queue \<Rightarrow> address \<Rightarrow> bool" where
  "queue_keeps q a \<longleftrightarrow> (case byAddr q a of None \<Rightarrow> True | Some st \<Rightarrow> acc_track st)"

definition queue_bg :: "txs_queue \<Rightarrow> txs_queue \<Rightarrow> bool" where
  "queue_bg q q' \<longleftrightarrow> (\<exists>tx. PopReady_locked q = Ok (tx, q')) \<or> (\<exists>a. q' = PopSent a q)"

lemma Push_sent: "Push ctx tx q = Returned (None, q') \<Longrightarrow> q' = Push_locked tx q"
  by (auto simp: Push_def split: if_splits option.splits)

lemma stamped_queue: "stamped sharded_sender q tx \<longleftrightarrow> nonce_of tx = nextNonce (acc_or_new tx q)"
  by (simp add: stamped_def sharded_sender_def queue_Nonce_def acc_or_new_def split: option.split)

lemma stamped_accepts: "stamped sharded_sender q tx \<Longrightarrow> accepts tx q"
  by (simp add: stamped_queue accepts_def)

lemma Push_byAddr:
  assumes "nonce_of tx = nextNonce (acc_or_new tx q)"
  shows "\<exists>st. byAddr (Push_locked tx q) = (byAddr q)(sender_of tx \<mapsto> st) \<and>
    nextNonce st = nextNonce (acc_or_new tx q) + 1 \<and> acc_track st = acc_track (acc_or_new tx q)"
  using assms
  by (intro exI [of _ "the (byAddr (Push_locked tx q) (sender_of tx))"])
    (simp add: Push_locked_def Let_def Updated_def)

lemma PopSent_keeps:
  "queue_keeps q a \<Longrightarrow> queue_keeps (PopSent b q) a \<and>
   map_option nextNonce (byAddr (PopSent b q) a) = map_option nextNonce (byAddr q a)"
  by (auto simp: PopSent_def queue_keeps_def Updated_def Let_def split: option.splits)

lemma PopReady_keeps:
  assumes "PopReady_locked q = Ok (tx, q')"
  shows "queue_keeps q' a = queue_keeps q a \<and> map_option nextNonce (byAddr q' a) = map_option nextNonce (byAddr q a)"
  using assms
  by (auto simp: PopReady_locked_def queue_keeps_def Updated_def outcome_simps split: option.splits if_splits)

lemma queue_Nonce_cong:
  "map_option nextNonce (byAddr q' (acc_address acc)) = map_option nextNonce (byAddr q (acc_address acc)) \<Longrightarrow>
   queue_Nonce acc q' = queue_Nonce acc q"
  by (auto simp: queue_Nonce_def split: option.splits)

interpretation sharded: nonce_keeper sharded_sender queue_keeps queue_bg
proof
  fix a b :: account and q
  show "acc_address a = acc_address b \<Longrightarrow> snd_Nonce sharded_sender a q = snd_Nonce sharded_sender b q"
    by (simp add: sharded_sender_def queue_Nonce_def)
next
  fix q q' ctx and tx :: load_tx and a :: account
  assume "stamped sharded_sender q tx" "snd_Send sharded_sender ctx tx q = Returned (None, q')"
  then have st: "nonce_of tx = nextNonce (acc_or_new tx q)" and q': "q' = Push_locked tx q"
    using Push_sent by (simp_all add: stamped_queue) (simp add: sharded_sender_def)
  from Push_byAddr [OF st] obtain s where s: "byAddr q' = (byAddr q)(sender_of tx \<mapsto> s)"
    "nextNonce s = nextNonce (acc_or_new tx q) + 1" "acc_track s = acc_track (acc_or_new tx q)" unfolding q' by blast
  show "queue_keeps q (sender_of tx) \<Longrightarrow> tracked_of tx \<Longrightarrow> acc_address a = sender_of tx \<Longrightarrow>
      queue_keeps q' (sender_of tx) \<and> snd_Nonce sharded_sender a q' = snd_Nonce sharded_sender a q + 1"
    using s by (auto simp: queue_keeps_def sharded_sender_def queue_Nonce_def acc_or_new_def split: option.splits)
  show "acc_address a \<noteq> sender_of tx \<Longrightarrow> queue_keeps q (acc_address a) \<Longrightarrow>
      queue_keeps q' (acc_address a) \<and> snd_Nonce sharded_sender a q' = snd_Nonce sharded_sender a q"
    by (simp add: queue_keeps_def sharded_sender_def queue_Nonce_def s(1))
next
  fix q q' and a :: account
  assume "queue_bg q q'" "queue_keeps q (acc_address a)"
  then show "queue_keeps q' (acc_address a) \<and> snd_Nonce sharded_sender a q' = snd_Nonce sharded_sender a q"
    using PopReady_keeps [of q _ q' "acc_address a"] PopSent_keeps [of q "acc_address a"] queue_Nonce_cong [of q' a q]
    by (auto simp: queue_bg_def sharded_sender_def)
qed

definition writer_sender :: "flush_io \<Rightarrow> (txs_writer \<times> txs_files) tx_sender" where
  "writer_sender io =
     \<lparr>snd_Send = \<lambda>ctx tx (w, files). Returned (case writer_Send io tx w files of (e, w, files) \<Rightarrow> (e, w, files)),
      snd_Flush = \<lambda>ctx (w, files). Returned (case writer_Flush io w files of (e, w, files) \<Rightarrow> (e, w, files)),
      snd_Nonce = \<lambda>acc (w, files). writer_Nonce acc w\<rparr>"

lemma flush_nonces: "flush io w files = (e, w', files') \<Longrightarrow> w_nonces w' = w_nonces w"
  by (auto simp: flush_def flush_deferred_def Let_def split: option.splits sum.splits)

lemma writer_Send_nonces:
  assumes "writer_Send io tx w files = (None, w', files')"
  shows "\<exists>v. w' = buffer_tx tx v \<and> w_nonces v = w_nonces w"
  using assms flush_nonces [of io w files] by (auto simp: writer_Send_def split: if_splits prod.splits option.splits)

interpretation blocks: nonce_keeper "writer_sender io" "\<lambda>s a. True" "\<lambda>s s'. False"
proof
  fix a b :: account and s :: "txs_writer \<times> txs_files"
  show "acc_address a = acc_address b \<Longrightarrow> snd_Nonce (writer_sender io) a s = snd_Nonce (writer_sender io) b s"
    by (cases s) (simp add: writer_sender_def writer_Nonce_def)
next
  fix s s' :: "txs_writer \<times> txs_files" and ctx and tx :: load_tx and a :: account
  assume "snd_Send (writer_sender io) ctx tx s = Returned (None, s')"
  then obtain v where v: "fst s' = buffer_tx tx v" "w_nonces v = w_nonces (fst s)"
    using writer_Send_nonces [of io tx "fst s" "snd s" "fst s'" "snd s'"]
    by (cases s; cases s') (auto simp: writer_sender_def split: prod.splits)
  have n: "snd_Nonce (writer_sender io) acc t = writer_Nonce acc (fst t)" for acc t
    by (cases t) (simp add: writer_sender_def)
  show "tracked_of tx \<Longrightarrow> acc_address a = sender_of tx \<Longrightarrow>
      True \<and> snd_Nonce (writer_sender io) a s' = snd_Nonce (writer_sender io) a s + 1"
    using v by (simp add: n buffer_tx_def writer_Nonce_def Let_def split: option.split)
  show "acc_address a \<noteq> sender_of tx \<Longrightarrow>
      True \<and> snd_Nonce (writer_sender io) a s' = snd_Nonce (writer_sender io) a s"
    using v by (simp add: n buffer_tx_def writer_Nonce_def Let_def split: option.split)
qed simp_all

subsection \<open>A checked configuration makes a generator that is ready\<close>

definition sized :: "account_config \<Rightarrow> bool" where
  "sized ac \<longleftrightarrow> 0 < ac_Accounts ac \<and> ac_Accounts ac \<le> max_i64"

definition good_scenario :: "load_config \<Rightarrow> scenario \<Rightarrow> bool" where
  "good_scenario cfg s \<longleftrightarrow> decoded s \<and> Scenario_Validate s = Ok () \<and> to_lower (sc_Name s) \<in> set scenario_names \<and>
     (case sc_Accounts s of Some ac \<Rightarrow> sized ac | None \<Rightarrow> lc_Accounts cfg \<noteq> None)"

definition good_config :: "load_config \<Rightarrow> bool" where
  "good_config cfg \<longleftrightarrow> (\<forall>s \<in> set (lc_Scenarios cfg). good_scenario cfg s) \<and>
     (\<forall>ac \<in> set_option (lc_Accounts cfg). sized ac) \<and>
     int (\<Sum>s \<leftarrow> lc_Scenarios cfg. nat (sc_Weight s)) \<le> max_i64"

definition builder_wf :: "chain_env \<Rightarrow> generator_builder \<Rightarrow> bool" where
  "builder_wf env b \<longleftrightarrow> (\<forall>p \<in> set (gb_pools b). pool_wf env p) \<and>
     (\<forall>x \<in> set (gb_instances b). in_Accounts x < length (gb_pools b) \<and>
        priced_ok (tg_scenario (in_Scenario x)) \<and> impl_ok (tg_scenario (in_Scenario x)) (tg_impl (in_Scenario x)))"

lemma GenerateAccounts_keyed:
  "a \<in> set (fst (GenerateAccounts (ce_pubkey env) n tracked keys)) \<Longrightarrow> well_keyed env a"
proof (induction "ce_pubkey env" n tracked keys rule: GenerateAccounts.induct)
  case (2 n tracked keys)
  then show ?case
    by (cases "GenerateAccounts (ce_pubkey env) n tracked (\<lambda>i. keys (Suc i))")
      (auto simp: NewAccount_def well_keyed_from_key)
qed simp

lemma add_pool_ok:
  assumes "builder_wf env b" "sized ac"
  shows "\<exists>p keys'. add_pool env ac b keys = Ok (length (gb_pools b), b\<lparr>gb_pools := gb_pools b @ [p]\<rparr>, keys') \<and>
    builder_wf env (b\<lparr>gb_pools := gb_pools b @ [p]\<rparr>)"
proof -
  obtain a keys' where a: "NewAccountPool (ce_pubkey env) (ac_Accounts ac) (NewAccountRate ac) keys = Ok (a, keys')" "pool_ok a"
    using NewAccountPool_ok assms(2) unfolding sized_def by blast
  then have "ap_accounts a = fst (GenerateAccounts (ce_pubkey env) (nat (ac_Accounts ac)) True keys)"
    by (auto simp: NewAccountPool_def split: if_splits prod.splits)
  then have "pool_wf env a" using a(2) GenerateAccounts_keyed by (simp add: pool_wf_def)
  then have "builder_wf env (b\<lparr>gb_pools := gb_pools b @ [a]\<rparr>)" using assms(1) by (auto simp: builder_wf_def)
  then show ?thesis using a(1) by (auto simp: add_pool_def)
qed

lemma account_pool_for_ok:
  assumes "builder_wf env b" "good_scenario cfg s" "shared = None \<longleftrightarrow> lc_Accounts cfg = None" "\<forall>p \<in> set_option shared. p < length (gb_pools b)"
  shows "\<exists>p b' keys'. account_pool_for env shared s b keys = Ok (p, b', keys') \<and> builder_wf env b' \<and> p < length (gb_pools b') \<and>
    gb_instances b' = gb_instances b \<and> length (gb_pools b) \<le> length (gb_pools b')"
proof (cases "sc_Accounts s")
  case None
  then obtain p where "shared = Some p" using assms(2,3) by (auto simp: good_scenario_def)
  then show ?thesis using None assms(1,4) by (simp add: account_pool_for_def)
next
  case (Some ac)
  then have "sized ac" using assms(2) by (simp add: good_scenario_def)
  from add_pool_ok [OF assms(1) this, of keys] obtain p keys' where
    "add_pool env ac b keys = Ok (length (gb_pools b), b\<lparr>gb_pools := gb_pools b @ [p]\<rparr>, keys')"
    "builder_wf env (b\<lparr>gb_pools := gb_pools b @ [p]\<rparr>)" by (elim exE conjE)
  then show ?thesis using Some by (simp add: account_pool_for_def)
qed

lemma create_loop_ok:
  assumes "builder_wf env b" "\<forall>s \<in> set ss. good_scenario cfg s" "shared = None \<longleftrightarrow> lc_Accounts cfg = None"
    "\<forall>p \<in> set_option shared. p < length (gb_pools b)"
  shows "\<exists>b' keys'. create_loop env all shared i ss b keys = Ok (b', keys') \<and> builder_wf env b' \<and>
    map in_Weight (gb_instances b') = map in_Weight (gb_instances b) @ map sc_Weight ss"
  using assms
proof (induction ss arbitrary: i b keys)
  case (Cons s ss)
  have good: "good_scenario cfg s" using Cons.prems(2) by simp
  then have "decoded s" "Scenario_Validate s = Ok ()" "to_lower (sc_Name s) \<in> set scenario_names"
    by (simp_all add: good_scenario_def)
  from CreateScenario_ok [OF this, of env keys] obtain g where
    g: "CreateScenario env s keys = Ok (g, keys)" "tg_scenario g = s" "impl_ok s (tg_impl g)" by (elim exE conjE)
  obtain p b1 k1 where p: "account_pool_for env shared s b keys = Ok (p, b1, k1)" "builder_wf env b1" "p < length (gb_pools b1)"
    "gb_instances b1 = gb_instances b" "length (gb_pools b) \<le> length (gb_pools b1)"
    using account_pool_for_ok [OF Cons.prems(1) good Cons.prems(3,4), of keys] by (elim exE conjE)
  let ?b = "b1\<lparr>gb_instances := gb_instances b1 @
      [\<lparr>in_Name = instance_name all i, in_Weight = sc_Weight s, in_Scenario = g, in_Accounts = p\<rparr>]\<rparr>"
  have "priced_ok s" using good by (simp add: good_scenario_def decoded_def)
  then have wf: "builder_wf env ?b" using p(2,3) g(2,3) by (auto simp: builder_wf_def)
  have sh: "\<forall>p \<in> set_option shared. p < length (gb_pools ?b)" using Cons.prems(4) p(5) by fastforce
  have ss: "\<forall>s \<in> set ss. good_scenario cfg s" using Cons.prems(2) by simp
  from Cons.IH [OF wf ss Cons.prems(3) sh, of "Suc i" k1] show ?case
    using g(1) p(1,4) by auto
qed simp

lemma createScenarios_ok:
  assumes "good_config cfg"
  shows "\<exists>b keys'. createScenarios env cfg \<lparr>gb_pools = [], gb_instances = []\<rparr> keys = Ok (b, keys') \<and> builder_wf env b \<and>
    map in_Weight (gb_instances b) = map sc_Weight (lc_Scenarios cfg)"
proof -
  let ?b = "\<lparr>gb_pools = [], gb_instances = []\<rparr>"
  have b: "builder_wf env ?b" by (simp add: builder_wf_def)
  have ss: "\<forall>s \<in> set (lc_Scenarios cfg). good_scenario cfg s" using assms by (simp add: good_config_def)
  show ?thesis
  proof (cases "lc_Accounts cfg")
    case None
    then show ?thesis using create_loop_ok [OF b ss, of None] by (simp add: createScenarios_def)
  next
    case (Some ac)
    then have "sized ac" using assms by (simp add: good_config_def)
    from add_pool_ok [OF b this, of keys] obtain p k where
      p: "add_pool env ac ?b keys = Ok (0, ?b\<lparr>gb_pools := [p]\<rparr>, k)" "builder_wf env (?b\<lparr>gb_pools := [p]\<rparr>)" by auto
    then show ?thesis using create_loop_ok [OF p(2) ss, of "Some 0"] Some by (simp add: createScenarios_def)
  qed
qed

text \<open>Both ways to deploy leave every instance ready, with its weight and its pool.\<close>

definition ready_from :: "scenario_instance list \<Rightarrow> scenario_instance list \<Rightarrow> bool" where
  "ready_from xs ys \<longleftrightarrow> map in_Weight ys = map in_Weight xs \<and> map in_Accounts ys = map in_Accounts xs \<and>
     (\<forall>y \<in> set ys. gen_ready (in_Scenario y))"

definition preparable :: "scenario_instance \<Rightarrow> bool" where
  "preparable x \<longleftrightarrow> priced_ok (tg_scenario (in_Scenario x)) \<and> impl_ok (tg_scenario (in_Scenario x)) (tg_impl (in_Scenario x))"

lemma mock_loop_ready:
  "mock_loop env cfg xs keys = Ok (ys, keys') \<Longrightarrow> \<forall>x \<in> set xs. preparable x \<Longrightarrow> ready_from xs ys"
proof (induction xs arbitrary: keys ys keys')
  case (Cons x xs)
  obtain g zs k where s: "Attach env cfg (acc_address (fst (NewAccount (ce_pubkey env) False keys))) (in_Scenario x) = Ok (None, g)"
    "mock_loop env cfg xs (snd (NewAccount (ce_pubkey env) False keys)) = Ok (zs, k)" "ys = x\<lparr>in_Scenario := g\<rparr> # zs"
    using Cons.prems(1) by (auto simp: outcome_simps split: prod.splits option.splits)
  have "gen_ready g" using Attach_ready [OF s(1)] Cons.prems(2) by (simp add: preparable_def)
  then show ?case using Cons.IH [OF s(2)] Cons.prems(2) s(3) by (simp add: ready_from_def)
qed (simp add: ready_from_def)

lemma deploy_loop_ready:
  "deploy_loop envs clock cfg deployer i xs = Ok ys \<Longrightarrow> \<forall>x \<in> set xs. preparable x \<Longrightarrow> ready_from xs ys"
proof (induction xs arbitrary: i ys)
  case (Cons x xs)
  obtain a g where d: "Deploy (envs i) (fst (clock i)) (snd (clock i)) cfg deployer (in_Scenario x) = (Ok a, g)"
    using Cons.prems(1) by (auto split: prod.splits outcome.splits)
  then obtain zs where s: "deploy_loop envs clock cfg deployer (Suc i) xs = Ok zs" "ys = x\<lparr>in_Scenario := g\<rparr> # zs"
    using Cons.prems(1) by (auto simp: outcome_simps)
  have "gen_ready g" using Deploy_ok [OF d] Cons.prems(2) by (simp add: preparable_def)
  then show ?case using Cons.IH [OF s(1)] Cons.prems(2) s(2) by (simp add: ready_from_def)
qed (simp add: ready_from_def)

lemma expand_weights_cong: "map in_Weight xs = map in_Weight ys \<Longrightarrow> expand_weights xs = expand_weights ys"
proof -
  have "map in_Weight xs = map in_Weight ys \<Longrightarrow> expand_from k xs = expand_from k ys" for k
  proof (induction xs arbitrary: k ys)
    case (Cons x xs)
    then obtain y zs where "ys = y # zs" "in_Weight x = in_Weight y" "map in_Weight xs = map in_Weight zs" by auto
    then show ?case using Cons.IH [of zs "Suc k"] by simp
  qed simp
  then show "map in_Weight xs = map in_Weight ys \<Longrightarrow> expand_weights xs = expand_weights ys"
    by (simp add: expand_weights_def)
qed

lemma expand_weights_length: "length (expand_weights xs) = (\<Sum>w \<leftarrow> map in_Weight xs. nat w)"
proof -
  have "length (expand_from k xs) = (\<Sum>w \<leftarrow> map in_Weight xs. nat w)" for k
    by (induction k xs rule: expand_from.induct) auto
  then show ?thesis by (simp add: expand_weights_def)
qed

lemma NewGenerator_wf:
  assumes "good_config cfg" "NewGenerator envs clock r cfg deployer keys = Ok (g, r', keys')"
  shows "gen_wf (envs 0) g \<and> length (gn_instances g) = length (lc_Scenarios cfg) \<and>
    (\<forall>i < length (lc_Scenarios cfg). count (mset (gn_schedule g)) i = nat (sc_Weight (lc_Scenarios cfg ! i)))"
proof -
  obtain b k where b: "createScenarios (envs 0) cfg \<lparr>gb_pools = [], gb_instances = []\<rparr> keys = Ok (b, k)"
    "builder_wf (envs 0) b" "map in_Weight (gb_instances b) = map sc_Weight (lc_Scenarios cfg)"
    using createScenarios_ok [OF assms(1)] by blast
  obtain ys k' where ys: "deployAll envs clock cfg deployer (gb_instances b) k = Ok (ys, k')"
    "build (b\<lparr>gb_instances := ys\<rparr>) r = Ok (g, r')"
    using assms(2) b(1) by (auto simp: NewGenerator_def outcome_simps)
  have "\<forall>x \<in> set (gb_instances b). preparable x" using b(2) by (simp add: builder_wf_def preparable_def)
  then have rd: "ready_from (gb_instances b) ys"
    using ys(1) mock_loop_ready deploy_loop_ready by (auto simp: deployAll_def outcome_simps split: if_splits)
  then have w: "map in_Weight ys = map sc_Weight (lc_Scenarios cfg)" by (simp add: ready_from_def b(3))
  have len: "int (length (expand_weights ys)) \<le> max_i64"
    using assms(1) by (simp add: good_config_def expand_weights_length w comp_def)
  then have "length (expand_weights (gb_instances (b\<lparr>gb_instances := ys\<rparr>))) < 2 ^ 64" by simp
  from build_ok [OF ys(2) this] have g: "gn_pools g = gb_pools b" "gn_instances g = ys" "gn_schedule g \<noteq> []"
    "mset (gn_schedule g) = mset (expand_weights ys)" by simp_all
  have n: "length ys = length (lc_Scenarios cfg)" using arg_cong [OF w, of length] by simp
  have wi: "in_Weight (ys ! i) = sc_Weight (lc_Scenarios cfg ! i)" if "i < length ys" for i
    using arg_cong [OF w, of "\<lambda>l. l ! i"] that n by simp
  have lt: "i < length ys" if "i \<in> set (gn_schedule g)" for i
  proof (rule ccontr)
    assume "\<not> i < length ys"
    then have "count (mset (gn_schedule g)) i = 0" by (simp add: g(4) expand_weights_count)
    then show False using that by (simp add: count_mset_0_iff)
  qed
  have "\<forall>y \<in> set ys. in_Accounts y < length (gb_pools b)"
  proof
    fix y
    assume "y \<in> set ys"
    then have "in_Accounts y \<in> set (map in_Accounts ys)" by simp
    moreover have "map in_Accounts ys = map in_Accounts (gb_instances b)" using rd by (simp add: ready_from_def)
    ultimately have "in_Accounts y \<in> set (map in_Accounts (gb_instances b))" by (simp only:)
    then show "in_Accounts y < length (gb_pools b)" using b(2) by (auto simp: builder_wf_def)
  qed
  moreover have "length (gn_schedule g) = length (expand_weights ys)" using g(4) by (rule mset_eq_length)
  ultimately have "gen_wf (envs 0) g"
    using g lt len rd b(2) by (simp add: gen_wf_def ready_from_def builder_wf_def)
  then show ?thesis using g(2,4) n wi by (simp add: expand_weights_count)
qed

text \<open>
  Under mock deployment, with a chain library that binds without complaint, nothing can fail but
  the weights.
\<close>

definition lenient :: "chain_env \<Rightarrow> bool" where
  "lenient env \<longleftrightarrow> (\<forall>ep. ce_dial env ep = None) \<and> (\<forall>name a. ce_bind env name a = None)"

lemma Attach_mock:
  assumes "lenient env" "lc_MockDeploy cfg"
  shows "\<exists>g'. Attach env cfg a g = Ok (None, g')"
proof -
  have "dial env cfg = None" using assms(1) by (simp add: dial_def lenient_def split: list.split)
  then show ?thesis using assms
    by (cases "contract_of (tg_impl g)")
      (auto simp: Attach_def base_Attach_def AttachScenario_def rebind_def lenient_def split: prod.split)
qed

lemma mock_loop_total:
  assumes "lenient env" "lc_MockDeploy cfg"
  shows "\<exists>ys keys'. mock_loop env cfg xs keys = Ok (ys, keys')"
proof (induction xs arbitrary: keys)
  case (Cons x xs)
  obtain acc k where a: "NewAccount (ce_pubkey env) False keys = (acc, k)" by fastforce
  obtain g where "Attach env cfg (acc_address acc) (in_Scenario x) = Ok (None, g)" using Attach_mock [OF assms] by blast
  then show ?case using Cons.IH [of k] a by auto
qed simp

lemma NewGenerator_mock:
  assumes "good_config cfg" "lenient (envs 0)" "lc_MockDeploy cfg" "\<exists>s \<in> set (lc_Scenarios cfg). 0 < sc_Weight s"
  shows "\<exists>g r' keys'. NewGenerator envs clock r cfg deployer keys = Ok (g, r', keys')"
proof -
  obtain b k where b: "createScenarios (envs 0) cfg \<lparr>gb_pools = [], gb_instances = []\<rparr> keys = Ok (b, k)"
    "builder_wf (envs 0) b" "map in_Weight (gb_instances b) = map sc_Weight (lc_Scenarios cfg)"
    using createScenarios_ok [OF assms(1)] by blast
  obtain ys k' where m: "mock_loop (envs 0) cfg (gb_instances b) k = Ok (ys, k')"
    using mock_loop_total [OF assms(2,3)] by blast
  have "\<forall>x \<in> set (gb_instances b). preparable x" using b(2) by (simp add: builder_wf_def preparable_def)
  from mock_loop_ready [OF m this] have "map in_Weight ys = map sc_Weight (lc_Scenarios cfg)"
    by (simp add: ready_from_def b(3))
  then have "(\<Sum>w \<leftarrow> map in_Weight ys. nat w) = (\<Sum>s \<leftarrow> lc_Scenarios cfg. nat (sc_Weight s))" by (simp add: comp_def)
  moreover have "(\<Sum>s \<leftarrow> lc_Scenarios cfg. nat (sc_Weight s)) \<noteq> 0" using assms(4) by (auto simp: sum_list_eq_0_iff not_le)
  ultimately have "expand_weights ys \<noteq> []" using expand_weights_length [of ys] by auto
  then show ?thesis using b(1) m assms(3)
    by (cases "Shuffle (expand_weights ys) r") (simp add: NewGenerator_def deployAll_def build_def)
qed

end
