(* ===== verification/LoadProps.thy ===== *)
theory LoadProps
  imports PipelineProps InputProps Generator
begin

text \<open>
  The properties of the load itself: what a scenario turns into a transaction, the generator a
  configuration is built into, and the order and the nonces of what it sends. The sample chain
  instantiates the parameter that stands for go-ethereum and the node.
\<close>

definition sample_chain :: chain_env where
  "sample_chain = \<lparr>ce_pubkey = of_nat,
     ce_transactor = \<lambda>k chain. (case k of
        None \<Rightarrow> Panic ''nil pointer dereference''
      | Some k \<Rightarrow> Ok \<lparr>o_from = of_nat k, o_nonce = None, o_no_send = False, o_value = 0, o_gas_limit = 0,
          o_tip_cap = 0, o_fee_cap = 0, o_signer = \<lambda>a tx. Inr (tx\<lparr>et_signed_by := Some k\<rparr>)\<rparr>),
     ce_dial = \<lambda>ep. None, ce_bind = \<lambda>name a. None,
     ce_transact = \<lambda>auth a data. (case o_nonce auth of
        None \<Rightarrow> Err (External ''nonce'')
      | Some n \<Rightarrow>
          (case o_signer auth (o_from auth) \<lparr>et_nonce = n, et_to = Some a, et_amount = o_value auth,
              et_gas = o_gas_limit auth, et_tip_cap = o_tip_cap auth, et_fee_cap = o_fee_cap auth,
              et_data = data, et_signed_by = None\<rparr> of
             Inl e \<Rightarrow> Err e
           | Inr tx \<Rightarrow> Ok tx)),
     ce_deploy = \<lambda>name args auth. Inr (77, 0), ce_mined = \<lambda>tx. Inr True\<rparr>"

lemma sample_binds: "binds sample_chain"
  by (simp add: binds_def sample_chain_def)

definition sample_request :: tx_scenario where
  "sample_request = NewTxScenario ''storagerw'' ''rmw'' 5 (AccountFromKey of_nat 3 True) 9"

lemma sample_keyed: "well_keyed sample_chain (ts_sender sample_request)"
  by (simp add: sample_request_def NewTxScenario_def well_keyed_def AccountFromKey_def sample_chain_def)

definition bare_scenario :: scenario where
  "bare_scenario = \<lparr>sc_Name = ''StorageRW'', sc_Weight = 2, sc_Accounts = None, sc_GasPicker = None,
     sc_GasFeeCapPicker = None, sc_GasTipCapPicker = None, sc_KeyDistribution = None, sc_SizeDistribution = None,
     sc_RecordCount = 0, sc_SizeBuckets = [], sc_Operations = None\<rparr>"

definition transfer_scenario :: scenario where
  "transfer_scenario = bare_scenario\<lparr>sc_Name := ''EVMTransfer'', sc_Weight := 1\<rparr>"

definition sample_config :: load_config where
  "sample_config = \<lparr>lc_ChainID = 713715, lc_SeiChainID = ''sei'', lc_Endpoints = [],
     lc_Accounts = Some \<lparr>NewAccountRate = 0, ac_Accounts = 2\<rparr>, lc_Scenarios = [bare_scenario, transfer_scenario],
     lc_MockDeploy = True, lc_Settings = None, lc_Funding = None, lc_ReportPath = '''', lc_Seed = Some 1\<rparr>"

definition rmw_picker :: operation_picker where
  "rmw_picker = \<lparr>op_names = [], op_cum = [], op_total = 0, op_fallback = OpRmw\<rparr>"

lemma bare_picker: "Picker StorageRWOperations None = Ok rmw_picker"
  by (simp add: Picker_def StorageRWOperations_def sorted_keys_def mix_weight_def rmw_picker_def)

definition ready_storage :: tx_generator where
  "ready_storage = \<lparr>tg_config = Some sample_config, tg_deployed = True, tg_address = 77, tg_scenario = bare_scenario,
     tg_impl = StorageRWScenario (Some 77) rmw_picker\<rparr>"

lemma bare_ok: "storage_ok bare_scenario" "storage_picks bare_scenario rmw_picker" "priced_ok bare_scenario"
  by (simp_all add: storage_ok_def axis_ok_def bare_scenario_def maxRecordCount_def storage_picks_def bare_picker wf_mix_def
      mix_validate_def priced_ok_def)

lemma ready_storage_ready: "gen_ready ready_storage"
  using bare_ok by (simp add: gen_ready_def ready_storage_def impl_ok_def)

subsection \<open>Transactions\<close>

text \<open>
  C11. A scenario that is ready turns every request into a transaction: for a sender with its
  key, whatever the kind of scenario, the clock and the randomness, \<open>Generate\<close> neither fails
  nor panics; the transaction has the requested nonce and no signature, of the request only
  the operation changes, and the scenario is ready for the next one.
\<close>

theorem generate_total:
  assumes "binds env" "well_keyed env (ts_sender sc)" "gen_ready g"
  shows "\<exists>tx sc' g' r' keys'. Generate env unix sc g r keys = Ok (tx, sc', g', r', keys') \<and>
    et_nonce tx = ts_nonce sc \<and> et_signed_by tx = None \<and> sc' = sc\<lparr>ts_operation := ts_operation sc'\<rparr> \<and> gen_ready g'"
  using Generate_ok [OF assms, of unix r keys] unfolding generated_ok_def by blast

theorem generate_total_witness:
  "\<exists>tx sc' g' r' keys'. Generate sample_chain 7 sample_request ready_storage sample_rng id = Ok (tx, sc', g', r', keys') \<and>
    et_nonce tx = 5 \<and> et_signed_by tx = None"
  using generate_total [OF sample_binds sample_keyed ready_storage_ready, of 7 sample_rng id]
  by (auto simp: sample_request_def NewTxScenario_def)

text \<open>
  C32. A StorageRW transaction: its slot lies in the configured keyspace, its pad is one of the
  configured sizes, and its gas limit, which does not wrap, covers the calldata floor of the
  longest call with its pad. Without any axis configured it is a read-modify-write of slot 0
  with an empty pad, and takes nothing from the random stream.
\<close>

theorem storagerw_transaction:
  assumes "calls_as env auth sc" "storage_ok cfg" "storage_picks cfg p"
  shows "\<exists>op slot n cfg' r'. StorageRW_CreateContractTransaction env (Some a) p cfg auth sc r =
      Ok (call_tx sc a (storageRW_gas n) (the (storageRW_call op slot n)), sc\<lparr>ts_operation := op\<rparr>, cfg', r') \<and>
    floor_gas 132 (round_up n) \<le> unat (storageRW_gas n) \<and> n \<le> round_up n \<and>
    (sc_KeyDistribution cfg \<noteq> None \<longrightarrow> 0 \<le> slot \<and> slot < uint (sc_RecordCount cfg)) \<and>
    (sc_SizeDistribution cfg \<noteq> None \<longrightarrow> int n \<in> set (sc_SizeBuckets cfg)) \<and>
    (sc_KeyDistribution cfg = None \<and> sc_SizeDistribution cfg = None \<and> sc_Operations cfg = None \<longrightarrow>
       op = OpRmw \<and> slot = 0 \<and> n = 0 \<and> r' = r)"
proof -
  obtain op slot n cfg' r' where t: "StorageRW_CreateContractTransaction env (Some a) p cfg auth sc r =
      Ok (call_tx sc a (storageRW_gas n) (the (storageRW_call op slot n)), sc\<lparr>ts_operation := op\<rparr>, cfg', r')"
    "n \<le> 131072" "sc_KeyDistribution cfg = None \<and> sc_SizeDistribution cfg = None \<and> sc_Operations cfg = None \<longrightarrow>
       slot = 0 \<and> n = 0 \<and> op = OpRmw \<and> r' = r"
    "sc_KeyDistribution cfg \<noteq> None \<longrightarrow> 0 \<le> slot \<and> slot < uint (sc_RecordCount cfg)"
    "sc_SizeDistribution cfg \<noteq> None \<longrightarrow> int n \<in> set (sc_SizeBuckets cfg)"
    using StorageRW_tx_ok [OF assms, of a r] by (elim exE conjE)
  have "floor_gas 132 (round_up n) \<le> unat (storageRW_gas n)"
    using storageRW_gas_nat [OF t(2)] by (simp add: floor_gas_def)
  then show ?thesis using t round_up_ge [of n]
    by (intro exI [of _ op] exI [of _ slot] exI [of _ n] exI [of _ cfg'] exI [of _ r']) simp
qed

lemma sample_calls: "\<exists>auth. CreateTransactionOpts sample_chain 713715 sample_request = Ok auth \<and> calls_as sample_chain auth sample_request"
  by (rule CreateTransactionOpts_ok [OF sample_binds sample_keyed]) blast

theorem storagerw_transaction_witness:
  "\<exists>auth tx sc' cfg'. StorageRW_CreateContractTransaction sample_chain (Some 77) rmw_picker bare_scenario auth sample_request sample_rng =
     Ok (tx, sc', cfg', sample_rng) \<and> et_data tx = Call ''rmw'' [ArgInt 0, ArgZeroBytes 0] \<and> unat (et_gas tx) = 50000"
proof -
  obtain auth where a: "calls_as sample_chain auth sample_request" using sample_calls by blast
  have none: "sc_KeyDistribution bare_scenario = None \<and> sc_SizeDistribution bare_scenario = None \<and> sc_Operations bare_scenario = None"
    by (simp add: bare_scenario_def)
  from storagerw_transaction [OF a bare_ok(1,2), of 77 sample_rng] obtain op slot n cfg' r' where
    t: "StorageRW_CreateContractTransaction sample_chain (Some 77) rmw_picker bare_scenario auth sample_request sample_rng =
      Ok (call_tx sample_request 77 (storageRW_gas n) (the (storageRW_call op slot n)), sample_request\<lparr>ts_operation := op\<rparr>, cfg', r')"
    "sc_KeyDistribution bare_scenario = None \<and> sc_SizeDistribution bare_scenario = None \<and> sc_Operations bare_scenario = None \<longrightarrow>
       op = OpRmw \<and> slot = 0 \<and> n = 0 \<and> r' = sample_rng"
    by (elim exE conjE)
  then have "op = OpRmw" "slot = 0" "n = 0" "r' = sample_rng" using none by simp_all
  moreover have "unat (storageRW_gas 0) = 50000" using storageRW_gas_nat [of 0] by (simp add: round_up_def)
  ultimately show ?thesis using t(1)
    by (intro exI [of _ auth] exI [of _ "call_tx sample_request 77 (storageRW_gas 0) (Call ''rmw'' [ArgInt 0, ArgZeroBytes 0])"]
        exI [of _ "sample_request\<lparr>ts_operation := OpRmw\<rparr>"] exI [of _ cfg']) (simp add: storageRW_call_def)
qed

subsection \<open>The generator\<close>













text \<open>
  C7. The nonces of a tracked account go up by one from one transaction to the next, without gap
  or repetition: in the block writer, and in the sharded sender for as long as it resets no
  account, however its dispatch and its completions interleave with the sends. And the queue
  accepts each transaction that carries the nonce it named.
\<close>

theorem nonces_without_gap:
  assumes "\<forall>tx \<in> set ls. sender_of tx = acc_address a \<longrightarrow> tracked_of tx"
  shows "(sent_run sharded_sender queue_bg q ls q' \<and> queue_keeps q (acc_address a) \<longrightarrow>
      map nonce_of (filter (\<lambda>tx. sender_of tx = acc_address a) ls) =
        map (\<lambda>i. queue_Nonce a q + of_nat i) [0..<length (filter (\<lambda>tx. sender_of tx = acc_address a) ls)]) \<and>
    (sent_run (writer_sender io) (\<lambda>s s'. False) w ls w' \<longrightarrow>
      map nonce_of (filter (\<lambda>tx. sender_of tx = acc_address a) ls) =
        map (\<lambda>i. writer_Nonce a (fst w) + of_nat i) [0..<length (filter (\<lambda>tx. sender_of tx = acc_address a) ls)]) \<and>
    (\<forall>tx p. stamped sharded_sender p tx \<longrightarrow> accepts tx p)"
proof -
  have "snd_Nonce sharded_sender a q = queue_Nonce a q" by (simp add: sharded_sender_def)
  moreover have "snd_Nonce (writer_sender io) a w = writer_Nonce a (fst w)" by (cases w) (simp add: writer_sender_def)
  ultimately show ?thesis
    using sharded.nonces_consecutive [OF _ _ assms, of q q'] blocks.nonces_consecutive [OF _ _ assms, of io w w'] stamped_accepts
    by auto
qed

theorem nonces_without_gap_witness:
  "\<exists>ls q'. sent_run sharded_sender queue_bg (NewTxsQueue 4) ls q' \<and> length ls = 1 \<and> map nonce_of ls = [0]"
proof -
  let ?tx = "sample_tx 7 0 21000" and ?q = "NewTxsQueue 4"
  have st: "stamped sharded_sender ?q ?tx" using sample_next by (simp add: stamped_queue)
  have send: "snd_Send sharded_sender None ?tx ?q = Returned (None, Push_locked ?tx ?q)"
    by (simp add: sharded_sender_def Push_def has_room_def)
  have run: "sent_run sharded_sender queue_bg ?q [?tx] (Push_locked ?tx ?q)"
    by (rule run_send [OF st send run_nil])
  have k: "queue_keeps ?q (acc_address (sample_account 7 True))" by (simp add: queue_keeps_def NewTxsQueue_def)
  have tr: "\<forall>tx \<in> set [?tx]. sender_of tx = acc_address (sample_account 7 True) \<longrightarrow> tracked_of tx"
    by (simp add: sample_tx_def NewEnqueuedTx_def NewTxScenario_def sample_account_def)
  have "acc_address (sample_account 7 True) = 7" by (simp add: sample_account_def)
  moreover have "queue_Nonce (sample_account 7 True) ?q = 0" by (simp add: queue_Nonce_def NewTxsQueue_def)
  ultimately have "map nonce_of [?tx] = [0]"
    using conjunct1 [OF nonces_without_gap [OF tr]] run k by simp
  then show ?thesis using run by (intro exI [of _ "[?tx]"] exI [of _ "Push_locked ?tx ?q"]) simp
qed

end
