(* ===== verification/Funder.thy ===== *)
theory Funder
  imports Scenarios
begin

text \<open>
  The funder (\<open>funder/deployer.go\<close>, \<open>funder/funder.go\<close>): who signs the deployments of a run, and how
  the accounts of its pools get their balance. The node is the record \<open>fund_env\<close> over its own
  state; what the funder relies on is the locale \<open>disperse_chain\<close>, and the Disperse contract
  itself (\<open>generator/contracts/Disperse.sol\<close>) on a ledger provides it.
\<close>

subsection \<open>The root key\<close>

text \<open>The host: its files and environment, and go-ethereum's parser of hexadecimal keys.\<close>

record host =
  read_file :: "string \<Rightarrow> go_error + string"
  env_var :: "string \<Rightarrow> string"
  hex_key :: "string \<Rightarrow> go_error + priv_key"

definition is_space :: "char \<Rightarrow> bool" where
  "is_space c \<longleftrightarrow> c = CHR 0x20 \<or> (CHR 0x09 = c \<or> c = CHR 0x0A \<or> c = CHR 0x0B \<or> c = CHR 0x0C \<or> c = CHR 0x0D)"

definition TrimSpace :: "string \<Rightarrow> string" where
  "TrimSpace s = rev (dropWhile is_space (rev (dropWhile is_space s)))"

definition TrimPrefix :: "string \<Rightarrow> string \<Rightarrow> string" where
  "TrimPrefix s p = (if take (length p) s = p then drop (length p) s else s)"

definition resolveRootKey :: "host \<Rightarrow> funding_config \<Rightarrow> string outcome" where
  "resolveRootKey h fc =
     (if RootKeyFile fc \<noteq> '''' then
        (case read_file h (RootKeyFile fc) of
           Inl e \<Rightarrow> Err (Wrap ''funder: read rootKeyFile'' e)
         | Inr b \<Rightarrow> if length (TrimSpace b) = 0 then Err (Errorf ''funder: rootKeyFile is empty'') else Ok b)
      else if RootKeyEnv fc \<noteq> '''' then
        (let v = env_var h (RootKeyEnv fc)
         in if v = '''' then Err (Errorf ''funder: env is empty'') else Ok v)
      else Err (Errorf ''funder: no root key (set funding.rootKeyFile or funding.rootKeyEnv)''))"

definition rootAccount :: "host \<Rightarrow> (priv_key \<Rightarrow> address) \<Rightarrow> funding_config \<Rightarrow> account outcome" where
  "rootAccount h pk fc =
     obind (resolveRootKey h fc) (\<lambda>rootKeyHex.
       case hex_key h (TrimPrefix (TrimSpace rootKeyHex) ''0x'') of
         Inl e \<Rightarrow> Err (Wrap ''funder: parse root key'' e)
       | Inr rootKey \<Rightarrow> Ok (AccountFromKey pk rootKey False))"

definition Deployer :: "host \<Rightarrow> (priv_key \<Rightarrow> address) \<Rightarrow> load_config \<Rightarrow> key_stream \<Rightarrow> (account \<times> key_stream) outcome" where
  "Deployer h pk cfg keys =
     (case lc_Funding cfg of
        None \<Rightarrow> Ok (NewAccount pk False keys)
      | Some fc \<Rightarrow>
          if lc_MockDeploy cfg then Ok (NewAccount pk False keys)
          else obind (rootAccount h pk fc) (\<lambda>acc. Ok (acc, keys)))"

lemma resolveRootKey_no_panic: "\<not> panics (resolveRootKey h fc)"
  by (auto simp: resolveRootKey_def Let_def split: sum.splits)

lemma rootAccount_no_panic: "\<not> panics (rootAccount h pk fc)"
  using resolveRootKey_no_panic [of h fc] by (cases "resolveRootKey h fc") (auto simp: rootAccount_def split: sum.splits)

lemma rootAccount_Ok: "rootAccount h pk fc = Ok acc \<Longrightarrow> \<exists>k. acc = AccountFromKey pk k False"
  by (cases "resolveRootKey h fc") (auto simp: rootAccount_def split: sum.splits)

text \<open>A deployer always has its key, and resolving it fails only for a configured, live root.\<close>

lemma Deployer_keyed: "Deployer h pk cfg keys = Ok (acc, keys') \<Longrightarrow> \<exists>k. acc = AccountFromKey pk k False"
  by (auto simp: Deployer_def NewAccount_def outcome_simps split: option.splits if_splits dest: rootAccount_Ok)

lemma Deployer_fails:
  "Deployer h pk cfg keys = Err e \<longleftrightarrow> (\<exists>fc. lc_Funding cfg = Some fc \<and> \<not> lc_MockDeploy cfg \<and> rootAccount h pk fc = Err e)"
  by (auto simp: Deployer_def outcome_simps split: option.splits)

text \<open>A key file may end in a newline and its key may carry a \<open>0x\<close>.\<close>

lemma TrimSpace_word: "w \<noteq> [] \<Longrightarrow> \<forall>x \<in> set w. \<not> is_space x \<Longrightarrow> \<forall>x \<in> set ws. is_space x \<Longrightarrow> TrimSpace (w @ ws) = w"
proof -
  assume w: "w \<noteq> []" "\<forall>x \<in> set w. \<not> is_space x" and ws: "\<forall>x \<in> set ws. is_space x"
  have keep: "dropWhile is_space (v @ ys) = v @ ys" if "v \<noteq> []" "\<forall>x \<in> set v. \<not> is_space x" for v ys
    using that by (cases v) auto
  have skip: "dropWhile is_space (rev ws @ ys) = dropWhile is_space ys" for ys
    by (rule dropWhile_append2) (use ws in auto)
  show ?thesis using keep [OF w, of ws] keep [of "rev w" "[]"] w by (simp add: TrimSpace_def skip)
qed

lemma rootAccount_key_file:
  assumes "RootKeyFile fc \<noteq> ''''" "k \<noteq> []" "\<forall>x \<in> set k. \<not> is_space x" "\<forall>x \<in> set ws. is_space x"
    "read_file h (RootKeyFile fc) = Inr (p @ k @ ws)" "p = ''0x'' \<or> p = [] \<and> take 2 k \<noteq> ''0x''"
  shows "rootAccount h pk fc =
    (case hex_key h k of Inl e \<Rightarrow> Err (Wrap ''funder: parse root key'' e) | Inr key \<Rightarrow> Ok (AccountFromKey pk key False))"
proof -
  have "\<forall>x \<in> set p. \<not> is_space x" using assms(6) by (auto simp: is_space_def)
  then have "TrimSpace ((p @ k) @ ws) = p @ k" using assms(2-4) by (intro TrimSpace_word) auto
  then have t: "TrimSpace (p @ k @ ws) = p @ k" by simp
  then have "resolveRootKey h fc = Ok (p @ k @ ws)" using assms(1,2,5) by (simp add: resolveRootKey_def)
  moreover have "TrimPrefix (p @ k) ''0x'' = k" using assms(6) by (auto simp: TrimPrefix_def numeral_2_eq_2)
  ultimately show ?thesis by (simp add: rootAccount_def t)
qed

subsection \<open>The Disperse contract\<close>

text \<open>
  \<open>disperseEther\<close> pays each recipient its value out of what the call brought and sends the rest
  of the contract's balance back to the caller; a transfer without cover, or a value missing
  for a recipient, reverts the whole call.
\<close>

type_synonym ledger = "address \<Rightarrow> int"

definition pay :: "address \<Rightarrow> address \<Rightarrow> int \<Rightarrow> ledger \<Rightarrow> ledger option" where
  "pay payer payee v led =
     (if v < 0 \<or> led payer < v then None
      else let led = led(payer := led payer - v) in Some (led(payee := led payee + v)))"

fun disperse_loop :: "address \<Rightarrow> address list \<Rightarrow> int list \<Rightarrow> ledger \<Rightarrow> ledger option" where
  "disperse_loop this [] vs led = Some led"
| "disperse_loop this (r # rs) [] led = None"
| "disperse_loop this (r # rs) (v # vs) led = Option.bind (pay this r v led) (disperse_loop this rs vs)"

definition disperseEther :: "address \<Rightarrow> address \<Rightarrow> int \<Rightarrow> address list \<Rightarrow> int list \<Rightarrow> ledger \<Rightarrow> ledger option" where
  "disperseEther this caller amt recipients vs led =
     Option.bind (pay caller this amt led) (\<lambda>led.
       Option.bind (disperse_loop this recipients vs led) (\<lambda>led.
         if 0 < led this then pay this caller (led this) led else Some led))"

text \<open>What a call credits to an address.\<close>

fun gain :: "address \<Rightarrow> address list \<Rightarrow> int list \<Rightarrow> int" where
  "gain a (r # rs) (v # vs) = (if r = a then v else 0) + gain a rs vs"
| "gain a rs vs = 0"

lemma pay_other: "pay f t v led = Some led' \<Longrightarrow> a \<noteq> f \<Longrightarrow> led' a = led a + (if a = t then v else 0)"
  by (auto simp: pay_def Let_def split: if_splits)

lemma pay_nonneg: "pay f t v led = Some led' \<Longrightarrow> 0 \<le> v"
  by (auto simp: pay_def split: if_splits)

lemma disperse_loop_gain:
  "disperse_loop this rs vs led = Some led' \<Longrightarrow> a \<noteq> this \<Longrightarrow> led' a = led a + gain a rs vs"
proof (induction this rs vs led rule: disperse_loop.induct)
  case (3 this r rs v vs led)
  then obtain led1 where "pay this r v led = Some led1" "disperse_loop this rs vs led1 = Some led'"
    by (auto simp: bind_eq_Some_conv)
  then show ?case using 3 pay_other [of this r v led led1 a] by auto
qed auto

lemma disperseEther_gain:
  assumes "disperseEther this caller amt rs vs led = Some led'" "a \<noteq> this" "a \<noteq> caller"
  shows "led' a = led a + gain a rs vs"
proof -
  obtain led1 led2 where l: "pay caller this amt led = Some led1" "disperse_loop this rs vs led1 = Some led2"
    "(if 0 < led2 this then pay this caller (led2 this) led2 else Some led2) = Some led'"
    using assms(1) by (auto simp: disperseEther_def bind_eq_Some_conv)
  have "led1 a = led a" using pay_other [OF l(1) assms(3)] assms(2) by simp
  moreover have "led2 a = led1 a + gain a rs vs" by (rule disperse_loop_gain [OF l(2) assms(2)])
  moreover have "led' a = led2 a" using l(3) pay_other [of this caller "led2 this" led2 led' a] assms(2,3)
    by (auto split: if_splits)
  ultimately show ?thesis by simp
qed

lemma gain_replicate: "gain a rs (replicate (length rs) v) = int (count (mset rs) a) * v"
  by (induction rs) (auto simp: algebra_simps)

subsection \<open>Funding\<close>

text \<open>
  The node as the funder sees it, over its state \<open>'c\<close>. \<open>fe_order\<close> is an order the program leaves
  open: that in which a Go map is walked (0) and that in which concurrent queries return (1).
  \<open>fe_mined\<close> gives, with the outcome of the wait, the state of the run's context and of the
  wait's budget at its end. Two fields are those of \<open>chain_env\<close>.
\<close>

record 'c fund_env =
  fe_dial :: "string \<Rightarrow> go_error option"
  fe_order :: "nat \<Rightarrow> address list \<Rightarrow> address list"
  fe_balance :: "address \<Rightarrow> 'c \<Rightarrow> go_error + int"
  fe_transactor :: "priv_key option \<Rightarrow> int \<Rightarrow> transact_opts outcome"
  fe_deploy :: "transact_opts \<Rightarrow> abi_arg list \<Rightarrow> 'c \<Rightarrow> (go_error + address \<times> nat) \<times> 'c"
  fe_disperse :: "address \<Rightarrow> transact_opts \<Rightarrow> address list \<Rightarrow> int list \<Rightarrow> 'c \<Rightarrow> (go_error + nat) \<times> 'c"
  fe_mined :: "nat \<Rightarrow> 'c \<Rightarrow> (go_error option \<times> bool \<times> (go_error + bool)) \<times> 'c"
  fe_code :: "address \<Rightarrow> 'c \<Rightarrow> go_error + nat"

definition unique :: "(address list \<Rightarrow> address list) \<Rightarrow> address list \<Rightarrow> address list" where
  "unique order vs = order (remdups vs)"

fun balances_loop :: "(address \<Rightarrow> go_error + int) \<Rightarrow> int \<Rightarrow> address list \<Rightarrow> address list outcome" where
  "balances_loop bal amount [] = Ok []"
| "balances_loop bal amount (a # as) =
     (case bal a of
        Inl e \<Rightarrow> Err (Wrap ''funder: balance'' e)
      | Inr b \<Rightarrow> obind (balances_loop bal amount as) (\<lambda>us. Ok (if b < amount then a # us else us)))"

definition filterUnderfunded :: "'c fund_env \<Rightarrow> address list \<Rightarrow> int \<Rightarrow> 'c \<Rightarrow> address list outcome" where
  "filterUnderfunded env addrs amount c =
     balances_loop (\<lambda>a. fe_balance env a c) amount (fe_order env 1 addrs)"

definition waitSuccess :: "'c fund_env \<Rightarrow> nat \<Rightarrow> string \<Rightarrow> 'c \<Rightarrow> unit outcome \<times> 'c" where
  "waitSuccess env tx what c =
     (case fe_mined env tx c of
        ((ctx, expired, res), c) \<Rightarrow>
          (WithinBudget ctx expired (''funder: '' @ what)
             (case res of
                Inl e \<Rightarrow> Err (Wrap ''funder: wait'' e)
              | Inr success \<Rightarrow> if \<not> success then Err (Errorf ''funder: reverted'') else Ok ()), c))"

definition deployDisperse :: "'c fund_env \<Rightarrow> transact_opts \<Rightarrow> 'c \<Rightarrow> address outcome \<times> 'c" where
  "deployDisperse env auth c =
     (case fe_deploy env auth [ArgInt 0, ArgInt 0] c of
        (Inl e, c) \<Rightarrow> (Err (Wrap ''funder: deploy Disperse'' e), c)
      | (Inr (addr, tx), c) \<Rightarrow>
          (case waitSuccess env tx ''deploy Disperse'' c of
             (Err e, c) \<Rightarrow> (Err e, c)
           | (Panic m, c) \<Rightarrow> (Panic m, c)
           | (Ok u, c) \<Rightarrow>
               ((case fe_code env addr c of
                   Inl e \<Rightarrow> Err (Wrap ''funder: CodeAt'' e)
                 | Inr n \<Rightarrow> if n = 0 then Err (Errorf ''funder: deployed Disperse has no code'') else Ok addr), c)))"

text \<open>The batches that went out, with the values and the total each brought.\<close>

type_synonym batch = "address list \<times> int list \<times> int"

function fund_loop ::
  "'c fund_env \<Rightarrow> transact_opts \<Rightarrow> address \<Rightarrow> int \<Rightarrow> nat \<Rightarrow> address list \<Rightarrow> nat \<Rightarrow> 'c \<Rightarrow>
     unit outcome \<times> batch list \<times> 'c" where
  "fund_loop env auth disperse amount batch underfunded start c =
     (if batch = 0 \<or> length underfunded \<le> start then (Ok (), [], c)
      else
        let end = min (start + batch) (length underfunded);
            chunk = take (end - start) (drop start underfunded);
            vs = map (\<lambda>_. amount) chunk;
            tot = sum_list vs
        in case fe_disperse env disperse (auth\<lparr>o_value := tot\<rparr>) chunk vs c of
             (Inl e, c) \<Rightarrow> (Err (Wrap ''funder: disperseEther'' e), [], c)
           | (Inr tx, c) \<Rightarrow>
               (case waitSuccess env tx ''disperseEther'' c of
                  (Err e, c) \<Rightarrow> (Err e, [(chunk, vs, tot)], c)
                | (Panic m, c) \<Rightarrow> (Panic m, [(chunk, vs, tot)], c)
                | (Ok u, c) \<Rightarrow>
                    (case fund_loop env auth disperse amount batch underfunded (start + batch) c of
                       (res, sent, c) \<Rightarrow> (res, (chunk, vs, tot) # sent, c))))"
  by pat_completeness auto
termination
  by (relation "measure (\<lambda>(env, auth, disperse, amount, batch, underfunded, start, c). length underfunded - start)") auto

declare fund_loop.simps [simp del]

text \<open>The second half of \<open>FundAccounts\<close>: from the transactor of the root to the last batch.\<close>

definition fund_underfunded ::
  "'c fund_env \<Rightarrow> load_config \<Rightarrow> funding_config \<Rightarrow> account \<Rightarrow> address list \<Rightarrow> 'c \<Rightarrow> unit outcome \<times> batch list \<times> 'c" where
  "fund_underfunded env cfg fc rootAcc underfunded c =
     (case fe_transactor env (acc_priv rootAcc) (GetChainID cfg) of
        Err e \<Rightarrow> (Err (Wrap ''funder: transactor'' e), [], c)
      | Panic m \<Rightarrow> (Panic m, [], c)
      | Ok auth \<Rightarrow>
          let auth = auth\<lparr>o_tip_cap := 1000000000, o_fee_cap := 100000000000\<rparr>
          in case deployDisperse env auth c of
               (Err e, c) \<Rightarrow> (Err e, [], c)
             | (Panic m, c) \<Rightarrow> (Panic m, [], c)
             | (Ok disperse, c) \<Rightarrow>
                 fund_loop env auth disperse (FundAmount (Some fc)) (nat (Batch (Some fc))) underfunded 0 c)"

definition FundAccounts ::
  "'c fund_env \<Rightarrow> load_config \<Rightarrow> account \<Rightarrow> address list \<Rightarrow> 'c \<Rightarrow> unit outcome \<times> batch list \<times> 'c" where
  "FundAccounts env cfg rootAcc addrs c =
     (case lc_Funding cfg of
        None \<Rightarrow> (Ok (), [], c)
      | Some fc \<Rightarrow>
          (case lc_Endpoints cfg of
             [] \<Rightarrow> (Err (Errorf ''funder: no endpoints configured''), [], c)
           | ep # _ \<Rightarrow>
               (case fe_dial env ep of
                  Some e \<Rightarrow> (Err (Wrap ''funder: dial'' e), [], c)
                | None \<Rightarrow>
                    let addrs = unique (fe_order env 0) addrs
                    in if length addrs = 0 then (Ok (), [], c)
                       else case filterUnderfunded env addrs (FundAmount (Some fc)) c of
                              Err e \<Rightarrow> (Err e, [], c)
                            | Panic m \<Rightarrow> (Panic m, [], c)
                            | Ok underfunded \<Rightarrow>
                                if length underfunded = 0 then (Ok (), [], c)
                                else fund_underfunded env cfg fc rootAcc underfunded c)))"

subsection \<open>The batches cover the underfunded accounts\<close>

function chunks :: "nat \<Rightarrow> 'a list \<Rightarrow> 'a list list" where
  "chunks b xs = (if b = 0 \<or> xs = [] then [] else take b xs # chunks b (drop b xs))"
  by pat_completeness auto
termination by (relation "measure (\<lambda>(b, xs). length xs)") auto

declare chunks.simps [simp del]

lemma chunks_Nil [simp]: "chunks b [] = []"
  by (subst chunks.simps) simp

lemma concat_chunks: "0 < b \<Longrightarrow> concat (chunks b xs) = xs"
  by (induction b xs rule: chunks.induct) (subst chunks.simps, auto)

lemma chunk_length: "ch \<in> set (chunks b xs) \<Longrightarrow> 0 < length ch \<and> length ch \<le> b"
proof (induction b xs rule: chunks.induct)
  case (1 b xs)
  show ?case
  proof (cases "b = 0 \<or> xs = []")
    case True
    then show ?thesis using "1.prems" by (simp add: chunks.simps [of b xs])
  next
    case False
    then have "ch = take b xs \<or> ch \<in> set (chunks b (drop b xs))"
      using "1.prems" by (simp add: chunks.simps [of b xs])
    then show ?thesis using "1.IH" [OF False] False by auto
  qed
qed

definition batch_of :: "int \<Rightarrow> address list \<Rightarrow> batch" where
  "batch_of amount ch = (ch, replicate (length ch) amount, amount * int (length ch))"

definition funding_plan :: "int \<Rightarrow> nat \<Rightarrow> address list \<Rightarrow> batch list" where
  "funding_plan amount b us = map (batch_of amount) (chunks b us)"

lemma sum_list_const: "sum_list (replicate n amount) = (amount :: int) * int n"
  by (induction n) (simp_all add: algebra_simps)

lemma fund_loop_done: "length us \<le> start \<Longrightarrow> fund_loop env auth d amount b us start c = (Ok (), [], c)"
  by (simp add: fund_loop.simps)

text \<open>One round of the loop, with its batch as the plan has it.\<close>

lemma fund_loop_step:
  assumes "0 < b" "start < length us"
  shows "fund_loop env auth d amount b us start c =
    (let ch = take b (drop start us)
     in case fe_disperse env d (auth\<lparr>o_value := amount * int (length ch)\<rparr>) ch (replicate (length ch) amount) c of
          (Inl e, c) \<Rightarrow> (Err (Wrap ''funder: disperseEther'' e), [], c)
        | (Inr tx, c) \<Rightarrow>
            (case waitSuccess env tx ''disperseEther'' c of
               (Err e, c) \<Rightarrow> (Err e, [batch_of amount ch], c)
             | (Panic m, c) \<Rightarrow> (Panic m, [batch_of amount ch], c)
             | (Ok u, c) \<Rightarrow>
                 (case fund_loop env auth d amount b us (start + b) c of
                    (res, sent, c) \<Rightarrow> (res, batch_of amount ch # sent, c))))"
proof -
  have "take (min (start + b) (length us) - start) (drop start us) = take b (drop start us)"
    by (cases "start + b \<le> length us") auto
  moreover have "\<not> (b = 0 \<or> length us \<le> start)" using assms by simp
  ultimately show ?thesis
    unfolding fund_loop.simps [of env auth d amount b us start c] Let_def map_replicate_const batch_of_def
    by (simp only: if_False sum_list_const)
qed

lemma plan_step:
  "0 < b \<Longrightarrow> start < length us \<Longrightarrow>
     funding_plan amount b (drop start us) =
       batch_of amount (take b (drop start us)) # funding_plan amount b (drop (start + b) us)"
  unfolding funding_plan_def by (subst chunks.simps) (simp add: add.commute)

lemma plan_done: "length us \<le> start \<Longrightarrow> funding_plan amount b (drop start us) = []"
  by (simp add: funding_plan_def)

lemma fund_loop_plan:
  assumes "0 < b"
  shows "fund_loop env auth d amount b us start c = (res, sent, c') \<Longrightarrow>
    (\<exists>n. sent = take n (funding_plan amount b (drop start us))) \<and>
    (res = Ok () \<longrightarrow> sent = funding_plan amount b (drop start us))"
proof (induction "length us - start" arbitrary: start c sent res c' rule: less_induct)
  case less
  show ?case
  proof (cases "start < length us")
    case False
    then have "res = Ok () \<and> sent = []" using less.prems by (simp add: fund_loop_done)
    moreover have "funding_plan amount b (drop start us) = []" using False by (intro plan_done) simp
    ultimately show ?thesis by simp
  next
    case True
    let ?ch = "take b (drop start us)"
    have none: "\<exists>n. [] = take n (funding_plan amount b (drop start us))"
      and one: "\<exists>n. [batch_of amount ?ch] = take n (funding_plan amount b (drop start us))"
      using plan_step [OF assms True, of amount] by (auto intro: exI [of _ 0] exI [of _ 1])
    have shorter: "length us - (start + b) < length us - start" using True assms by simp
    note run = less.prems [unfolded fund_loop_step [OF assms True] Let_def]
    obtain r1 c1 where s: "fe_disperse env d (auth\<lparr>o_value := amount * int (length ?ch)\<rparr>) ?ch (replicate (length ?ch) amount) c = (r1, c1)"
      by (cases "fe_disperse env d (auth\<lparr>o_value := amount * int (length ?ch)\<rparr>) ?ch (replicate (length ?ch) amount) c")
    show ?thesis
    proof (cases r1)
      case (Inl e)
      then show ?thesis using run s none by auto
    next
      case (Inr tx)
      obtain w c2 where w: "waitSuccess env tx ''disperseEther'' c1 = (w, c2)" by fastforce
      show ?thesis
      proof (cases w)
        case (Ok u)
        obtain res3 sent3 c3 where l: "fund_loop env auth d amount b us (start + b) c2 = (res3, sent3, c3)"
          using prod_cases3 by blast
        have "sent = batch_of amount ?ch # sent3" "res = res3" using run s Inr w Ok l by simp_all
        moreover obtain n where "sent3 = take n (funding_plan amount b (drop (start + b) us))"
          "res3 = Ok () \<longrightarrow> sent3 = funding_plan amount b (drop (start + b) us)"
          using less.hyps [OF shorter l] by blast
        ultimately show ?thesis using plan_step [OF assms True, of amount] by (auto intro!: exI [of _ "Suc n"])
      qed (use run s Inr w one in auto)
    qed
  qed
qed

subsection \<open>What the funder relies on, and what it achieves\<close>

text \<open>
  The contract of the node: a balance query reads the ledger, signing for the root's key makes
  the root pay, a deployment yields a contract, nothing the root does takes from an
  account of the pool, and a batch that mined credited its recipients.
\<close>

locale disperse_chain =
  fixes env :: "'c fund_env" and led :: "'c \<Rightarrow> ledger" and pool :: "address set" and contract :: "address \<Rightarrow> bool"
  assumes balance_now: "fe_balance env a c = Inr b \<Longrightarrow> b = led c a"
    and any_order: "mset (fe_order env i as) = mset as"
    and deploy_keeps: "fe_deploy env opts args c = (r, c') \<Longrightarrow> a \<in> pool \<Longrightarrow> led c a \<le> led c' a"
    and deploy_contract: "fe_deploy env opts args c = (Inr (d, tx), c') \<Longrightarrow> contract d"
    and mined_keeps: "fe_mined env tx c = (res, c') \<Longrightarrow> a \<in> pool \<Longrightarrow> led c a \<le> led c' a"
    and disperse_pays: "contract d \<Longrightarrow> fe_disperse env d opts rs vs c = (Inr tx, c1) \<Longrightarrow>
      fe_mined env tx c1 = ((ctx, expired, Inr True), c2) \<Longrightarrow> length rs = length vs \<Longrightarrow>
      o_value opts = sum_list vs \<Longrightarrow> a \<in> pool \<Longrightarrow> led c a + gain a rs vs \<le> led c2 a"
begin

lemma unique_spec: "set (unique (fe_order env 0) as) = set as \<and> distinct (unique (fe_order env 0) as)"
  using any_order [of 0 "remdups as"] unfolding unique_def
  by (metis distinct_remdups mset_eq_imp_distinct_iff mset_eq_setD set_remdups)

lemma balances_loop_Ok:
  "balances_loop (\<lambda>a. fe_balance env a c) amount as = Ok us \<Longrightarrow> us = filter (\<lambda>a. led c a < amount) as"
  by (induction as arbitrary: us) (auto simp: outcome_simps split: sum.splits dest: balance_now)

lemma filterUnderfunded_Ok:
  "filterUnderfunded env as amount c = Ok us \<Longrightarrow> mset us = mset (filter (\<lambda>a. led c a < amount) as)"
  using balances_loop_Ok [of c amount "fe_order env 1 as" us] any_order [of 1 as]
  by (simp add: filterUnderfunded_def)

lemma waitSuccess_Ok:
  "waitSuccess env tx what c = (Ok u, c') \<Longrightarrow> \<exists>ctx expired. fe_mined env tx c = ((ctx, expired, Inr True), c')"
  by (auto simp: waitSuccess_def outcome_simps split: prod.splits sum.splits if_splits)

lemma waitSuccess_keeps: "waitSuccess env tx what c = (res, c') \<Longrightarrow> a \<in> pool \<Longrightarrow> led c a \<le> led c' a"
  using mined_keeps [of tx c _ c' a] by (auto simp: waitSuccess_def split: prod.splits)

lemma deployDisperse_Ok:
  assumes "deployDisperse env auth c = (Ok d, c')"
  shows "contract d \<and> (\<forall>a \<in> pool. led c a \<le> led c' a)"
proof -
  obtain r c1 where r: "fe_deploy env auth [ArgInt 0, ArgInt 0] c = (r, c1)" by fastforce
  obtain d' tx where dt: "r = Inr (d', tx)" using assms r by (cases r) (auto simp: deployDisperse_def)
  obtain v c2 where v: "waitSuccess env tx ''deploy Disperse'' c1 = (v, c2)" by fastforce
  have "v = Ok ()" using assms r dt v by (cases v) (auto simp: deployDisperse_def)
  moreover from this have "c2 = c'" "d' = d"
    using assms r dt v by (auto simp: deployDisperse_def split: sum.splits if_splits)
  ultimately have dep: "fe_deploy env auth [ArgInt 0, ArgInt 0] c = (Inr (d, tx), c1)"
    and w: "waitSuccess env tx ''deploy Disperse'' c1 = (Ok (), c')" using r dt v by simp_all
  show ?thesis using deploy_contract [OF dep] deploy_keeps [OF dep] waitSuccess_keeps [OF w] by fastforce
qed

text \<open>A loop that ends well has credited every account once for each time it is in the rest of the list.\<close>

lemma fund_loop_credits:
  assumes "0 < b" "contract d"
  shows "fund_loop env auth d amount b us start c = (Ok (), sent, c') \<Longrightarrow> a \<in> pool \<Longrightarrow>
    led c a + int (count (mset (drop start us)) a) * amount \<le> led c' a"
proof (induction "length us - start" arbitrary: start c sent rule: less_induct)
  case less
  show ?case
  proof (cases "start < length us")
    case False
    then show ?thesis using less.prems(1) by (simp add: fund_loop_done)
  next
    case True
    let ?ch = "take b (drop start us)"
    let ?auth = "auth\<lparr>o_value := amount * int (length ?ch)\<rparr>"
    note run = less.prems(1) [unfolded fund_loop_step [OF assms(1) True] Let_def]
    obtain r1 c1 where s1: "fe_disperse env d ?auth ?ch (replicate (length ?ch) amount) c = (r1, c1)" by fastforce
    obtain tx where tx: "r1 = Inr tx" using run s1 by (cases r1) auto
    note s = s1 [unfolded tx]
    obtain w1 c2 where w1: "waitSuccess env tx ''disperseEther'' c1 = (w1, c2)" by fastforce
    have ok: "w1 = Ok ()" using run s w1 by (cases w1) auto
    note w = w1 [unfolded ok]
    obtain res2 sent2 c3 where l1: "fund_loop env auth d amount b us (start + b) c2 = (res2, sent2, c3)"
      using prod_cases3 by blast
    have l: "fund_loop env auth d amount b us (start + b) c2 = (Ok (), sent2, c')" using run s w l1 by simp
    obtain ctx expired where m: "fe_mined env tx c1 = ((ctx, expired, Inr True), c2)" using waitSuccess_Ok [OF w] by blast
    have "length us - (start + b) < length us - start" using True assms(1) by simp
    then have rest: "led c2 a + int (count (mset (drop (start + b) us)) a) * amount \<le> led c' a"
      by (rule less.hyps [OF _ l less.prems(2)])
    have "led c a + gain a ?ch (replicate (length ?ch) amount) \<le> led c2 a"
      by (rule disperse_pays [OF assms(2) s m _ _ less.prems(2)]) (simp_all add: sum_list_const)
    then have "led c a + int (count (mset ?ch) a) * amount \<le> led c2 a" by (simp only: gain_replicate)
    moreover have "mset (drop start us) = mset ?ch + mset (drop (start + b) us)"
      unfolding mset_append [symmetric] by (simp add: add.commute flip: drop_drop)
    then have "int (count (mset (drop start us)) a) * amount =
        int (count (mset ?ch) a) * amount + int (count (mset (drop (start + b) us)) a) * amount"
      by (simp only: count_union of_nat_add distrib_right)
    ultimately show ?thesis using rest by linarith
  qed
qed

lemma filterUnderfunded_set:
  assumes "filterUnderfunded env (unique (fe_order env 0) addrs) amount c = Ok us"
  shows "distinct us \<and> set us = {a \<in> set addrs. led c a < amount}"
proof -
  let ?as = "unique (fe_order env 0) addrs"
  have m: "mset us = mset (filter (\<lambda>a. led c a < amount) ?as)" by (rule filterUnderfunded_Ok [OF assms])
  have "distinct (filter (\<lambda>a. led c a < amount) ?as)" using unique_spec [of addrs] by simp
  then have "distinct us" using m by (metis mset_eq_imp_distinct_iff)
  then show ?thesis using mset_eq_setD [OF m] unique_spec [of addrs] by auto
qed

text \<open>How a call can go: an error before any batch, nobody in need, or the loop over those in need.\<close>

lemma fund_underfunded_cases:
  assumes "fund_underfunded env cfg fc rt us c = (res, sent, c')"
  obtains "sent = []" "res \<noteq> Ok ()"
  | auth d c1 where "contract d" "\<forall>a \<in> pool. led c a \<le> led c1 a"
      "fund_loop env auth d (FundAmount (Some fc)) (nat (Batch (Some fc))) us 0 c1 = (res, sent, c')"
proof (cases "fe_transactor env (acc_priv rt) (GetChainID cfg)")
  case (Ok auth0)
  let ?auth = "auth0\<lparr>o_tip_cap := 1000000000, o_fee_cap := 100000000000\<rparr>"
  obtain r c1 where d: "deployDisperse env ?auth c = (r, c1)" by fastforce
  show ?thesis
  proof (cases r)
    case (Ok a)
    have "fund_loop env ?auth a (FundAmount (Some fc)) (nat (Batch (Some fc))) us 0 c1 = (res, sent, c')"
      using assms d Ok \<open>fe_transactor env (acc_priv rt) (GetChainID cfg) = Ok auth0\<close>
      by (simp add: fund_underfunded_def)
    then show ?thesis using that(2) deployDisperse_Ok d Ok by blast
  qed (use assms d Ok that(1) in \<open>auto simp: fund_underfunded_def\<close>)
qed (use assms that(1) in \<open>auto simp: fund_underfunded_def\<close>)

lemma FundAccounts_cases:
  assumes "lc_Funding cfg = Some fc" "FundAccounts env cfg rt addrs c = (res, sent, c')"
  obtains "sent = []" "res \<noteq> Ok ()"
  | "sent = []" "c' = c" "{a \<in> set addrs. led c a < FundAmount (Some fc)} = {}"
  | us where "distinct us" "set us = {a \<in> set addrs. led c a < FundAmount (Some fc)}"
      "fund_underfunded env cfg fc rt us c = (res, sent, c')"
proof -
  let ?as = "unique (fe_order env 0) addrs"
  have run: "(case lc_Endpoints cfg of [] \<Rightarrow> (Err (Errorf ''funder: no endpoints configured''), [], c)
      | ep # _ \<Rightarrow> (case fe_dial env ep of Some e \<Rightarrow> (Err (Wrap ''funder: dial'' e), [], c)
        | None \<Rightarrow> if length ?as = 0 then (Ok (), [], c)
            else case filterUnderfunded env ?as (FundAmount (Some fc)) c of Err e \<Rightarrow> (Err e, [], c) | Panic m \<Rightarrow> (Panic m, [], c)
              | Ok us \<Rightarrow> if length us = 0 then (Ok (), [], c) else fund_underfunded env cfg fc rt us c)) = (res, sent, c')"
    using assms(2) unfolding FundAccounts_def assms(1) option.case Let_def .
  show ?thesis
  proof (cases "lc_Endpoints cfg")
    case Nil
    then show ?thesis using run that(1) by auto
  next
    case (Cons ep eps)
    show ?thesis
    proof (cases "fe_dial env ep")
      case (Some e)
      then show ?thesis using run Cons that(1) by auto
    next
      case None
      note run = run [unfolded Cons list.case None option.case]
      show ?thesis
      proof (cases "?as = []")
        case True
        then have "set addrs = {}" using unique_spec [of addrs] by simp
        moreover have "sent = []" "c' = c" using run True by simp_all
        ultimately show ?thesis using that(2) by simp
      next
        case False
        show ?thesis
        proof (cases "filterUnderfunded env ?as (FundAmount (Some fc)) c")
          case (Ok us)
          note us = filterUnderfunded_set [OF Ok]
          show ?thesis
          proof (cases "us = []")
            case True
            then show ?thesis using run False Ok us that(2) by simp
          next
            case neq: False
            have "fund_underfunded env cfg fc rt us c = (res, sent, c')" using run False Ok neq by simp
            then show ?thesis using us that(3) by blast
          qed
        qed (use run False that(1) in auto)
      qed
    qed
  qed
qed

lemma funded:
  assumes "lc_Funding cfg = Some fc" "set addrs \<subseteq> pool" "\<forall>a \<in> set addrs. 0 \<le> led c a"
    "FundAccounts env cfg rt addrs c = (Ok (), sent, c')" "a \<in> set addrs"
  shows "FundAmount (Some fc) \<le> led c' a"
proof (rule FundAccounts_cases [OF assms(1,4)])
  fix us
  assume us: "distinct us" "set us = {a \<in> set addrs. led c a < FundAmount (Some fc)}"
    and run: "fund_underfunded env cfg fc rt us c = (Ok (), sent, c')"
  have a: "a \<in> pool" "0 \<le> led c a" using assms(2,3,5) by auto
  obtain auth d c1 where l: "contract d" "\<forall>a \<in> pool. led c a \<le> led c1 a"
    "fund_loop env auth d (FundAmount (Some fc)) (nat (Batch (Some fc))) us 0 c1 = (Ok (), sent, c')"
    by (rule fund_underfunded_cases [OF run]) auto
  have "0 < nat (Batch (Some fc))" using Batch_pos [of "Some fc"] by simp
  from fund_loop_credits [OF this l(1) l(3) a(1)]
  have credit: "led c1 a + int (count (mset us) a) * FundAmount (Some fc) \<le> led c' a" by simp
  have up: "led c a \<le> led c1 a" using l(2) a(1) by blast
  show ?thesis
  proof (cases "a \<in> set us")
    case True
    then have "count (mset us) a = 1" using us(1) by (simp add: distinct_count_atmost_1)
    then show ?thesis using credit up a(2) by simp
  next
    case False
    then have "FundAmount (Some fc) \<le> led c a" using us(2) assms(5) by auto
    moreover have z: "count (mset us) a = 0" using False by (simp add: count_mset_0_iff)
    have "led c1 a \<le> led c' a" using credit unfolding z by simp
    ultimately show ?thesis using up by linarith
  qed
next
  assume "c' = c" "{a \<in> set addrs. led c a < FundAmount (Some fc)} = {}"
  then show ?thesis using assms(5) by force
qed simp

lemma batches_planned:
  assumes "lc_Funding cfg = Some fc" "FundAccounts env cfg rt addrs c = (res, sent, c')"
  shows "\<exists>us. distinct us \<and> set us = {a \<in> set addrs. led c a < FundAmount (Some fc)} \<and>
    (\<exists>n. sent = take n (funding_plan (FundAmount (Some fc)) (nat (Batch (Some fc))) us)) \<and>
    (res = Ok () \<longrightarrow> sent = funding_plan (FundAmount (Some fc)) (nat (Batch (Some fc))) us)"
proof (rule FundAccounts_cases [OF assms])
  have b: "0 < nat (Batch (Some fc))" using Batch_pos [of "Some fc"] by simp
  have "finite {a \<in> set addrs. led c a < FundAmount (Some fc)}" by simp
  from finite_distinct_list [OF this] obtain vs
    where vs: "distinct vs" "set vs = {a \<in> set addrs. led c a < FundAmount (Some fc)}" by blast
  show ?thesis if "sent = []" "res \<noteq> Ok ()"
    by (intro exI [of _ vs] conjI exI [of _ 0] vs) (use that in simp_all)
  show ?thesis if "sent = []" "c' = c" "{a \<in> set addrs. led c a < FundAmount (Some fc)} = {}"
  proof -
    have "funding_plan (FundAmount (Some fc)) (nat (Batch (Some fc))) [] = []" by (simp add: funding_plan_def)
    then show ?thesis unfolding that(3) that(1) by (intro exI [of _ "[]"] conjI exI [of _ 0] impI) simp_all
  qed
  fix us
  assume us: "distinct us" "set us = {a \<in> set addrs. led c a < FundAmount (Some fc)}"
    and run: "fund_underfunded env cfg fc rt us c = (res, sent, c')"
  show ?thesis
  proof (rule fund_underfunded_cases [OF run])
    show ?thesis if "sent = []" "res \<noteq> Ok ()"
      by (intro exI [of _ us] conjI exI [of _ 0] us) (use that in simp_all)
    fix auth d c1
    assume "fund_loop env auth d (FundAmount (Some fc)) (nat (Batch (Some fc))) us 0 c1 = (res, sent, c')"
    from fund_loop_plan [OF b this] have "(\<exists>n. sent = take n (funding_plan (FundAmount (Some fc)) (nat (Batch (Some fc))) us)) \<and>
        (res = Ok () \<longrightarrow> sent = funding_plan (FundAmount (Some fc)) (nat (Batch (Some fc))) us)"
      unfolding drop_0 .
    then show ?thesis using us by (intro exI [of _ us] conjI) blast+
  qed
qed

end

text \<open>What is in a plan: the accounts once each, in batches within the bound, each paid for exactly.\<close>

lemma plan_covers: "0 < b \<Longrightarrow> concat (map fst (funding_plan amount b us)) = us"
  by (simp add: funding_plan_def batch_of_def comp_def concat_chunks)

lemma plan_batch:
  "(ch, vs, tot) \<in> set (funding_plan amount b us) \<Longrightarrow>
     0 < length ch \<and> length ch \<le> b \<and> vs = replicate (length ch) amount \<and> tot = amount * int (length ch)"
  by (auto simp: funding_plan_def batch_of_def dest: chunk_length)

subsection \<open>Disperse on a ledger provides the contract\<close>

text \<open>
  A node with contracts at the addresses \<open>contract\<close>, one of them \<open>d\<close>, and a single sender \<open>rt\<close>:
  calls take effect when they are mined, those to an address without code as plain transfers.
\<close>

record evm =
  ev_ledger :: ledger
  ev_next :: nat
  ev_calls :: "nat \<Rightarrow> (address \<times> int \<times> address list \<times> int list) option"

definition evm_call :: "(address \<Rightarrow> bool) \<Rightarrow> address \<Rightarrow> address \<times> int \<times> address list \<times> int list \<Rightarrow> ledger \<Rightarrow> ledger option" where
  "evm_call contract rt call led =
     (case call of (this, amt, rs, vs) \<Rightarrow>
        if contract this then disperseEther this rt amt rs vs led else pay rt this amt led)"

definition evm_mine :: "(address \<Rightarrow> bool) \<Rightarrow> address \<Rightarrow> nat \<Rightarrow> evm \<Rightarrow> bool \<times> evm" where
  "evm_mine contract rt tx c =
     (case ev_calls c tx of
        None \<Rightarrow> (True, c)
      | Some call \<Rightarrow>
          (case evm_call contract rt call (ev_ledger c) of
             None \<Rightarrow> (False, c)
           | Some led \<Rightarrow> (True, c\<lparr>ev_ledger := led\<rparr>)))"

definition root_opts :: "address \<Rightarrow> transact_opts" where
  "root_opts rt = \<lparr>o_from = rt, o_nonce = None, o_no_send = False, o_value = 0, o_gas_limit = 0,
     o_tip_cap = 0, o_fee_cap = 0, o_signer = \<lambda>a tx. Inr tx\<rparr>"

definition evm_env :: "(address \<Rightarrow> bool) \<Rightarrow> address \<Rightarrow> address \<Rightarrow> evm fund_env" where
  "evm_env contract rt d =
     \<lparr>fe_dial = \<lambda>ep. None, fe_order = \<lambda>i as. as, fe_balance = \<lambda>a c. Inr (ev_ledger c a),
      fe_transactor = \<lambda>k chain. Ok (root_opts rt),
      fe_deploy = \<lambda>opts args c. (Inr (d, ev_next c), c\<lparr>ev_next := ev_next c + 1, ev_calls := (ev_calls c)(ev_next c := None)\<rparr>),
      fe_disperse = \<lambda>d opts rs vs c. (Inr (ev_next c),
        c\<lparr>ev_next := ev_next c + 1, ev_calls := (ev_calls c)(ev_next c \<mapsto> (d, o_value opts, rs, vs))\<rparr>),
      fe_mined = \<lambda>tx c. case evm_mine contract rt tx c of (success, c) \<Rightarrow> ((None, False, Inr success), c),
      fe_code = \<lambda>a c. Inr (if contract a then 1 else 0)\<rparr>"

definition evm_pool :: "(address \<Rightarrow> bool) \<Rightarrow> address \<Rightarrow> address set" where
  "evm_pool contract rt = {a. a \<noteq> rt \<and> \<not> contract a}"

lemma gain_nonneg: "disperse_loop this rs vs led = Some led' \<Longrightarrow> 0 \<le> gain a rs vs"
proof (induction this rs vs led rule: disperse_loop.induct)
  case (3 this r rs v vs led)
  then obtain led1 where "pay this r v led = Some led1" "disperse_loop this rs vs led1 = Some led'"
    by (auto simp: bind_eq_Some_conv)
  then show ?case using 3 pay_nonneg [of this r v led led1] by auto
qed auto

lemma evm_call_pool:
  assumes "evm_call contract rt (this, amt, rs, vs) led = Some led'" "a \<in> evm_pool contract rt"
  shows "led a + (if contract this then gain a rs vs else 0) \<le> led' a \<and> led a \<le> led' a"
proof (cases "contract this")
  case True
  then have "a \<noteq> this" "a \<noteq> rt" using assms(2) by (auto simp: evm_pool_def)
  moreover have d: "disperseEther this rt amt rs vs led = Some led'" using assms(1) True by (simp add: evm_call_def)
  ultimately have "led' a = led a + gain a rs vs" using disperseEther_gain by blast
  moreover have "0 \<le> gain a rs vs"
    using d gain_nonneg by (auto simp: disperseEther_def bind_eq_Some_conv)
  ultimately show ?thesis using True by simp
next
  case False
  then have p: "pay rt this amt led = Some led'" using assms(1) by (simp add: evm_call_def)
  have "a \<noteq> rt" using assms(2) by (simp add: evm_pool_def)
  then show ?thesis using pay_other [OF p] pay_nonneg [OF p] False by simp
qed

lemma evm_mine_pool:
  assumes "evm_mine contract rt tx c = (success, c')" "a \<in> evm_pool contract rt"
  shows "ev_ledger c a \<le> ev_ledger c' a"
proof (cases "ev_calls c tx")
  case (Some call)
  then show ?thesis
    using assms evm_call_pool [of contract rt "fst call" "fst (snd call)" "fst (snd (snd call))" "snd (snd (snd call))" "ev_ledger c" _ a]
    by (auto simp: evm_mine_def split: option.splits)
qed (use assms in \<open>simp add: evm_mine_def\<close>)

lemma evm_disperse_chain: "contract d \<Longrightarrow> disperse_chain (evm_env contract rt d) ev_ledger (evm_pool contract rt) contract"
proof
  fix opts :: transact_opts and e rs vs tx c c1 ctx expired c2 a
  assume e: "contract e"
    and s: "fe_disperse (evm_env contract rt d) e opts rs vs c = (Inr tx, c1)"
    and m: "fe_mined (evm_env contract rt d) tx c1 = ((ctx, expired, Inr True), c2)"
    and a: "a \<in> evm_pool contract rt"
  have c1: "ev_calls c1 tx = Some (e, o_value opts, rs, vs)" "ev_ledger c1 = ev_ledger c"
    using s by (auto simp: evm_env_def)
  then obtain led where "evm_call contract rt (e, o_value opts, rs, vs) (ev_ledger c) = Some led" "ev_ledger c2 = led"
    using m by (auto simp: evm_env_def evm_mine_def split: prod.splits option.splits)
  then show "ev_ledger c a + gain a rs vs \<le> ev_ledger c2 a" using evm_call_pool [OF _ a] e by fastforce
next
  fix tx c res c' a
  assume "fe_mined (evm_env contract rt d) tx c = (res, c')" "a \<in> evm_pool contract rt"
  then show "ev_ledger c a \<le> ev_ledger c' a"
    using evm_mine_pool [of contract rt tx c _ c' a] by (auto simp: evm_env_def split: prod.splits)
qed (auto simp: evm_env_def)

interpretation evm: disperse_chain "evm_env (\<lambda>a. a = d \<or> contract a) rt d" ev_ledger
    "evm_pool (\<lambda>a. a = d \<or> contract a) rt" "\<lambda>a. a = d \<or> contract a" for contract rt d
  by (rule evm_disperse_chain) simp

end
