(* ===== verification/Viper.thy ===== *)
theory Viper
  imports Config
begin

text \<open>
  How the settings of a run are resolved (\<open>config/settings.go\<close>): the defaults, the settings of the
  configuration file and the flags of the command line are the layers of one store, as viper
  documents it. The settings reach the store as JSON, which leaves out fields that are zero
  and knows one type of number.
\<close>

subsection \<open>The store\<close>

datatype cfg_val =
    VBool bool
  | VInt int
  | VUint u64
  | VFloat rat
  | VStr string
  | VDur duration

record viper =
  vp_flags :: "string \<rightharpoonup> string"
  vp_defaults :: "string \<rightharpoonup> cfg_val"
  vp_config :: "string \<rightharpoonup> cfg_val"

text \<open>
  The flags of the command: the declared ones with their defaults, and those the command line
  set. A flag that was set comes first, then the file, then the default, then the flag's own default.
\<close>

record flag_set =
  fl_declared :: "string \<rightharpoonup> cfg_val"
  fl_changed :: "string \<rightharpoonup> cfg_val"

fun first_some :: "'a option list \<Rightarrow> 'a option" where
  "first_some [] = None"
| "first_some (None # xs) = first_some xs"
| "first_some (Some x # xs) = Some x"

definition viper_Get :: "flag_set \<Rightarrow> viper \<Rightarrow> string \<Rightarrow> cfg_val option" where
  "viper_Get fs v key =
     first_some [Option.bind (vp_flags v key) (fl_changed fs), vp_config v key, vp_defaults v key,
                 Option.bind (vp_flags v key) (fl_declared fs)]"

text \<open>The typed readers convert a number of another type and read anything else as zero.\<close>

definition float_to_int :: "rat \<Rightarrow> int" where
  "float_to_int r = (if r < 0 then - floor (- r) else floor r)"

fun to_float :: "cfg_val \<Rightarrow> rat" where
  "to_float (VFloat r) = r"
| "to_float (VInt n) = of_int n"
| "to_float (VUint w) = of_int (uint w)"
| "to_float _ = 0"

fun to_int :: "cfg_val \<Rightarrow> int" where
  "to_int (VInt n) = n"
| "to_int (VUint w) = sint w"
| "to_int (VFloat r) = float_to_int r"
| "to_int _ = 0"

fun to_uint :: "cfg_val \<Rightarrow> u64" where
  "to_uint (VUint w) = w"
| "to_uint (VInt n) = (if n < 0 then 0 else of_int n)"
| "to_uint (VFloat r) = (if r < 0 then 0 else of_int (float_to_int r))"
| "to_uint _ = 0"

fun to_bool :: "cfg_val \<Rightarrow> bool" where
  "to_bool (VBool b) = b"
| "to_bool (VInt n) = (n \<noteq> 0)"
| "to_bool _ = False"

fun to_str :: "cfg_val \<Rightarrow> string" where
  "to_str (VStr s) = s"
| "to_str _ = ''''"

fun to_dur :: "cfg_val \<Rightarrow> duration" where
  "to_dur (VDur d) = d"
| "to_dur (VInt n) = n"
| "to_dur (VFloat r) = float_to_int r"
| "to_dur _ = 0"

definition viper_read :: "(cfg_val \<Rightarrow> 'a) \<Rightarrow> 'a \<Rightarrow> flag_set \<Rightarrow> viper \<Rightarrow> string \<Rightarrow> 'a" where
  "viper_read conv zero fs v key = (case viper_Get fs v key of None \<Rightarrow> zero | Some x \<Rightarrow> conv x)"

subsection \<open>The settings in it\<close>

definition flagBindings :: "(string \<times> string) list" where
  "flagBindings =
     [(''statsInterval'', ''stats-interval''), (''inclusionReapAfter'', ''inclusion-reap-after''),
      (''bufferSize'', ''buffer-size''), (''tps'', ''tps''), (''dryRun'', ''dry-run''), (''debug'', ''debug''),
      (''trackReceipts'', ''track-receipts''), (''trackBlocks'', ''track-blocks''), (''prewarm'', ''prewarm''),
      (''trackUserLatency'', ''track-user-latency''), (''rampUp'', ''ramp-up''), (''reportPath'', ''report-path''),
      (''txsDir'', ''txs-dir''), (''targetGas'', ''target-gas''), (''numBlocksToWrite'', ''num-blocks-to-write''),
      (''postSummaryFlushDelay'', ''post-summary-flush-delay''), (''arrivalModel'', ''arrival-model''),
      (''maxInFlight'', ''max-in-flight'')]"

fun bind_flags :: "flag_set \<Rightarrow> (string \<times> string) list \<Rightarrow> (string \<rightharpoonup> string) \<Rightarrow> (string \<rightharpoonup> string) outcome" where
  "bind_flags fs [] m = Ok m"
| "bind_flags fs ((key, name) # bs) m =
     (if fl_declared fs name = None then Err (Wrap ''failed to bind flag'' (External ''flag is nil''))
      else bind_flags fs bs (m(key \<mapsto> name)))"

definition default_values :: "settings \<Rightarrow> (string \<times> cfg_val) list" where
  "default_values d =
     [(''statsInterval'', VDur (StatsInterval d)), (''inclusionReapAfter'', VDur (InclusionReapAfter d)),
      (''bufferSize'', VInt (BufferSize d)), (''tps'', VFloat (TPS d)), (''dryRun'', VBool (st_DryRun d)),
      (''debug'', VBool (st_Debug d)), (''trackReceipts'', VBool (TrackReceipts d)), (''trackBlocks'', VBool (TrackBlocks d)),
      (''prewarm'', VBool (st_Prewarm d)), (''trackUserLatency'', VBool (TrackUserLatency d)), (''rampUp'', VBool (RampUp d)),
      (''reportPath'', VStr (st_ReportPath d)), (''txsDir'', VStr (TxsDir d)), (''targetGas'', VUint (TargetGas d)),
      (''numBlocksToWrite'', VInt (NumBlocksToWrite d)), (''postSummaryFlushDelay'', VDur (PostSummaryFlushDelay d)),
      (''arrivalModel'', VStr (st_ArrivalModel d)), (''maxInFlight'', VInt (MaxInFlight d))]"

definition InitializeViper :: "flag_set \<Rightarrow> viper \<Rightarrow> viper outcome" where
  "InitializeViper fs v =
     obind (bind_flags fs flagBindings (vp_flags v)) (\<lambda>m.
       Ok (v\<lparr>vp_flags := m, vp_defaults := vp_defaults v ++ map_of (default_values DefaultSettings)\<rparr>))"

text \<open>The JSON of the settings: every field has \<open>omitempty\<close>, numbers come back as floating point.\<close>

fun json_zero :: "cfg_val \<Rightarrow> bool" where
  "json_zero (VBool b) = (\<not> b)"
| "json_zero (VInt n) = (n = 0)"
| "json_zero (VUint w) = (w = 0)"
| "json_zero (VFloat r) = (r = 0)"
| "json_zero (VStr s) = (s = '''')"
| "json_zero (VDur d) = (d = 0)"

fun json_val :: "cfg_val \<Rightarrow> cfg_val" where
  "json_val (VInt n) = VFloat (of_int n)"
| "json_val (VUint w) = VFloat (of_int (uint w))"
| "json_val x = x"

definition settings_json :: "settings \<Rightarrow> (string \<times> cfg_val) list" where
  "settings_json s = map (\<lambda>(key, x). (key, json_val x)) (filter (\<lambda>(key, x). \<not> json_zero x) (default_values s))"

definition LoadSettings :: "settings option \<Rightarrow> viper \<Rightarrow> viper outcome" where
  "LoadSettings settings v =
     (case settings of
        None \<Rightarrow> Err (Errorf ''config settings are required'')
      | Some s \<Rightarrow> Ok (v\<lparr>vp_config := map_of (settings_json s)\<rparr>))"

definition ResolveSettings :: "flag_set \<Rightarrow> viper \<Rightarrow> settings" where
  "ResolveSettings fs v =
     \<lparr>TPS = viper_read to_float 0 fs v ''tps'',
      StatsInterval = viper_read to_dur 0 fs v ''statsInterval'',
      InclusionReapAfter = viper_read to_dur 0 fs v ''inclusionReapAfter'',
      BufferSize = viper_read to_int 0 fs v ''bufferSize'',
      st_DryRun = viper_read to_bool False fs v ''dryRun'',
      st_Debug = viper_read to_bool False fs v ''debug'',
      TrackReceipts = viper_read to_bool False fs v ''trackReceipts'',
      TrackBlocks = viper_read to_bool False fs v ''trackBlocks'',
      TrackUserLatency = viper_read to_bool False fs v ''trackUserLatency'',
      st_Prewarm = viper_read to_bool False fs v ''prewarm'',
      RampUp = viper_read to_bool False fs v ''rampUp'',
      st_ReportPath = viper_read to_str '''' fs v ''reportPath'',
      TxsDir = viper_read to_str '''' fs v ''txsDir'',
      TargetGas = viper_read to_uint 0 fs v ''targetGas'',
      NumBlocksToWrite = viper_read to_int 0 fs v ''numBlocksToWrite'',
      PostSummaryFlushDelay = viper_read to_dur 0 fs v ''postSummaryFlushDelay'',
      st_ArrivalModel = viper_read to_str '''' fs v ''arrivalModel'',
      MaxInFlight = viper_read to_int 0 fs v ''maxInFlight''\<rparr>"

subsection \<open>What is resolved\<close>

text \<open>Field by field: the flag if it was set, else the file if it says something, else the default.\<close>

definition pick :: "(cfg_val \<Rightarrow> 'a) \<Rightarrow> flag_set \<Rightarrow> string \<Rightarrow> 'a \<Rightarrow> 'a \<Rightarrow> 'a \<Rightarrow> 'a" where
  "pick conv fs flag zero x d = (case fl_changed fs flag of Some v \<Rightarrow> conv v | None \<Rightarrow> if x = zero then d else x)"

lemma pick_idem: "pick conv fs flag zero (pick conv fs flag zero x d) d = pick conv fs flag zero x d"
  by (simp add: pick_def split: option.split)

text \<open>A file that says nothing.\<close>

definition empty_settings :: settings where
  "empty_settings =
     \<lparr>TPS = 0, StatsInterval = 0, InclusionReapAfter = 0, BufferSize = 0, st_DryRun = False, st_Debug = False,
      TrackReceipts = False, TrackBlocks = False, TrackUserLatency = False, st_Prewarm = False, RampUp = False,
      st_ReportPath = [], TxsDir = [], TargetGas = 0, NumBlocksToWrite = 0, PostSummaryFlushDelay = 0,
      st_ArrivalModel = [], MaxInFlight = 0\<rparr>"

definition effective :: "flag_set \<Rightarrow> settings \<Rightarrow> settings \<Rightarrow> settings" where
  "effective fs s d =
     \<lparr>TPS = pick to_float fs ''tps'' 0 (TPS s) (TPS d),
      StatsInterval = pick to_dur fs ''stats-interval'' 0 (StatsInterval s) (StatsInterval d),
      InclusionReapAfter = pick to_dur fs ''inclusion-reap-after'' 0 (InclusionReapAfter s) (InclusionReapAfter d),
      BufferSize = pick to_int fs ''buffer-size'' 0 (BufferSize s) (BufferSize d),
      st_DryRun = pick to_bool fs ''dry-run'' False (st_DryRun s) (st_DryRun d),
      st_Debug = pick to_bool fs ''debug'' False (st_Debug s) (st_Debug d),
      TrackReceipts = pick to_bool fs ''track-receipts'' False (TrackReceipts s) (TrackReceipts d),
      TrackBlocks = pick to_bool fs ''track-blocks'' False (TrackBlocks s) (TrackBlocks d),
      TrackUserLatency = pick to_bool fs ''track-user-latency'' False (TrackUserLatency s) (TrackUserLatency d),
      st_Prewarm = pick to_bool fs ''prewarm'' False (st_Prewarm s) (st_Prewarm d),
      RampUp = pick to_bool fs ''ramp-up'' False (RampUp s) (RampUp d),
      st_ReportPath = pick to_str fs ''report-path'' '''' (st_ReportPath s) (st_ReportPath d),
      TxsDir = pick to_str fs ''txs-dir'' '''' (TxsDir s) (TxsDir d),
      TargetGas = pick to_uint fs ''target-gas'' 0 (TargetGas s) (TargetGas d),
      NumBlocksToWrite = pick to_int fs ''num-blocks-to-write'' 0 (NumBlocksToWrite s) (NumBlocksToWrite d),
      PostSummaryFlushDelay =
        pick to_dur fs ''post-summary-flush-delay'' 0 (PostSummaryFlushDelay s) (PostSummaryFlushDelay d),
      st_ArrivalModel = pick to_str fs ''arrival-model'' '''' (st_ArrivalModel s) (st_ArrivalModel d),
      MaxInFlight = pick to_int fs ''max-in-flight'' 0 (MaxInFlight s) (MaxInFlight d)\<rparr>"

lemma float_to_int_of_int [simp]: "float_to_int (of_int n) = n"
proof (cases "n < 0")
  case True
  have "- of_int n = (of_int (- n) :: rat)" by simp
  then have "floor (- of_int n :: rat) = - n" by (metis floor_of_int)
  then show ?thesis using True by (simp add: float_to_int_def)
qed (simp add: float_to_int_def)

lemma conv_json [simp]:
  "to_float (json_val (VFloat r)) = r" "to_int (json_val (VInt n)) = n" "to_uint (json_val (VUint w)) = w"
  "to_bool (json_val (VBool b)) = b" "to_str (json_val (VStr s)) = s" "to_dur (json_val (VDur d)) = d"
proof -
  have "\<not> (of_int (uint w) :: rat) < 0" by (simp only: of_int_less_0_iff not_less uint_ge_0)
  then show "to_uint (json_val (VUint w)) = w"
    unfolding json_val.simps to_uint.simps float_to_int_of_int by (simp only: if_False word_of_int_uint)
qed simp_all

lemma bind_flags_Ok: "bind_flags fs bs m = Ok m' \<Longrightarrow> distinct (map fst bs) \<Longrightarrow> m' = m ++ map_of bs"
proof (induction fs bs m rule: bind_flags.induct)
  case (2 fs key name bs m)
  have declared: "fl_declared fs name \<noteq> None" and rest: "bind_flags fs bs (m(key \<mapsto> name)) = Ok m'"
    using "2.prems"(1) by (simp_all split: if_splits del: fun_upd_apply)
  have "distinct (map fst bs)" using "2.prems"(2) by simp
  with "2.IH" [OF declared rest] have "m' = m(key \<mapsto> name) ++ map_of bs" .
  moreover have "map_of bs key = None" using "2.prems"(2) by (simp add: map_of_eq_None_iff)
  ultimately show ?case by (auto simp: fun_eq_iff map_add_def split: option.splits)
qed simp

lemma map_of_filter_json:
  "distinct (map fst xs) \<Longrightarrow>
     map_of (map (\<lambda>(key, x). (key, json_val x)) (filter (\<lambda>(key, x). \<not> json_zero x) xs)) key =
     (case map_of xs key of None \<Rightarrow> None | Some x \<Rightarrow> if json_zero x then None else Some (json_val x))"
  by (induction xs) (auto split: option.splits simp: map_of_eq_None_iff rev_image_eqI)

lemma settings_keys: "map fst (default_values s) = map fst flagBindings"
  by (simp add: default_values_def flagBindings_def)

lemma distinct_keys: "distinct (map fst flagBindings)"
  by (simp add: flagBindings_def)

text \<open>The store of a run: set up once, then given the settings of the file.\<close>

definition loaded :: "flag_set \<Rightarrow> settings \<Rightarrow> viper \<Rightarrow> bool" where
  "loaded fs s v \<longleftrightarrow> (\<exists>v0 v1. InitializeViper fs v0 = Ok v1 \<and> LoadSettings (Some s) v1 = Ok v)"

lemma loaded_layers:
  assumes "loaded fs s v" "map_of flagBindings key = Some flag" "map_of (default_values s) key = Some x"
    "map_of (default_values DefaultSettings) key = Some d"
  shows "viper_Get fs v key =
    (case fl_changed fs flag of Some y \<Rightarrow> Some y | None \<Rightarrow> if json_zero x then Some d else Some (json_val x))"
proof -
  obtain v0 v1 m where v: "bind_flags fs flagBindings (vp_flags v0) = Ok m"
    "v1 = v0\<lparr>vp_flags := m, vp_defaults := vp_defaults v0 ++ map_of (default_values DefaultSettings)\<rparr>"
    "v = v1\<lparr>vp_config := map_of (settings_json s)\<rparr>"
    using assms(1) by (auto simp: loaded_def InitializeViper_def LoadSettings_def outcome_simps)
  have "m = vp_flags v0 ++ map_of flagBindings" by (rule bind_flags_Ok [OF v(1) distinct_keys])
  then have "vp_flags v key = Some flag" using v assms(2) by (simp add: map_add_Some_iff)
  moreover have "vp_config v key = (if json_zero x then None else Some (json_val x))"
    using v assms(3) map_of_filter_json [of "default_values s" key] distinct_keys
    by (simp add: settings_json_def settings_keys)
  moreover have "vp_defaults v key = Some d" using v assms(4) by (simp add: map_add_Some_iff)
  ultimately show ?thesis by (simp add: viper_Get_def split: option.split)
qed

lemma loaded_field:
  assumes "loaded fs s v" "map_of flagBindings key = Some flag" "map_of (default_values s) key = Some (con x)"
    "map_of (default_values DefaultSettings) key = Some (con d)"
    "\<And>y. conv (con y) = y" "\<And>y. conv (json_val (con y)) = y" "json_zero (con x) \<longleftrightarrow> x = zero"
  shows "viper_read conv zero' fs v key = pick conv fs flag zero x d"
  using loaded_layers [OF assms(1-4)] assms(5-7) by (simp add: viper_read_def pick_def split: option.split)

lemmas read_dur = loaded_field [where con = VDur and conv = to_dur and zero = 0 and zero' = 0,
    OF _ _ _ _ to_dur.simps(1) conv_json(6) json_zero.simps(6)]

lemmas read_int = loaded_field [where con = VInt and conv = to_int and zero = 0 and zero' = 0,
    OF _ _ _ _ to_int.simps(1) conv_json(2) json_zero.simps(2)]

lemmas read_uint = loaded_field [where con = VUint and conv = to_uint and zero = 0 and zero' = 0,
    OF _ _ _ _ to_uint.simps(1) conv_json(3) json_zero.simps(3)]

lemmas read_float = loaded_field [where con = VFloat and conv = to_float and zero = 0 and zero' = 0,
    OF _ _ _ _ to_float.simps(1) conv_json(1) json_zero.simps(4)]

lemmas read_str = loaded_field [where con = VStr and conv = to_str and zero = "''''" and zero' = "''''",
    OF _ _ _ _ to_str.simps(1) conv_json(5) json_zero.simps(5)]

lemma json_zero_bool: "json_zero (VBool b) = (b = False)"
  by simp

lemmas read_bool = loaded_field [where con = VBool and conv = to_bool and zero = False and zero' = False,
    OF _ _ _ _ to_bool.simps(1) conv_json(4) json_zero_bool]

lemma bindings_at:
  "map_of flagBindings ''statsInterval'' = Some ''stats-interval''"
  "map_of flagBindings ''inclusionReapAfter'' = Some ''inclusion-reap-after''"
  "map_of flagBindings ''bufferSize'' = Some ''buffer-size''"
  "map_of flagBindings ''tps'' = Some ''tps''"
  "map_of flagBindings ''dryRun'' = Some ''dry-run''"
  "map_of flagBindings ''debug'' = Some ''debug''"
  "map_of flagBindings ''trackReceipts'' = Some ''track-receipts''"
  "map_of flagBindings ''trackBlocks'' = Some ''track-blocks''"
  "map_of flagBindings ''prewarm'' = Some ''prewarm''"
  "map_of flagBindings ''trackUserLatency'' = Some ''track-user-latency''"
  "map_of flagBindings ''rampUp'' = Some ''ramp-up''"
  "map_of flagBindings ''reportPath'' = Some ''report-path''"
  "map_of flagBindings ''txsDir'' = Some ''txs-dir''"
  "map_of flagBindings ''targetGas'' = Some ''target-gas''"
  "map_of flagBindings ''numBlocksToWrite'' = Some ''num-blocks-to-write''"
  "map_of flagBindings ''postSummaryFlushDelay'' = Some ''post-summary-flush-delay''"
  "map_of flagBindings ''arrivalModel'' = Some ''arrival-model''"
  "map_of flagBindings ''maxInFlight'' = Some ''max-in-flight''"
  by (simp_all add: flagBindings_def)

lemma values_at:
  "map_of (default_values s) ''statsInterval'' = Some (VDur (StatsInterval s))"
  "map_of (default_values s) ''inclusionReapAfter'' = Some (VDur (InclusionReapAfter s))"
  "map_of (default_values s) ''bufferSize'' = Some (VInt (BufferSize s))"
  "map_of (default_values s) ''tps'' = Some (VFloat (TPS s))"
  "map_of (default_values s) ''dryRun'' = Some (VBool (st_DryRun s))"
  "map_of (default_values s) ''debug'' = Some (VBool (st_Debug s))"
  "map_of (default_values s) ''trackReceipts'' = Some (VBool (TrackReceipts s))"
  "map_of (default_values s) ''trackBlocks'' = Some (VBool (TrackBlocks s))"
  "map_of (default_values s) ''prewarm'' = Some (VBool (st_Prewarm s))"
  "map_of (default_values s) ''trackUserLatency'' = Some (VBool (TrackUserLatency s))"
  "map_of (default_values s) ''rampUp'' = Some (VBool (RampUp s))"
  "map_of (default_values s) ''reportPath'' = Some (VStr (st_ReportPath s))"
  "map_of (default_values s) ''txsDir'' = Some (VStr (TxsDir s))"
  "map_of (default_values s) ''targetGas'' = Some (VUint (TargetGas s))"
  "map_of (default_values s) ''numBlocksToWrite'' = Some (VInt (NumBlocksToWrite s))"
  "map_of (default_values s) ''postSummaryFlushDelay'' = Some (VDur (PostSummaryFlushDelay s))"
  "map_of (default_values s) ''arrivalModel'' = Some (VStr (st_ArrivalModel s))"
  "map_of (default_values s) ''maxInFlight'' = Some (VInt (MaxInFlight s))"
  by (simp_all add: default_values_def)

lemma ResolveSettings_effective:
  assumes "loaded fs s v"
  shows "ResolveSettings fs v = effective fs s DefaultSettings"
  unfolding ResolveSettings_def effective_def
  by (simp only: read_dur [OF assms bindings_at(1) values_at(1) values_at(1)]
    read_dur [OF assms bindings_at(2) values_at(2) values_at(2)]
    read_int [OF assms bindings_at(3) values_at(3) values_at(3)]
    read_float [OF assms bindings_at(4) values_at(4) values_at(4)]
    read_bool [OF assms bindings_at(5) values_at(5) values_at(5)]
    read_bool [OF assms bindings_at(6) values_at(6) values_at(6)]
    read_bool [OF assms bindings_at(7) values_at(7) values_at(7)]
    read_bool [OF assms bindings_at(8) values_at(8) values_at(8)]
    read_bool [OF assms bindings_at(9) values_at(9) values_at(9)]
    read_bool [OF assms bindings_at(10) values_at(10) values_at(10)]
    read_bool [OF assms bindings_at(11) values_at(11) values_at(11)]
    read_str [OF assms bindings_at(12) values_at(12) values_at(12)]
    read_str [OF assms bindings_at(13) values_at(13) values_at(13)]
    read_uint [OF assms bindings_at(14) values_at(14) values_at(14)]
    read_int [OF assms bindings_at(15) values_at(15) values_at(15)]
    read_dur [OF assms bindings_at(16) values_at(16) values_at(16)]
    read_str [OF assms bindings_at(17) values_at(17) values_at(17)]
    read_int [OF assms bindings_at(18) values_at(18) values_at(18)])

subsection \<open>The flags of the command\<close>

text \<open>What \<open>init\<close> of \<open>main.go\<close> declares, with the defaults cobra shows; the one required flag is \<open>config\<close>.\<close>

definition main_flag_table :: "(string \<times> cfg_val) list" where
  "main_flag_table =
     [(''config'', VStr ''''), (''stats-interval'', VDur 0), (''inclusion-reap-after'', VDur (30 * second)),
      (''buffer-size'', VInt 0), (''tps'', VFloat 0), (''dry-run'', VBool False), (''debug'', VBool False),
      (''track-receipts'', VBool False), (''track-blocks'', VBool False), (''prewarm'', VBool False),
      (''track-user-latency'', VBool False), (''nodes'', VInt 0), (''metricsListenAddr'', VStr ''0.0.0.0:9090''),
      (''ramp-up'', VBool False), (''report-path'', VStr ''''), (''txs-dir'', VStr ''''), (''target-gas'', VUint 10000000),
      (''num-blocks-to-write'', VInt 100), (''post-summary-flush-delay'', VDur (25 * second)), (''duration'', VDur 0),
      (''arrival-model'', VStr ArrivalModelClosedLoop), (''max-in-flight'', VInt 10000)]"

definition main_flags :: "(string \<rightharpoonup> cfg_val) \<Rightarrow> flag_set" where
  "main_flags changed = \<lparr>fl_declared = map_of main_flag_table, fl_changed = changed\<rparr>"

lemma bind_flags_declared:
  "\<forall>(key, name) \<in> set bs. fl_declared fs name \<noteq> None \<Longrightarrow> \<exists>m'. bind_flags fs bs m = Ok m'"
  by (induction fs bs m rule: bind_flags.induct) auto

text \<open>Every flag a setting is bound to is declared, so the initialisation of the process succeeds.\<close>

lemma main_InitializeViper: "\<exists>v. InitializeViper (main_flags changed) v0 = Ok v"
proof -
  have "\<forall>(key, name) \<in> set flagBindings. fl_declared (main_flags changed) name \<noteq> None"
    by (simp add: flagBindings_def main_flags_def main_flag_table_def)
  from bind_flags_declared [OF this, of "vp_flags v0"] show ?thesis by (auto simp: InitializeViper_def)
qed

lemma main_loaded: "\<exists>v. loaded (main_flags changed) s v"
  using main_InitializeViper [of changed] by (auto simp: loaded_def LoadSettings_def)

end
