(* ===== verification/Startup.thy ===== *)
theory Startup
  imports Generator Funder Viper Sender
begin

text \<open>
  The program around the components (\<open>main.go\<close>): loading and checking the configuration, the
  order in which a run is set up, which background tasks it starts with what, and what the
  process reports at the end. The host, the chain and the parser of the configuration are the
  fields of \<open>run_env\<close>.
\<close>

subsection \<open>The configuration of a run\<close>

record 'c run_env =
  re_host :: host
  re_parse :: "string \<Rightarrow> go_error + load_config"
  re_envs :: "nat \<Rightarrow> chain_env"
  re_clock :: "nat \<Rightarrow> go_error option \<times> bool"
  re_fund :: "'c fund_env"
  re_dial :: "string \<Rightarrow> go_error option"
  re_height :: "go_error + u64"
  re_accounts :: "account list \<Rightarrow> account list"

definition loadConfig :: "'c run_env \<Rightarrow> string \<Rightarrow> load_config outcome" where
  "loadConfig env filename =
     (case read_file (re_host env) filename of
        Inl e \<Rightarrow> Err (Wrap ''failed to read config file'' e)
      | Inr data \<Rightarrow>
          (case re_parse env data of
             Inl e \<Rightarrow> Err (Wrap ''failed to parse config json'' e)
           | Inr cfg \<Rightarrow>
               if length (lc_Scenarios cfg) = 0 then Err (Errorf ''no scenarios specified in config'')
               else obind (ValidateScenarios (lc_Scenarios cfg)) (\<lambda>_.
                      obind (ValidateFunding cfg) (\<lambda>_. Ok cfg))))"

text \<open>The first part of \<open>runLoadTest\<close>: settings resolved and checked, endpoints limited, a dry run made a mock one.\<close>

definition prepare_run :: "'c run_env \<Rightarrow> flag_set \<Rightarrow> viper \<Rightarrow> int \<Rightarrow> string \<Rightarrow> load_config outcome" where
  "prepare_run env fs v nodes filename =
     obind (omap_err (Wrap ''failed to load config'') (loadConfig env filename)) (\<lambda>cfg.
       obind (omap_err (Wrap ''failed to load config file'') (LoadSettings (lc_Settings cfg) v)) (\<lambda>v.
         let s = ResolveSettings fs v
         in obind (omap_err (Wrap ''invalid settings'') (Settings_Validate s)) (\<lambda>_.
              if length (lc_Endpoints cfg) = 0 \<and> \<not> st_DryRun s then Err (Errorf ''no endpoints specified in config'')
              else
                let eps = lc_Endpoints cfg;
                    eps = (if 0 < nodes \<and> nodes < int (length eps) then take (nat nodes) eps else eps)
                in Ok (cfg\<lparr>lc_Settings := Some s, lc_Endpoints := eps,
                           lc_MockDeploy := (if st_DryRun s then True else lc_MockDeploy cfg)\<rparr>))))"

definition inclusionRegistryCap :: "int \<Rightarrow> rat \<Rightarrow> duration \<Rightarrow> int" where
  "inclusionRegistryCap maxInFlight tps reap_after =
     (let flr = i64 (maxInFlight * 4);
          little = i64 (ceiling (tps * seconds reap_after * (3 / 2)))
      in if flr < little then little else flr)"

subsection \<open>Setting up a run\<close>

text \<open>The shared limiter: its rate (\<open>None\<close> is infinite) and its burst.\<close>

definition shared_limiter :: "rat \<Rightarrow> rat option \<times> int" where
  "shared_limiter tps = (if 0 < tps then (Some tps, max 1 (i64 (float_to_int tps))) else (None, 1))"

datatype run_task =
    BlockCollectorTask string
  | RamperBlockCollectorTask string
  | RamperTask
  | UserLatencyTask string
  | InclusionTask string inclusion_tracker
  | SenderTask
  | LoggerTask
  | GeneratorTask

definition tracker_for :: "load_config \<Rightarrow> settings \<Rightarrow> inclusion_tracker option" where
  "tracker_for cfg s =
     (if 0 < length (lc_Endpoints cfg) \<and> TrackReceipts s \<and> \<not> st_DryRun s then
        Some (NewInclusionTracker (lc_SeiChainID cfg) (InclusionReapAfter s)
                (inclusionRegistryCap (MaxInFlight s) (TPS s) (InclusionReapAfter s))
                (st_ArrivalModel s = ArrivalModelOpenLoop))
      else None)"

definition tracking_tasks :: "load_config \<Rightarrow> settings \<Rightarrow> run_task list" where
  "tracking_tasks cfg s =
     (case lc_Endpoints cfg of
        [] \<Rightarrow> []
      | ep # _ \<Rightarrow>
          (if TrackBlocks s then [BlockCollectorTask ep] else []) @
          (if RampUp s then [RamperBlockCollectorTask ep, RamperTask] else []) @
          (if TrackUserLatency s then [UserLatencyTask ep] else []) @
          (case tracker_for cfg s of Some t \<Rightarrow> [InclusionTask ep t] | None \<Rightarrow> []))"

text \<open>
  The sender of a run: the block writer, or the queue of the sharded sender. \<open>choose_sender\<close>
  returns the batches funding has sent, and the chain after it.
\<close>

datatype run_sender = WriterSender txs_writer | QueueSender txs_queue "inclusion_tracker option"

definition writer_for :: "'c run_env \<Rightarrow> load_config \<Rightarrow> settings \<Rightarrow> run_sender outcome" where
  "writer_for env cfg s =
     (case lc_Endpoints cfg of
        [] \<Rightarrow> Err (Errorf ''tx writer requires at least one endpoint'')
      | ep # _ \<Rightarrow>
          (case re_dial env ep of
             Some e \<Rightarrow> Err (Wrap ''failed to create ethclient'' e)
           | None \<Rightarrow>
               (case re_height env of
                  Inl e \<Rightarrow> Err (Wrap ''failed to get latest height'' e)
                | Inr latestHeight \<Rightarrow>
                    Ok (WriterSender (NewTxsWriter (TargetGas s) (TxsDir s) (latestHeight + 10) (of_int (NumBlocksToWrite s)))))))"

definition choose_sender ::
  "'c run_env \<Rightarrow> load_config \<Rightarrow> settings \<Rightarrow> account \<Rightarrow> generator \<Rightarrow> 'c \<Rightarrow> run_sender outcome \<times> batch list \<times> 'c" where
  "choose_sender env cfg s deployer gen c =
     (if TxsDir s \<noteq> '''' then (writer_for env cfg s, [], c)
      else
        case (if lc_Funding cfg \<noteq> None \<and> \<not> st_DryRun s \<and> \<not> lc_MockDeploy cfg
              then FundAccounts (re_fund env) cfg deployer (map acc_address (Generator_Accounts (re_accounts env) gen)) c
              else (Ok (), [], c)) of
          (Err e, sent, c) \<Rightarrow> (Err (Wrap ''failed to fund accounts'' e), sent, c)
        | (Panic m, sent, c) \<Rightarrow> (Panic m, sent, c)
        | (Ok u, sent, c) \<Rightarrow> (Ok (QueueSender (NewTxsQueue (MaxInFlight s)) (tracker_for cfg s)), sent, c))"

definition sender_tasks :: "run_sender \<Rightarrow> run_task list" where
  "sender_tasks sndr = (case sndr of WriterSender w \<Rightarrow> [] | QueueSender q t \<Rightarrow> [SenderTask])"

text \<open>
  The body of the run up to the wait for a signal: how it ends, the tasks it has started by
  then, the batches sent and the chain. \<open>prewarm\<close> is the outcome of \<open>Generator.Prewarm\<close>, which runs
  against the sender while that is at work.
\<close>

record 'c start_state =
  sr_started :: "run_task list"
  sr_batches :: "batch list"
  sr_chain :: 'c

definition start_run ::
  "'c run_env \<Rightarrow> (generator \<Rightarrow> run_sender \<Rightarrow> go_error option) \<Rightarrow> rng \<Rightarrow> load_config \<Rightarrow> key_stream \<Rightarrow> 'c \<Rightarrow>
     (generator \<times> run_sender) outcome \<times> 'c start_state" where
  "start_run env prewarm r cfg keys c =
     (let s = the (lc_Settings cfg);
          stop = (\<lambda>ts bs c. \<lparr>sr_started = ts, sr_batches = bs, sr_chain = c\<rparr>)
      in case Deployer (re_host env) (ce_pubkey (re_envs env 0)) cfg keys of
           Err e \<Rightarrow> (Err (Wrap ''failed to resolve contract deployer'' e), stop [] [] c)
         | Panic m \<Rightarrow> (Panic m, stop [] [] c)
         | Ok (deployer, keys) \<Rightarrow>
             (case NewGenerator (re_envs env) (re_clock env) r cfg deployer keys of
                Err e \<Rightarrow> (Err (Wrap ''failed to create generator'' e), stop [] [] c)
              | Panic m \<Rightarrow> (Panic m, stop [] [] c)
              | Ok (gen, r, keys) \<Rightarrow>
                  let ts = tracking_tasks cfg s
                  in case choose_sender env cfg s deployer gen c of
                       (Err e, bs, c) \<Rightarrow> (Err e, stop ts bs c)
                     | (Panic m, bs, c) \<Rightarrow> (Panic m, stop ts bs c)
                     | (Ok sndr, bs, c) \<Rightarrow>
                         let ts = ts @ sender_tasks sndr
                         in case (if st_Prewarm s then prewarm gen sndr else None) of
                              Some e \<Rightarrow> (Err (Wrap ''gen.Prewarm()'' e), stop ts bs c)
                            | None \<Rightarrow> (Ok (gen, sndr), stop (ts @ [LoggerTask, GeneratorTask]) bs c)))"

text \<open>
  The verdict on a run that ended with the error \<open>err\<close> of its scope, the first error of the body
  or of a background task: nothing to report if it is how a run finishes.
\<close>

definition run_verdict :: "go_error option \<Rightarrow> go_error option" where
  "run_verdict err = (case err of None \<Rightarrow> None | Some e \<Rightarrow> if endedOnRunContext e then None else Some e)"

text \<open>
  The end of a run, once its tasks have joined: the summary, the metrics recorded from it, how long
  the process is held for a last scrape, and the verdict. The model of arrival in the summary is
  the closed loop, whatever the settings say.
\<close>

definition run_summary_of :: "inclusion_tracker option \<Rightarrow> run_summary" where
  "run_summary_of inclusion =
     (let summary = \<lparr>ArrivalModel = ArrivalModelClosedLoop, Dropped = 0, Failed = 0, InclusionTracked = False,
            rs_Included = 0, rs_Expired = 0, rs_DroppedAtCap = 0, rs_InflightAtShutdown = 0\<rparr>
      in case inclusion of
           None \<Rightarrow> summary
         | Some t \<Rightarrow>
             let incl = fst (Summary t)
             in summary\<lparr>InclusionTracked := True, rs_Included := sum_Included incl, rs_Expired := sum_Expired incl,
                  rs_DroppedAtCap := sum_DroppedAtCap incl, rs_InflightAtShutdown := sum_InflightAtShutdown incl\<rparr>)"

definition run_end ::
  "instant \<Rightarrow> settings \<Rightarrow> collector \<Rightarrow> inclusion_tracker option \<Rightarrow> go_error option \<Rightarrow> metric list \<times> duration \<times> go_error option" where
  "run_end now s c inclusion err =
     (EmitRunSummary now (run_summary_of inclusion) c,
      if 0 < PostSummaryFlushDelay s then PostSummaryFlushDelay s else 0,
      run_verdict err)"

text \<open>What the summary reports adds up to what the tracker's identity says was registered.\<close>

lemma run_summary_adds_up:
  "rs_Included (run_summary_of (Some t)) + rs_Expired (run_summary_of (Some t)) + rs_InflightAtShutdown (run_summary_of (Some t)) =
     tally (it_state t)"
  by (simp add: run_summary_of_def Summary_def tally_def Let_def)

subsection \<open>A start-up that fails is reported as a failure\<close>

text \<open>
  The environment under a live run context: files, keys, endpoints and node answer with errors of
  their own, and a sentinel only comes out of work whose budget is spent.
\<close>

definition quiet_host :: "host \<Rightarrow> bool" where
  "quiet_host h \<longleftrightarrow> (\<forall>f e. read_file h f = Inl e \<longrightarrow> \<not> endedOnRunContext e) \<and>
     (\<forall>s e. hex_key h s = Inl e \<longrightarrow> \<not> endedOnRunContext e)"

definition quiet_chain :: "'c run_env \<Rightarrow> load_config \<Rightarrow> bool" where
  "quiet_chain env cfg \<longleftrightarrow>
     (\<forall>i. fst (re_clock env i) = None) \<and>
     (\<forall>i d name args impl. respects_context None (snd (re_clock env i)) (deployWithin (re_envs env i) cfg d name args impl)) \<and>
     (\<forall>ep e. ce_dial (re_envs env 0) ep = Some e \<longrightarrow> \<not> endedOnRunContext e) \<and>
     (\<forall>name a e. ce_bind (re_envs env 0) name a = Some e \<longrightarrow> \<not> endedOnRunContext e) \<and>
     (\<forall>ep e. re_dial env ep = Some e \<longrightarrow> \<not> endedOnRunContext e) \<and>
     (\<forall>e. re_height env = Inl e \<longrightarrow> \<not> endedOnRunContext e)"

definition quiet_fund :: "'c fund_env \<Rightarrow> bool" where
  "quiet_fund fe \<longleftrightarrow>
     (\<forall>ep e. fe_dial fe ep = Some e \<longrightarrow> \<not> endedOnRunContext e) \<and>
     (\<forall>a c e. fe_balance fe a c = Inl e \<longrightarrow> \<not> endedOnRunContext e) \<and>
     (\<forall>k chain. no_sentinel (fe_transactor fe k chain)) \<and>
     (\<forall>opts args c e c'. fe_deploy fe opts args c = (Inl e, c') \<longrightarrow> \<not> endedOnRunContext e) \<and>
     (\<forall>d opts rs vs c e c'. fe_disperse fe d opts rs vs c = (Inl e, c') \<longrightarrow> \<not> endedOnRunContext e) \<and>
     (\<forall>a c e. fe_code fe a c = Inl e \<longrightarrow> \<not> endedOnRunContext e) \<and>
     (\<forall>tx c ctx expired res c'. fe_mined fe tx c = ((ctx, expired, res), c') \<longrightarrow>
        ctx = None \<and> (\<forall>e. res = Inl e \<longrightarrow> endedOnRunContext e \<longrightarrow> expired))"

definition quiet_env :: "'c run_env \<Rightarrow> load_config \<Rightarrow> bool" where
  "quiet_env env cfg \<longleftrightarrow> quiet_host (re_host env) \<and> quiet_chain env cfg \<and> quiet_fund (re_fund env)"

lemma quiet_Deployer:
  assumes "quiet_host h"
  shows "no_sentinel (Deployer h pk cfg keys)"
proof -
  have "no_sentinel (resolveRootKey h fc)" for fc
    using assms by (auto simp: resolveRootKey_def quiet_host_def Let_def split: sum.split)
  then have "no_sentinel (rootAccount h pk fc)" for fc
    unfolding rootAccount_def using assms
    by (intro quiet_obind) (auto simp: quiet_host_def split: sum.split)
  then show ?thesis by (auto simp: Deployer_def intro!: quiet_obind split: option.split)
qed

lemma quiet_index_at [simp]: "no_sentinel (index_at xs i)"
  by (simp add: index_at_def)

lemma quiet_Picker: "no_sentinel (Picker s m)"
proof -
  have "no_sentinel (picker_check s ns)" for ns
    by (induction ns) simp_all
  moreover have "no_sentinel (picker_loop m ns p)" for ns p
    by (induction m ns p rule: picker_loop.induct) (simp_all add: Let_def)
  ultimately show ?thesis unfolding Picker_def by (intro quiet_obind) simp_all
qed

lemma quiet_CreateScenario: "no_sentinel (CreateScenario env s keys)"
proof -
  have "no_sentinel (NewStorageRWScenario s)"
    unfolding NewStorageRWScenario_def by (intro quiet_obind quiet_Picker) simp
  moreover have "no_sentinel (NewDisperseScenario env s keys)"
    by (auto simp: NewDisperseScenario_def NewAccountPool_def no_sentinel_def outcome_simps split: prod.splits if_splits)
  ultimately show ?thesis unfolding CreateScenario_def Let_def by (simp add: quiet_obind)
qed

lemma quiet_add_pool: "no_sentinel (add_pool env ac b keys)"
  by (auto simp: add_pool_def NewAccountPool_def no_sentinel_def outcome_simps split: prod.splits if_splits)

lemma quiet_create_loop: "no_sentinel (create_loop env all shared i ss b keys)"
proof (induction env all shared i ss b keys rule: create_loop.induct)
  case (2 env all shared i s ss b keys)
  have "no_sentinel (account_pool_for env shared s b keys)" for b keys
    by (auto simp: account_pool_for_def quiet_add_pool split: option.split)
  then show ?case using 2 by (auto intro!: quiet_obind quiet_CreateScenario)
qed simp

lemma rebind_error: "rebind env name a g = (Some e, g') \<Longrightarrow> ce_bind env name a = Some e"
  by (auto simp: rebind_def split: option.splits)

lemma quiet_mock_loop:
  assumes "\<forall>ep e. ce_dial env ep = Some e \<longrightarrow> \<not> endedOnRunContext e" "\<forall>name a e. ce_bind env name a = Some e \<longrightarrow> \<not> endedOnRunContext e"
  shows "no_sentinel (mock_loop env cfg xs keys)"
proof (induction xs arbitrary: keys)
  case (Cons x xs)
  have att: "no_sentinel (Attach env cfg a g)" for a g
    by (auto simp: Attach_def base_Attach_def AttachScenario_def index_at_def no_sentinel_def outcome_simps
        split: option.splits prod.splits if_splits)
  have err: "\<not> endedOnRunContext e" if ok: "Attach env cfg a g = Ok (Some e, g')" for a g e g'
  proof -
    obtain g1 where g1: "base_Attach env cfg a g = Ok g1"
      using ok by (cases "base_Attach env cfg a g") (auto simp: Attach_def)
    obtain name args where c: "contract_of (tg_impl g1) = Some (name, args)"
      using ok g1 by (cases "contract_of (tg_impl g1)") (auto simp: Attach_def)
    have "(\<exists>ep. ce_dial env ep = Some e) \<or> rebind env name a g1 = (Some e, g')"
      using ok g1 c by (auto simp: Attach_def outcome_simps split: if_splits option.splits)
    then show ?thesis using assms rebind_error by blast
  qed
  show ?case by (auto simp: NewAccount_def intro!: quiet_obind att Cons split: option.split dest: err)
qed simp

lemma quiet_deploy_loop:
  assumes "\<forall>i. fst (clock i) = None"
    "\<forall>i d name args impl. respects_context None (snd (clock i)) (deployWithin (envs i) cfg d name args impl)"
  shows "no_sentinel (deploy_loop envs clock cfg deployer i xs)"
proof (induction xs arbitrary: i)
  case (Cons x xs)
  obtain r g where d: "Deploy (envs i) (fst (clock i)) (snd (clock i)) cfg deployer (in_Scenario x) = (r, g)" by fastforce
  have "\<not> endedOnRunContext e" if "r = Err e" for e
    using Deploy_error_is_failure [of "envs i" "snd (clock i)" cfg deployer "in_Scenario x" e] d that assms by simp
  then show ?case using d Cons by (auto intro!: quiet_obind split: outcome.split)
qed simp

lemma quiet_NewGenerator:
  assumes "quiet_chain env cfg"
  shows "no_sentinel (NewGenerator (re_envs env) (re_clock env) r cfg deployer keys)"
proof -
  have "no_sentinel (createScenarios (re_envs env 0) cfg b keys)" for b keys
    by (auto simp: createScenarios_def intro!: quiet_obind quiet_create_loop quiet_add_pool split: option.split)
  moreover have "no_sentinel (deployAll (re_envs env) (re_clock env) cfg deployer xs keys)" for xs keys
    using assms by (auto simp: deployAll_def quiet_chain_def intro!: quiet_obind quiet_mock_loop quiet_deploy_loop)
  moreover have "no_sentinel (build b r)" for b
    by (auto simp: build_def Let_def split: prod.split)
  ultimately show ?thesis unfolding NewGenerator_def by (intro quiet_obind) (auto intro!: quiet_obind)
qed

lemma quiet_fundD:
  assumes "quiet_fund fe"
  shows "fe_dial fe ep = Some e \<Longrightarrow> \<not> endedOnRunContext e"
    and "fe_balance fe a c = Inl e \<Longrightarrow> \<not> endedOnRunContext e"
    and "no_sentinel (fe_transactor fe k chain)"
    and "fe_deploy fe opts args c = (Inl e, c') \<Longrightarrow> \<not> endedOnRunContext e"
    and "fe_disperse fe d opts rs vs c = (Inl e, c') \<Longrightarrow> \<not> endedOnRunContext e"
    and "fe_code fe a c = Inl e \<Longrightarrow> \<not> endedOnRunContext e"
    and "fe_mined fe tx c = ((ctx, spent, res), c') \<Longrightarrow> ctx = None \<and> (\<forall>e. res = Inl e \<longrightarrow> endedOnRunContext e \<longrightarrow> spent)"
proof -
  note q = assms [unfolded quiet_fund_def]
  show "fe_dial fe ep = Some e \<Longrightarrow> \<not> endedOnRunContext e" using q [THEN conjunct1] by fast
  note q = q [THEN conjunct2]
  show "fe_balance fe a c = Inl e \<Longrightarrow> \<not> endedOnRunContext e" using q [THEN conjunct1] by fast
  note q = q [THEN conjunct2]
  show "no_sentinel (fe_transactor fe k chain)" using q [THEN conjunct1] by fast
  note q = q [THEN conjunct2]
  show "fe_deploy fe opts args c = (Inl e, c') \<Longrightarrow> \<not> endedOnRunContext e" using q [THEN conjunct1] by fast
  note q = q [THEN conjunct2]
  show "fe_disperse fe d opts rs vs c = (Inl e, c') \<Longrightarrow> \<not> endedOnRunContext e" using q [THEN conjunct1] by fast
  note q = q [THEN conjunct2]
  show "fe_code fe a c = Inl e \<Longrightarrow> \<not> endedOnRunContext e" using q [THEN conjunct1] by fast
  note q = q [THEN conjunct2]
  show "fe_mined fe tx c = ((ctx, spent, res), c') \<Longrightarrow> ctx = None \<and> (\<forall>e. res = Inl e \<longrightarrow> endedOnRunContext e \<longrightarrow> spent)"
    using q by fast
qed

lemma quiet_waitSuccess:
  assumes "quiet_fund fe" "waitSuccess fe tx what c = (res, c')"
  shows "no_sentinel res"
proof -
  obtain ctx spent r c1 where m: "fe_mined fe tx c = ((ctx, spent, r), c1)" by (metis prod.exhaust)
  then have "ctx = None" "\<forall>e. r = Inl e \<longrightarrow> endedOnRunContext e \<longrightarrow> spent"
    using quiet_fundD(7) [OF assms(1)] by blast+
  then show ?thesis using assms(2) m
    by (auto simp: waitSuccess_def respects_context_def intro!: quiet_within split: sum.split)
qed

lemma quiet_deployDisperse:
  assumes "quiet_fund fe" "deployDisperse fe auth c = (res, c')"
  shows "no_sentinel res"
proof -
  obtain r c1 where d: "fe_deploy fe auth [ArgInt 0, ArgInt 0] c = (r, c1)" by fastforce
  show ?thesis
  proof (cases r)
    case (Inl e)
    then show ?thesis using assms(2) d quiet_fundD(4) [OF assms(1)] by (auto simp: deployDisperse_def)
  next
    case (Inr x)
    obtain a tx where x: "x = (a, tx)" by fastforce
    obtain w c2 where w: "waitSuccess fe tx ''deploy Disperse'' c1 = (w, c2)" by fastforce
    have code: "\<not> endedOnRunContext e" if "fe_code fe a c2 = Inl e" for e
      by (rule quiet_fundD(6) [OF assms(1) that])
    show ?thesis using quiet_waitSuccess [OF assms(1) w] assms(2) d Inr x w code
      by (cases w) (auto simp: deployDisperse_def split: sum.splits if_splits)
  qed
qed

lemma quiet_fund_loop:
  assumes "quiet_fund fe" "0 < b"
  shows "fund_loop fe auth d amount b us start c = (res, sent, c') \<Longrightarrow> no_sentinel res"
proof (induction "length us - start" arbitrary: start c sent res c' rule: less_induct)
  case less
  show ?case
  proof (cases "start < length us")
    case False
    then show ?thesis using less.prems by (auto simp: fund_loop_done)
  next
    case True
    let ?ch = "take b (drop start us)"
    note run = less.prems [unfolded fund_loop_step [OF assms(2) True] Let_def]
    obtain r1 c1 where s: "fe_disperse fe d (auth\<lparr>o_value := amount * int (length ?ch)\<rparr>) ?ch (replicate (length ?ch) amount) c = (r1, c1)"
      by fastforce
    show ?thesis
    proof (cases r1)
      case (Inl e)
      then have "\<not> endedOnRunContext e" using quiet_fundD(5) [OF assms(1)] s by blast
      then show ?thesis using run s Inl by auto
    next
      case (Inr tx)
      obtain w c2 where w: "waitSuccess fe tx ''disperseEther'' c1 = (w, c2)" by fastforce
      note quiet = quiet_waitSuccess [OF assms(1) w]
      show ?thesis
      proof (cases w)
        case (Ok u)
        obtain res3 sent3 c3 where l: "fund_loop fe auth d amount b us (start + b) c2 = (res3, sent3, c3)"
          using prod_cases3 by blast
        have "res = res3" using run s Inr w Ok l by simp
        moreover have "length us - (start + b) < length us - start" using True assms(2) by simp
        ultimately show ?thesis using less.hyps l by blast
      qed (use run s Inr w quiet in auto)
    qed
  qed
qed

lemma quiet_FundAccounts:
  assumes "quiet_fund fe" "FundAccounts fe cfg rt addrs c = (res, sent, c')"
  shows "no_sentinel res"
proof -
  have bal: "no_sentinel (balances_loop bal amount as)" if "\<forall>a e. bal a = Inl e \<longrightarrow> \<not> endedOnRunContext e" for bal amount as
    using that by (induction as) (auto intro!: quiet_obind split: sum.split)
  have filt: "no_sentinel (filterUnderfunded fe as amount c)" for as amount
    unfolding filterUnderfunded_def using quiet_fundD(2) [OF assms(1)] by (intro bal) blast
  have under: "no_sentinel (fst (fund_underfunded fe cfg fc rt us c))" for fc us
  proof (cases "fe_transactor fe (acc_priv rt) (GetChainID cfg)")
    case (Ok auth)
    let ?auth = "auth\<lparr>o_tip_cap := 1000000000, o_fee_cap := 100000000000\<rparr>"
    obtain d c1 where d: "deployDisperse fe ?auth c = (d, c1)" by fastforce
    have "0 < nat (Batch (Some fc))" using Batch_pos [of "Some fc"] by simp
    note quiet_fund_loop [OF assms(1) this]
    then have "no_sentinel (fst (fund_loop fe ?auth a amount (nat (Batch (Some fc))) us 0 c1))" for a amount
      by (metis prod.exhaust fst_conv)
    then show ?thesis using quiet_deployDisperse [OF assms(1) d] Ok d
      by (cases d) (simp_all add: fund_underfunded_def)
  next
    case (Err e)
    then have "\<not> endedOnRunContext e" using quiet_fundD(3) [OF assms(1), of "acc_priv rt" "GetChainID cfg"] by simp
    then show ?thesis using Err by (simp add: fund_underfunded_def)
  qed (simp add: fund_underfunded_def)
  have dial: "\<not> endedOnRunContext e" if "fe_dial fe ep = Some e" for ep e
    by (rule quiet_fundD(1) [OF assms(1) that])
  have "no_sentinel (fst (FundAccounts fe cfg rt addrs c))"
    using filt under dial
    by (auto simp: FundAccounts_def Let_def split: option.split list.split outcome.split)
      (metis quiet_simps(3))+
  then show ?thesis using assms(2) by simp
qed

text \<open>The same for the whole start-up, whatever it got to; the tasks it had started do not matter.\<close>

lemma quiet_choose_sender:
  assumes "quiet_env env cfg" "choose_sender env cfg s deployer gen c = (res, bs, c')"
  shows "no_sentinel res"
proof -
  have dial: "\<not> endedOnRunContext e" if "re_dial env ep = Some e" for ep e
    using assms(1) that unfolding quiet_env_def quiet_chain_def by blast
  have height: "\<not> endedOnRunContext e" if "re_height env = Inl e" for e
    using assms(1) that unfolding quiet_env_def quiet_chain_def by blast
  have writer: "no_sentinel (writer_for env cfg s)"
    by (auto simp: writer_for_def dest: dial height split: list.split option.split sum.split)
  have "quiet_fund (re_fund env)" using assms(1) by (simp add: quiet_env_def)
  note fund = quiet_FundAccounts [OF this]
  let ?fa = "FundAccounts (re_fund env) cfg deployer (map acc_address (Generator_Accounts (re_accounts env) gen)) c"
  obtain w sent c1 where f: "?fa = (w, sent, c1)" using prod_cases3 by blast
  show ?thesis
  proof (cases "TxsDir s \<noteq> '''' \<or> \<not> (lc_Funding cfg \<noteq> None \<and> \<not> st_DryRun s \<and> \<not> lc_MockDeploy cfg)")
    case True
    then show ?thesis using assms(2) writer by (auto simp: choose_sender_def split: if_splits)
  next
    case False
    then show ?thesis using assms(2) f fund [OF f] by (cases w) (auto simp: choose_sender_def)
  qed
qed

lemma quiet_start_run:
  assumes "quiet_env env cfg" "\<And>gen sndr e. prewarm gen sndr = Some e \<Longrightarrow> \<not> endedOnRunContext e"
    "start_run env prewarm r cfg keys c = (res, st)"
  shows "no_sentinel res"
proof -
  let ?s = "the (lc_Settings cfg)" and ?dep = "Deployer (re_host env) (ce_pubkey (re_envs env 0)) cfg keys"
  have dep: "no_sentinel ?dep" using assms(1) by (intro quiet_Deployer) (simp add: quiet_env_def)
  show ?thesis
  proof (cases ?dep)
    case (Ok d)
    obtain deployer keys1 where d: "d = (deployer, keys1)" by fastforce
    let ?gen = "NewGenerator (re_envs env) (re_clock env) r cfg deployer keys1"
    have gen: "no_sentinel ?gen" using assms(1) by (intro quiet_NewGenerator) (simp add: quiet_env_def)
    show ?thesis
    proof (cases ?gen)
      case (Ok g)
      obtain gen r1 keys2 where g: "g = (gen, r1, keys2)" using prod_cases3 by blast
      obtain w bs c1 where w: "choose_sender env cfg ?s deployer gen c = (w, bs, c1)" using prod_cases3 by blast
      show ?thesis
        using assms(2,3) quiet_choose_sender [OF assms(1) w] \<open>?dep = Ok d\<close> d Ok g w
        by (cases w) (auto simp: start_run_def Let_def split: option.splits if_splits)
    qed (use assms(3) gen Ok d in \<open>auto simp: start_run_def Let_def\<close>)
  qed (use assms(3) dep in \<open>auto simp: start_run_def Let_def\<close>)
qed

lemma run_verdict_failure: "no_sentinel res \<Longrightarrow> res = Err e \<Longrightarrow> run_verdict (Some e) = Some e"
  by (simp add: run_verdict_def)

lemma run_verdict_end: "run_verdict (Some Canceled) = None" "run_verdict (Some DeadlineExceeded) = None" "run_verdict None = None"
  by (simp_all add: run_verdict_def endedOnRunContext_def)

subsection \<open>What a prepared configuration guarantees\<close>

lemma loadConfig_Ok:
  "loadConfig env f = Ok cfg \<Longrightarrow>
     lc_Scenarios cfg \<noteq> [] \<and> ValidateScenarios (lc_Scenarios cfg) = Ok () \<and> ValidateFunding cfg = Ok ()"
  by (auto simp: loadConfig_def outcome_simps split: sum.splits if_splits)

lemma prepare_run_Ok:
  assumes "prepare_run env fs v nodes f = Ok cfg"
  obtains cfg0 s where "loadConfig env f = Ok cfg0" "lc_Settings cfg = Some s" "0 < MaxInFlight s"
    "lc_Endpoints cfg \<noteq> [] \<or> st_DryRun s" "st_DryRun s \<longrightarrow> lc_MockDeploy cfg"
    "lc_Scenarios cfg = lc_Scenarios cfg0" "lc_Accounts cfg = lc_Accounts cfg0" "lc_Funding cfg = lc_Funding cfg0"
proof -
  obtain cfg0 v1 where c: "loadConfig env f = Ok cfg0" "LoadSettings (lc_Settings cfg0) v = Ok v1"
    using assms unfolding prepare_run_def obind_Ok_iff omap_err_Ok_iff by blast
  let ?s = "ResolveSettings fs v1"
  have ok: "0 < MaxInFlight ?s" "lc_Endpoints cfg0 \<noteq> [] \<or> st_DryRun ?s"
    and cfg: "cfg = cfg0\<lparr>lc_Settings := Some ?s,
      lc_Endpoints := (if 0 < nodes \<and> nodes < int (length (lc_Endpoints cfg0)) then take (nat nodes) (lc_Endpoints cfg0) else lc_Endpoints cfg0),
      lc_MockDeploy := (if st_DryRun ?s then True else lc_MockDeploy cfg0)\<rparr>"
    using assms c by (auto simp: prepare_run_def Settings_Validate_def Let_def split: if_splits)
  show ?thesis
    by (rule that [OF c(1), of ?s]) (use ok in \<open>auto simp: cfg take_eq_Nil\<close>)
qed

lemma ValidateFunding_cong:
  "lc_Scenarios c = lc_Scenarios d \<Longrightarrow> lc_Accounts c = lc_Accounts d \<Longrightarrow> lc_Funding c = lc_Funding d \<Longrightarrow>
     ValidateFunding c = ValidateFunding d"
  by (simp add: ValidateFunding_def split: option.split)

subsection \<open>With funding, every account a run draws is funded\<close>

lemma add_pool_fixed:
  "add_pool env ac b keys = Ok (p, b', keys') \<Longrightarrow> NewAccountRate ac \<le> 0 \<Longrightarrow>
     \<forall>p \<in> set (gb_pools b). newAccountRate p \<le> 0 \<Longrightarrow> \<forall>p \<in> set (gb_pools b'). newAccountRate p \<le> 0"
  by (auto simp: add_pool_def NewAccountPool_def outcome_simps split: if_splits prod.splits)

lemma create_loop_fixed:
  "create_loop env all shared i ss b keys = Ok (b', keys') \<Longrightarrow> \<forall>s \<in> set ss. fixed_pool (sc_Accounts s) \<Longrightarrow>
     \<forall>p \<in> set (gb_pools b). newAccountRate p \<le> 0 \<Longrightarrow> \<forall>p \<in> set (gb_pools b'). newAccountRate p \<le> 0"
proof (induction env all shared i ss b keys rule: create_loop.induct)
  case (2 env all shared i s ss b keys)
  obtain g keys1 p b1 keys2 where c: "CreateScenario env s keys = Ok (g, keys1)"
    and pool: "account_pool_for env shared s b keys1 = Ok (p, b1, keys2)"
    and rest: "create_loop env all shared (Suc i) ss (b1\<lparr>gb_instances := gb_instances b1 @
      [\<lparr>in_Name = instance_name all i, in_Weight = sc_Weight s, in_Scenario = g, in_Accounts = p\<rparr>]\<rparr>) keys2 = Ok (b', keys')"
    using "2.prems"(1) by (auto simp: outcome_simps split: prod.splits)
  have "\<forall>p \<in> set (gb_pools b1). newAccountRate p \<le> 0"
    using pool "2.prems"(2,3) add_pool_fixed [of env _ b keys1 p b1 keys2]
    by (auto simp: account_pool_for_def fixed_pool_def split: option.splits)
  then show ?case using "2.IH" [OF rest] "2.prems"(2) by simp
qed simp

lemma NewGenerator_fixed:
  assumes "NewGenerator envs clock r cfg deployer keys = Ok (g, r', keys')"
    "fixed_pool (lc_Accounts cfg)" "\<forall>s \<in> set (lc_Scenarios cfg). fixed_pool (sc_Accounts s)"
  shows "\<forall>p \<in> set (gn_pools g). newAccountRate p \<le> 0"
proof -
  let ?b0 = "\<lparr>gb_pools = [], gb_instances = []\<rparr>"
  obtain b keys1 xs where cs: "createScenarios (envs 0) cfg ?b0 keys = Ok (b, keys1)"
    and bd: "build (b\<lparr>gb_instances := xs\<rparr>) r = Ok (g, r')"
    using assms(1) by (auto simp: NewGenerator_def outcome_simps split: prod.splits)
  have g: "gn_pools g = gb_pools b"
    using bd by (auto simp: build_def Let_def split: prod.splits if_splits)
  obtain shared b1 keys2 where loop: "create_loop (envs 0) (lc_Scenarios cfg) shared 0 (lc_Scenarios cfg) b1 keys2 = Ok (b, keys1)"
    and b1: "\<forall>p \<in> set (gb_pools b1). newAccountRate p \<le> 0"
  proof (cases "lc_Accounts cfg")
    case None
    then show ?thesis using cs that [of None ?b0 keys] by (simp add: createScenarios_def)
  next
    case (Some ac)
    then obtain p b1 keys2 where ap: "add_pool (envs 0) ac ?b0 keys = Ok (p, b1, keys2)"
      and "create_loop (envs 0) (lc_Scenarios cfg) (Some p) 0 (lc_Scenarios cfg) b1 keys2 = Ok (b, keys1)"
      using cs by (auto simp: createScenarios_def outcome_simps split: prod.splits)
    moreover have "\<forall>p \<in> set (gb_pools b1). newAccountRate p \<le> 0"
      by (rule add_pool_fixed [OF ap]) (use assms(2) Some in \<open>simp_all add: fixed_pool_def\<close>)
    ultimately show ?thesis using that by blast
  qed
  from create_loop_fixed [OF loop assms(3) b1] show ?thesis by (simp add: g)
qed

lemma NextAccount_fixed:
  assumes "newAccountRate a \<le> 0" "NextAccount pk a r keys = Ok (acc, a', r', keys')"
  shows "acc \<in> set (ap_accounts a) \<and> ap_accounts a' = ap_accounts a \<and> newAccountRate a' = newAccountRate a"
  using assms by (auto simp: NextAccount_def nextIndex_def index_at_def outcome_simps split: prod.splits if_splits)

lemma next_accounts_fixed:
  "newAccountRate a \<le> 0 \<Longrightarrow> next_accounts pk k a r keys = Ok (accs, a', r', keys') \<Longrightarrow> set accs \<subseteq> set (ap_accounts a)"
proof (induction k arbitrary: a r keys accs)
  case (Suc k)
  then obtain acc a1 r1 keys1 accs1 where n: "NextAccount pk a r keys = Ok (acc, a1, r1, keys1)"
    and rest: "next_accounts pk k a1 r1 keys1 = Ok (accs1, a', r', keys')" and accs: "accs = acc # accs1"
    by (auto simp: outcome_simps split: prod.splits)
  show ?case using NextAccount_fixed [OF Suc.prems(1) n] Suc.IH [OF _ rest] Suc.prems(1) accs by auto
qed simp

text \<open>The accounts the funder is given are those of all scheduled pools.\<close>

lemma set_alist_update: "set (AList.update k v al) \<subseteq> insert (k, v) (set al)"
  by (induction al) auto

lemma keys_alist_update: "fst ` set (AList.update k v al) = insert k (fst ` set al)"
  by (induction al) auto

lemma fold_update_addresses:
  assumes "\<forall>(k, a) \<in> set al. acc_address a = k"
  shows "acc_address ` snd ` set (fold (\<lambda>a. AList.update (acc_address a) a) xs al) = fst ` set al \<union> acc_address ` set xs"
  using assms
proof (induction xs arbitrary: al)
  case Nil
  then show ?case by force
next
  case (Cons x xs)
  have "\<forall>(k, a) \<in> set (AList.update (acc_address x) x al). acc_address a = k"
    using Cons.prems set_alist_update [of "acc_address x" x al] by auto
  from Cons.IH [OF this] show ?case
    by (simp add: keys_alist_update)
qed

lemma Generator_Accounts_addresses:
  assumes "\<And>xs. mset (order xs) = mset xs"
  shows "acc_address ` set (Generator_Accounts order g) =
    acc_address ` (\<Union>i \<in> set (gn_schedule g). set (ap_accounts (gn_pools g ! in_Accounts (gn_instances g ! i))))"
proof -
  let ?as = "concat (map (\<lambda>i. Accounts (gn_pools g ! in_Accounts (gn_instances g ! i))) (gn_schedule g))"
  have "set (Generator_Accounts order g) = snd ` set (fold (\<lambda>a. AList.update (acc_address a) a) ?as [])"
    using mset_eq_setD [OF assms] by (simp add: Generator_Accounts_def)
  then have "acc_address ` set (Generator_Accounts order g) = acc_address ` set ?as"
    using fold_update_addresses [of "[]" ?as] by simp
  then show ?thesis by (simp add: Accounts_def)
qed

lemma start_run_error_tasks:
  assumes "start_run env prewarm r cfg keys c = (Err e, st)"
  shows "GeneratorTask \<notin> set (sr_started st) \<and> LoggerTask \<notin> set (sr_started st)"
proof -
  let ?s = "the (lc_Settings cfg)" and ?dep = "Deployer (re_host env) (ce_pubkey (re_envs env 0)) cfg keys"
  have tracking: "GeneratorTask \<notin> set (tracking_tasks cfg s) \<and> LoggerTask \<notin> set (tracking_tasks cfg s)" for s
    by (auto simp: tracking_tasks_def split: list.splits option.splits)
  have sending: "GeneratorTask \<notin> set (sender_tasks x) \<and> LoggerTask \<notin> set (sender_tasks x)" for x
    by (cases x) (simp_all add: sender_tasks_def)
  show ?thesis
  proof (cases ?dep)
    case (Ok d)
    obtain deployer keys1 where d: "d = (deployer, keys1)" by fastforce
    let ?gen = "NewGenerator (re_envs env) (re_clock env) r cfg deployer keys1"
    show ?thesis
    proof (cases ?gen)
      case (Ok g)
      obtain gen r1 keys2 where g: "g = (gen, r1, keys2)" using prod_cases3 by blast
      obtain w bs c1 where w: "choose_sender env cfg ?s deployer gen c = (w, bs, c1)" using prod_cases3 by blast
      show ?thesis
        using assms tracking [of ?s] sending \<open>?dep = Ok d\<close> d Ok g w
        by (cases w) (auto simp: start_run_def Let_def split: option.splits if_splits)
    qed (use assms Ok d in \<open>auto simp: start_run_def Let_def\<close>)
  qed (use assms in \<open>auto simp: start_run_def Let_def\<close>)
qed

lemma start_run_Ok:
  assumes "start_run env prewarm r cfg keys c = (Ok (gen, sndr), st)"
  obtains deployer keys1 r1 keys2 where
    "Deployer (re_host env) (ce_pubkey (re_envs env 0)) cfg keys = Ok (deployer, keys1)"
    "NewGenerator (re_envs env) (re_clock env) r cfg deployer keys1 = Ok (gen, r1, keys2)"
    "choose_sender env cfg (the (lc_Settings cfg)) deployer gen c = (Ok sndr, sr_batches st, sr_chain st)"
    "sr_started st = tracking_tasks cfg (the (lc_Settings cfg)) @ sender_tasks sndr @ [LoggerTask, GeneratorTask]"
proof -
  let ?s = "the (lc_Settings cfg)" and ?dep = "Deployer (re_host env) (ce_pubkey (re_envs env 0)) cfg keys"
  obtain deployer keys1 where d: "?dep = Ok (deployer, keys1)"
    using assms by (cases ?dep) (auto simp: start_run_def Let_def)
  let ?gen = "NewGenerator (re_envs env) (re_clock env) r cfg deployer keys1"
  obtain g r1 keys2 where g: "?gen = Ok (g, r1, keys2)"
    using assms d by (cases ?gen) (auto simp: start_run_def Let_def)
  obtain w bs c1 where w: "choose_sender env cfg ?s deployer g c = (w, bs, c1)" using prod_cases3 by blast
  obtain x where x: "w = Ok x" using assms d g w by (cases w) (auto simp: start_run_def Let_def)
  have "g = gen" "x = sndr" "bs = sr_batches st" "c1 = sr_chain st"
    "sr_started st = tracking_tasks cfg ?s @ sender_tasks sndr @ [LoggerTask, GeneratorTask]"
    using assms d g w x by (auto simp: start_run_def Let_def split: option.splits if_splits)
  then show ?thesis using that d g w x by simp
qed

lemma start_run_funds:
  assumes chain: "disperse_chain (re_fund env) led pool contract" and order: "\<And>xs. mset (re_accounts env xs) = mset xs"
    and cfg: "prepare_run env fs v nodes f = Ok cfg" "lc_Funding cfg = Some fc" "\<not> lc_MockDeploy cfg"
      "TxsDir (the (lc_Settings cfg)) = ''''"
    and run: "start_run env prewarm r cfg keys c = (Ok (gen, sndr), st)"
    and pool: "\<And>i a. i \<in> set (gn_schedule gen) \<Longrightarrow> a \<in> set (ap_accounts (gn_pools gen ! in_Accounts (gn_instances gen ! i))) \<Longrightarrow>
      acc_address a \<in> pool \<and> 0 \<le> led c (acc_address a)"
    and i: "i \<in> set (gn_schedule gen)" "in_Accounts (gn_instances gen ! i) < length (gn_pools gen)"
    and drawn: "next_accounts pk k (gn_pools gen ! in_Accounts (gn_instances gen ! i)) rng ks = Ok (accs, rest)" "a \<in> set accs"
  shows "FundAmount (Some fc) \<le> led (sr_chain st) (acc_address a)"
proof -
  let ?s = "the (lc_Settings cfg)" and ?p = "gn_pools gen ! in_Accounts (gn_instances gen ! i)"
  obtain deployer keys1 r1 keys2 where g: "NewGenerator (re_envs env) (re_clock env) r cfg deployer keys1 = Ok (gen, r1, keys2)"
    and ch: "choose_sender env cfg ?s deployer gen c = (Ok sndr, sr_batches st, sr_chain st)"
    using start_run_Ok [OF run] by metis
  obtain cfg0 s where c0: "loadConfig env f = Ok cfg0" "lc_Settings cfg = Some s" "st_DryRun s \<longrightarrow> lc_MockDeploy cfg"
    "lc_Scenarios cfg = lc_Scenarios cfg0" "lc_Accounts cfg = lc_Accounts cfg0" "lc_Funding cfg = lc_Funding cfg0"
    using prepare_run_Ok [OF cfg(1)] by metis
  have "ValidateFunding cfg = Ok ()" using loadConfig_Ok [OF c0(1)] ValidateFunding_cong [OF c0(4-6)] by simp
  then have fixed: "fixed_pool (lc_Accounts cfg)" "\<forall>s \<in> set (lc_Scenarios cfg). fixed_pool (sc_Accounts s)"
    using cfg(2) by (simp_all add: ValidateFunding_Ok)
  have "newAccountRate ?p \<le> 0" using NewGenerator_fixed [OF g fixed] i(2) by simp
  then have mem: "a \<in> set (ap_accounts ?p)"
    using drawn next_accounts_fixed [of ?p pk k rng ks accs "fst rest" "fst (snd rest)" "snd (snd rest)"] by auto
  let ?addrs = "map acc_address (Generator_Accounts (re_accounts env) gen)"
  have addrs: "set ?addrs = acc_address ` (\<Union>i \<in> set (gn_schedule gen). set (ap_accounts (gn_pools gen ! in_Accounts (gn_instances gen ! i))))"
    using Generator_Accounts_addresses [OF order, of gen] by simp
  have "\<not> st_DryRun ?s" using c0(2,3) cfg(3) by auto
  then obtain sent where fa: "FundAccounts (re_fund env) cfg deployer ?addrs c = (Ok (), sent, sr_chain st)"
    using ch cfg(2-4) by (auto simp: choose_sender_def split: prod.splits outcome.splits)
  show ?thesis
    by (rule disperse_chain.funded [OF chain cfg(2) _ _ fa]) (use addrs pool mem i(1) in auto)
qed

end
