(* ===== verification/Observe.thy ===== *)
theory Observe
  imports Utils
begin

text \<open>
  What \<open>observability/setup.go\<close> decides: the attributes of a run, which exporters it installs, and
  how they are shut down. The exporters and the merging of resources are OpenTelemetry's; whether
  building one fails is an argument.
\<close>

record run_scope =
  ServiceVersion :: string
  RunID :: string
  rs_ChainID :: string
  CommitID :: string
  Workload :: string
  InstanceID :: string

definition RunScopeFromEnv :: "(string \<Rightarrow> string) \<Rightarrow> run_scope" where
  "RunScopeFromEnv env =
     \<lparr>ServiceVersion = env ''SEILOAD_SERVICE_VERSION'', RunID = env ''SEILOAD_RUN_ID'', rs_ChainID = env ''SEILOAD_CHAIN_ID'',
      CommitID = env ''SEILOAD_COMMIT_ID'', Workload = env ''SEILOAD_WORKLOAD'', InstanceID = env ''SEILOAD_INSTANCE_ID''\<rparr>"

definition shortCommit :: "string \<Rightarrow> string" where
  "shortCommit full = (if length full \<le> 8 then full else take 8 full)"

definition unless_empty :: "string \<Rightarrow> (string \<times> string) list \<Rightarrow> (string \<times> string) list" where
  "unless_empty v attrs = (if v \<noteq> '''' then attrs else [])"

text \<open>The attributes of the resource; \<open>hostname\<close> is the answer of the operating system.\<close>

definition buildResource :: "go_error + string \<Rightarrow> run_scope \<Rightarrow> (string \<times> string) list" where
  "buildResource hostname rs =
     (let instanceID = (if InstanceID rs = '''' then (case hostname of Inr h \<Rightarrow> h | Inl e \<Rightarrow> InstanceID rs) else InstanceID rs)
      in [(''service.name'', ''seiload''), (''service.instance.id'', instanceID)] @
         unless_empty (ServiceVersion rs) [(''service.version'', ServiceVersion rs)] @
         unless_empty (RunID rs) [(''seiload.run_id'', RunID rs)] @
         unless_empty (rs_ChainID rs) [(''seiload.chain_id'', rs_ChainID rs)] @
         unless_empty (CommitID rs)
           [(''seiload.commit_id'', CommitID rs), (''seiload.commit_id_short'', shortCommit (CommitID rs))] @
         unless_empty (Workload rs) [(''seiload.workload'', Workload rs)])"

fun strip_first :: "string list \<Rightarrow> string \<Rightarrow> string" where
  "strip_first [] endpoint = endpoint"
| "strip_first (prefix # ps) endpoint =
     (if starts prefix endpoint then drop (length prefix) endpoint else strip_first ps endpoint)"

definition stripScheme :: "string \<Rightarrow> string" where
  "stripScheme endpoint = strip_first [''http://'', ''https://'', ''grpc://'', ''dns:///''] endpoint"

record obs_env =
  oe_resource :: "go_error option"
  oe_prometheus :: "string \<Rightarrow> go_error option"
  oe_metric :: "string \<Rightarrow> go_error option"
  oe_trace :: "string \<Rightarrow> go_error option"

datatype exporter = PrometheusReader string | OTLPMetrics string | OTLPTraces string

definition Setup :: "obs_env \<Rightarrow> string \<Rightarrow> string \<Rightarrow> exporter list outcome" where
  "Setup env namespace otlp =
     (case oe_resource env of
        Some e \<Rightarrow> Err (Wrap ''build resource'' e)
      | None \<Rightarrow>
          let ns = (if namespace = '''' then ''seiload'' else namespace)
          in case oe_prometheus env ns of
               Some e \<Rightarrow> Err (Wrap ''prometheus exporter'' e)
             | None \<Rightarrow>
                 if otlp \<noteq> '''' then
                   (case oe_metric env (stripScheme otlp) of
                      Some e \<Rightarrow> Err (Wrap ''otlp metric exporter'' e)
                    | None \<Rightarrow>
                        (case oe_trace env (stripScheme otlp) of
                           Some e \<Rightarrow> Err (Wrap ''otlp trace exporter'' e)
                         | None \<Rightarrow> Ok [PrometheusReader ns, OTLPMetrics (stripScheme otlp), OTLPTraces (stripScheme otlp)]))
                 else Ok [PrometheusReader ns])"

text \<open>Shutting down runs every shutdown, whatever the earlier ones return, and keeps all errors.\<close>

fun shutdown_all :: "go_error option list \<Rightarrow> go_error list" where
  "shutdown_all [] = []"
| "shutdown_all (r # rs) = (case r of Some e \<Rightarrow> e # shutdown_all rs | None \<Rightarrow> shutdown_all rs)"

lemma shutdown_all_nil: "shutdown_all rs = [] \<longleftrightarrow> (\<forall>r \<in> set rs. r = None)"
  by (induction rs) (auto split: option.split)

text \<open>No attribute is empty but the instance of a host without a name, and no key comes twice.\<close>

lemma buildResource_filled:
  assumes "(k, v) \<in> set (buildResource hostname rs)" "k \<noteq> ''service.instance.id''"
  shows "v \<noteq> ''''"
  using assms by (auto simp: buildResource_def unless_empty_def shortCommit_def Let_def split: if_splits)

lemma buildResource_distinct: "distinct (map fst (buildResource hostname rs))"
  by (auto simp: buildResource_def unless_empty_def Let_def)

lemma shortCommit_prefix: "\<exists>rest. full = shortCommit full @ rest \<and> length (shortCommit full) \<le> 8"
  by (auto simp: shortCommit_def intro: exI [of _ "drop 8 full"])

lemma Setup_exporters:
  "Setup env ns otlp = Ok es \<Longrightarrow> length es = (if otlp = '''' then 1 else 3) \<and> (\<exists>n. PrometheusReader n \<in> set es \<and> n \<noteq> '''')"
  by (auto simp: Setup_def Let_def split: option.splits if_splits)

text \<open>One scheme is stripped: an endpoint with none of the four is left as it is.\<close>

lemma stripScheme_plain:
  "\<forall>p \<in> {''http://'', ''https://'', ''grpc://'', ''dns:///''}. \<not> starts p endpoint \<Longrightarrow> stripScheme endpoint = endpoint"
  by (simp add: stripScheme_def)

lemma stripScheme_scheme:
  "p \<in> {''http://'', ''https://'', ''grpc://'', ''dns:///''} \<Longrightarrow> stripScheme (p @ host) = host"
  by (auto simp: stripScheme_def starts_def)

end
