(* ===== verification/Waits.thy ===== *)
theory Waits
  imports Budget
begin

text \<open>
  Deadlines and waits (\<open>utils/wait.go\<close>). A context is when it ends and with what error, so a deadline
  is a function on contexts; polling goes on from tick to tick and may never return, which is the
  value \<open>None\<close>. Where two cases of a \<open>select\<close> are ready at the same instant, \<open>tie\<close> says which one runs.
\<close>

type_synonym context_end = "(instant \<times> go_error) option"

definition ctx_err :: "context_end \<Rightarrow> instant \<Rightarrow> go_error option" where
  "ctx_err c t = (case c of Some (u, e) \<Rightarrow> if u \<le> t then Some e else None | None \<Rightarrow> None)"

subsection \<open>Deadlines\<close>

text \<open>\<open>context.WithDeadline\<close>, asked at \<open>now\<close>: a parent that is over, or will be before the deadline, decides.\<close>

definition with_deadline :: "instant \<Rightarrow> context_end \<Rightarrow> instant \<Rightarrow> context_end" where
  "with_deadline now c d =
     (case c of
        Some (u, e) \<Rightarrow> if u \<le> now \<or> u \<le> d then Some (u, e) else Some (max now d, DeadlineExceeded)
      | None \<Rightarrow> Some (max now d, DeadlineExceeded))"

definition WithDeadline :: "instant \<Rightarrow> context_end \<Rightarrow> instant option \<Rightarrow> (context_end \<Rightarrow> 'r) \<Rightarrow> 'r" where
  "WithDeadline now ctx md f = (case md of None \<Rightarrow> f ctx | Some d \<Rightarrow> f (with_deadline now ctx d))"

definition WithTimeout :: "instant \<Rightarrow> context_end \<Rightarrow> duration \<Rightarrow> (context_end \<Rightarrow> 'r) \<Rightarrow> 'r" where
  "WithTimeout now ctx d f = f (with_deadline now ctx (now + d))"

definition WithOptTimeout :: "instant \<Rightarrow> context_end \<Rightarrow> duration option \<Rightarrow> (context_end \<Rightarrow> 'r) \<Rightarrow> 'r" where
  "WithOptTimeout now ctx md f = (case md of Some d \<Rightarrow> WithTimeout now ctx d f | None \<Rightarrow> f ctx)"

definition WithTimeout1 :: "instant \<Rightarrow> context_end \<Rightarrow> duration \<Rightarrow> (context_end \<Rightarrow> 'r outcome) \<Rightarrow> 'r outcome" where
  "WithTimeout1 now ctx d f = f (with_deadline now ctx (now + d))"

definition WithOptTimeout1 :: "instant \<Rightarrow> context_end \<Rightarrow> duration option \<Rightarrow> (context_end \<Rightarrow> 'r outcome) \<Rightarrow> 'r outcome" where
  "WithOptTimeout1 now ctx md f = (case md of Some d \<Rightarrow> WithTimeout1 now ctx d f | None \<Rightarrow> f ctx)"

text \<open>Deadlines compose to the earlier one, and never extend a context.\<close>

lemma with_deadline_ends: "\<exists>u e. with_deadline now c d = Some (u, e) \<and> u \<le> max now d"
  by (auto simp: with_deadline_def split: option.split)

lemma with_deadline_within: "ctx_err c t = Some e \<Longrightarrow> \<exists>e'. ctx_err (with_deadline now c d) (max now t) = Some e'"
  by (auto simp: ctx_err_def with_deadline_def split: option.splits if_splits)

lemma with_deadline_min: "now \<le> d1 \<Longrightarrow> now \<le> d2 \<Longrightarrow> with_deadline now (with_deadline now c d1) d2 = with_deadline now c (min d1 d2)"
  by (auto simp: with_deadline_def min_def max_def split: option.splits)

subsection \<open>Sleeping\<close>

definition Sleep :: "bool \<Rightarrow> instant \<Rightarrow> context_end \<Rightarrow> duration \<Rightarrow> instant \<times> go_error option" where
  "Sleep tie now c d =
     (let wake = now + max 0 d
      in case c of
           None \<Rightarrow> (wake, None)
         | Some (u, e) \<Rightarrow>
             if max now u < wake \<or> max now u = wake \<and> tie then (max now u, Some e) else (wake, None))"

definition SleepUntil :: "bool \<Rightarrow> instant \<Rightarrow> context_end \<Rightarrow> instant \<Rightarrow> instant \<times> go_error option" where
  "SleepUntil tie now c t = Sleep tie now c (time_sub t now)"

lemma Sleep_until:
  "Sleep tie now c d = (t, r) \<Longrightarrow> now \<le> t \<and> t \<le> now + max 0 d \<and> (r = None \<longrightarrow> t = now + max 0 d) \<and> (\<forall>e. r = Some e \<longrightarrow> ctx_err c t = Some e)"
  by (auto simp: Sleep_def Let_def ctx_err_def split: option.splits if_splits)

subsection \<open>Polling\<close>

text \<open>
  The loop from the instant \<open>t\<close> on, about to make check number \<open>i\<close>: what is returned, when, and after how
  many checks that failed.
\<close>

partial_function (option) wait_loop ::
  "(nat \<Rightarrow> bool) \<Rightarrow> (nat \<Rightarrow> bool) \<Rightarrow> context_end \<Rightarrow> duration \<Rightarrow> instant \<Rightarrow> nat \<Rightarrow> (unit outcome \<times> instant \<times> nat) option" where
  "wait_loop tie check c interval t i =
     (if check i then Some (Ok (), t, i)
      else case c of
             None \<Rightarrow> wait_loop tie check c interval (t + interval) (Suc i)
           | Some (u, e) \<Rightarrow>
               if u < t + interval \<or> u = t + interval \<and> tie i then Some (Err e, max t u, Suc i)
               else wait_loop tie check c interval (t + interval) (Suc i))"

definition WaitFor ::
  "(nat \<Rightarrow> bool) \<Rightarrow> instant \<Rightarrow> context_end \<Rightarrow> duration \<Rightarrow> (nat \<Rightarrow> bool) \<Rightarrow> (unit outcome \<times> instant \<times> nat) option" where
  "WaitFor tie now ctx interval check =
     (if check 0 then Some (Ok (), now, 0)
      else case NewTicker interval of
             Ok u \<Rightarrow> wait_loop tie check ctx interval now 1
           | Err e \<Rightarrow> Some (Err e, now, 1)
           | Panic m \<Rightarrow> Some (Panic m, now, 1))"

definition WaitForWithTimeout ::
  "(nat \<Rightarrow> bool) \<Rightarrow> instant \<Rightarrow> context_end \<Rightarrow> duration \<Rightarrow> duration \<Rightarrow> (nat \<Rightarrow> bool) \<Rightarrow> (unit outcome \<times> instant \<times> nat) option" where
  "WaitForWithTimeout tie now ctx interval timeout check =
     (if check 0 then Some (Ok (), now, 0)
      else WithTimeout now ctx timeout (\<lambda>ctx.
        case NewTicker interval of
          Ok u \<Rightarrow> wait_loop tie check ctx interval now 1
        | Err e \<Rightarrow> Some (Err e, now, 1)
        | Panic m \<Rightarrow> Some (Panic m, now, 1)))"

text \<open>Success is the first check that holds; failure is the error of the context, after failed checks only.\<close>

definition wait_result :: "(nat \<Rightarrow> bool) \<Rightarrow> context_end \<Rightarrow> nat \<Rightarrow> unit outcome \<times> instant \<times> nat \<Rightarrow> bool" where
  "wait_result check c i x \<longleftrightarrow> (case x of (r, t', k) \<Rightarrow>
     i \<le> k \<and> (\<forall>j. i \<le> j \<and> j < k \<longrightarrow> \<not> check j) \<and>
     (r = Ok () \<and> check k \<or> (\<exists>u e. r = Err e \<and> c = Some (u, e) \<and> u \<le> t')))"

lemma wait_result_Suc: "wait_result check c (Suc i) x \<Longrightarrow> \<not> check i \<Longrightarrow> wait_result check c i x"
  by (auto simp: wait_result_def split: prod.splits) (metis Suc_leI le_neq_implies_less)+

lemma wait_loop_result:
  assumes "wait_loop tie check c interval t i = Some x"
  shows "wait_result check c i x"
  using assms
proof (rule wait_loop.raw_induct [rotated])
  fix rec :: "(nat \<Rightarrow> bool) \<Rightarrow> (nat \<Rightarrow> bool) \<Rightarrow> context_end \<Rightarrow> duration \<Rightarrow> instant \<Rightarrow> nat \<Rightarrow> (unit outcome \<times> instant \<times> nat) option"
    and tie check c interval t i x
  assume IH: "\<And>tie check c interval t i x. rec tie check c interval t i = Some x \<Longrightarrow> wait_result check c i x"
    and body: "(if check i then Some (Ok (), t, i)
      else case c of None \<Rightarrow> rec tie check c interval (t + interval) (Suc i)
        | Some (u, e) \<Rightarrow> if u < t + interval \<or> u = t + interval \<and> tie i then Some (Err e, max t u, Suc i)
            else rec tie check c interval (t + interval) (Suc i)) = Some x"
  show "wait_result check c i x"
  proof (cases "check i")
    case True
    then show ?thesis using body by (auto simp: wait_result_def)
  next
    case False
    then have "rec tie check c interval (t + interval) (Suc i) = Some x \<or> (\<exists>u e. c = Some (u, e) \<and> x = (Err e, max t u, Suc i))"
    proof (cases c)
      case None
      then show ?thesis using body False by simp
    next
      case (Some y)
      obtain u e where "y = (u, e)" by (cases y)
      then show ?thesis using body False Some by (cases "u < t + interval \<or> u = t + interval \<and> tie i") auto
    qed
    then consider "rec tie check c interval (t + interval) (Suc i) = Some x"
      | u e where "c = Some (u, e)" "x = (Err e, max t u, Suc i)"
      by blast
    then show ?thesis
    proof cases
      case 1
      show ?thesis by (rule wait_result_Suc [OF IH [OF 1] False])
    next
      case 2
      then show ?thesis using False by (auto simp: wait_result_def less_Suc_eq)
    qed
  qed
qed

text \<open>Under a context that ends, polling returns, and no later than the context ends.\<close>

lemma wait_loop_returns:
  assumes "0 < interval"
  shows "\<exists>r t' k. wait_loop tie check (Some (u, e)) interval t i = Some (r, t', k) \<and> t \<le> t' \<and> t' \<le> max t u"
proof (induction "nat (u - t)" arbitrary: t i rule: less_induct)
  case less
  show ?case
  proof (cases "check i \<or> u < t + interval \<or> u = t + interval \<and> tie i")
    case True
    then show ?thesis by (subst wait_loop.simps) auto
  next
    case False
    then have "nat (u - (t + interval)) < nat (u - t)" using assms by simp
    from less [OF this, of "Suc i"] obtain r t' k where
      "wait_loop tie check (Some (u, e)) interval (t + interval) (Suc i) = Some (r, t', k)" "t + interval \<le> t'" "t' \<le> max (t + interval) u"
      by blast
    then show ?thesis using False assms by (subst wait_loop.simps) auto
  qed
qed

text \<open>A check that holds in time is found: check number \<open>i + n\<close> is made \<open>n\<close> ticks later.\<close>

lemma wait_loop_finds:
  assumes "0 < interval" "check (i + n)" "\<And>j. j < n \<Longrightarrow> \<not> check (i + j)" "t + int n * interval < u"
  shows "wait_loop tie check (Some (u, e)) interval t i = Some (Ok (), t + int n * interval, i + n)"
  using assms(2-4)
proof (induction n arbitrary: t i)
  case 0
  then show ?case by (subst wait_loop.simps) simp
next
  case (Suc n)
  have "\<not> check i" using Suc.prems(2) [of 0] by simp
  moreover have "t + interval < u"
  proof -
    have "interval \<le> int (Suc n) * interval" using assms(1) by (simp add: algebra_simps)
    then show ?thesis using Suc.prems(3) by linarith
  qed
  moreover have "wait_loop tie check (Some (u, e)) interval (t + interval) (Suc i) =
      Some (Ok (), t + interval + int n * interval, Suc i + n)"
    using Suc.prems(1,3) Suc.prems(2) [of "Suc j" for j] by (intro Suc.IH) (simp_all add: algebra_simps)
  ultimately show ?case by (subst wait_loop.simps) (simp add: algebra_simps)
qed

text \<open>Without a deadline, polling a check that never holds never returns.\<close>

lemma wait_loop_forever:
  assumes "\<And>j. \<not> check j"
  shows "wait_loop tie check None interval t i = None"
proof -
  have "wait_loop tie check None interval t i \<noteq> Some x" for x
    using wait_loop_result [of tie check None interval t i x] assms by (auto simp: wait_result_def split: prod.splits)
  then show ?thesis by (cases "wait_loop tie check None interval t i") auto
qed

end
