(* ===== verification/LoadTest.thy ===== *)
theory LoadTest
  imports Startup Report Observe Waits
begin

text \<open>
  The process as a whole (\<open>runLoadTest\<close> and \<open>main\<close> of \<open>main.go\<close>): the configuration, the exporters, the
  context of the run, the scope with its tasks, the reports and the summary after it, and the status
  the process exits with. What the tasks do once they are started, and what their scope returns, is the
  argument \<open>during\<close>; \<open>Scope\<close> says which error that is.
\<close>

record 'c process_env =
  pe_run :: "'c run_env"
  pe_obs :: obs_env
  pe_getenv :: "string \<Rightarrow> string"
  pe_randomSeed :: "go_error + u64"
  pe_newRand :: "u64 \<Rightarrow> rng"
  pe_prewarm :: "generator \<Rightarrow> run_sender \<Rightarrow> go_error option"

text \<open>The flags of the command line that only \<open>main.go\<close> reads.\<close>

record run_flags =
  rf_config :: string
  rf_nodes :: int
  rf_duration :: duration

text \<open>The scope when it returns: its error, and what its tasks have left in the objects they share.\<close>

record scope_end =
  se_err :: "go_error option"
  se_collector :: collector
  se_inclusion :: "inclusion_tracker option"
  se_ramper :: "ramper option"

text \<open>The reports at the end: where the file system and the walks over maps come in.\<close>

record report_env =
  rp_times :: "nat \<Rightarrow> instant"
  rp_order :: "nat \<Rightarrow> string list"
  rp_create :: "string option"
  rp_write :: "(nat \<times> string) option"

record run_trace =
  rt_exporters :: "exporter list"
  rt_context :: context_end
  rt_started :: "run_task list"
  rt_batches :: "batch list"
  rt_printed :: "string list"
  rt_file :: "(string \<times> string) option"
  rt_metrics :: "metric list"
  rt_hold :: duration

definition no_run :: run_trace where
  "no_run = \<lparr>rt_exporters = [], rt_context = None, rt_started = [], rt_batches = [], rt_printed = [], rt_file = None,
     rt_metrics = [], rt_hold = 0\<rparr>"

text \<open>The context of a run: with a duration it ends by itself.\<close>

definition run_context :: "instant \<Rightarrow> context_end \<Rightarrow> duration \<Rightarrow> context_end" where
  "run_context now ctx d = (if 0 < d then WithTimeout now ctx d (\<lambda>ctx. ctx) else ctx)"

definition setup_observability :: "'c process_env \<Rightarrow> exporter list outcome" where
  "setup_observability env =
     omap_err (Wrap ''observability setup'') (Setup (pe_obs env) '''' (pe_getenv env ''OTEL_EXPORTER_OTLP_ENDPOINT''))"

text \<open>What follows the scope: the two final reports, the summary and the verdict.\<close>

definition after_scope :: "report_env \<Rightarrow> settings \<Rightarrow> scope_end \<Rightarrow> run_trace \<Rightarrow> unit outcome \<times> run_trace" where
  "after_scope rp s se t =
     (let logger = NewLogger (StatsInterval s) (st_ReportPath s) (st_Debug s)
      in case LogFinalStats logger (rp_times rp 0) (rp_times rp 1) (rp_order rp) (rp_create rp) (rp_write rp) (se_collector se) of
           Err e \<Rightarrow> (Err e, t)
         | Panic m \<Rightarrow> (Panic m, t)
         | Ok fo \<Rightarrow>
             let ramp = (case se_ramper se of Some r \<Rightarrow> if RampUp s then [Ramper_LogFinalStats r] else [] | None \<Rightarrow> []);
                 (ms, hold, verdict) = run_end (rp_times rp 2) s (se_collector se) (se_inclusion se) (se_err se)
             in (case verdict of None \<Rightarrow> Ok () | Some e \<Rightarrow> Err e,
                 t\<lparr>rt_printed := fo_stdout fo # ramp, rt_file := fo_file fo, rt_metrics := ms, rt_hold := hold\<rparr>))"

definition runLoadTest ::
  "'c process_env \<Rightarrow> report_env \<Rightarrow> flag_set \<Rightarrow> viper \<Rightarrow> run_flags \<Rightarrow> instant \<Rightarrow> context_end \<Rightarrow>
     (context_end \<Rightarrow> load_config \<Rightarrow> (generator \<times> run_sender) outcome \<Rightarrow> 'c start_state \<Rightarrow> scope_end) \<Rightarrow>
     key_stream \<Rightarrow> 'c \<Rightarrow> unit outcome \<times> run_trace" where
  "runLoadTest env rp fs v flags now ctx during keys c =
     (case prepare_run (pe_run env) fs v (rf_nodes flags) (rf_config flags) of
        Err e \<Rightarrow> (Err e, no_run)
      | Panic m \<Rightarrow> (Panic m, no_run)
      | Ok cfg \<Rightarrow>
          (case setup_observability env of
             Err e \<Rightarrow> (Err e, no_run)
           | Panic m \<Rightarrow> (Panic m, no_run)
           | Ok exporters \<Rightarrow>
               let ctx = run_context now ctx (rf_duration flags);
                   t = no_run\<lparr>rt_exporters := exporters, rt_context := ctx\<rparr>
               in case ResolveSeed (pe_newRand env) (pe_randomSeed env) cfg of
                    Err e \<Rightarrow> (Err e, t)
                  | Panic m \<Rightarrow> (Panic m, t)
                  | Ok (r, cfg) \<Rightarrow>
                      let (res, st) = start_run (pe_run env) (pe_prewarm env) r cfg keys c;
                          t = t\<lparr>rt_started := sr_started st, rt_batches := sr_batches st\<rparr>
                      in case res of
                           Panic m \<Rightarrow> (Panic m, t)
                         | _ \<Rightarrow> after_scope rp (the (lc_Settings cfg)) (during ctx cfg res st) t))"

text \<open>
  The exit status: an error of the command, whether of its flags or of the run, is 1; a panic is 2,
  the runtime's. \<open>parse\<close> is what the flag library found wrong with the command line.
\<close>

definition rootCmd_Execute :: "go_error option \<Rightarrow> unit outcome \<times> run_trace \<Rightarrow> unit outcome \<times> run_trace" where
  "rootCmd_Execute parse run = (case parse of Some e \<Rightarrow> (Err e, no_run) | None \<Rightarrow> run)"

definition main_status :: "unit outcome \<Rightarrow> nat" where
  "main_status res = (case res of Ok u \<Rightarrow> 0 | Err e \<Rightarrow> 1 | Panic m \<Rightarrow> 2)"

lemma main_status_simps [simp]: "main_status (Ok u) = 0" "main_status (Err e) = 1" "main_status (Panic m) = 2"
  by (simp_all add: main_status_def)

subsection \<open>How the parts meet\<close>

lemma LogFinalStats_ok:
  assumes "coll_bounded c"
  shows "\<exists>fo. LogFinalStats l n1 n2 order ce we c = Ok fo"
proof -
  obtain fs where fs: "BuildFinalStats n1 n2 c = Ok fs" using BuildFinalStats_ok [OF assms, of n1 n2] by (elim exE conjE)
  show ?thesis
    by (cases "lg_reportPath l = []"; cases ce; cases we) (simp_all add: LogFinalStats_def fs Let_def split: prod.split)
qed

lemma after_scope_status:
  assumes "coll_bounded (se_collector se)"
  shows "\<exists>t'. after_scope rp s se t = (case run_verdict (se_err se) of None \<Rightarrow> Ok () | Some e \<Rightarrow> Err e, t') \<and>
    rt_started t' = rt_started t \<and> rt_printed t' \<noteq> [] \<and>
    rt_metrics t' = EmitRunSummary (rp_times rp 2) (run_summary_of (se_inclusion se)) (se_collector se)"
  using LogFinalStats_ok [OF assms, of "NewLogger (StatsInterval s) (st_ReportPath s) (st_Debug s)"
      "rp_times rp 0" "rp_times rp 1" "rp_order rp" "rp_create rp" "rp_write rp"]
  by (auto simp: after_scope_def run_end_def Let_def)

lemma runLoadTest_reaches:
  assumes "prepare_run (pe_run env) fs v (rf_nodes flags) (rf_config flags) = Ok cfg"
    "setup_observability env = Ok exporters"
    "ResolveSeed (pe_newRand env) (pe_randomSeed env) cfg = Ok (r, cfg')"
    "start_run (pe_run env) (pe_prewarm env) r cfg' keys c = (res, st)" "\<not> panics res"
  shows "runLoadTest env rp fs v flags now ctx during keys c =
    after_scope rp (the (lc_Settings cfg')) (during (run_context now ctx (rf_duration flags)) cfg' res st)
      (no_run\<lparr>rt_exporters := exporters, rt_context := run_context now ctx (rf_duration flags),
        rt_started := sr_started st, rt_batches := sr_batches st\<rparr>)"
  using assms by (cases res) (simp_all add: runLoadTest_def Let_def)

lemma run_context_bound: "0 < d \<Longrightarrow> \<exists>u e. run_context now ctx d = Some (u, e) \<and> u \<le> now + d"
  using with_deadline_ends [of now ctx "now + d"] by (auto simp: run_context_def WithTimeout_def)

lemma Setup_no_panic: "\<not> panics (Setup env ns otlp)"
  by (auto simp: Setup_def Let_def split: option.split)

end
