(* ===== verification/UserLatency.thy ===== *)
theory UserLatency
  imports Types
begin

text \<open>
  The user latency tracker (\<open>stats/user_latency_tracker.go\<close>): the time between the second a transfer
  carries as its value and the time of the block it is in. The node's latest block is a parameter.
\<close>

record latency_block =
  lb_number :: u64
  lb_time :: u64
  lb_values :: "int option list"

record latency_report =
  lr_height :: u64
  lr_txs :: nat
  lr_min :: duration
  lr_p50 :: duration
  lr_max :: duration

text \<open>\<open>time.Unix\<close> of a number of seconds, as an instant since the year 1.\<close>

definition unix_time :: "int \<Rightarrow> instant" where
  "unix_time s = i64 (s + 62135596800) * second"

fun latencies :: "instant \<Rightarrow> int option list \<Rightarrow> duration list" where
  "latencies block [] = []"
| "latencies block (None # vs) = latencies block vs"
| "latencies block (Some v # vs) =
     (if 0 < v then
        let latency = time_sub block (unix_time (i64 v))
        in if 0 \<le> latency then latency # latencies block vs else latencies block vs
      else latencies block vs)"

definition trackLatency :: "go_error + latency_block \<Rightarrow> latency_report option outcome" where
  "trackLatency answer =
     (case answer of
        Inl e \<Rightarrow> Err e
      | Inr b \<Rightarrow>
          if length (lb_values b) = 0 then Ok None
          else
            let ls = sort (latencies (unix_time (sint (lb_time b))) (lb_values b))
            in if length ls = 0 then Ok None
               else obind (index_at ls 0) (\<lambda>mn.
                      obind (index_at ls (int (length ls) - 1)) (\<lambda>mx.
                        obind (index_at ls (int (length ls) div 2)) (\<lambda>p50.
                          Ok (Some \<lparr>lr_height = lb_number b, lr_txs = length ls, lr_min = mn, lr_p50 = p50, lr_max = mx\<rparr>)))))"

text \<open>The loop: a tick, a block; an error of the node is only logged. Then the error of the context.\<close>

fun latency_Run :: "go_error \<Rightarrow> (go_error + latency_block) list \<Rightarrow> latency_report list \<Rightarrow> unit outcome \<times> latency_report list" where
  "latency_Run e [] out = (Err e, out)"
| "latency_Run e (answer # rest) out =
     (case trackLatency answer of
        Panic m \<Rightarrow> (Panic m, out)
      | Err e' \<Rightarrow> latency_Run e rest out
      | Ok None \<Rightarrow> latency_Run e rest out
      | Ok (Some r) \<Rightarrow> latency_Run e rest (out @ [r]))"

text \<open>\<open>Run\<close>: the ticker and the client first. \<open>e\<close> is the error the context ends with.\<close>

definition UserLatency_Run ::
  "duration \<Rightarrow> go_error option \<Rightarrow> go_error \<Rightarrow> (go_error + latency_block) list \<Rightarrow> unit outcome \<times> latency_report list" where
  "UserLatency_Run interval dial e answers =
     (case NewTicker interval of
        Panic m \<Rightarrow> (Panic m, [])
      | Err x \<Rightarrow> (Err x, [])
      | Ok u \<Rightarrow> (case dial of Some x \<Rightarrow> (Err x, []) | None \<Rightarrow> latency_Run e answers []))"

lemma latencies_nonneg: "x \<in> set (latencies block vs) \<Longrightarrow> 0 \<le> x"
  by (induction block vs rule: latencies.induct) (auto simp: Let_def split: if_splits)

text \<open>A report exists exactly if some transaction has a usable value, and its figures are ordered members.\<close>

lemma trackLatency_report:
  assumes "ls = latencies (unix_time (sint (lb_time b))) (lb_values b)"
  shows "if ls = [] then trackLatency (Inr b) = Ok None
    else \<exists>r. trackLatency (Inr b) = Ok (Some r) \<and> lr_txs r = length ls \<and> {lr_min r, lr_p50 r, lr_max r} \<subseteq> set ls \<and>
      0 \<le> lr_min r \<and> lr_min r \<le> lr_p50 r \<and> lr_p50 r \<le> lr_max r \<and> (\<forall>x \<in> set ls. lr_min r \<le> x \<and> x \<le> lr_max r)"
proof (cases "ls = []")
  case True
  then show ?thesis using assms by (simp add: trackLatency_def Let_def)
next
  case False
  let ?s = "sort ls" and ?n = "length ls"
  have n: "0 < ?n" "lb_values b \<noteq> []" using False assms by auto
  let ?r = "\<lparr>lr_height = lb_number b, lr_txs = ?n, lr_min = ?s ! 0, lr_p50 = ?s ! (?n div 2), lr_max = ?s ! (?n - 1)\<rparr>"
  have half: "?n div 2 < ?n" using n(1) by simp
  have nats: "nat (int ?n div 2) = ?n div 2" "nat (int ?n - 1) = ?n - 1"
    by (simp_all add: nat_div_distrib nat_diff_distrib')
  have half_int: "int ?n div 2 = int (?n div 2)" by (simp add: zdiv_int)
  have "trackLatency (Inr b) = Ok (Some ?r)"
    using n half by (simp add: trackLatency_def Let_def assms [symmetric] nats half_int)
  moreover have mem: "?s ! i \<in> set ls" if "i < ?n" for i
    using nth_mem [of i ?s] that by simp
  moreover have mono: "?s ! i \<le> ?s ! j" if "i \<le> j" "j < ?n" for i j
    using sorted_nth_mono [of ?s i j] that by simp
  moreover have "?s ! 0 \<le> x \<and> x \<le> ?s ! (?n - 1)" if "x \<in> set ls" for x
  proof -
    obtain i where "i < ?n" "x = ?s ! i" using \<open>x \<in> set ls\<close> by (metis in_set_conv_nth length_sort set_sort)
    then show ?thesis using mono [of 0 i] mono [of i "?n - 1"] n(1) by simp
  qed
  moreover have "0 \<le> ?s ! 0" using latencies_nonneg mem [of 0] n(1) assms by blast
  ultimately show ?thesis using False n half mono [of 0 "?n div 2"] mono [of "?n div 2" "?n - 1"]
    by (auto intro!: exI [of _ ?r])
qed

lemma trackLatency_no_panic: "\<not> panics (trackLatency answer)"
proof (cases answer)
  case (Inr b)
  then show ?thesis using trackLatency_report [of _ b] by (cases "trackLatency answer") (auto split: if_splits)
qed (simp add: trackLatency_def)

lemma latency_Run_ends: "\<exists>out'. latency_Run e answers out = (Err e, out @ out')"
proof (induction answers arbitrary: out)
  case (Cons a rest)
  then show ?case using trackLatency_no_panic [of a]
    by (auto split: outcome.split option.split) (metis append.assoc)
qed simp

text \<open>So the task panics exactly on an interval that is not positive, which nothing before it rules out.\<close>

lemma UserLatency_Run_panics: "panics (fst (UserLatency_Run interval dial e answers)) \<longleftrightarrow> interval \<le> 0"
  using latency_Run_ends [of e answers "[]"] by (cases dial) (auto simp: UserLatency_Run_def NewTicker_def)

end
