(* ===== verification/RunProps.thy ===== *)
theory RunProps
  imports LoadProps LoadTest Utils Scope UserLatency
begin

text \<open>
  The properties of a run as a whole: its settings, its funding, what its start-up guarantees and
  how the process reports its end; and the round trips of the configuration's codecs. The sample
  run has one scenario and two accounts, on a ledger with a Disperse contract.
\<close>

subsection \<open>Funding\<close>


definition sample_funding :: funding_config where
  "sample_funding = \<lparr>RootKeyFile = '''', RootKeyEnv = ''KEY'', FundAmountWei = Some 3, BatchSize = 1\<rparr>"

definition live_config :: load_config where
  "live_config = sample_config\<lparr>lc_Endpoints := [''http://node''], lc_Scenarios := [transfer_scenario], lc_MockDeploy := False,
     lc_Settings := Some DefaultSettings, lc_Funding := Some sample_funding\<rparr>"

definition sample_evm :: evm where
  "sample_evm = \<lparr>ev_ledger = \<lambda>a. if a = 2 then 1000 else if a = 11 then 5 else 0, ev_next = 0, ev_calls = Map.empty\<rparr>"

abbreviation sample_node :: "evm fund_env" where
  "sample_node \<equiv> evm_env (\<lambda>a. a = 1 \<or> False) 2 1"



subsection \<open>Settings\<close>


definition sample_flags :: flag_set where
  "sample_flags = main_flags [''tps'' \<mapsto> VFloat 7]"

definition sample_viper :: viper where
  "sample_viper =
     (case InitializeViper sample_flags \<lparr>vp_flags = Map.empty, vp_defaults = Map.empty, vp_config = Map.empty\<rparr> of
        Ok v \<Rightarrow> v)"

definition sample_settings :: settings where
  "sample_settings = DefaultSettings\<lparr>TPS := 3, BufferSize := 5, PostSummaryFlushDelay := 0\<rparr>"


text \<open>
  C17. The interval of the statistics is not validated: whatever the flag says becomes the
  setting and passes \<open>Validate\<close>, and the logger, which every run starts, panics exactly when it is
  not positive, and so does the user latency tracker. With a positive one neither ever panics.
\<close>

theorem stats_interval_unchecked:
  assumes "loaded (main_flags changed) s v" "changed ''stats-interval'' = Some (VDur i)" "coll_bounded c"
  shows "let set = ResolveSettings (main_flags changed) v
    in StatsInterval set = i \<and> (Settings_Validate set = Ok () \<longleftrightarrow> 0 < MaxInFlight set) \<and>
       (i \<le> 0 \<longleftrightarrow> (\<exists>m. fst (Logger_Run (NewLogger (StatsInterval set) path debug) evs c) = Some (Panic m))) \<and>
       (i \<le> 0 \<longleftrightarrow> panics (fst (UserLatency_Run (StatsInterval set) dialled e answers)))"
proof -
  let ?set = "ResolveSettings (main_flags changed) v"
  have i: "StatsInterval ?set = i"
    unfolding ResolveSettings_effective [OF assms(1)] using assms(2) by (simp add: effective_def pick_def main_flags_def)
  have "fst (Logger_Run (NewLogger i path debug) evs c) \<noteq> Some (Panic m)" if "0 < i" for m
    using logger_loop_counts [OF assms(3), of "NewLogger i path debug" evs "[]"] that
    by (cases "logger_loop (NewLogger i path debug) evs c []") (auto simp: Logger_Run_def NewLogger_def)
  then have "i \<le> 0 \<longleftrightarrow> (\<exists>m. fst (Logger_Run (NewLogger i path debug) evs c) = Some (Panic m))"
    by (cases "0 < i") (auto simp: Logger_Run_def NewLogger_def NewTicker_def)
  then show ?thesis using i UserLatency_Run_panics by (simp add: Let_def Settings_Validate_def)
qed

theorem stats_interval_unchecked_witness:
  "\<exists>v. loaded (main_flags [''stats-interval'' \<mapsto> VDur 0]) sample_settings v \<and>
     StatsInterval (ResolveSettings (main_flags [''stats-interval'' \<mapsto> VDur 0]) v) = 0 \<and>
     (\<exists>m. fst (Logger_Run (NewLogger 0 '''' False) [] (NewCollector 1 2 3)) = Some (Panic m))"
proof -
  let ?fs = "[''stats-interval'' \<mapsto> VDur 0]"
  obtain v where l: "loaded (main_flags ?fs) sample_settings v" using main_loaded by blast
  from stats_interval_unchecked [OF l, of 0 "NewCollector 1 2 3" "''''" False "[]" None Canceled "[]"] show ?thesis
    using l by (auto simp: Let_def)
qed

subsection \<open>How a run starts and ends\<close>

text \<open>
  No failure of the start-up passes for a finished run: under a live context, and with a host and a node
  whose errors are their own, whatever start-up step fails, the verdict is its error and no load
  has been generated.
\<close>

lemma startup_failure_reported:
  assumes "quiet_env env cfg" "\<And>gen sndr e. prewarm gen sndr = Some e \<Longrightarrow> \<not> endedOnRunContext e"
    "start_run env prewarm r cfg keys c = (Err e, st)"
  shows "run_verdict (Some e) = Some e \<and> GeneratorTask \<notin> set (sr_started st) \<and> LoggerTask \<notin> set (sr_started st)"
proof -
  have "run_verdict (Some e) = Some e" using quiet_start_run [OF assms] by (simp add: run_verdict_def)
  then show ?thesis using start_run_error_tasks [OF assms(3)] by simp
qed

text \<open>
  C16. The status of the process tells how the run went. A configuration that does not load or pass its
  checks, or exporters that cannot be set up, end it with status 1 before anything is started. Once
  the start-up has run (the statistics being within bounds), the final reports are printed and the summary is recorded in any
  case, and the status is 0 exactly if the scope returned nothing or a sentinel of its context, however
  wrapped; a start-up step that failed with an error of its own, if that is what the scope returns, gives status 1, and no load was
  generated. So the refusal of the rate limiter to wait past the deadline of a run with a duration,
  which is no sentinel, makes a run that just reached its duration a failure.
\<close>

theorem process_status:
  assumes "\<And>cfg. quiet_env (pe_run env) cfg" "\<And>gen sndr e. pe_prewarm env gen sndr = Some e \<Longrightarrow> \<not> endedOnRunContext e"
    "prep = prepare_run (pe_run env) fs v (rf_nodes flags) (rf_config flags)"
    "obs = setup_observability env"
    "runLoadTest env rp fs v flags now ctx during keys c = (out, t)"
  shows "(\<forall>e. prep = Err e \<longrightarrow> main_status out = 1 \<and> t = no_run) \<and>
    (\<forall>cfg e. prep = Ok cfg \<and> obs = Err e \<longrightarrow> main_status out = 1 \<and> t = no_run) \<and>
    (\<forall>cfg xs r cfg' res st se. prep = Ok cfg \<and> obs = Ok xs \<and> ResolveSeed (pe_newRand env) (pe_randomSeed env) cfg = Ok (r, cfg') \<and>
       start_run (pe_run env) (pe_prewarm env) r cfg' keys c = (res, st) \<and> \<not> panics res \<and>
       se = during (run_context now ctx (rf_duration flags)) cfg' res st \<and> coll_bounded (se_collector se) \<longrightarrow>
         rt_started t = sr_started st \<and> rt_printed t \<noteq> [] \<and>
         rt_metrics t = EmitRunSummary (rp_times rp 2) (run_summary_of (se_inclusion se)) (se_collector se) \<and>
         main_status out = (case se_err se of None \<Rightarrow> 0 | Some e \<Rightarrow> if endedOnRunContext e then 0 else 1) \<and>
         (\<forall>e. res = Err e \<and> se_err se = Some e \<longrightarrow> out = Err e \<and> GeneratorTask \<notin> set (rt_started t)))"
proof (intro conjI allI impI; (elim conjE)?)
  fix cfg xs r cfg' res st se
  assume reach: "prep = Ok cfg" "obs = Ok xs" "ResolveSeed (pe_newRand env) (pe_randomSeed env) cfg = Ok (r, cfg')"
    "start_run (pe_run env) (pe_prewarm env) r cfg' keys c = (res, st)" "\<not> panics res"
    and se: "se = during (run_context now ctx (rf_duration flags)) cfg' res st" "coll_bounded (se_collector se)"
  note run = runLoadTest_reaches [OF reach(1) [unfolded assms(3)] reach(2) [unfolded assms(4)] reach(3-5), of rp now ctx during]
  let ?t = "no_run\<lparr>rt_exporters := xs, rt_context := run_context now ctx (rf_duration flags),
    rt_started := sr_started st, rt_batches := sr_batches st\<rparr>"
  obtain t' where "after_scope rp (the (lc_Settings cfg')) se ?t = (case run_verdict (se_err se) of None \<Rightarrow> Ok () | Some e \<Rightarrow> Err e, t')"
    and t': "rt_started t' = rt_started ?t" "rt_printed t' \<noteq> []"
      "rt_metrics t' = EmitRunSummary (rp_times rp 2) (run_summary_of (se_inclusion se)) (se_collector se)"
    using after_scope_status [OF se(2), of rp "the (lc_Settings cfg')" ?t] by (elim exE conjE)
  then have "out = (case run_verdict (se_err se) of None \<Rightarrow> Ok () | Some e \<Rightarrow> Err e)" "t = t'"
    using assms(5) run by (simp_all add: se(1))
  with t' have res: "out = (case run_verdict (se_err se) of None \<Rightarrow> Ok () | Some e \<Rightarrow> Err e)" "rt_started t = sr_started st"
    "rt_printed t \<noteq> []" "rt_metrics t = EmitRunSummary (rp_times rp 2) (run_summary_of (se_inclusion se)) (se_collector se)"
    by simp_all
  then show "rt_started t = sr_started st" "rt_printed t \<noteq> []"
    "rt_metrics t = EmitRunSummary (rp_times rp 2) (run_summary_of (se_inclusion se)) (se_collector se)" by simp_all
  show "main_status out = (case se_err se of None \<Rightarrow> 0 | Some e \<Rightarrow> if endedOnRunContext e then 0 else 1)"
    by (simp add: res(1) run_verdict_def split: option.split)
  fix e assume e: "res = Err e" "se_err se = Some e"
  note failed = startup_failure_reported [OF assms(1,2) reach(4) [unfolded e(1)]]
  show "out = Err e" "GeneratorTask \<notin> set (rt_started t)" using failed res(1,2) e(2) by simp_all
qed (use assms(3-5) in \<open>auto simp: runLoadTest_def\<close>)

definition sample_host :: host where
  "sample_host = \<lparr>read_file = \<lambda>f. Inr ''{}'', env_var = \<lambda>n. ''0x2'', hex_key = \<lambda>s. if s = ''2'' then Inr 2 else Inl (External ''hex'')\<rparr>"

definition sample_run_env :: "evm run_env" where
  "sample_run_env = \<lparr>re_host = sample_host, re_parse = \<lambda>d. Inr (live_config\<lparr>lc_Settings := Some sample_settings\<rparr>),
     re_envs = \<lambda>i. sample_chain, re_clock = \<lambda>i. (None, False), re_fund = sample_node, re_dial = \<lambda>ep. None,
     re_height = Inr 5, re_accounts = \<lambda>as. as\<rparr>"

lemma sample_quiet: "quiet_env sample_run_env cfg"
proof -
  have "respects_context None False (deployWithin sample_chain cfg d name args impl)" for d name args impl
    by (rule respects_quiet)
      (auto simp: deployWithin_def dial_def sample_chain_def CreateDeploymentOpts_def outcome_simps no_sentinel_def
        split: list.splits option.splits)
  moreover have "quiet_fund sample_node"
    by (auto simp: quiet_fund_def evm_env_def split: prod.splits)
  ultimately show ?thesis
    by (simp add: quiet_env_def quiet_host_def quiet_chain_def sample_run_env_def sample_host_def sample_chain_def
        endedOnRunContext_def)
qed

text \<open>
  C5. The scope of a run: when it returns, every task has left, its context is cancelled, and its
  error is the first one reported, an error if any task failed. If no task and no call of
  \<open>Cancel\<close> gave an error but the sentinels of the context, the process reports success; if one gave
  an error and none gave a sentinel, that failure is reported. And it does return: whatever has
  happened, it is at most so many steps away, none of which is a new task.
\<close>

theorem scope_joins_and_reports:
  assumes "play scope_step evs Run_scope = Some s"
  shows "(\<forall>r. sp_pc s = ScopeDone r \<longrightarrow>
      (\<forall>t \<in> set (sp_tasks s). \<exists>x. tk_phase t = Gone x \<and> (x \<noteq> None \<longrightarrow> r \<noteq> None)) \<and> sp_cancelled s \<and>
      r = first_of (reports scope_step scope_report evs Run_scope) \<and>
      ((\<forall>e \<in> set (given evs). endedOnRunContext e) \<longrightarrow> run_verdict r = None) \<and>
      ((\<forall>e \<in> set (given evs). \<not> endedOnRunContext e) \<longrightarrow> run_verdict r = r)) \<and>
    (\<exists>fs s' r. play scope_step fs s = Some s' \<and> sp_pc s' = ScopeDone r \<and> length fs \<le> size s \<and> \<not> list_ex opens fs)"
proof -
  have "run_verdict r = None" if "sp_pc s = ScopeDone r" "\<forall>e \<in> set (given evs). endedOnRunContext e" for r
    using ended.scope_err_P [OF assms _ that(2)] that(1) by (cases r) (auto simp: run_verdict_def)
  moreover have "run_verdict r = r" if "sp_pc s = ScopeDone r" "\<forall>e \<in> set (given evs). \<not> endedOnRunContext e" for r
    using genuine.scope_err_P [OF assms _ that(2)] that(1) by (cases r) (auto simp: run_verdict_def)
  moreover have "sp_err s = first_of (reports scope_step scope_report evs Run_scope)"
    by (rule scope.err_is_first [OF _ assms]) (simp add: Run_scope_def Spawn_def)
  ultimately show ?thesis
    using scope_joined [OF assms] scope_returns [OF scope_ok_play [OF assms]] by simp
qed

definition signalled_run :: "scope_event list" where
  "signalled_run = [Spawns 0 False (Some ''sender''), TaskReturns 0 None, MainTaskDone 0, MainJoined, RunCancels,
     TaskGone 0, TaskReturns 1 (Some Canceled), Reports 1, Cancels 1, TaskGone 1, AllJoined]"

lemma signalled_run_ends:
  "\<exists>s. play scope_step signalled_run Run_scope = Some s \<and> sp_pc s = ScopeDone (Some (Wrap ''sender'' Canceled))"
  by (simp add: signalled_run_def Run_scope_def Spawn_def SpawnBg_def phase_of_def set_phase_def end_task_def named_def set_error_def)

theorem scope_joins_and_reports_witness:
  "\<exists>s r. play scope_step signalled_run Run_scope = Some s \<and> sp_pc s = ScopeDone r \<and> r \<noteq> None \<and> run_verdict r = None"
proof -
  obtain s where s: "play scope_step signalled_run Run_scope = Some s" "sp_pc s = ScopeDone (Some (Wrap ''sender'' Canceled))"
    using signalled_run_ends by blast
  have "\<forall>e \<in> set (given signalled_run). endedOnRunContext e" by (simp add: signalled_run_def endedOnRunContext_def)
  then have "run_verdict (Some (Wrap ''sender'' Canceled)) = None"
    using scope_joins_and_reports [OF s(1)] s(2) by blast
  then show ?thesis using s by blast
qed

abbreviation pool_of :: "generator \<Rightarrow> nat \<Rightarrow> account_pool" where
  "pool_of gen i \<equiv> gn_pools gen ! in_Accounts (gn_instances gen ! i)"


definition run_config :: load_config where
  "run_config = (case prepare_run sample_run_env sample_flags sample_viper 0 ''profile.json'' of Ok cfg \<Rightarrow> cfg)"

lemma run_config_facts:
  "(case prepare_run sample_run_env sample_flags sample_viper 0 ''profile.json'' of Ok cfg \<Rightarrow> True | _ \<Rightarrow> False) \<and>
   lc_Funding run_config = Some sample_funding \<and> \<not> lc_MockDeploy run_config \<and> TxsDir (the (lc_Settings run_config)) = ''''"
  by code_simp


lemma run_config_seed: "lc_Seed run_config = Some 1"
  by code_simp


definition run_keys :: key_stream where
  "run_keys n = 10 + n"

lemma run_starts:
  "case start_run sample_run_env (\<lambda>gen sndr. None) sample_rng run_config run_keys sample_evm of
     (Ok (gen, sndr), st) \<Rightarrow> gn_schedule gen = [0] \<and> map (map acc_address o ap_accounts) (gn_pools gen) = [[10, 11]] \<and>
       (case next_accounts of_nat 2 (pool_of gen 0) sample_rng run_keys of
          Ok (accs, rest) \<Rightarrow> map acc_address accs = [11, 10] | _ \<Rightarrow> False)
   | _ \<Rightarrow> False"
  by code_simp

definition sample_process :: "evm process_env" where
  "sample_process = \<lparr>pe_run = sample_run_env, pe_obs = \<lparr>oe_resource = None, oe_prometheus = \<lambda>n. None, oe_metric = \<lambda>n. None,
     oe_trace = \<lambda>n. None\<rparr>, pe_getenv = \<lambda>n. '''', pe_randomSeed = Inr 3, pe_newRand = \<lambda>s. sample_rng,
     pe_prewarm = \<lambda>gen sndr. None\<rparr>"

definition sample_report_env :: report_env where
  "sample_report_env = \<lparr>rp_times = \<lambda>i. 9, rp_order = \<lambda>i. [], rp_create = None, rp_write = None\<rparr>"

definition sample_end :: "go_error \<Rightarrow> scope_end" where
  "sample_end e = \<lparr>se_err = Some e, se_collector = NewCollector 0 0 0, se_inclusion = None, se_ramper = None\<rparr>"

text \<open>A run ended by a signal, and one ended by the rate limiter's refusal.\<close>

theorem process_status_witness:
  "\<exists>out out' t t'. runLoadTest sample_process sample_report_env sample_flags sample_viper \<lparr>rf_config = ''profile.json'', rf_nodes = 0, rf_duration = 5\<rparr>
       0 None (\<lambda>ctx cfg res st. sample_end (Wrap ''sender'' Canceled)) run_keys sample_evm = (out, t) \<and> main_status out = 0 \<and>
     runLoadTest sample_process sample_report_env sample_flags sample_viper \<lparr>rf_config = ''profile.json'', rf_nodes = 0, rf_duration = 5\<rparr>
       0 None (\<lambda>ctx cfg res st. sample_end (External ''rate: Wait(n=1) would exceed context deadline'')) run_keys sample_evm = (out', t') \<and>
     main_status out' = 1"
proof -
  let ?flags = "\<lparr>rf_config = ''profile.json'', rf_nodes = 0, rf_duration = 5\<rparr>"
  have sel: "pe_run sample_process = sample_run_env" "pe_prewarm sample_process = (\<lambda>gen sndr. None)"
    "pe_newRand sample_process = (\<lambda>s. sample_rng)"
    by (simp_all add: sample_process_def)
  have quiet: "quiet_env (pe_run sample_process) cfg" for cfg by (simp add: sel sample_quiet)
  have warm: "\<not> endedOnRunContext e" if "pe_prewarm sample_process gen sndr = Some e" for gen sndr e using that by (simp add: sel)
  have prep: "prepare_run (pe_run sample_process) sample_flags sample_viper (rf_nodes ?flags) (rf_config ?flags) = Ok run_config"
    using run_config_facts by (auto simp: run_config_def sel split: outcome.splits)
  have obs: "setup_observability sample_process = Ok [PrometheusReader ''seiload'']"
    by (simp add: sample_process_def setup_observability_def Setup_def outcome_simps)
  have seed: "ResolveSeed (pe_newRand sample_process) (pe_randomSeed sample_process) run_config = Ok (sample_rng, run_config)"
    using run_config_seed by (simp add: ResolveSeed_def sel)
  obtain gen sndr st where start: "start_run (pe_run sample_process) (pe_prewarm sample_process) sample_rng run_config run_keys sample_evm = (Ok (gen, sndr), st)"
    using run_starts by (auto simp: sel split: prod.splits outcome.splits)
  have status: "\<exists>out t. runLoadTest sample_process sample_report_env sample_flags sample_viper ?flags 0 None (\<lambda>ctx cfg res st. sample_end e) run_keys sample_evm = (out, t) \<and>
      main_status out = (if endedOnRunContext e then 0 else 1)" for e
  proof -
    obtain out t where run: "runLoadTest sample_process sample_report_env sample_flags sample_viper ?flags 0 None
        (\<lambda>ctx cfg res st. sample_end e) run_keys sample_evm = (out, t)" by fastforce
    have "coll_bounded (se_collector (sample_end e))" by (simp add: sample_end_def)
    then have "main_status out = (case se_err (sample_end e) of None \<Rightarrow> 0 | Some e \<Rightarrow> if endedOnRunContext e then 0 else 1)"
      using process_status [OF quiet warm refl refl run] prep obs seed start by fastforce
    then show ?thesis using run by (simp add: sample_end_def)
  qed
  show ?thesis using status [of "Wrap ''sender'' Canceled"] status [of "External ''rate: Wait(n=1) would exceed context deadline''"]
    by (fastforce simp: endedOnRunContext_def)
qed


subsection \<open>Codecs\<close>



end
