(* ===== verification/Channels.thy ===== *)
theory Channels
  imports Scope
begin

text \<open>
  Channel operations that give up with their context (\<open>utils/channels.go\<close>), the one-shot signal and
  the waits (\<open>utils/wait.go\<close>). Goroutines run their operations on one channel; a step is what the
  runtime does at once: the choice of one ready case of a \<open>select\<close>, or going to sleep in it.
\<close>

subsection \<open>One channel and its goroutines\<close>

record 'a go_chan =
  gc_buf :: "'a list"
  gc_cap :: nat
  gc_closed :: bool

datatype 'a chan_op = OpSend 'a | OpSendOrDrop 'a | OpRecv | OpRecvOrClosed | OpClose | OpSignal

datatype 'a chan_result = Delivered | Dropped | Got 'a | SawClosed | Failed go_error | Closed | AlreadySignalled

text \<open>
  Where a goroutine is in its current operation: not started; asleep in the \<open>select\<close>; in \<open>Recv\<close>, past the
  closed channel and waiting for the context alone; in \<open>Once.Send\<close>, past the swap and about to close.
\<close>

datatype chan_pc = AtStart | InSelect | PastClosed | PastSwap

record 'a chan_proc =
  cp_ops :: "'a chan_op list"
  cp_pc :: chan_pc
  cp_results :: "('a chan_op \<times> 'a chan_result) list"

record 'a chan_state =
  cs_chan :: "'a go_chan"
  cs_done :: bool
  cs_ctx :: "nat \<Rightarrow> go_error option"
  cs_procs :: "'a chan_proc list"
  cs_panic :: "string option"
  cs_sent :: "'a list"
  cs_got :: "'a list"

datatype chan_event =
    CtxEnd nat go_error
  | Sleeps nat
  | Puts nat
  | DropsIt nat
  | Takes nat
  | Hands nat nat
  | FindsClosed nat
  | GivesUp nat
  | Swaps nat
  | Closes nat

definition proc_at :: "'a chan_state \<Rightarrow> nat \<Rightarrow> 'a chan_proc option" where
  "proc_at s i = (if i < length (cs_procs s) then Some (cs_procs s ! i) else None)"

text \<open>The operation goroutine \<open>i\<close> is in, and where.\<close>

definition doing :: "'a chan_state \<Rightarrow> nat \<Rightarrow> ('a chan_op \<times> chan_pc) option" where
  "doing s i = (case proc_at s i of
     None \<Rightarrow> None
   | Some p \<Rightarrow> (case cp_ops p of [] \<Rightarrow> None | oper # _ \<Rightarrow> if cs_panic s = None then Some (oper, cp_pc p) else None))"

definition set_pc :: "nat \<Rightarrow> chan_pc \<Rightarrow> 'a chan_state \<Rightarrow> 'a chan_state" where
  "set_pc i pc s = s\<lparr>cs_procs := (cs_procs s)[i := (cs_procs s ! i)\<lparr>cp_pc := pc\<rparr>]\<rparr>"

definition return :: "nat \<Rightarrow> 'a chan_result \<Rightarrow> 'a chan_state \<Rightarrow> 'a chan_state" where
  "return i r s =
     (let p = cs_procs s ! i
      in s\<lparr>cs_procs := (cs_procs s)[i := \<lparr>cp_ops = tl (cp_ops p), cp_pc = AtStart, cp_results = cp_results p @ [(hd (cp_ops p), r)]\<rparr>]\<rparr>)"

text \<open>The value an operation sends, and whether it is one of the two receives, still in its first \<open>select\<close>.\<close>

fun sends :: "'a chan_op \<Rightarrow> 'a option" where
  "sends (OpSend v) = Some v"
| "sends (OpSendOrDrop v) = Some v"
| "sends _ = None"

fun selecting :: "chan_pc \<Rightarrow> bool" where
  "selecting AtStart = True"
| "selecting InSelect = True"
| "selecting _ = False"

fun receives :: "'a chan_op \<Rightarrow> bool" where
  "receives OpRecv = True"
| "receives OpRecvOrClosed = True"
| "receives _ = False"

fun may_sleep :: "'a chan_op \<Rightarrow> bool" where
  "may_sleep (OpSend v) = True"
| "may_sleep oper = receives oper"

definition receiver_asleep :: "'a chan_state \<Rightarrow> bool" where
  "receiver_asleep s \<longleftrightarrow> (\<exists>j < length (cs_procs s). case doing s j of
     Some (oper, pc) \<Rightarrow> receives oper \<and> pc = InSelect | None \<Rightarrow> False)"

definition sender_asleep :: "'a chan_state \<Rightarrow> bool" where
  "sender_asleep s \<longleftrightarrow> (\<exists>j < length (cs_procs s). case doing s j of
     Some (oper, pc) \<Rightarrow> sends oper \<noteq> None \<and> pc = InSelect | None \<Rightarrow> False)"

definition has_space :: "'a go_chan \<Rightarrow> bool" where
  "has_space ch \<longleftrightarrow> length (gc_buf ch) < gc_cap ch"

text \<open>\<open>Send\<close> and \<open>SendOrDrop\<close>: into the buffer; a closed channel is ready, and the send panics.\<close>

definition put_step :: "nat \<Rightarrow> 'a chan_state \<Rightarrow> 'a chan_state option" where
  "put_step i s = (case doing s i of
     Some (oper, pc) \<Rightarrow>
       (case sends oper of
          Some v \<Rightarrow>
            if gc_closed (cs_chan s) then Some (s\<lparr>cs_panic := Some ''send on closed channel''\<rparr>)
            else if has_space (cs_chan s) then
              Some (return i Delivered (s\<lparr>cs_chan := (cs_chan s)\<lparr>gc_buf := gc_buf (cs_chan s) @ [v]\<rparr>, cs_sent := cs_sent s @ [v]\<rparr>))
            else None
        | None \<Rightarrow> None)
   | None \<Rightarrow> None)"

text \<open>The default of \<open>SendOrDrop\<close>: only when no case is ready.\<close>

definition drop_step :: "nat \<Rightarrow> 'a chan_state \<Rightarrow> 'a chan_state option" where
  "drop_step i s = (case doing s i of
     Some (OpSendOrDrop v, pc) \<Rightarrow>
       if \<not> gc_closed (cs_chan s) \<and> \<not> has_space (cs_chan s) \<and> \<not> (receiver_asleep s \<and> gc_buf (cs_chan s) = [])
       then Some (return i Dropped s) else None
   | _ \<Rightarrow> None)"

definition take_step :: "nat \<Rightarrow> 'a chan_state \<Rightarrow> 'a chan_state option" where
  "take_step i s = (case doing s i of
     Some (oper, pc) \<Rightarrow>
       if receives oper \<and> selecting pc then
         (case gc_buf (cs_chan s) of
            [] \<Rightarrow> None
          | v # vs \<Rightarrow> Some (return i (Got v) (s\<lparr>cs_chan := (cs_chan s)\<lparr>gc_buf := vs\<rparr>, cs_got := cs_got s @ [v]\<rparr>)))
       else None
   | None \<Rightarrow> None)"

text \<open>From hand to hand: one of the two was waiting for the other.\<close>

definition hand_step :: "nat \<Rightarrow> nat \<Rightarrow> 'a chan_state \<Rightarrow> 'a chan_state option" where
  "hand_step i j s = (case (doing s i, doing s j) of
     (Some (snd_op, pc), Some (rcv_op, pc')) \<Rightarrow>
       (case sends snd_op of
          Some v \<Rightarrow>
            if i \<noteq> j \<and> receives rcv_op \<and> selecting pc' \<and> (pc = InSelect \<or> pc' = InSelect) \<and>
               gc_buf (cs_chan s) = [] \<and> \<not> gc_closed (cs_chan s) then
              Some (return j (Got v) (return i Delivered (s\<lparr>cs_sent := cs_sent s @ [v], cs_got := cs_got s @ [v]\<rparr>)))
            else None
        | None \<Rightarrow> None)
   | _ \<Rightarrow> None)"

definition closed_step :: "nat \<Rightarrow> 'a chan_state \<Rightarrow> 'a chan_state option" where
  "closed_step i s = (case doing s i of
     Some (oper, pc) \<Rightarrow>
       if gc_closed (cs_chan s) \<and> gc_buf (cs_chan s) = [] \<and> selecting pc then
         (case oper of
            OpRecv \<Rightarrow> Some (set_pc i PastClosed s)
          | OpRecvOrClosed \<Rightarrow> Some (return i SawClosed s)
          | _ \<Rightarrow> None)
       else None
   | None \<Rightarrow> None)"

definition give_up_step :: "nat \<Rightarrow> 'a chan_state \<Rightarrow> 'a chan_state option" where
  "give_up_step i s = (case (doing s i, cs_ctx s i) of
     (Some (oper, pc), Some e) \<Rightarrow> if may_sleep oper then Some (return i (Failed e) s) else None
   | _ \<Rightarrow> None)"

text \<open>A goroutine goes to sleep only if no case is ready.\<close>

definition sleep_step :: "nat \<Rightarrow> 'a chan_state \<Rightarrow> 'a chan_state option" where
  "sleep_step i s = (case doing s i of
     Some (oper, AtStart) \<Rightarrow>
       if may_sleep oper \<and> cs_ctx s i = None \<and> \<not> gc_closed (cs_chan s) \<and>
          (if receives oper then gc_buf (cs_chan s) = [] \<and> \<not> sender_asleep s
           else \<not> has_space (cs_chan s) \<and> \<not> (receiver_asleep s \<and> gc_buf (cs_chan s) = []))
       then Some (set_pc i InSelect s) else None
   | _ \<Rightarrow> None)"

text \<open>\<open>Once.Send\<close>: the swap of \<open>done\<close>, and the close if it was the first.\<close>

definition swap_step :: "nat \<Rightarrow> 'a chan_state \<Rightarrow> 'a chan_state option" where
  "swap_step i s = (case doing s i of
     Some (OpSignal, AtStart) \<Rightarrow>
       if cs_done s then Some (return i AlreadySignalled s) else Some (set_pc i PastSwap (s\<lparr>cs_done := True\<rparr>))
   | _ \<Rightarrow> None)"

definition close_step :: "nat \<Rightarrow> 'a chan_state \<Rightarrow> 'a chan_state option" where
  "close_step i s = (case doing s i of
     Some (oper, pc) \<Rightarrow>
       if oper = OpClose \<or> oper = OpSignal \<and> pc = PastSwap then
         if gc_closed (cs_chan s) then Some (s\<lparr>cs_panic := Some ''close of closed channel''\<rparr>)
         else Some (return i Closed (s\<lparr>cs_chan := (cs_chan s)\<lparr>gc_closed := True\<rparr>\<rparr>))
       else None
   | None \<Rightarrow> None)"

fun chan_step :: "chan_event \<Rightarrow> 'a chan_state \<Rightarrow> 'a chan_state option" where
  "chan_step (CtxEnd i e) s = (if cs_ctx s i = None then Some (s\<lparr>cs_ctx := (cs_ctx s)(i := Some e)\<rparr>) else None)"
| "chan_step (Sleeps i) s = sleep_step i s"
| "chan_step (Puts i) s = put_step i s"
| "chan_step (DropsIt i) s = drop_step i s"
| "chan_step (Takes i) s = take_step i s"
| "chan_step (Hands i j) s = hand_step i j s"
| "chan_step (FindsClosed i) s = closed_step i s"
| "chan_step (GivesUp i) s = give_up_step i s"
| "chan_step (Swaps i) s = swap_step i s"
| "chan_step (Closes i) s = close_step i s"

lemmas chan_step_defs = put_step_def drop_step_def take_step_def hand_step_def closed_step_def give_up_step_def
  sleep_step_def swap_step_def close_step_def

definition chan_start :: "nat \<Rightarrow> 'a chan_op list list \<Rightarrow> 'a chan_state" where
  "chan_start cap progs =
     \<lparr>cs_chan = \<lparr>gc_buf = [], gc_cap = cap, gc_closed = False\<rparr>, cs_done = False, cs_ctx = \<lambda>i. None,
      cs_procs = map (\<lambda>os. \<lparr>cp_ops = os, cp_pc = AtStart, cp_results = []\<rparr>) progs, cs_panic = None, cs_sent = [], cs_got = []\<rparr>"

text \<open>\<open>Once\<close> is a channel without a buffer and the flag: \<open>Send\<close> is \<open>OpSignal\<close>, \<open>Recv\<close> is \<open>RecvOrClosed\<close>.\<close>

definition NewOnce :: "'a chan_op list list \<Rightarrow> 'a chan_state" where
  "NewOnce progs = chan_start 0 progs"

subsection \<open>What is delivered\<close>

fun delivered_of :: "'a chan_op \<times> 'a chan_result \<Rightarrow> 'a list" where
  "delivered_of (OpSend v, Delivered) = [v]"
| "delivered_of (OpSendOrDrop v, Delivered) = [v]"
| "delivered_of _ = []"

fun got_of :: "'a chan_op \<times> 'a chan_result \<Rightarrow> 'a list" where
  "got_of (oper, Got v) = [v]"
| "got_of _ = []"

text \<open>The values over all results, under either reading.\<close>

definition collected :: "('a chan_op \<times> 'a chan_result \<Rightarrow> 'a list) \<Rightarrow> 'a chan_state \<Rightarrow> 'a multiset" where
  "collected f s = mset (concat (map (\<lambda>p. concat (map f (cp_results p))) (cs_procs s)))"

text \<open>What each operation may return, given the context of its goroutine and the channel.\<close>

fun result_ok :: "go_error option \<Rightarrow> bool \<Rightarrow> bool \<Rightarrow> 'a chan_op \<times> 'a chan_result \<Rightarrow> bool" where
  "result_ok ctx cl dn (OpSend v, r) = (r = Delivered \<or> (\<exists>e. r = Failed e \<and> ctx = Some e))"
| "result_ok ctx cl dn (OpSendOrDrop v, r) = (r = Delivered \<or> r = Dropped)"
| "result_ok ctx cl dn (OpRecv, r) = ((\<exists>v. r = Got v) \<or> (\<exists>e. r = Failed e \<and> ctx = Some e))"
| "result_ok ctx cl dn (OpRecvOrClosed, r) = ((\<exists>v. r = Got v) \<or> (r = SawClosed \<and> cl) \<or> (\<exists>e. r = Failed e \<and> ctx = Some e))"
| "result_ok ctx cl dn (OpClose, r) = (r = Closed \<and> cl)"
| "result_ok ctx cl dn (OpSignal, r) = (r = Closed \<and> cl \<or> r = AlreadySignalled \<and> dn)"

definition results_ok :: "'a chan_state \<Rightarrow> bool" where
  "results_ok s \<longleftrightarrow> (\<forall>i < length (cs_procs s). \<forall>x \<in> set (cp_results (cs_procs s ! i)).
     result_ok (cs_ctx s i) (gc_closed (cs_chan s)) (cs_done s) x)"

definition chan_ok :: "'a chan_state \<Rightarrow> bool" where
  "chan_ok s \<longleftrightarrow> cs_sent s = cs_got s @ gc_buf (cs_chan s) \<and> length (gc_buf (cs_chan s)) \<le> gc_cap (cs_chan s) \<and>
     collected delivered_of s = mset (cs_sent s) \<and> collected got_of s = mset (cs_got s) \<and> results_ok s"

lemma doingD:
  assumes "doing s i = Some (oper, pc)"
  shows "i < length (cs_procs s) \<and> cp_pc (cs_procs s ! i) = pc \<and> (\<exists>rest. cp_ops (cs_procs s ! i) = oper # rest) \<and> cs_panic s = None"
  using assms by (auto simp: doing_def proc_at_def split: if_splits option.splits list.splits)

lemma concat_update:
  "i < length ps \<Longrightarrow> mset (concat (map g (ps[i := p]))) + mset (g (ps ! i)) = mset (concat (map g ps)) + mset (g p)"
proof (induction ps arbitrary: i)
  case (Cons q ps)
  then show ?case by (cases i) auto
qed simp

lemma return_sel [simp]:
  "cs_chan (return i r s) = cs_chan s" "cs_done (return i r s) = cs_done s" "cs_ctx (return i r s) = cs_ctx s"
  "cs_panic (return i r s) = cs_panic s" "cs_sent (return i r s) = cs_sent s" "cs_got (return i r s) = cs_got s"
  "length (cs_procs (return i r s)) = length (cs_procs s)"
  by (simp_all add: return_def Let_def)

lemma set_pc_sel [simp]:
  "cs_chan (set_pc i pc s) = cs_chan s" "cs_done (set_pc i pc s) = cs_done s" "cs_ctx (set_pc i pc s) = cs_ctx s"
  "cs_panic (set_pc i pc s) = cs_panic s" "cs_sent (set_pc i pc s) = cs_sent s" "cs_got (set_pc i pc s) = cs_got s"
  "length (cs_procs (set_pc i pc s)) = length (cs_procs s)"
  by (simp_all add: set_pc_def)

lemma collected_return:
  assumes "i < length (cs_procs s)" "cp_ops (cs_procs s ! i) = oper # rest"
  shows "collected f (return i r s) = collected f s + mset (f (oper, r))"
  using concat_update [OF assms(1), of "\<lambda>p. concat (map f (cp_results p))"
      "\<lparr>cp_ops = rest, cp_pc = AtStart, cp_results = cp_results (cs_procs s ! i) @ [(oper, r)]\<rparr>"] assms(2)
  by (simp add: collected_def return_def)

lemma collected_set_pc: "collected f (set_pc i pc s) = collected f s"
proof (cases "i < length (cs_procs s)")
  case True
  from concat_update [OF this, of "\<lambda>p. concat (map f (cp_results p))" "(cs_procs s ! i)\<lparr>cp_pc := pc\<rparr>"]
  show ?thesis by (simp add: collected_def set_pc_def)
qed (simp add: collected_def set_pc_def list_update_beyond)

lemma collected_same: "cs_procs s' = cs_procs s \<Longrightarrow> collected f s' = collected f s"
  by (simp add: collected_def)

lemma results_ok_return:
  assumes "results_ok s" "i < length (cs_procs s)" "cp_ops (cs_procs s ! i) = oper # rest"
    "result_ok (cs_ctx s i) (gc_closed (cs_chan s)) (cs_done s) (oper, r)"
  shows "results_ok (return i r s)"
  using assms by (auto simp: results_ok_def return_def nth_list_update)

lemma results_ok_set_pc: "results_ok s \<Longrightarrow> results_ok (set_pc i pc s)"
  by (cases "i < length (cs_procs s)") (auto simp: results_ok_def set_pc_def nth_list_update list_update_beyond)

text \<open>More may be returned once a context has ended, the channel is closed or the flag is set.\<close>

lemma result_ok_mono:
  "result_ok ctx cl dn x \<Longrightarrow> (ctx \<noteq> None \<longrightarrow> ctx' = ctx) \<Longrightarrow> (cl \<longrightarrow> cl') \<Longrightarrow> (dn \<longrightarrow> dn') \<Longrightarrow> result_ok ctx' cl' dn' x"
  by (cases x; cases "fst x") auto

lemma results_ok_mono:
  assumes "results_ok s" "cs_procs s' = cs_procs s" "\<And>i. cs_ctx s i \<noteq> None \<longrightarrow> cs_ctx s' i = cs_ctx s i"
    "gc_closed (cs_chan s) \<longrightarrow> gc_closed (cs_chan s')" "cs_done s \<longrightarrow> cs_done s'"
  shows "results_ok s'"
  using assms(1) result_ok_mono [OF _ assms(3-5)] unfolding results_ok_def assms(2) by blast

lemma chan_ok_start: "chan_ok (chan_start cap progs)"
  by (auto simp: chan_ok_def chan_start_def collected_def results_ok_def o_def)

text \<open>Two shapes of a step: one goroutine returns, or only where it is changes.\<close>

lemma chan_ok_return:
  assumes "chan_ok s" "doing s i = Some (oper, pc)" "cs_procs s0 = cs_procs s" "cs_ctx s0 = cs_ctx s"
    "cs_sent s0 = cs_sent s @ delivered_of (oper, r)" "cs_got s0 = cs_got s @ got_of (oper, r)"
    "cs_sent s0 = cs_got s0 @ gc_buf (cs_chan s0)" "length (gc_buf (cs_chan s0)) \<le> gc_cap (cs_chan s0)"
    "gc_closed (cs_chan s) \<longrightarrow> gc_closed (cs_chan s0)" "cs_done s \<longrightarrow> cs_done s0"
    "result_ok (cs_ctx s i) (gc_closed (cs_chan s0)) (cs_done s0) (oper, r)"
  shows "chan_ok (return i r s0)"
proof -
  from doingD [OF assms(2)] obtain rest where i: "i < length (cs_procs s0)" "cp_ops (cs_procs s0 ! i) = oper # rest"
    unfolding assms(3) by blast
  have "results_ok s0" by (rule results_ok_mono [of s]) (use assms in \<open>auto simp: chan_ok_def\<close>)
  then have "results_ok (return i r s0)" by (rule results_ok_return [OF _ i]) (use assms in simp)
  then show ?thesis using assms collected_return [OF i, of _ r] collected_same [OF assms(3)] by (simp add: chan_ok_def)
qed

lemma chan_ok_pc: "chan_ok s \<Longrightarrow> chan_ok (set_pc i pc s)"
  by (simp add: chan_ok_def collected_set_pc results_ok_set_pc)

lemma chan_ok_set:
  assumes "chan_ok s" "cs_procs s' = cs_procs s" "cs_chan s' = cs_chan s" "cs_sent s' = cs_sent s" "cs_got s' = cs_got s"
    "\<And>i. cs_ctx s i \<noteq> None \<longrightarrow> cs_ctx s' i = cs_ctx s i" "cs_done s \<longrightarrow> cs_done s'"
  shows "chan_ok s'"
  using assms results_ok_mono [of s s'] collected_same [OF assms(2)] by (simp add: chan_ok_def)

lemma chan_ok_step:
  assumes ok: "chan_ok s" and step: "chan_step ev s = Some s'"
  shows "chan_ok s'"
proof (cases ev)
  case (CtxEnd i e)
  then show ?thesis using step by (intro chan_ok_set [OF ok]) (auto split: if_splits)
next
  case (Sleeps i)
  then show ?thesis using step chan_ok_pc [OF ok]
    by (auto simp: sleep_step_def split: option.splits chan_pc.splits if_splits prod.splits)
next
  case (Puts i)
  then obtain oper pc v where d: "doing s i = Some (oper, pc)" "sends oper = Some v"
    using step by (auto simp: put_step_def split: option.splits)
  show ?thesis
  proof (cases "gc_closed (cs_chan s)")
    case True
    then show ?thesis using Puts step d by (intro chan_ok_set [OF ok]) (auto simp: put_step_def)
  next
    case False
    then have s': "s' = return i Delivered (s\<lparr>cs_chan := (cs_chan s)\<lparr>gc_buf := gc_buf (cs_chan s) @ [v]\<rparr>, cs_sent := cs_sent s @ [v]\<rparr>)"
      "length (gc_buf (cs_chan s)) < gc_cap (cs_chan s)"
      using Puts step d by (auto simp: put_step_def has_space_def split: if_splits)
    show ?thesis unfolding s'(1) using d(2) s'(2) ok
      by (intro chan_ok_return [OF ok d(1)]) (cases oper; simp add: chan_ok_def)+
  qed
next
  case (DropsIt i)
  then obtain v pc where d: "doing s i = Some (OpSendOrDrop v, pc)" "s' = return i Dropped s"
    using step by (auto simp: drop_step_def split: option.splits chan_op.splits if_splits)
  show ?thesis unfolding d(2) using ok by (intro chan_ok_return [OF ok d(1)]) (simp_all add: chan_ok_def)
next
  case (Takes i)
  then obtain oper pc v vs where d: "doing s i = Some (oper, pc)" "receives oper" "gc_buf (cs_chan s) = v # vs"
    "s' = return i (Got v) (s\<lparr>cs_chan := (cs_chan s)\<lparr>gc_buf := vs\<rparr>, cs_got := cs_got s @ [v]\<rparr>)"
    using step by (auto simp: take_step_def split: option.splits list.splits if_splits)
  show ?thesis unfolding d(4) using ok d(2,3)
    by (intro chan_ok_return [OF ok d(1)]) (cases oper; simp add: chan_ok_def)+
next
  case (Hands i j)
  then obtain snd_op pc rcv_op pc' v where d: "doing s i = Some (snd_op, pc)" "doing s j = Some (rcv_op, pc')"
    "sends snd_op = Some v" "receives rcv_op" "i \<noteq> j" "gc_buf (cs_chan s) = []"
    "s' = return j (Got v) (return i Delivered (s\<lparr>cs_sent := cs_sent s @ [v], cs_got := cs_got s @ [v]\<rparr>))"
    using step by (auto simp: hand_step_def split: option.splits if_splits)
  let ?s0 = "s\<lparr>cs_sent := cs_sent s @ [v], cs_got := cs_got s @ [v]\<rparr>"
  from doingD [OF d(1)] doingD [OF d(2)] obtain r r' where i: "i < length (cs_procs ?s0)" "cp_ops (cs_procs ?s0 ! i) = snd_op # r"
    and j: "j < length (cs_procs s)" "cp_ops (cs_procs s ! j) = rcv_op # r'" by auto
  have j': "j < length (cs_procs (return i Delivered ?s0))" "cp_ops (cs_procs (return i Delivered ?s0) ! j) = rcv_op # r'"
    using j d(5) by (simp_all add: return_def Let_def)
  have "results_ok ?s0" by (rule results_ok_mono [of s]) (use ok in \<open>auto simp: chan_ok_def\<close>)
  then have "results_ok (return i Delivered ?s0)"
    by (rule results_ok_return [OF _ i]) (use d(3) in \<open>cases snd_op; simp\<close>)
  then have "results_ok s'" unfolding d(7) by (rule results_ok_return [OF _ j']) (use d(4) in \<open>cases rcv_op; simp\<close>)
  moreover have "collected f s' = collected f s + mset (f (snd_op, Delivered)) + mset (f (rcv_op, Got v))" for f
    unfolding d(7) using collected_return [OF j', of f "Got v"] collected_return [OF i, of f Delivered] collected_same [of ?s0 s f] by simp
  ultimately show ?thesis using ok d(3,4,6) unfolding d(7) chan_ok_def by (cases snd_op; cases rcv_op) simp_all
next
  case (FindsClosed i)
  then obtain oper pc where d: "doing s i = Some (oper, pc)" "gc_closed (cs_chan s)"
    "oper = OpRecv \<and> s' = set_pc i PastClosed s \<or> oper = OpRecvOrClosed \<and> s' = return i SawClosed s"
    using step by (auto simp: closed_step_def split: option.splits chan_op.splits if_splits)
  from d(3) show ?thesis
  proof
    assume "oper = OpRecvOrClosed \<and> s' = return i SawClosed s"
    then have s': "oper = OpRecvOrClosed" "s' = return i SawClosed s" by simp_all
    show ?thesis unfolding s'(2) using ok d(2) s'(1)
      by (intro chan_ok_return [OF ok d(1)]) (simp_all add: chan_ok_def)
  qed (use chan_ok_pc [OF ok] in simp)
next
  case (GivesUp i)
  then obtain oper pc e where d: "doing s i = Some (oper, pc)" "cs_ctx s i = Some e" "may_sleep oper" "s' = return i (Failed e) s"
    using step by (auto simp: give_up_step_def split: option.splits if_splits)
  show ?thesis unfolding d(4) using ok d(2,3)
    by (intro chan_ok_return [OF ok d(1)]) (cases oper; simp add: chan_ok_def)+
next
  case (Swaps i)
  then obtain pc where d: "doing s i = Some (OpSignal, pc)"
    "cs_done s \<and> s' = return i AlreadySignalled s \<or> s' = set_pc i PastSwap (s\<lparr>cs_done := True\<rparr>)"
    using step by (auto simp: swap_step_def split: option.splits chan_op.splits chan_pc.splits if_splits)
  from d(2) show ?thesis
  proof
    assume "cs_done s \<and> s' = return i AlreadySignalled s"
    then have s': "cs_done s" "s' = return i AlreadySignalled s" by simp_all
    show ?thesis unfolding s'(2) using ok s'(1)
      by (intro chan_ok_return [OF ok d(1)]) (simp_all add: chan_ok_def)
  next
    assume s': "s' = set_pc i PastSwap (s\<lparr>cs_done := True\<rparr>)"
    show ?thesis unfolding s' by (rule chan_ok_pc, rule chan_ok_set [OF ok]) simp_all
  qed
next
  case (Closes i)
  then obtain oper pc where d: "doing s i = Some (oper, pc)" "oper = OpClose \<or> oper = OpSignal"
    "s' = s\<lparr>cs_panic := Some ''close of closed channel''\<rparr> \<or> s' = return i Closed (s\<lparr>cs_chan := (cs_chan s)\<lparr>gc_closed := True\<rparr>\<rparr>)"
    using step by (auto simp: close_step_def split: option.splits if_splits)
  from d(3) show ?thesis
  proof
    assume s': "s' = s\<lparr>cs_panic := Some ''close of closed channel''\<rparr>"
    show ?thesis unfolding s' by (rule chan_ok_set [OF ok]) simp_all
  next
    assume s': "s' = return i Closed (s\<lparr>cs_chan := (cs_chan s)\<lparr>gc_closed := True\<rparr>\<rparr>)"
    show ?thesis unfolding s' using ok d(2)
      by (intro chan_ok_return [OF ok d(1)]) (elim disjE; simp add: chan_ok_def)+
  qed
qed

lemma chan_ok_play: "play chan_step evs (chan_start cap progs) = Some s \<Longrightarrow> chan_ok s"
  by (rule play_invariant [where I = chan_ok, OF _ chan_ok_start]) (rule chan_ok_step)

text \<open>\<open>SendOrDrop\<close> never waits, and nothing that waits outlives its context.\<close>

lemma drop_never_waits:
  assumes "doing s i = Some (OpSendOrDrop v, pc)"
  shows "chan_step (Puts i) s \<noteq> None \<or> chan_step (DropsIt i) s \<noteq> None \<or> (\<exists>j. chan_step (Hands i j) s \<noteq> None)"
proof (cases "gc_closed (cs_chan s) \<or> has_space (cs_chan s)")
  case False
  show ?thesis
  proof (cases "receiver_asleep s \<and> gc_buf (cs_chan s) = []")
    case True
    then obtain j oper where j: "doing s j = Some (oper, InSelect)" "receives oper"
      by (auto simp: receiver_asleep_def split: option.splits)
    then have "i \<noteq> j" using assms by auto
    then have "chan_step (Hands i j) s \<noteq> None" using assms j True False by (simp add: hand_step_def)
    then show ?thesis by blast
  qed (use assms False in \<open>simp add: drop_step_def\<close>)
qed (use assms in \<open>auto simp: put_step_def\<close>)

lemma give_up_enabled:
  "doing s i = Some (oper, pc) \<Longrightarrow> may_sleep oper \<Longrightarrow> cs_ctx s i = Some e \<Longrightarrow> chan_step (GivesUp i) s = Some (return i (Failed e) s)"
  by (simp add: give_up_step_def)

lemma chan_step_cap: "chan_step ev s = Some s' \<Longrightarrow> gc_cap (cs_chan s') = gc_cap (cs_chan s)"
  by (cases ev) (auto simp: chan_step_defs split: option.splits if_splits prod.splits chan_op.splits chan_pc.splits list.splits)

lemma chan_cap_play: "play chan_step evs (chan_start cap progs) = Some s \<Longrightarrow> gc_cap (cs_chan s) = cap"
  by (rule play_invariant [where I = "\<lambda>s. gc_cap (cs_chan s) = cap"]) (auto simp: chan_start_def dest: chan_step_cap)

subsection \<open>The one-shot signal\<close>

definition once_ops :: "'a chan_op list \<Rightarrow> bool" where
  "once_ops os \<longleftrightarrow> (\<forall>oper \<in> set os. oper = OpSignal \<or> oper = OpRecvOrClosed)"

definition closing :: "'a chan_proc \<Rightarrow> bool" where
  "closing p \<longleftrightarrow> cp_pc p = PastSwap"

text \<open>Between the swap and the close there is one goroutine, the one that set the flag.\<close>

definition once_ok :: "'a chan_state \<Rightarrow> bool" where
  "once_ok s \<longleftrightarrow> cs_panic s = None \<and> gc_buf (cs_chan s) = [] \<and> (gc_closed (cs_chan s) \<longrightarrow> cs_done s) \<and>
     length (filter closing (cs_procs s)) = (if cs_done s \<and> \<not> gc_closed (cs_chan s) then 1 else 0) \<and>
     (\<forall>p \<in> set (cs_procs s). once_ops (cp_ops p) \<and> cp_pc p \<noteq> PastClosed \<and>
        (closing p \<longrightarrow> cp_ops p \<noteq> [] \<and> hd (cp_ops p) = OpSignal))"

lemma once_ok_start: "\<forall>os \<in> set progs. once_ops os \<Longrightarrow> once_ok (NewOnce progs)"
  by (auto simp: once_ok_def NewOnce_def chan_start_def closing_def)

lemma once_ok_update:
  assumes "once_ok s" "i < length (cs_procs s)" "cs_procs s' = (cs_procs s)[i := p]" "cs_panic s' = None"
    "gc_buf (cs_chan s') = []" "gc_closed (cs_chan s') \<longrightarrow> cs_done s'" "once_ops (cp_ops p)"
    "cp_pc p \<noteq> PastClosed" "closing p \<longrightarrow> cp_ops p \<noteq> [] \<and> hd (cp_ops p) = OpSignal"
    "(if cs_done s' \<and> \<not> gc_closed (cs_chan s') then 1 else 0) + (if closing (cs_procs s ! i) then 1 else (0 :: nat)) =
     (if cs_done s \<and> \<not> gc_closed (cs_chan s) then 1 else 0) + (if closing p then 1 else 0)"
  shows "once_ok s'"
proof -
  have "length (filter closing (cs_procs s')) = (if cs_done s' \<and> \<not> gc_closed (cs_chan s') then 1 else 0)"
    using filter_update_count [OF assms(2), of closing p] assms(1,3,10) unfolding once_ok_def by (auto split: if_splits)
  moreover have "\<forall>q \<in> set (cs_procs s'). once_ops (cp_ops q) \<and> cp_pc q \<noteq> PastClosed \<and> (closing q \<longrightarrow> cp_ops q \<noteq> [] \<and> hd (cp_ops q) = OpSignal)"
    using assms(1,7,8,9) set_update_subset_insert [of "cs_procs s" i p] unfolding assms(3) once_ok_def by blast
  ultimately show ?thesis using assms(4-6) by (simp add: once_ok_def)
qed

lemma once_doing:
  assumes "once_ok s" "doing s i = Some (oper, pc)"
  shows "i < length (cs_procs s)" "oper = OpSignal \<or> oper = OpRecvOrClosed" "closing (cs_procs s ! i) \<longleftrightarrow> pc = PastSwap"
    "pc = PastSwap \<longrightarrow> oper = OpSignal \<and> cs_done s \<and> \<not> gc_closed (cs_chan s)" "once_ops (tl (cp_ops (cs_procs s ! i)))" "pc \<noteq> PastClosed"
proof -
  from doingD [OF assms(2)] obtain rest where i: "i < length (cs_procs s)" "cp_pc (cs_procs s ! i) = pc" "cp_ops (cs_procs s ! i) = oper # rest"
    by blast
  have mem: "cs_procs s ! i \<in> set (cs_procs s)" using i(1) by simp
  then have p: "once_ops (oper # rest)" "closing (cs_procs s ! i) \<longrightarrow> oper = OpSignal"
    using assms(1) i(3) by (auto simp: once_ok_def)
  then show "i < length (cs_procs s)" "oper = OpSignal \<or> oper = OpRecvOrClosed" "closing (cs_procs s ! i) \<longleftrightarrow> pc = PastSwap"
    "once_ops (tl (cp_ops (cs_procs s ! i)))"
    using i by (simp_all add: once_ops_def closing_def)
  show "pc \<noteq> PastClosed" using mem assms(1) i(2) by (auto simp: once_ok_def)
  show "pc = PastSwap \<longrightarrow> oper = OpSignal \<and> cs_done s \<and> \<not> gc_closed (cs_chan s)"
  proof
    assume "pc = PastSwap"
    then have c: "closing (cs_procs s ! i)" using i by (simp add: closing_def)
    then have "filter closing (cs_procs s) \<noteq> []" using mem by (auto simp: filter_empty_conv)
    then show "oper = OpSignal \<and> cs_done s \<and> \<not> gc_closed (cs_chan s)"
      using p(2) c assms(1) by (auto simp: once_ok_def split: if_splits)
  qed
qed

lemma once_ok_step:
  assumes ok: "once_ok s" and step: "chan_step ev s = Some s'"
  shows "once_ok s'"
proof -
  have ret: "once_ok (return i r s)" if "doing s i = Some (oper, pc)" "pc \<noteq> PastSwap" for i r oper pc
    by (rule once_ok_update [OF ok once_doing(1) [OF ok that(1)],
          of _ "\<lparr>cp_ops = tl (cp_ops (cs_procs s ! i)), cp_pc = AtStart, cp_results = cp_results (cs_procs s ! i) @ [(hd (cp_ops (cs_procs s ! i)), r)]\<rparr>"])
      (use ok once_doing [OF ok that(1)] that(2) in \<open>auto simp: return_def Let_def once_ok_def closing_def\<close>)
  show ?thesis
  proof (cases ev)
    case (CtxEnd i e)
    then show ?thesis using ok step by (auto simp: once_ok_def split: if_splits)
  next
    case (Sleeps i)
    then obtain oper where d: "doing s i = Some (oper, AtStart)" "s' = set_pc i InSelect s" 
      using step by (auto simp: sleep_step_def split: option.splits chan_pc.splits if_splits prod.splits)
    show ?thesis
      by (rule once_ok_update [OF ok once_doing(1) [OF ok d(1)], of _ "(cs_procs s ! i)\<lparr>cp_pc := InSelect\<rparr>"])
        (use ok once_doing [OF ok d(1)] d(2) in \<open>auto simp: set_pc_def once_ok_def closing_def\<close>)
  next
    case (Puts i)
    then show ?thesis using step once_doing(2) [OF ok] by (fastforce simp: put_step_def split: option.splits)
  next
    case (DropsIt i)
    then show ?thesis using step once_doing(2) [OF ok] by (fastforce simp: drop_step_def split: option.splits chan_op.splits)
  next
    case (Takes i)
    then show ?thesis using step ok by (auto simp: take_step_def once_ok_def split: option.splits if_splits)
  next
    case (Hands i j)
    then show ?thesis using step once_doing(2) [OF ok] by (fastforce simp: hand_step_def split: option.splits)
  next
    case (FindsClosed i)
    then obtain oper pc where d: "doing s i = Some (oper, pc)" "selecting pc" "oper = OpRecv \<or> s' = return i SawClosed s"
      using step by (auto simp: closed_step_def split: option.splits chan_op.splits if_splits)
    then have "pc \<noteq> PastSwap" "oper \<noteq> OpRecv" using once_doing(2) [OF ok d(1)] by auto
    then show ?thesis using ret [OF d(1)] d(3) by simp
  next
    case (GivesUp i)
    then obtain oper pc e where d: "doing s i = Some (oper, pc)" "may_sleep oper" "s' = return i (Failed e) s"
      using step by (auto simp: give_up_step_def split: option.splits if_splits)
    then have "pc \<noteq> PastSwap" using once_doing(4) [OF ok d(1)] by auto
    then show ?thesis using ret [OF d(1)] d(3) by simp
  next
    case (Swaps i)
    then consider "doing s i = Some (OpSignal, AtStart)" "s' = return i AlreadySignalled s"
      | "doing s i = Some (OpSignal, AtStart)" "\<not> cs_done s" "s' = set_pc i PastSwap (s\<lparr>cs_done := True\<rparr>)"
      using step by (auto simp: swap_step_def split: option.splits chan_op.splits chan_pc.splits if_splits)
    then show ?thesis
    proof cases
      case 2
      obtain rest where "cp_ops (cs_procs s ! i) = OpSignal # rest" using doingD [OF 2(1)] by blast
      moreover have "once_ops rest \<Longrightarrow> once_ops (OpSignal # rest)" by (simp add: once_ops_def)
      ultimately show ?thesis
        by (intro once_ok_update [OF ok once_doing(1) [OF ok 2(1)], of _ "(cs_procs s ! i)\<lparr>cp_pc := PastSwap\<rparr>"])
          (use ok once_doing [OF ok 2(1)] 2(2,3) in \<open>auto simp: set_pc_def once_ok_def closing_def\<close>)
    qed (use ret in simp)
  next
    case (Closes i)
    then obtain oper pc where d: "doing s i = Some (oper, pc)" "oper = OpClose \<or> oper = OpSignal \<and> pc = PastSwap"
      "s' = (if gc_closed (cs_chan s) then s\<lparr>cs_panic := Some ''close of closed channel''\<rparr>
         else return i Closed (s\<lparr>cs_chan := (cs_chan s)\<lparr>gc_closed := True\<rparr>\<rparr>))"
      using step by (auto simp: close_step_def split: option.splits if_splits)
    note o = once_doing [OF ok d(1)]
    have s': "pc = PastSwap" "\<not> gc_closed (cs_chan s)" "cs_done s" using d(2) o(2,4) by auto
    show ?thesis
      by (rule once_ok_update [OF ok o(1), of _ "\<lparr>cp_ops = tl (cp_ops (cs_procs s ! i)), cp_pc = AtStart,
            cp_results = cp_results (cs_procs s ! i) @ [(hd (cp_ops (cs_procs s ! i)), Closed)]\<rparr>"])
        (use ok o d(3) s' in \<open>auto simp: return_def Let_def once_ok_def closing_def\<close>)
  qed
qed

text \<open>
  However many signal and wait, the channel is closed at most once and nothing panics; once signalled it is
  closed or about to be, and then whoever waits can return.
\<close>

lemma once_signals:
  assumes "\<forall>os \<in> set progs. once_ops os" "play chan_step evs (NewOnce progs) = Some s"
  shows "cs_panic s = None" "cs_done s \<longrightarrow> gc_closed (cs_chan s) \<or> (\<exists>i. chan_step (Closes i) s \<noteq> None)"
    "doing s i = Some (OpRecvOrClosed, pc) \<Longrightarrow> gc_closed (cs_chan s) \<Longrightarrow> chan_step (FindsClosed i) s \<noteq> None"
proof -
  have ok: "once_ok s" by (rule play_invariant [where I = once_ok, OF once_ok_step once_ok_start [OF assms(1)] assms(2)])
  then show "cs_panic s = None" by (simp add: once_ok_def)
  show "cs_done s \<longrightarrow> gc_closed (cs_chan s) \<or> (\<exists>i. chan_step (Closes i) s \<noteq> None)"
  proof (intro impI disjCI)
    assume "cs_done s" "\<not> (\<exists>i. chan_step (Closes i) s \<noteq> None)"
    show "gc_closed (cs_chan s)"
    proof (rule ccontr)
      assume open_ch: "\<not> gc_closed (cs_chan s)"
      then have "filter closing (cs_procs s) \<noteq> []" using ok \<open>cs_done s\<close> by (auto simp: once_ok_def)
      then obtain p where "p \<in> set (cs_procs s)" "closing p" by (auto simp: filter_empty_conv)
      then obtain i where i: "i < length (cs_procs s)" "closing (cs_procs s ! i)" by (auto simp: in_set_conv_nth)
      then have "cs_procs s ! i \<in> set (cs_procs s)" by simp
      then have "\<exists>rest. cp_ops (cs_procs s ! i) = OpSignal # rest" using ok i(2) unfolding once_ok_def by (metis list.collapse)
      then have "doing s i = Some (OpSignal, PastSwap)" using i ok by (auto simp: doing_def proc_at_def closing_def once_ok_def)
      then have "chan_step (Closes i) s \<noteq> None" by (simp add: close_step_def)
      then show False using \<open>\<not> (\<exists>i. chan_step (Closes i) s \<noteq> None)\<close> by blast
    qed
  qed
  show "chan_step (FindsClosed i) s \<noteq> None" if d: "doing s i = Some (OpRecvOrClosed, pc)" and "gc_closed (cs_chan s)"
  proof -
    have "selecting pc" using once_doing(4,6) [OF ok d] by (cases pc) auto
    then show ?thesis using that ok by (simp add: closed_step_def once_ok_def)
  qed
qed

end
