(* ===== verification/AtomicWatch.thy ===== *)
theory AtomicWatch
  imports Scope
begin

text \<open>
  \<open>AtomicSend\<close> and \<open>AtomicRecv\<close> (\<open>utils/mutex.go\<close>): a pointer to the current version of a value, each
  version with a channel that is closed once it is replaced. On it rest the handles of awaitable
  tasks (\<open>Spawn1\<close> and \<open>Join\<close> of \<open>utils/scope/start.go\<close>). \<open>Store\<close> is two steps, the swap of the pointer and
  the close of the old version's channel, and anything may happen in between.
\<close>

subsection \<open>Versions\<close>

record 'v version =
  vn_value :: 'v
  vn_closed :: bool

definition newVersion :: "'v \<Rightarrow> 'v version" where
  "newVersion v = \<lparr>vn_value = v, vn_closed = False\<rparr>"

datatype 'v watch_op = StoreOp 'v | LoadOp | WaitOp "'v \<Rightarrow> bool"

datatype 'v watch_result = Stored | Loaded 'v | Gave go_error

text \<open>A goroutine: at the top, asleep on the channel of a version, or in \<open>Store\<close> with the version it swapped out.\<close>

datatype atomic_pc = AtTop | AsleepOn nat | HasSwapped nat

record 'v atomic_proc =
  ap_ops :: "'v watch_op list"
  ap_pc :: atomic_pc
  ap_results :: "('v watch_op \<times> 'v watch_result) list"

record 'v atomic_watch =
  aw_versions :: "'v version list"
  aw_ctx :: "nat \<Rightarrow> go_error option"
  aw_procs :: "'v atomic_proc list"
  aw_panic :: bool

definition current :: "'v atomic_watch \<Rightarrow> 'v" where
  "current w = vn_value (last (aw_versions w))"

datatype atomic_event =
    LoadsIt nat | WakesUp nat | GivesUpWaiting nat | SwapsIn nat | ClosesOld nat | WatchCtxEnd nat go_error

definition at_work :: "'v atomic_watch \<Rightarrow> nat \<Rightarrow> ('v watch_op \<times> atomic_pc) option" where
  "at_work w i =
     (if i < length (aw_procs w) \<and> \<not> aw_panic w then
        (case ap_ops (aw_procs w ! i) of [] \<Rightarrow> None | oper # _ \<Rightarrow> Some (oper, ap_pc (aw_procs w ! i)))
      else None)"

definition move_to :: "nat \<Rightarrow> atomic_pc \<Rightarrow> 'v atomic_watch \<Rightarrow> 'v atomic_watch" where
  "move_to i pc w = w\<lparr>aw_procs := (aw_procs w)[i := (aw_procs w ! i)\<lparr>ap_pc := pc\<rparr>]\<rparr>"

definition finish :: "nat \<Rightarrow> 'v watch_result \<Rightarrow> 'v atomic_watch \<Rightarrow> 'v atomic_watch" where
  "finish i r w =
     (let p = aw_procs w ! i
      in w\<lparr>aw_procs := (aw_procs w)[i := \<lparr>ap_ops = tl (ap_ops p), ap_pc = AtTop, ap_results = ap_results p @ [(hd (ap_ops p), r)]\<rparr>]\<rparr>)"

text \<open>The value of a version never changes, so reading it and testing it is part of the load.\<close>

definition load_step :: "nat \<Rightarrow> 'v atomic_watch \<Rightarrow> 'v atomic_watch option" where
  "load_step i w =
     (case at_work w i of
        Some (LoadOp, AtTop) \<Rightarrow> Some (finish i (Loaded (current w)) w)
      | Some (WaitOp pred, AtTop) \<Rightarrow>
          Some (if pred (current w) then finish i (Loaded (current w)) w
                else move_to i (AsleepOn (length (aw_versions w) - 1)) w)
      | _ \<Rightarrow> None)"

definition wake_step :: "nat \<Rightarrow> 'v atomic_watch \<Rightarrow> 'v atomic_watch option" where
  "wake_step i w =
     (case at_work w i of
        Some (WaitOp pred, AsleepOn k) \<Rightarrow> if vn_closed (aw_versions w ! k) then Some (move_to i AtTop w) else None
      | _ \<Rightarrow> None)"

definition give_up_waiting :: "nat \<Rightarrow> 'v atomic_watch \<Rightarrow> 'v atomic_watch option" where
  "give_up_waiting i w =
     (case (at_work w i, aw_ctx w i) of
        (Some (WaitOp pred, AsleepOn k), Some e) \<Rightarrow> Some (finish i (Gave e) w)
      | _ \<Rightarrow> None)"

definition swap_in :: "nat \<Rightarrow> 'v atomic_watch \<Rightarrow> 'v atomic_watch option" where
  "swap_in i w =
     (case at_work w i of
        Some (StoreOp v, AtTop) \<Rightarrow>
          Some (move_to i (HasSwapped (length (aw_versions w) - 1)) (w\<lparr>aw_versions := aw_versions w @ [newVersion v]\<rparr>))
      | _ \<Rightarrow> None)"

definition close_old :: "nat \<Rightarrow> 'v atomic_watch \<Rightarrow> 'v atomic_watch option" where
  "close_old i w =
     (case at_work w i of
        Some (StoreOp v, HasSwapped k) \<Rightarrow>
          Some (if vn_closed (aw_versions w ! k) then w\<lparr>aw_panic := True\<rparr>
                else finish i Stored (w\<lparr>aw_versions := (aw_versions w)[k := (aw_versions w ! k)\<lparr>vn_closed := True\<rparr>]\<rparr>))
      | _ \<Rightarrow> None)"

fun atomic_step :: "atomic_event \<Rightarrow> 'v atomic_watch \<Rightarrow> 'v atomic_watch option" where
  "atomic_step (LoadsIt i) w = load_step i w"
| "atomic_step (WakesUp i) w = wake_step i w"
| "atomic_step (GivesUpWaiting i) w = give_up_waiting i w"
| "atomic_step (SwapsIn i) w = swap_in i w"
| "atomic_step (ClosesOld i) w = close_old i w"
| "atomic_step (WatchCtxEnd i e) w = (if aw_ctx w i = None then Some (w\<lparr>aw_ctx := (aw_ctx w)(i := Some e)\<rparr>) else None)"

definition NewAtomicSend :: "'v \<Rightarrow> 'v watch_op list list \<Rightarrow> 'v atomic_watch" where
  "NewAtomicSend v progs =
     \<lparr>aw_versions = [newVersion v], aw_ctx = \<lambda>i. None,
      aw_procs = map (\<lambda>os. \<lparr>ap_ops = os, ap_pc = AtTop, ap_results = []\<rparr>) progs, aw_panic = False\<rparr>"

subsection \<open>Every version is closed once, by who replaced it\<close>

definition swapper_of :: "nat \<Rightarrow> 'v atomic_proc \<Rightarrow> bool" where
  "swapper_of k p \<longleftrightarrow> ap_pc p = HasSwapped k"

definition stored_values :: "'v atomic_watch \<Rightarrow> 'v set" where
  "stored_values w = vn_value ` set (aw_versions w)"

text \<open>A goroutine where it may be, with the results it may have.\<close>

fun place_ok :: "'v version list \<Rightarrow> 'v atomic_proc \<Rightarrow> bool" where
  "place_ok vs p =
     (case ap_pc p of
        AtTop \<Rightarrow> True
      | AsleepOn k \<Rightarrow> k < length vs \<and> (\<exists>pred rest. ap_ops p = WaitOp pred # rest \<and> \<not> pred (vn_value (vs ! k)))
      | HasSwapped k \<Rightarrow> k + 1 < length vs \<and> (\<exists>rest. ap_ops p = StoreOp (vn_value (vs ! (k + 1))) # rest))"

fun outcome_ok :: "'v set \<Rightarrow> 'v watch_op \<times> 'v watch_result \<Rightarrow> bool" where
  "outcome_ok vs (StoreOp v, r) = (r = Stored \<and> v \<in> vs)"
| "outcome_ok vs (LoadOp, r) = (\<exists>v \<in> vs. r = Loaded v)"
| "outcome_ok vs (WaitOp pred, r) = ((\<exists>v \<in> vs. r = Loaded v \<and> pred v) \<or> (\<exists>e. r = Gave e))"

definition atomic_ok :: "'v atomic_watch \<Rightarrow> bool" where
  "atomic_ok w \<longleftrightarrow> aw_versions w \<noteq> [] \<and> \<not> aw_panic w \<and> \<not> vn_closed (last (aw_versions w)) \<and>
     (\<forall>k. length (filter (swapper_of k) (aw_procs w)) =
        (if k + 1 < length (aw_versions w) \<and> \<not> vn_closed (aw_versions w ! k) then 1 else 0)) \<and>
     (\<forall>p \<in> set (aw_procs w). place_ok (aw_versions w) p \<and> (\<forall>x \<in> set (ap_results p). outcome_ok (stored_values w) x))"

definition to_close :: "'v atomic_watch \<Rightarrow> nat \<Rightarrow> nat" where
  "to_close w k = (if k + 1 < length (aw_versions w) \<and> \<not> vn_closed (aw_versions w ! k) then 1 else 0)"

lemma place_ok_mono:
  "place_ok vs p \<Longrightarrow> length vs \<le> length vs' \<Longrightarrow> (\<And>k. k < length vs \<Longrightarrow> vn_value (vs' ! k) = vn_value (vs ! k)) \<Longrightarrow> place_ok vs' p"
  by (auto split: atomic_pc.splits)

lemma outcome_ok_mono: "outcome_ok vs x \<Longrightarrow> vs \<subseteq> vs' \<Longrightarrow> outcome_ok vs' x"
  by (cases x; cases "fst x") auto

lemma at_workD:
  assumes "at_work w i = Some (oper, pc)"
  shows "i < length (aw_procs w) \<and> ap_pc (aw_procs w ! i) = pc \<and> (\<exists>rest. ap_ops (aw_procs w ! i) = oper # rest)"
  using assms by (auto simp: at_work_def split: if_splits list.splits)

lemma atomic_ok_update:
  assumes ok: "atomic_ok w" and i: "i < length (aw_procs w)" "aw_procs w' = (aw_procs w)[i := p]"
    and w': "aw_versions w' \<noteq> []" "\<not> aw_panic w'" "\<not> vn_closed (last (aw_versions w'))" "length (aw_versions w) \<le> length (aw_versions w')"
      "\<And>k. k < length (aw_versions w) \<Longrightarrow> vn_value (aw_versions w' ! k) = vn_value (aw_versions w ! k)"
    and cnt: "\<And>k. to_close w' k + (if swapper_of k (aw_procs w ! i) then 1 else 0) = to_close w k + (if swapper_of k p then 1 else 0)"
    and p: "place_ok (aw_versions w') p" "\<And>x. x \<in> set (ap_results p) \<Longrightarrow> outcome_ok (stored_values w') x"
  shows "atomic_ok w'"
proof -
  have sub: "stored_values w \<subseteq> stored_values w'"
  proof
    fix v
    assume "v \<in> stored_values w"
    then obtain k where "k < length (aw_versions w)" "v = vn_value (aw_versions w ! k)"
      by (auto simp: stored_values_def in_set_conv_nth)
    then show "v \<in> stored_values w'" using w'(4,5) by (auto simp: stored_values_def intro!: image_eqI [of _ _ "aw_versions w' ! k"])
  qed
  have "length (filter (swapper_of k) (aw_procs w')) = to_close w' k" for k
    using filter_update_count [OF i(1), of "swapper_of k" p] cnt [of k] ok unfolding i(2) atomic_ok_def to_close_def [symmetric]
    by (auto split: if_splits)
  moreover have "place_ok (aw_versions w') q \<and> (\<forall>x \<in> set (ap_results q). outcome_ok (stored_values w') x)"
    if "q \<in> set (aw_procs w')" for q
  proof (cases "q = p")
    case False
    then have "q \<in> set (aw_procs w)" using that set_update_subset_insert [of "aw_procs w" i p] unfolding i(2) by auto
    then have q: "place_ok (aw_versions w) q" "\<forall>x \<in> set (ap_results q). outcome_ok (stored_values w) x"
      using ok unfolding atomic_ok_def by blast+
    from place_ok_mono [OF q(1) w'(4,5)] q(2) outcome_ok_mono [OF _ sub] show ?thesis by blast
  qed (use p in blast)
  ultimately show ?thesis using w'(1-3) unfolding atomic_ok_def to_close_def [symmetric] by blast
qed

lemma atomic_ok_proc:
  assumes "atomic_ok w" "at_work w i = Some (oper, pc)"
  shows "place_ok (aw_versions w) (aw_procs w ! i)" "\<And>x. x \<in> set (ap_results (aw_procs w ! i)) \<Longrightarrow> outcome_ok (stored_values w) x"
  using assms at_workD [OF assms(2)] nth_mem [of i "aw_procs w"] unfolding atomic_ok_def by blast+

lemma current_stored: "atomic_ok w \<Longrightarrow> current w \<in> stored_values w"
  by (simp add: current_def stored_values_def atomic_ok_def)

lemma atomic_ok_finish:
  assumes ok: "atomic_ok w" and d: "at_work w i = Some (oper, pc)" "\<And>k. pc \<noteq> HasSwapped k" "outcome_ok (stored_values w) (oper, r)"
  shows "atomic_ok (finish i r w)"
proof -
  obtain rest where i: "i < length (aw_procs w)" "ap_pc (aw_procs w ! i) = pc" "ap_ops (aw_procs w ! i) = oper # rest"
    using at_workD [OF d(1)] by blast
  let ?p = "\<lparr>ap_ops = rest, ap_pc = AtTop, ap_results = ap_results (aw_procs w ! i) @ [(oper, r)]\<rparr>"
  have w': "finish i r w = w\<lparr>aw_procs := (aw_procs w)[i := ?p]\<rparr>" using i by (simp add: finish_def)
  have same: "stored_values (finish i r w) = stored_values w" by (simp add: w' stored_values_def)
  show ?thesis
    by (rule atomic_ok_update [OF ok i(1), of _ ?p])
      (use ok i d atomic_ok_proc [OF ok d(1)] in \<open>auto simp: w' same [unfolded w'] atomic_ok_def to_close_def swapper_of_def\<close>)
qed

lemma atomic_ok_move:
  assumes ok: "atomic_ok w" and d: "at_work w i = Some (oper, pc)" "\<And>k. pc \<noteq> HasSwapped k" "\<And>k. pc' \<noteq> HasSwapped k"
    "place_ok (aw_versions w) ((aw_procs w ! i)\<lparr>ap_pc := pc'\<rparr>)"
  shows "atomic_ok (move_to i pc' w)"
proof -
  have i: "i < length (aw_procs w)" "ap_pc (aw_procs w ! i) = pc" using at_workD [OF d(1)] by blast+
  have same: "stored_values (move_to i pc' w) = stored_values w" by (simp add: move_to_def stored_values_def)
  show ?thesis
    by (rule atomic_ok_update [OF ok i(1), of _ "(aw_procs w ! i)\<lparr>ap_pc := pc'\<rparr>"])
      (use ok i d atomic_ok_proc [OF ok d(1)] same in \<open>auto simp: move_to_def atomic_ok_def to_close_def swapper_of_def simp del: place_ok.simps\<close>)
qed

lemma atomic_ok_swap:
  assumes ok: "atomic_ok w" and d: "at_work w i = Some (StoreOp v, AtTop)"
  shows "atomic_ok (move_to i (HasSwapped (length (aw_versions w) - 1)) (w\<lparr>aw_versions := aw_versions w @ [newVersion v]\<rparr>))"
    (is "atomic_ok ?w")
proof -
  obtain rest where i: "i < length (aw_procs w)" "ap_pc (aw_procs w ! i) = AtTop" "ap_ops (aw_procs w ! i) = StoreOp v # rest"
    using at_workD [OF d] by blast
  have ne: "aw_versions w \<noteq> []" "\<not> vn_closed (last (aw_versions w))" using ok by (simp_all add: atomic_ok_def)
  then have last_open: "\<not> vn_closed (aw_versions w ! (length (aw_versions w) - 1))" by (simp add: last_conv_nth)
  have sv: "stored_values w \<subseteq> stored_values ?w" by (auto simp: stored_values_def move_to_def)
  let ?p = "(aw_procs w ! i)\<lparr>ap_pc := HasSwapped (length (aw_versions w) - 1)\<rparr>"
  have "to_close ?w k + (if swapper_of k (aw_procs w ! i) then 1 else 0) = to_close w k + (if swapper_of k ?p then 1 else 0)" for k
    using i(2) ne last_open by (auto simp: to_close_def move_to_def nth_append swapper_of_def)
  then show ?thesis
    by (intro atomic_ok_update [OF ok i(1), of _ ?p])
      (use ok i ne atomic_ok_proc [OF ok d] outcome_ok_mono [OF _ sv] in \<open>auto simp: move_to_def nth_append newVersion_def atomic_ok_def\<close>)
qed

lemma close_values: "map vn_value (vs[k := (vs ! k)\<lparr>vn_closed := True\<rparr>]) = map vn_value vs"
proof (cases "k < length vs")
  case True
  then show ?thesis by (simp add: map_update list_update_same_conv)
qed (simp add: list_update_beyond)

lemma atomic_ok_close:
  assumes ok: "atomic_ok w" and d: "at_work w i = Some (StoreOp v, HasSwapped k)"
  shows "\<not> vn_closed (aw_versions w ! k)"
    "atomic_ok (finish i Stored (w\<lparr>aw_versions := (aw_versions w)[k := (aw_versions w ! k)\<lparr>vn_closed := True\<rparr>]\<rparr>))" (is "atomic_ok ?w")
proof -
  obtain rest where i: "i < length (aw_procs w)" "ap_pc (aw_procs w ! i) = HasSwapped k" "ap_ops (aw_procs w ! i) = StoreOp v # rest"
    using at_workD [OF d] by blast
  have k: "k + 1 < length (aw_versions w)" using atomic_ok_proc(1) [OF ok d] i by simp
  have "aw_procs w ! i \<in> set (aw_procs w)" "swapper_of k (aw_procs w ! i)" using i by (simp_all add: swapper_of_def)
  then have "filter (swapper_of k) (aw_procs w) \<noteq> []" by (auto simp: filter_empty_conv)
  then show op: "\<not> vn_closed (aw_versions w ! k)" using ok unfolding atomic_ok_def by (metis length_0_conv)
  let ?p = "\<lparr>ap_ops = rest, ap_pc = AtTop, ap_results = ap_results (aw_procs w ! i) @ [(StoreOp v, Stored)]\<rparr>"
  let ?vs = "(aw_versions w)[k := (aw_versions w ! k)\<lparr>vn_closed := True\<rparr>]"
  have w': "?w = w\<lparr>aw_versions := ?vs, aw_procs := (aw_procs w)[i := ?p]\<rparr>" using i by (simp add: finish_def Let_def)
  have vals: "map vn_value ?vs = map vn_value (aw_versions w)"
    by (rule close_values)
  have val: "vn_value (?vs ! j) = vn_value (aw_versions w ! j)" if "j < length (aw_versions w)" for j
    using arg_cong [OF vals, of "\<lambda>xs. xs ! j"] that by simp
  have sv: "stored_values ?w = stored_values w"
    using arg_cong [OF vals, of set] by (simp add: w' stored_values_def)
  have "StoreOp v = StoreOp (vn_value (aw_versions w ! (k + 1)))" using atomic_ok_proc(1) [OF ok d] i by simp
  then have v: "v \<in> stored_values w" using k by (auto simp: stored_values_def)
  have "to_close ?w j + (if swapper_of j (aw_procs w ! i) then 1 else 0) = to_close w j + (if swapper_of j ?p then 1 else 0)" for j
    using i(2) k op by (auto simp: to_close_def w' swapper_of_def nth_list_update)
  then show "atomic_ok ?w"
    by (intro atomic_ok_update [OF ok i(1), of _ ?p])
      (use ok i k v val atomic_ok_proc(2) [OF ok d] in \<open>auto simp: w' sv [unfolded w'] atomic_ok_def last_conv_nth nth_list_update\<close>)
qed

lemma atomic_ok_step:
  assumes ok: "atomic_ok w" and step: "atomic_step ev w = Some w'"
  shows "atomic_ok w'"
proof (cases ev)
  case (LoadsIt i)
  then obtain oper where d: "at_work w i = Some (oper, AtTop)"
    "oper = LoadOp \<and> w' = finish i (Loaded (current w)) w \<or>
     (\<exists>pred. oper = WaitOp pred \<and> w' = (if pred (current w) then finish i (Loaded (current w)) w
        else move_to i (AsleepOn (length (aw_versions w) - 1)) w))"
    using step by (auto simp: load_step_def split: option.splits watch_op.splits atomic_pc.splits prod.splits)
  obtain rest where i: "ap_ops (aw_procs w ! i) = oper # rest" using at_workD [OF d(1)] by blast
  have ne: "aw_versions w \<noteq> []" using ok by (simp add: atomic_ok_def)
  from d(2) show ?thesis
  proof (elim disjE exE conjE)
    assume "oper = LoadOp" "w' = finish i (Loaded (current w)) w"
    then show ?thesis using current_stored [OF ok] by (auto intro: atomic_ok_finish [OF ok d(1)])
  next
    fix pred
    assume w': "oper = WaitOp pred" "w' = (if pred (current w) then finish i (Loaded (current w)) w
        else move_to i (AsleepOn (length (aw_versions w) - 1)) w)"
    show ?thesis
    proof (cases "pred (current w)")
      case True
      then show ?thesis using w' current_stored [OF ok] by (auto intro: atomic_ok_finish [OF ok d(1)])
    next
      case False
      then have "place_ok (aw_versions w) ((aw_procs w ! i)\<lparr>ap_pc := AsleepOn (length (aw_versions w) - 1)\<rparr>)"
        using i w'(1) ne by (simp add: current_def last_conv_nth)
      then show ?thesis using w'(2) False by (simp add: atomic_ok_move [OF ok d(1)] del: place_ok.simps)
    qed
  qed
next
  case (WakesUp i)
  then obtain pred k where d: "at_work w i = Some (WaitOp pred, AsleepOn k)" "w' = move_to i AtTop w"
    using step by (auto simp: wake_step_def split: option.splits watch_op.splits atomic_pc.splits if_splits prod.splits)
  show ?thesis unfolding d(2) by (rule atomic_ok_move [OF ok d(1)]) simp_all
next
  case (GivesUpWaiting i)
  then obtain pred k e where d: "at_work w i = Some (WaitOp pred, AsleepOn k)" "w' = finish i (Gave e) w"
    using step by (auto simp: give_up_waiting_def split: option.splits watch_op.splits atomic_pc.splits prod.splits)
  show ?thesis unfolding d(2) by (rule atomic_ok_finish [OF ok d(1)]) simp_all
next
  case (SwapsIn i)
  then obtain v where "at_work w i = Some (StoreOp v, AtTop)"
    "w' = move_to i (HasSwapped (length (aw_versions w) - 1)) (w\<lparr>aw_versions := aw_versions w @ [newVersion v]\<rparr>)"
    using step by (auto simp: swap_in_def split: option.splits watch_op.splits atomic_pc.splits prod.splits)
  then show ?thesis using atomic_ok_swap [OF ok] by simp
next
  case (ClosesOld i)
  then obtain v k where "at_work w i = Some (StoreOp v, HasSwapped k)"
    "w' = (if vn_closed (aw_versions w ! k) then w\<lparr>aw_panic := True\<rparr>
           else finish i Stored (w\<lparr>aw_versions := (aw_versions w)[k := (aw_versions w ! k)\<lparr>vn_closed := True\<rparr>]\<rparr>))"
    using step by (auto simp: close_old_def split: option.splits watch_op.splits atomic_pc.splits prod.splits)
  then show ?thesis using atomic_ok_close [OF ok] by simp
next
  case (WatchCtxEnd i e)
  then show ?thesis using ok step by (auto simp: atomic_ok_def stored_values_def split: if_splits simp del: place_ok.simps)
qed

lemma atomic_ok_start: "atomic_ok (NewAtomicSend v progs)"
  by (auto simp: atomic_ok_def NewAtomicSend_def newVersion_def swapper_of_def filter_empty_conv)

lemma atomic_ok_play: "play atomic_step evs (NewAtomicSend v progs) = Some w \<Longrightarrow> atomic_ok w"
  by (rule play_invariant [where I = atomic_ok, OF _ atomic_ok_start]) (rule atomic_ok_step)

text \<open>
  No update is missed: whoever sleeps although the current value is what it waits for can wake, at
  once or as soon as the goroutine that replaced its version has closed it.
\<close>

lemma atomic_sleeper_wakes:
  assumes ok: "atomic_ok w" and d: "at_work w i = Some (WaitOp pred, AsleepOn k)" "pred (current w)"
  shows "atomic_step (WakesUp i) w \<noteq> None \<or>
    (\<exists>j w'. atomic_step (ClosesOld j) w = Some w' \<and> atomic_step (WakesUp i) w' \<noteq> None)"
proof (cases "vn_closed (aw_versions w ! k)")
  case False
  have k: "k < length (aw_versions w)" "\<not> pred (vn_value (aw_versions w ! k))"
    using atomic_ok_proc(1) [OF ok d(1)] at_workD [OF d(1)] by auto
  have "k + 1 < length (aw_versions w)"
  proof (rule ccontr)
    assume "\<not> k + 1 < length (aw_versions w)"
    then have "k = length (aw_versions w) - 1" using k(1) by simp
    then show False using k d(2) ok by (simp add: current_def last_conv_nth atomic_ok_def)
  qed
  then have "length (filter (swapper_of k) (aw_procs w)) = 1" using False ok by (simp add: atomic_ok_def)
  then have "filter (swapper_of k) (aw_procs w) \<noteq> []" by (metis length_0_conv zero_neq_one)
  then obtain j where j: "j < length (aw_procs w)" "ap_pc (aw_procs w ! j) = HasSwapped k"
    by (auto simp: filter_empty_conv in_set_conv_nth swapper_of_def)
  have "place_ok (aw_versions w) (aw_procs w ! j)" using ok j(1) nth_mem unfolding atomic_ok_def by blast
  then obtain v rest where "ap_ops (aw_procs w ! j) = StoreOp v # rest" using j(2) by auto
  then have dj: "at_work w j = Some (StoreOp v, HasSwapped k)" using j ok by (simp add: at_work_def atomic_ok_def)
  let ?w = "finish j Stored (w\<lparr>aw_versions := (aw_versions w)[k := (aw_versions w ! k)\<lparr>vn_closed := True\<rparr>]\<rparr>)"
  have ij: "i \<noteq> j" using d(1) dj by auto
  have "at_work ?w i = Some (WaitOp pred, AsleepOn k)"
    using d(1) ij by (auto simp: at_work_def finish_def Let_def split: if_splits list.splits)
  moreover have "vn_closed (aw_versions ?w ! k)" using k(1) by (simp add: finish_def Let_def)
  ultimately have "atomic_step (WakesUp i) ?w \<noteq> None" by (simp add: wake_step_def)
  moreover have "atomic_step (ClosesOld j) w = Some ?w" using dj False by (simp add: close_old_def)
  ultimately show ?thesis by blast
qed (use d in \<open>simp add: wake_step_def\<close>)

subsection \<open>Handles of awaitable tasks\<close>

text \<open>
  \<open>Spawn1\<close> gives a task a watch that starts with nothing. Its goroutine stores the result, or returns the
  error to the scope and stores nothing; a \<open>Join\<close> waits until there is something.
\<close>

definition Spawn1_task :: "'r outcome \<Rightarrow> 'r option watch_op list \<times> go_error option" where
  "Spawn1_task result = (case result of Ok v \<Rightarrow> ([StoreOp (Some v)], None) | Err e \<Rightarrow> ([], Some e) | Panic m \<Rightarrow> ([], None))"

definition Join_op :: "'r option watch_op" where
  "Join_op = WaitOp (\<lambda>v. v \<noteq> None)"

definition Spawn1 :: "'r outcome \<Rightarrow> nat \<Rightarrow> 'r option atomic_watch" where
  "Spawn1 result joiners = NewAtomicSend None (fst (Spawn1_task result) # replicate joiners [Join_op])"

definition Join_result :: "'r option watch_result \<Rightarrow> 'r outcome" where
  "Join_result r = (case r of Loaded (Some v) \<Rightarrow> Ok v | Gave e \<Rightarrow> Err e | _ \<Rightarrow> Panic ''nil dereference'')"

text \<open>The only values a handle ever has are nothing and the result; operations only get fewer.\<close>

definition handle_ok :: "'r outcome \<Rightarrow> 'r option atomic_watch \<Rightarrow> bool" where
  "handle_ok result w \<longleftrightarrow> stored_values w \<subseteq> {None} \<union> {Some v | v. result = Ok v} \<and>
     (\<forall>p \<in> set (aw_procs w). \<forall>v. StoreOp v \<in> set (ap_ops p) \<longrightarrow> (\<exists>x. v = Some x \<and> result = Ok x))"

lemma ops_shrink:
  assumes "atomic_step ev w = Some w'"
  shows "\<forall>p \<in> set (aw_procs w'). \<exists>q \<in> set (aw_procs w). set (ap_ops p) \<subseteq> set (ap_ops q)"
proof -
  have fin: "\<exists>q \<in> set (aw_procs w). set (ap_ops p) \<subseteq> set (ap_ops q)"
    if "p \<in> set ((aw_procs w)[i := r])" "i < length (aw_procs w)" "set (ap_ops r) \<subseteq> set (ap_ops (aw_procs w ! i))" for p r i
    using that set_update_subset_insert [of "aw_procs w" i r] by (cases "p = r") auto
  have tl: "x \<in> set (tl xs) \<Longrightarrow> x \<in> set xs" for x and xs :: "'a watch_op list" by (cases xs) auto
  have len: "at_work w i = Some d \<Longrightarrow> i < length (aw_procs w)" for i d by (auto simp: at_work_def split: if_splits)
  show ?thesis
    using assms
    by (cases ev)
      (auto simp: load_step_def wake_step_def give_up_waiting_def swap_in_def close_old_def finish_def move_to_def Let_def
        split: option.splits watch_op.splits atomic_pc.splits if_splits prod.splits intro!: fin dest: tl dest!: len)
qed

lemma versions_step:
  assumes "atomic_step ev w = Some w'"
  shows "map vn_value (aw_versions w') = map vn_value (aw_versions w) \<or>
    (\<exists>i v. at_work w i = Some (StoreOp v, AtTop) \<and> aw_versions w' = aw_versions w @ [newVersion v])"
proof (cases ev)
  case (SwapsIn i)
  then obtain v where "at_work w i = Some (StoreOp v, AtTop)" "aw_versions w' = aw_versions w @ [newVersion v]"
    using assms by (auto simp: swap_in_def move_to_def split: option.splits watch_op.splits atomic_pc.splits prod.splits)
  then show ?thesis by blast
qed (use assms in \<open>auto simp: load_step_def wake_step_def give_up_waiting_def close_old_def finish_def move_to_def Let_def
    close_values split: option.splits watch_op.splits atomic_pc.splits if_splits prod.splits\<close>)

lemma handle_ok_step:
  assumes ok: "handle_ok result w" and step: "atomic_step ev w = Some w'"
  shows "handle_ok result w'"
proof -
  have ops: "\<forall>p \<in> set (aw_procs w'). \<forall>v. StoreOp v \<in> set (ap_ops p) \<longrightarrow> (\<exists>x. v = Some x \<and> result = Ok x)"
    using ok ops_shrink [OF step] unfolding handle_ok_def by blast
  have "stored_values w' \<subseteq> {None} \<union> {Some v | v. result = Ok v}"
    using versions_step [OF step]
  proof (elim disjE exE conjE)
    fix i v
    assume d: "at_work w i = Some (StoreOp v, AtTop)" "aw_versions w' = aw_versions w @ [newVersion v]"
    from at_workD [OF d(1)] have "aw_procs w ! i \<in> set (aw_procs w)" "StoreOp v \<in> set (ap_ops (aw_procs w ! i))" by auto
    then have "\<exists>x. v = Some x \<and> result = Ok x" using ok unfolding handle_ok_def by blast
    then show ?thesis using ok d(2) by (auto simp: handle_ok_def stored_values_def newVersion_def)
  next
    assume "map vn_value (aw_versions w') = map vn_value (aw_versions w)"
    then have "stored_values w' = stored_values w" unfolding stored_values_def by (metis set_map)
    then show ?thesis using ok by (simp add: handle_ok_def)
  qed
  then show ?thesis using ops by (simp add: handle_ok_def)
qed

text \<open>So whatever a \<open>Join\<close> returns is the task's own result, or the error of the joiner's context.\<close>

lemma Join_returns_result:
  assumes "play atomic_step evs (Spawn1 result n) = Some w" "p \<in> set (aw_procs w)" "(Join_op, r) \<in> set (ap_results p)"
  shows "Join_result r = result \<and> (\<exists>v. result = Ok v) \<or> (\<exists>e. Join_result r = Err e \<and> r = Gave e)"
proof -
  have "atomic_ok w" by (rule atomic_ok_play [OF assms(1) [unfolded Spawn1_def]])
  then have "outcome_ok (stored_values w) (Join_op, r)" using assms(2,3) unfolding atomic_ok_def by blast
  moreover have "handle_ok result (Spawn1 result n)"
    by (cases result) (auto simp: handle_ok_def Spawn1_def Spawn1_task_def NewAtomicSend_def stored_values_def newVersion_def Join_op_def)
  then have "handle_ok result w"
    by (rule play_invariant [where I = "handle_ok result", OF _ _ assms(1), rotated]) (rule handle_ok_step)
  ultimately show ?thesis by (auto simp: Join_op_def handle_ok_def Join_result_def)
qed

end
