(* ===== verification/Handles.thy ===== *)
theory Handles
  imports AtomicWatch
begin

text \<open>
  A task outside every scope and its handle (\<open>SpawnGlobal\<close> of \<open>utils/scope/global.go\<close>), the loop over the
  values of an atomic watch (\<open>Iter\<close> of \<open>utils/mutex.go\<close>), and \<open>Run1\<close> (\<open>utils/scope/start.go\<close>).
\<close>

subsection \<open>A global task\<close>

text \<open>The task runs; it has stored its result; it has closed \<open>done\<close>.\<close>

datatype global_phase = TaskRunning | ResultStored | DoneClosed

datatype handle_op = JoinIt | TerminateIt | WhileRunningIt

datatype 'v handle_result = Read "'v option" | JoinFailed go_error | SkippedF | RanF "go_error option"

text \<open>A client: at the top; in \<open>Terminate\<close> past the cancel; in the function of \<open>WhileRunning\<close>, whose context may be over.\<close>

datatype handle_pc = ClientTop | AwaitsDone | InF bool

record 'v handle_client =
  hc_ops :: "handle_op list"
  hc_pc :: handle_pc
  hc_results :: "(handle_op \<times> 'v handle_result) list"

record 'v global_handle =
  gh_phase :: global_phase
  gh_cancelled :: bool
  gh_res :: "'v option"
  gh_ctx :: "nat \<Rightarrow> go_error option"
  gh_clients :: "'v handle_client list"

datatype 'v handle_event =
    TaskStores 'v
  | TaskCloses
  | Joins nat
  | JoinGivesUp nat
  | TermCancels nat
  | TermReturns nat
  | Enters nat
  | InnerCancelled nat
  | Leaves nat "go_error option"
  | ClientCtxEnd nat go_error

definition SpawnGlobal :: "handle_op list list \<Rightarrow> 'v global_handle" where
  "SpawnGlobal progs =
     \<lparr>gh_phase = TaskRunning, gh_cancelled = False, gh_res = None, gh_ctx = \<lambda>i. None,
      gh_clients = map (\<lambda>os. \<lparr>hc_ops = os, hc_pc = ClientTop, hc_results = []\<rparr>) progs\<rparr>"

definition client_at :: "'v global_handle \<Rightarrow> nat \<Rightarrow> (handle_op \<times> handle_pc) option" where
  "client_at h i =
     (if i < length (gh_clients h) then
        (case hc_ops (gh_clients h ! i) of [] \<Rightarrow> None | oper # _ \<Rightarrow> Some (oper, hc_pc (gh_clients h ! i)))
      else None)"

definition client_to :: "nat \<Rightarrow> handle_pc \<Rightarrow> 'v global_handle \<Rightarrow> 'v global_handle" where
  "client_to i pc h = h\<lparr>gh_clients := (gh_clients h)[i := (gh_clients h ! i)\<lparr>hc_pc := pc\<rparr>]\<rparr>"

definition client_done :: "nat \<Rightarrow> 'v handle_result \<Rightarrow> 'v global_handle \<Rightarrow> 'v global_handle" where
  "client_done i r h =
     (let p = gh_clients h ! i
      in h\<lparr>gh_clients := (gh_clients h)[i := \<lparr>hc_ops = tl (hc_ops p), hc_pc = ClientTop,
             hc_results = hc_results p @ [(hd (hc_ops p), r)]\<rparr>]\<rparr>)"

text \<open>
  \<open>Join\<close> reads the result once \<open>done\<close> is closed, or gives up with its context; \<open>Terminate\<close> cancels and waits for
  \<open>done\<close> alone; \<open>WhileRunning\<close> runs its function unless \<open>done\<close> is closed already, and ends its context with \<open>done\<close>.
\<close>

fun handle_step :: "'v handle_event \<Rightarrow> 'v global_handle \<Rightarrow> 'v global_handle option" where
  "handle_step (TaskStores v) h =
     (if gh_phase h = TaskRunning then Some (h\<lparr>gh_phase := ResultStored, gh_res := Some v\<rparr>) else None)"
| "handle_step TaskCloses h = (if gh_phase h = ResultStored then Some (h\<lparr>gh_phase := DoneClosed\<rparr>) else None)"
| "handle_step (Joins i) h =
     (if client_at h i = Some (JoinIt, ClientTop) \<and> gh_phase h = DoneClosed then Some (client_done i (Read (gh_res h)) h) else None)"
| "handle_step (JoinGivesUp i) h =
     (case (client_at h i, gh_ctx h i) of
        (Some (JoinIt, ClientTop), Some e) \<Rightarrow> Some (client_done i (JoinFailed e) h)
      | _ \<Rightarrow> None)"
| "handle_step (TermCancels i) h =
     (if client_at h i = Some (TerminateIt, ClientTop) then Some (client_to i AwaitsDone (h\<lparr>gh_cancelled := True\<rparr>)) else None)"
| "handle_step (TermReturns i) h =
     (if client_at h i = Some (TerminateIt, AwaitsDone) \<and> gh_phase h = DoneClosed then Some (client_done i (Read (gh_res h)) h)
      else None)"
| "handle_step (Enters i) h =
     (if client_at h i = Some (WhileRunningIt, ClientTop) then
        Some (if gh_phase h = DoneClosed then client_done i SkippedF h else client_to i (InF False) h)
      else None)"
| "handle_step (InnerCancelled i) h =
     (if client_at h i = Some (WhileRunningIt, InF False) \<and> (gh_phase h = DoneClosed \<or> gh_ctx h i \<noteq> None)
      then Some (client_to i (InF True) h) else None)"
| "handle_step (Leaves i r) h =
     (case client_at h i of
        Some (WhileRunningIt, InF b) \<Rightarrow> Some (client_done i (RanF r) h)
      | _ \<Rightarrow> None)"
| "handle_step (ClientCtxEnd i e) h =
     (if gh_ctx h i = None then Some (h\<lparr>gh_ctx := (gh_ctx h)(i := Some e)\<rparr>) else None)"

text \<open>What a caller of \<open>WhileRunning\<close> gets: \<open>Canceled\<close> if its function was skipped.\<close>

definition WhileRunning_result :: "'v handle_result \<Rightarrow> go_error option" where
  "WhileRunning_result r = (case r of RanF e \<Rightarrow> e | _ \<Rightarrow> Some Canceled)"

text \<open>\<open>WhileRunning1\<close> keeps what its function returned last: nothing, if it was skipped.\<close>

definition WhileRunning1_result :: "'v handle_result \<Rightarrow> 'r \<Rightarrow> 'r option \<times> go_error option" where
  "WhileRunning1_result r x = (case r of RanF e \<Rightarrow> (Some x, e) | _ \<Rightarrow> (None, Some Canceled))"

definition result_read :: "'v global_handle \<Rightarrow> handle_op \<times> 'v handle_result \<Rightarrow> bool" where
  "result_read h x \<longleftrightarrow>
     (case snd x of
        Read v \<Rightarrow> gh_phase h = DoneClosed \<and> v = gh_res h \<and> fst x \<noteq> WhileRunningIt \<and> (fst x = TerminateIt \<longrightarrow> gh_cancelled h)
      | JoinFailed e \<Rightarrow> fst x = JoinIt
      | SkippedF \<Rightarrow> gh_phase h = DoneClosed \<and> fst x = WhileRunningIt
      | RanF r \<Rightarrow> fst x = WhileRunningIt)"

definition gh_ok :: "'v global_handle \<Rightarrow> bool" where
  "gh_ok h \<longleftrightarrow> (gh_phase h = TaskRunning \<longleftrightarrow> gh_res h = None) \<and>
     (\<forall>c \<in> set (gh_clients h). (hc_pc c = AwaitsDone \<longrightarrow> gh_cancelled h) \<and> (\<forall>x \<in> set (hc_results c). result_read h x))"

lemma client_atD:
  assumes "client_at h i = Some (oper, pc)"
  shows "i < length (gh_clients h)" "hc_pc (gh_clients h ! i) = pc" "hd (hc_ops (gh_clients h ! i)) = oper"
  using assms by (auto simp: client_at_def split: if_splits list.splits)

lemma gh_ok_client:
  assumes "gh_ok h" "i < length (gh_clients h)" "hc_pc c = AwaitsDone \<longrightarrow> gh_cancelled h"
    "\<And>x. x \<in> set (hc_results c) \<Longrightarrow> x \<in> set (hc_results (gh_clients h ! i)) \<or> result_read h x"
  shows "gh_ok (h\<lparr>gh_clients := (gh_clients h)[i := c]\<rparr>)"
proof -
  have rr: "result_read (h\<lparr>gh_clients := cs\<rparr>) x = result_read h x" for cs x
    by (cases "snd x") (simp_all add: result_read_def)
  have "gh_clients h ! i \<in> set (gh_clients h)" using assms(2) by simp
  then have c: "\<forall>x \<in> set (hc_results c). result_read h x" using assms(1,4) unfolding gh_ok_def by blast
  have "(hc_pc q = AwaitsDone \<longrightarrow> gh_cancelled h) \<and> (\<forall>x \<in> set (hc_results q). result_read h x)"
    if "q \<in> set ((gh_clients h)[i := c])" for q
    using that set_update_subset_insert [of "gh_clients h" i c] assms(1,3) c unfolding gh_ok_def by blast
  then show ?thesis using assms(1) unfolding gh_ok_def rr by simp
qed

lemma gh_ok_done:
  "gh_ok h \<Longrightarrow> client_at h i = Some (oper, pc) \<Longrightarrow> result_read h (oper, r) \<Longrightarrow> gh_ok (client_done i r h)"
  unfolding client_done_def Let_def using client_atD [of h i oper pc] by (intro gh_ok_client) auto

lemma gh_ok_to:
  "gh_ok h \<Longrightarrow> client_at h i = Some (oper, pc') \<Longrightarrow> (pc = AwaitsDone \<longrightarrow> gh_cancelled h) \<Longrightarrow> gh_ok (client_to i pc h)"
  unfolding client_to_def using client_atD [of h i oper pc'] by (intro gh_ok_client) auto

lemma gh_ok_grows:
  assumes "gh_ok h" "gh_clients h' = gh_clients h" "gh_phase h' = TaskRunning \<longleftrightarrow> gh_res h' = None"
    "gh_cancelled h \<longrightarrow> gh_cancelled h'" "gh_phase h = DoneClosed \<longrightarrow> gh_phase h' = DoneClosed \<and> gh_res h' = gh_res h"
  shows "gh_ok h'"
proof -
  have "result_read h x \<Longrightarrow> result_read h' x" for x using assms(4,5) by (auto simp: result_read_def split: handle_result.splits)
  then show ?thesis using assms unfolding gh_ok_def by auto
qed

lemma gh_ok_step:
  assumes ok: "gh_ok h" and step: "handle_step ev h = Some h'"
  shows "gh_ok h'"
proof (cases ev)
  case (TaskStores v)
  then show ?thesis using step by (intro gh_ok_grows [OF ok]) (auto split: if_splits)
next
  case TaskCloses
  then show ?thesis using step ok by (intro gh_ok_grows [OF ok]) (auto simp: gh_ok_def split: if_splits)
next
  case (TermCancels i)
  then have d: "client_at h i = Some (TerminateIt, ClientTop)" "h' = client_to i AwaitsDone (h\<lparr>gh_cancelled := True\<rparr>)"
    using step by (auto split: if_splits)
  have "gh_ok (h\<lparr>gh_cancelled := True\<rparr>)" using ok by (intro gh_ok_grows [OF ok]) (auto simp: gh_ok_def)
  moreover have "client_at (h\<lparr>gh_cancelled := True\<rparr>) i = Some (TerminateIt, ClientTop)" using d(1)
    by (auto simp: client_at_def split: if_splits list.splits)
  ultimately show ?thesis unfolding d(2) by (rule gh_ok_to) simp
next
  case (TermReturns i)
  then have d: "client_at h i = Some (TerminateIt, AwaitsDone)" "gh_phase h = DoneClosed" "h' = client_done i (Read (gh_res h)) h"
    using step by (auto split: if_splits)
  have "gh_clients h ! i \<in> set (gh_clients h)" using client_atD [OF d(1)] by simp
  then have "gh_cancelled h" using ok client_atD(2) [OF d(1)] unfolding gh_ok_def by blast
  then show ?thesis unfolding d(3) by (intro gh_ok_done [OF ok d(1)]) (simp add: result_read_def d(2))
next
  case (ClientCtxEnd i e)
  then show ?thesis using step ok by (intro gh_ok_grows [OF ok]) (auto simp: gh_ok_def split: if_splits)
qed (use step ok in \<open>auto simp: result_read_def split: if_splits option.splits handle_op.splits handle_pc.splits prod.splits
    intro!: gh_ok_done gh_ok_to\<close>)

text \<open>
  Whoever reads the result reads what the task returned, after it returned it; \<open>Terminate\<close> returns only when
  the task is over, and a function is skipped only then.
\<close>

lemma global_handle_reads:
  assumes "play handle_step evs (SpawnGlobal progs) = Some h" "c \<in> set (gh_clients h)" "(oper, r) \<in> set (hc_results c)"
  shows "(\<forall>v. r = Read v \<longrightarrow> gh_phase h = DoneClosed \<and> v = gh_res h \<and> v \<noteq> None)"
    "oper = TerminateIt \<Longrightarrow> gh_cancelled h \<and> (\<exists>v. r = Read v)"
    "oper = WhileRunningIt \<Longrightarrow> r = SkippedF \<and> gh_phase h = DoneClosed \<or> (\<exists>e. r = RanF e)"
proof -
  have "gh_ok (SpawnGlobal progs :: 'a global_handle)" by (auto simp: gh_ok_def SpawnGlobal_def)
  then have ok: "gh_ok h" by (rule play_invariant [where I = gh_ok, OF _ _ assms(1), rotated]) (rule gh_ok_step)
  then have r: "result_read h (oper, r)" using assms(2,3) unfolding gh_ok_def by blast
  show "\<forall>v. r = Read v \<longrightarrow> gh_phase h = DoneClosed \<and> v = gh_res h \<and> v \<noteq> None"
    using r ok by (auto simp: result_read_def gh_ok_def)
  show "oper = TerminateIt \<Longrightarrow> gh_cancelled h \<and> (\<exists>v. r = Read v)"
    "oper = WhileRunningIt \<Longrightarrow> r = SkippedF \<and> gh_phase h = DoneClosed \<or> (\<exists>e. r = RanF e)"
    using r by (auto simp: result_read_def split: handle_result.splits)
qed

subsection \<open>A loop over the values of a watch\<close>

text \<open>
  One round of \<open>Iter\<close>: the value that was loaded, the error its function returned, and whether it returned
  it before the other goroutine of the group saw an update or a cancelled context. The group returns the
  first error; the other goroutine's is always \<open>Canceled\<close>.
\<close>

record 'v iter_round =
  ir_value :: 'v
  ir_error :: "go_error option"
  ir_first :: bool

definition group_error :: "'v iter_round \<Rightarrow> go_error" where
  "group_error r = (case ir_error r of Some e \<Rightarrow> if ir_first r then e else Canceled | None \<Rightarrow> Canceled)"

fun Iter :: "(go_error option \<times> 'v iter_round) list \<Rightarrow> go_error option \<times> 'v list" where
  "Iter [] = (None, [])"
| "Iter ((Some e, r) # rs) = (Some e, [])"
| "Iter ((None, r) # rs) =
     (case IgnoreCancel (Some (group_error r)) of
        Some e \<Rightarrow> (Some e, [ir_value r])
      | None \<Rightarrow> (case Iter rs of (x, vs) \<Rightarrow> (x, ir_value r # vs)))"

text \<open>
  An error of the function is returned exactly if it came first and is no cancellation: one that comes
  after the value was replaced is lost and the loop goes on.
\<close>

lemma Iter_round:
  "Iter ((None, r) # rs) = (if ir_first r \<and> (\<exists>e. ir_error r = Some e \<and> \<not> errors_is e Canceled) then (ir_error r, [ir_value r])
     else (fst (Iter rs), ir_value r # snd (Iter rs)))"
  by (auto simp: group_error_def IgnoreCancel_def split: option.splits prod.splits)

subsection \<open>\<open>Run1\<close>\<close>

text \<open>A scope whose main function also returns a value: the value and the error of the scope.\<close>

definition Run1 :: "scope_state \<Rightarrow> 'r \<Rightarrow> ('r \<times> go_error option) option" where
  "Run1 s res = (case sp_pc s of ScopeDone err \<Rightarrow> Some (res, err) | _ \<Rightarrow> None)"

lemma Run1_ok:
  assumes "play scope_step evs Run_scope = Some s" "Run1 s res = Some (x, None)"
  shows "x = res" "\<forall>t \<in> set (sp_tasks s). tk_phase t = Gone None"
proof -
  have pc: "sp_pc s = ScopeDone None" and "x = res" using assms(2) by (auto simp: Run1_def split: run_pc.splits)
  then show "x = res" by blast
  show "\<forall>t \<in> set (sp_tasks s). tk_phase t = Gone None" using scope_joined(1) [OF assms(1) pc] by fastforce
qed

end
