(* ===== verification/Locks.thy ===== *)
theory Locks
  imports Scope
begin

text \<open>
  The locks (\<open>Mutex\<close> and \<open>RWMutex\<close> of \<open>utils/mutex.go\<close>): a loop over \<open>Lock()\<close> or \<open>RLock()\<close> is the
  critical section of its body. A step is one action of one goroutine, and what a body does with the guarded object is any
  number of looks and changes. \<open>Mutex\<close> is the same lock with no readers. That a section is not interleaved with any other
  is what lets the other theories make each critical section one step.
\<close>

subsection \<open>The lock\<close>

text \<open>
  A goroutine that writes first keeps other writers out (\<open>rw_claim\<close>), which also stops new readers, and then waits for the
  readers that are still there.
\<close>

record 'v rw_mutex =
  rw_value :: 'v
  rw_claim :: "nat option"
  rw_writer :: "nat option"
  rw_readers :: "nat list"

definition NewRWMutex :: "'v \<Rightarrow> 'v rw_mutex" where
  "NewRWMutex v = \<lparr>rw_value = v, rw_claim = None, rw_writer = None, rw_readers = []\<rparr>"

definition NewMutex :: "'v \<Rightarrow> 'v rw_mutex" where
  "NewMutex v = NewRWMutex v"

datatype 'v lock_event =
    Claims nat
  | TakesLock nat
  | Unlocks nat
  | TakesRLock nat
  | RUnlocks nat
  | Changes nat "'v \<Rightarrow> 'v"
  | Looks nat

fun lock_step :: "'v lock_event \<Rightarrow> 'v rw_mutex \<Rightarrow> 'v rw_mutex option" where
  "lock_step (Claims i) s = (if rw_claim s = None \<and> rw_writer s = None then Some (s\<lparr>rw_claim := Some i\<rparr>) else None)"
| "lock_step (TakesLock i) s =
     (if rw_claim s = Some i \<and> rw_readers s = [] then Some (s\<lparr>rw_claim := None, rw_writer := Some i\<rparr>) else None)"
| "lock_step (Unlocks i) s = (if rw_writer s = Some i then Some (s\<lparr>rw_writer := None\<rparr>) else None)"
| "lock_step (TakesRLock i) s =
     (if rw_claim s = None \<and> rw_writer s = None then Some (s\<lparr>rw_readers := i # rw_readers s\<rparr>) else None)"
| "lock_step (RUnlocks i) s =
     (if i \<in> set (rw_readers s) then Some (s\<lparr>rw_readers := remove1 i (rw_readers s)\<rparr>) else None)"
| "lock_step (Changes i f) s = (if rw_writer s = Some i then Some (s\<lparr>rw_value := f (rw_value s)\<rparr>) else None)"
| "lock_step (Looks i) s = (if rw_writer s = Some i \<or> i \<in> set (rw_readers s) then Some s else None)"

text \<open>
  A loop over the iterator: the lock is taken, the body runs once, and the lock is released, whether the body ends, breaks,
  returns or panics. The receiver is a pointer; a nil one panics before the body.
\<close>

definition nil_deref :: string where
  "nil_deref = ''invalid memory address or nil pointer dereference''"

definition RWMutex_Lock :: "nat \<Rightarrow> 'm option \<Rightarrow> 'v lock_event list \<Rightarrow> 'v lock_event list outcome" where
  "RWMutex_Lock i m body = (case m of None \<Rightarrow> Panic nil_deref | Some _ \<Rightarrow> Ok (Claims i # TakesLock i # body @ [Unlocks i]))"

definition RWMutex_RLock :: "nat \<Rightarrow> 'm option \<Rightarrow> 'v lock_event list \<Rightarrow> 'v lock_event list outcome" where
  "RWMutex_RLock i m body = (case m of None \<Rightarrow> Panic nil_deref | Some _ \<Rightarrow> Ok (TakesRLock i # body @ [RUnlocks i]))"

definition Mutex_Lock :: "nat \<Rightarrow> 'm option \<Rightarrow> 'v lock_event list \<Rightarrow> 'v lock_event list outcome" where
  "Mutex_Lock i m body = RWMutex_Lock i m body"

text \<open>What a body may do under each lock.\<close>

definition writing :: "nat \<Rightarrow> 'v lock_event \<Rightarrow> bool" where
  "writing i e \<longleftrightarrow> e = Looks i \<or> (\<exists>f. e = Changes i f)"

definition effect :: "'v lock_event list \<Rightarrow> 'v \<Rightarrow> 'v" where
  "effect es v = fold (\<lambda>e v. case e of Changes i f \<Rightarrow> f v | _ \<Rightarrow> v) es v"

subsection \<open>Exclusion\<close>

definition lock_ok :: "'v rw_mutex \<Rightarrow> bool" where
  "lock_ok s \<longleftrightarrow> (rw_writer s \<noteq> None \<longrightarrow> rw_readers s = [] \<and> rw_claim s = None)"

lemma lock_ok_step: "lock_ok s \<Longrightarrow> lock_step e s = Some s' \<Longrightarrow> lock_ok s'"
  by (cases e) (auto simp: lock_ok_def split: if_splits)

lemma lock_ok_play: "play lock_step es (NewRWMutex v) = Some s \<Longrightarrow> lock_ok s"
  by (rule play_invariant [where I = lock_ok and step = lock_step, OF lock_ok_step]) (simp_all add: lock_ok_def NewRWMutex_def)

lemma effect_simps [simp]:
  "effect [] v = v" "effect (Changes i f # es) v = effect es (f v)" "effect (Looks i # es) v = effect es v"
  "effect (Claims i # es) v = effect es v" "effect (TakesLock i # es) v = effect es v" "effect (Unlocks i # es) v = effect es v"
  "effect (TakesRLock i # es) v = effect es v" "effect (RUnlocks i # es) v = effect es v"
  by (simp_all add: effect_def)

lemma value_play: "play lock_step es s = Some s' \<Longrightarrow> rw_value s' = effect es (rw_value s)"
proof (induction es arbitrary: s)
  case (Cons e es)
  then show ?case by (cases e) (auto split: option.splits if_splits)
qed simp

text \<open>While a goroutine has the lock, every step is one of its own body, until it unlocks.\<close>

lemma held_until_unlock:
  "play lock_step es s = Some s' \<Longrightarrow> lock_ok s \<Longrightarrow> rw_writer s = Some i \<Longrightarrow> Unlocks i \<notin> set es \<Longrightarrow>
     rw_writer s' = Some i \<and> (\<forall>e \<in> set es. writing i e)"
proof (induction es arbitrary: s)
  case (Cons e es)
  from Cons.prems(1) obtain s1 where s1: "lock_step e s = Some s1" "play lock_step es s1 = Some s'" by (auto split: option.splits)
  have "rw_writer s1 = Some i \<and> writing i e"
    using s1(1) Cons.prems(2-4) by (cases e) (auto simp: lock_ok_def writing_def split: if_splits)
  then show ?case using Cons.IH [OF s1(2) lock_ok_step [OF Cons.prems(2) s1(1)]] Cons.prems(4) by simp
qed simp

text \<open>While one reads, nothing changes.\<close>

lemma read_until_unlock:
  "play lock_step es s = Some s' \<Longrightarrow> lock_ok s \<Longrightarrow> i \<in> set (rw_readers s) \<Longrightarrow> RUnlocks i \<notin> set es \<Longrightarrow>
     i \<in> set (rw_readers s') \<and> (\<forall>e \<in> set es. \<forall>j f. e \<noteq> Changes j f)"
proof (induction es arbitrary: s)
  case (Cons e es)
  from Cons.prems(1) obtain s1 where s1: "lock_step e s = Some s1" "play lock_step es s1 = Some s'" by (auto split: option.splits)
  have "i \<in> set (rw_readers s1) \<and> (\<forall>j f. e \<noteq> Changes j f)"
    using s1(1) Cons.prems(2-4) by (cases e) (auto simp: lock_ok_def split: if_splits)
  then show ?case using Cons.IH [OF s1(2) lock_ok_step [OF Cons.prems(2) s1(1)]] Cons.prems(4) by simp
qed simp

lemma unchanged_effect: "\<forall>e \<in> set es. \<forall>j f. e \<noteq> Changes j f \<Longrightarrow> effect es v = v"
proof (induction es)
  case (Cons e es)
  then show ?case by (cases e) auto
qed simp

text \<open>A run through a section, cut where the lock is taken.\<close>

lemma section_played:
  assumes "play lock_step es s = Some s'" "es = pre @ e # mid @ post"
  shows "\<exists>s1 s1' s2. play lock_step pre s = Some s1 \<and> lock_step e s1 = Some s1' \<and> play lock_step mid s1' = Some s2"
  using assms by (auto simp: play_append split: option.splits)

subsection \<open>Progress\<close>

text \<open>
  Somebody can always go on: a free lock can be claimed, a claimed one is taken as soon as the readers have left, and each
  reader can leave. Once a writer has its claim no reader enters, so the readers it waits for only get fewer.
\<close>

lemma lock_progress:
  assumes "lock_ok s"
  shows "rw_writer s = None \<and> rw_claim s = None \<and> (\<forall>i. lock_step (Claims i) s \<noteq> None \<and> lock_step (TakesRLock i) s \<noteq> None) \<or>
    (\<exists>j. rw_writer s = Some j \<and> lock_step (Unlocks j) s \<noteq> None) \<or>
    (\<exists>j. rw_claim s = Some j \<and> (lock_step (TakesLock j) s \<noteq> None \<or> (\<exists>k. lock_step (RUnlocks k) s \<noteq> None)))"
proof (cases "rw_writer s"; cases "rw_claim s"; cases "rw_readers s")
qed (use assms in \<open>auto simp: lock_ok_def\<close>)

lemma claim_kept:
  assumes "lock_step e s = Some s'" "rw_claim s = Some i" "rw_writer s = None"
  shows "e = TakesLock i \<and> rw_writer s' = Some i \<or>
    rw_claim s' = Some i \<and> rw_writer s' = None \<and>
      length (rw_readers s') + (case e of RUnlocks k \<Rightarrow> 1 | _ \<Rightarrow> 0) = length (rw_readers s)"
proof (cases "\<exists>k. e = RUnlocks k")
  case True
  then obtain k where e: "e = RUnlocks k" by blast
  then have k: "k \<in> set (rw_readers s)" using assms(1) by (simp split: if_splits)
  then have "0 < length (rw_readers s)" by (rule length_pos_if_in_set)
  then show ?thesis using assms k e by (auto simp: length_remove1)
qed (use assms in \<open>cases e; auto split: if_splits\<close>)

subsection \<open>Loops\<close>

text \<open>Whoever waits, a loop of a free lock runs, and leaves it free and changed by its body.\<close>

lemma play_writing:
  "rw_writer s = Some i \<Longrightarrow> \<forall>e \<in> set body. writing i e \<Longrightarrow>
     play lock_step body s = Some (s\<lparr>rw_value := effect body (rw_value s)\<rparr>)"
proof (induction body arbitrary: s)
  case (Cons e es)
  then show ?case by (auto simp: writing_def)
qed simp

lemma Lock_runs:
  assumes "\<forall>e \<in> set body. writing i e"
  shows "\<exists>es. RWMutex_Lock i (Some m) body = Ok es \<and>
    play lock_step es (NewRWMutex v) = Some (NewRWMutex (effect body v))"
  using play_writing [OF _ assms, of "\<lparr>rw_value = v, rw_claim = None, rw_writer = Some i, rw_readers = []\<rparr>"]
  by (simp add: RWMutex_Lock_def NewRWMutex_def play_append)

lemma Lock_nil: "RWMutex_Lock i None body = Panic nil_deref" "RWMutex_RLock i None body = Panic nil_deref" "Mutex_Lock i None body = Panic nil_deref"
  by (simp_all add: RWMutex_Lock_def RWMutex_RLock_def Mutex_Lock_def)

end
