(* ===== verification/SyncProps.thy ===== *)
theory SyncProps
  imports Channels Waits Handles Locks
begin

text \<open>
  The properties of the concurrency helpers of \<open>utils\<close>: channels, polling and awaitable tasks.
\<close>

subsection \<open>Channels\<close>

text \<open>
  C27. A channel delivers what was sent, once and in order: at any time the values sent are those
  received followed by those in the buffer, which never exceeds its capacity; the deliveries
  reported to senders and the values returned to receivers are exactly these; a \<open>Recv\<close> returns a
  value or the error of its context, never a closed channel; a \<open>SendOrDrop\<close> never waits; and an
  operation whose context is over can return.
\<close>

theorem channel_delivers_once:
  assumes "play chan_step evs (chan_start cap progs) = Some s"
  shows "cs_sent s = cs_got s @ gc_buf (cs_chan s) \<and> length (gc_buf (cs_chan s)) \<le> cap \<and>
    collected delivered_of s = mset (cs_sent s) \<and> collected got_of s = mset (cs_got s) \<and>
    (\<forall>i < length (cs_procs s). \<forall>x \<in> set (cp_results (cs_procs s ! i)).
       result_ok (cs_ctx s i) (gc_closed (cs_chan s)) (cs_done s) x) \<and>
    (\<forall>i v pc. doing s i = Some (OpSendOrDrop v, pc) \<longrightarrow>
       chan_step (Puts i) s \<noteq> None \<or> chan_step (DropsIt i) s \<noteq> None \<or> (\<exists>j. chan_step (Hands i j) s \<noteq> None)) \<and>
    (\<forall>i oper pc e. doing s i = Some (oper, pc) \<longrightarrow> may_sleep oper \<longrightarrow> cs_ctx s i = Some e \<longrightarrow>
       chan_step (GivesUp i) s = Some (return i (Failed e) s))"
proof (intro conjI allI impI)
  note ok = chan_ok_play [OF assms, unfolded chan_ok_def results_ok_def]
  show "cs_sent s = cs_got s @ gc_buf (cs_chan s)" "length (gc_buf (cs_chan s)) \<le> cap"
    "collected delivered_of s = mset (cs_sent s)" "collected got_of s = mset (cs_got s)"
    using ok chan_cap_play [OF assms] by simp_all
  show "\<forall>x \<in> set (cp_results (cs_procs s ! i)). result_ok (cs_ctx s i) (gc_closed (cs_chan s)) (cs_done s) x"
    if "i < length (cs_procs s)" for i
    using ok that by blast
qed (rule drop_never_waits give_up_enabled, assumption+)+

theorem channel_delivers_once_witness:
  "\<exists>s. play chan_step [Sleeps 1, Puts 0, DropsIt 0, Takes 1, Closes 0, FindsClosed 1, CtxEnd 1 Canceled, GivesUp 1]
       (chan_start 1 [[OpSend (7 :: nat), OpSendOrDrop 8, OpClose], [OpRecv, OpRecv]]) = Some s \<and>
     cs_sent s = [7] \<and> cs_sent s = cs_got s @ gc_buf (cs_chan s) \<and>
     cp_results (cs_procs s ! 1) = [(OpRecv, Got 7), (OpRecv, Failed Canceled)]"
proof -
  let ?evs = "[Sleeps 1, Puts 0, DropsIt 0, Takes 1, Closes 0, FindsClosed 1, CtxEnd 1 Canceled, GivesUp 1]"
  let ?s = "chan_start 1 [[OpSend (7 :: nat), OpSendOrDrop 8, OpClose], [OpRecv, OpRecv]]"
  obtain s where s: "play chan_step ?evs ?s = Some s" "cs_sent s = [7]"
    "cp_results (cs_procs s ! 1) = [(OpRecv, Got 7), (OpRecv, Failed Canceled)]"
    by (simp add: chan_step_defs chan_start_def doing_def proc_at_def set_pc_def return_def Let_def has_space_def
        sender_asleep_def receiver_asleep_def All_less_Suc Ex_less_Suc less_Suc_eq)
  from channel_delivers_once [OF s(1)] s show ?thesis by blast
qed

subsection \<open>Polling\<close>



subsection \<open>Awaitable tasks\<close>

text \<open>
  C29. A join gives the task's result: whatever the goroutines interleave, a join that returns a value
  returns what the task returned, a join of a task that failed returns only the error of the
  joiner's context, no version's channel is closed twice, and no joiner sleeps through the result:
  once it is stored, a sleeping joiner can wake, at the latest after the store has finished.
\<close>

theorem join_gives_result:
  assumes "play atomic_step evs (Spawn1 result n) = Some w"
  shows "\<not> aw_panic w \<and>
    (\<forall>p \<in> set (aw_procs w). \<forall>r. (Join_op, r) \<in> set (ap_results p) \<longrightarrow>
       Join_result r = result \<and> (\<exists>v. result = Ok v) \<or> (\<exists>e. Join_result r = Err e \<and> r = Gave e)) \<and>
    (\<forall>i k. at_work w i = Some (Join_op, AsleepOn k) \<longrightarrow> current w \<noteq> None \<longrightarrow>
       atomic_step (WakesUp i) w \<noteq> None \<or>
       (\<exists>j w'. atomic_step (ClosesOld j) w = Some w' \<and> atomic_step (WakesUp i) w' \<noteq> None))"
proof -
  have ok: "atomic_ok w" by (rule atomic_ok_play [OF assms [unfolded Spawn1_def]])
  have "\<not> aw_panic w" using ok by (simp add: atomic_ok_def)
  moreover have "atomic_step (WakesUp i) w \<noteq> None \<or>
      (\<exists>j w'. atomic_step (ClosesOld j) w = Some w' \<and> atomic_step (WakesUp i) w' \<noteq> None)"
    if "at_work w i = Some (Join_op, AsleepOn k)" "current w \<noteq> None" for i k
    using atomic_sleeper_wakes [OF ok that(1) [unfolded Join_op_def]] that(2) by simp
  ultimately show ?thesis using Join_returns_result [OF assms] by blast
qed

theorem join_gives_result_witness:
  "\<exists>w. play atomic_step [LoadsIt 1, SwapsIn 0, ClosesOld 0, WakesUp 1, LoadsIt 1] (Spawn1 (Ok (5 :: nat)) 1) = Some w \<and>
     (Join_op, Loaded (Some 5)) \<in> set (ap_results (aw_procs w ! 1)) \<and> Join_result (Loaded (Some (5 :: nat))) = Ok 5"
proof -
  obtain w where w: "play atomic_step [LoadsIt 1, SwapsIn 0, ClosesOld 0, WakesUp 1, LoadsIt 1] (Spawn1 (Ok (5 :: nat)) 1) = Some w"
    "ap_results (aw_procs w ! 1) = [(Join_op, Loaded (Some 5))]" "length (aw_procs w) = 2"
    by (simp add: Spawn1_def Spawn1_task_def Join_op_def NewAtomicSend_def newVersion_def load_step_def swap_in_def close_old_def
        wake_step_def at_work_def move_to_def finish_def current_def Let_def)
  then have "aw_procs w ! 1 \<in> set (aw_procs w)" by simp
  then have "Join_result (Loaded (Some (5 :: nat))) = Ok 5" using join_gives_result [OF w(1)] w(2) by auto
  then show ?thesis using w by (intro exI [of _ w]) simp
qed

subsection \<open>Locks\<close>



end
