(* ===== verification/Contracts.thy ===== *)
theory Contracts
  imports Funder
begin

text \<open>
  The Solidity contracts of \<open>generator/contracts\<close>, as functions on their storage. A function that
  reverts is \<open>None\<close>; arithmetic is checked, as Solidity 0.8 has it, except where the source says
  \<open>unchecked\<close>. The log of a contract is kept with its storage. \<open>disperseEther\<close> and its ledger are
  those of \<open>Funder\<close>.
\<close>

type_synonym u256 = "256 word"

definition sol_add :: "u256 \<Rightarrow> u256 \<Rightarrow> u256 option" where
  "sol_add a b = (if unat a + unat b < 2 ^ 256 then Some (a + b) else None)"

definition sol_sub :: "u256 \<Rightarrow> u256 \<Rightarrow> u256 option" where
  "sol_sub a b = (if b \<le> a then Some (a - b) else None)"

definition sol_mul :: "u256 \<Rightarrow> u256 \<Rightarrow> u256 option" where
  "sol_mul a b = (if unat a * unat b < 2 ^ 256 then Some (a * b) else None)"

datatype sol_event =
    EvTransfer address address u256
  | EvApproval address address u256
  | EvApprovalForAll address address bool

text \<open>\<open>m[k] += v\<close>, \<open>m[k] -= v\<close> on a mapping.\<close>

definition map_add_at :: "'k \<Rightarrow> u256 \<Rightarrow> ('k \<Rightarrow> u256) \<Rightarrow> ('k \<Rightarrow> u256) option" where
  "map_add_at k v m = map_option (\<lambda>x. m(k := x)) (sol_add (m k) v)"

definition map_sub_at :: "'k \<Rightarrow> u256 \<Rightarrow> ('k \<Rightarrow> u256) \<Rightarrow> ('k \<Rightarrow> u256) option" where
  "map_sub_at k v m = map_option (\<lambda>x. m(k := x)) (sol_sub (m k) v)"

subsection \<open>The ERC20 tokens\<close>

record erc20 =
  e_name :: string
  e_symbol :: string
  e_decimals :: "8 word"
  e_totalSupply :: u256
  e_balances :: "address \<Rightarrow> u256"
  e_allowances :: "address \<Rightarrow> address \<Rightarrow> u256"
  e_logs :: "sol_event list"

definition DEFAULT_BALANCE :: u256 where
  "DEFAULT_BALANCE = 1000 * 10 ^ 18"

definition ERC20_constructor :: "string \<Rightarrow> string \<Rightarrow> erc20" where
  "ERC20_constructor nm ticker = \<lparr>e_name = nm, e_symbol = ticker, e_decimals = 18, e_totalSupply = 0,
     e_balances = (\<lambda>a. 0), e_allowances = (\<lambda>a b. 0), e_logs = []\<rparr>"

definition ERC20_balanceOf :: "address \<Rightarrow> ('a erc20_scheme) \<Rightarrow> u256" where
  "ERC20_balanceOf account s =
     (let actualBalance = e_balances s account in if 0 < actualBalance then actualBalance else DEFAULT_BALANCE)"

definition ERC20_transfer :: "address \<Rightarrow> address \<Rightarrow> u256 \<Rightarrow> erc20 \<Rightarrow> (bool \<times> erc20) option" where
  "ERC20_transfer sender recipient amount s =
     Option.bind (if e_balances s sender < amount then map_add_at sender amount (e_balances s)
                  else map_sub_at sender amount (e_balances s)) (\<lambda>b.
       Option.bind (map_add_at recipient amount b) (\<lambda>b.
         Some (True, s\<lparr>e_balances := b, e_logs := e_logs s @ [EvTransfer sender recipient amount]\<rparr>)))"

definition ERC20_approve :: "address \<Rightarrow> address \<Rightarrow> u256 \<Rightarrow> ('a erc20_scheme) \<Rightarrow> bool \<times> ('a erc20_scheme)" where
  "ERC20_approve sender spender amount s =
     (True, s\<lparr>e_allowances := (e_allowances s)(sender := (e_allowances s sender)(spender := amount)),
              e_logs := e_logs s @ [EvApproval sender spender amount]\<rparr>)"

definition ERC20_allowance :: "address \<Rightarrow> address \<Rightarrow> ('a erc20_scheme) \<Rightarrow> u256" where
  "ERC20_allowance owner spender s = e_allowances s owner spender"

definition ERC20_mint :: "address \<Rightarrow> u256 \<Rightarrow> erc20 \<Rightarrow> erc20 option" where
  "ERC20_mint account amount s =
     map_option (\<lambda>b. s\<lparr>e_balances := b, e_logs := e_logs s @ [EvTransfer 0 account amount]\<rparr>)
       (map_add_at account amount (e_balances s))"

definition ERC20_transferFrom :: "address \<Rightarrow> address \<Rightarrow> address \<Rightarrow> u256 \<Rightarrow> erc20 \<Rightarrow> (bool \<times> erc20) option" where
  "ERC20_transferFrom caller sender recipient amount s =
     Option.bind (if e_balances s sender < amount
                  then Option.bind (sol_add amount DEFAULT_BALANCE) (\<lambda>v. ERC20_mint sender v s) else Some s) (\<lambda>s.
       let allowed = (e_allowances s sender)(caller := if e_allowances s sender caller < amount then amount
                                                       else e_allowances s sender caller)
       in Option.bind (map_sub_at sender amount (e_balances s)) (\<lambda>b.
            Option.bind (map_add_at recipient amount b) (\<lambda>b.
              Option.bind (map_sub_at caller amount allowed) (\<lambda>allowed.
                Some (True, s\<lparr>e_balances := b, e_allowances := (e_allowances s)(sender := allowed),
                              e_logs := e_logs s @ [EvTransfer sender recipient amount]\<rparr>)))))"

definition ERC20_receive :: "address \<Rightarrow> u256 \<Rightarrow> erc20 \<Rightarrow> erc20 option" where
  "ERC20_receive sender amt s = map_option snd (ERC20_transfer sender sender amt s)"

text \<open>The token whose functions do nothing.\<close>

definition ERC20Noop_transfer :: "address \<Rightarrow> u256 \<Rightarrow> erc20 \<Rightarrow> (bool \<times> erc20) option" where
  "ERC20Noop_transfer recipient amount s = Some (True, s)"

definition ERC20Noop_approve :: "address \<Rightarrow> u256 \<Rightarrow> erc20 \<Rightarrow> (bool \<times> erc20) option" where
  "ERC20Noop_approve spender amount s = Some (True, s)"

definition ERC20Noop_transferFrom :: "address \<Rightarrow> address \<Rightarrow> u256 \<Rightarrow> erc20 \<Rightarrow> (bool \<times> erc20) option" where
  "ERC20Noop_transferFrom sender recipient amount s = Some (True, s)"

text \<open>The token with a counter that every transfer raises.\<close>

record conflict20 = erc20 +
  e_counter :: u256

lemma conflict20_sel [simp]:
  "e_balances (s\<lparr>e_counter := c\<rparr>) = e_balances s" "e_logs (s\<lparr>e_counter := c\<rparr>) = e_logs s"
  "e_counter (s\<lparr>e_balances := b\<rparr>) = e_counter s" "e_counter (s\<lparr>e_logs := l\<rparr>) = e_counter s"
  for s :: conflict20
  by (cases s; simp)+

definition ERC20Conflict_constructor :: "string \<Rightarrow> string \<Rightarrow> conflict20" where
  "ERC20Conflict_constructor nm ticker = \<lparr>e_name = nm, e_symbol = ticker, e_decimals = 18, e_totalSupply = 0,
     e_balances = (\<lambda>a. 0), e_allowances = (\<lambda>a b. 0), e_logs = [], e_counter = 0\<rparr>"

definition ERC20Conflict_transfer :: "address \<Rightarrow> address \<Rightarrow> u256 \<Rightarrow> conflict20 \<Rightarrow> (bool \<times> conflict20) option" where
  "ERC20Conflict_transfer sender recipient amount s =
     Option.bind (if e_balances s sender < amount
                  then map_option (\<lambda>v. (e_balances s)(sender := v)) (sol_add amount DEFAULT_BALANCE)
                  else Some (e_balances s)) (\<lambda>b.
       Option.bind (map_sub_at sender amount b) (\<lambda>b.
         Option.bind (map_add_at recipient amount b) (\<lambda>b.
           Option.bind (sol_add (e_counter s) 1) (\<lambda>c.
             Some (True, s\<lparr>e_balances := b, e_counter := c,
                           e_logs := e_logs s @ [EvTransfer sender recipient amount]\<rparr>)))))"

definition ERC20Conflict_transferFrom :: "address \<Rightarrow> address \<Rightarrow> u256 \<Rightarrow> conflict20 \<Rightarrow> (bool \<times> conflict20) option" where
  "ERC20Conflict_transferFrom sender recipient amount s =
     Option.bind (if e_balances s sender < amount
                  then map_option (\<lambda>v. (e_balances s)(sender := v)) (sol_add amount DEFAULT_BALANCE)
                  else Some (e_balances s)) (\<lambda>b.
       Option.bind (sol_add (e_counter s) 1) (\<lambda>c.
         Option.bind (map_sub_at sender amount b) (\<lambda>b.
           Option.bind (map_add_at recipient amount b) (\<lambda>b.
             Some (True, s\<lparr>e_balances := b, e_counter := c,
                           e_logs := e_logs s @ [EvTransfer sender recipient amount]\<rparr>)))))"

subsection \<open>The ERC721 token\<close>

record nft =
  n_ownerOf :: "u256 \<Rightarrow> address"
  n_balanceOf :: "address \<Rightarrow> u256"
  n_approvals :: "u256 \<Rightarrow> address"
  n_operators :: "address \<Rightarrow> address \<Rightarrow> bool"
  n_logs :: "sol_event list"

definition ERC721_new :: nft where
  "ERC721_new = \<lparr>n_ownerOf = (\<lambda>i. 0), n_balanceOf = (\<lambda>a. 0), n_approvals = (\<lambda>i. 0), n_operators = (\<lambda>a b. False),
     n_logs = []\<rparr>"

definition ERC721_ownerOf :: "u256 \<Rightarrow> nft \<Rightarrow> address option" where
  "ERC721_ownerOf tid s = (if n_ownerOf s tid = 0 then None else Some (n_ownerOf s tid))"

definition ERC721_balanceOf :: "address \<Rightarrow> nft \<Rightarrow> u256 option" where
  "ERC721_balanceOf owner s = (if owner = 0 then None else Some (n_balanceOf s owner))"

definition ERC721_setApprovalForAll :: "address \<Rightarrow> address \<Rightarrow> bool \<Rightarrow> nft \<Rightarrow> nft" where
  "ERC721_setApprovalForAll sender operator approved s =
     s\<lparr>n_operators := (n_operators s)(sender := (n_operators s sender)(operator := approved)),
       n_logs := n_logs s @ [EvApprovalForAll sender operator approved]\<rparr>"

definition ERC721_approve :: "address \<Rightarrow> address \<Rightarrow> u256 \<Rightarrow> nft \<Rightarrow> nft option" where
  "ERC721_approve sender spender tid s =
     (let owner = n_ownerOf s tid
      in if sender = owner \<or> n_operators s owner sender
         then Some (s\<lparr>n_approvals := (n_approvals s)(tid := spender),
                      n_logs := n_logs s @ [EvApproval owner spender tid]\<rparr>)
         else None)"

definition ERC721_getApproved :: "u256 \<Rightarrow> nft \<Rightarrow> address option" where
  "ERC721_getApproved tid s = (if n_ownerOf s tid = 0 then None else Some (n_approvals s tid))"

definition isApprovedOrOwner :: "address \<Rightarrow> address \<Rightarrow> u256 \<Rightarrow> nft \<Rightarrow> bool" where
  "isApprovedOrOwner owner spender tid s \<longleftrightarrow>
     spender = owner \<or> n_operators s owner spender \<or> spender = n_approvals s tid"

definition ERC721_transferFrom :: "address \<Rightarrow> address \<Rightarrow> address \<Rightarrow> u256 \<Rightarrow> nft \<Rightarrow> nft option" where
  "ERC721_transferFrom sender src dest tid s =
     (if src \<noteq> n_ownerOf s tid \<or> dest = 0 \<or> \<not> isApprovedOrOwner src sender tid s then None
      else Option.bind (map_sub_at src 1 (n_balanceOf s)) (\<lambda>b.
             Option.bind (map_add_at dest 1 b) (\<lambda>b.
               Some (s\<lparr>n_balanceOf := b, n_ownerOf := (n_ownerOf s)(tid := dest), n_approvals := (n_approvals s)(tid := 0),
                       n_logs := n_logs s @ [EvTransfer src dest tid]\<rparr>))))"

text \<open>\<open>accepts\<close> is what the code at the receiver answers, if there is any.\<close>

definition ERC721_safeTransferFrom ::
  "(address \<Rightarrow> bool option) \<Rightarrow> address \<Rightarrow> address \<Rightarrow> address \<Rightarrow> u256 \<Rightarrow> nft \<Rightarrow> nft option" where
  "ERC721_safeTransferFrom accepts sender src dest tid s =
     Option.bind (ERC721_transferFrom sender src dest tid s) (\<lambda>s.
       case accepts dest of None \<Rightarrow> Some s | Some answer \<Rightarrow> if answer then Some s else None)"

definition ERC721_mint :: "address \<Rightarrow> u256 \<Rightarrow> nft \<Rightarrow> nft option" where
  "ERC721_mint dest tid s =
     (if dest = 0 then None
      else Option.bind (map_add_at dest 1 (n_balanceOf s)) (\<lambda>b.
             Some (s\<lparr>n_balanceOf := b, n_ownerOf := (n_ownerOf s)(tid := dest), n_logs := n_logs s @ [EvTransfer 0 dest tid]\<rparr>)))"

definition ERC721_do_burn :: "u256 \<Rightarrow> nft \<Rightarrow> nft option" where
  "ERC721_do_burn tid s =
     (let owner = n_ownerOf s tid
      in if owner = 0 then None
         else Option.bind (map_sub_at owner 1 (n_balanceOf s)) (\<lambda>b.
                Some (s\<lparr>n_balanceOf := b, n_ownerOf := (n_ownerOf s)(tid := 0), n_approvals := (n_approvals s)(tid := 0),
                        n_logs := n_logs s @ [EvTransfer owner 0 tid]\<rparr>)))"

definition ERC721_burn :: "address \<Rightarrow> u256 \<Rightarrow> nft \<Rightarrow> nft option" where
  "ERC721_burn sender tid s = (if sender \<noteq> n_ownerOf s tid then None else ERC721_do_burn tid s)"

subsection \<open>StorageRWv1\<close>

record storage_rw =
  sw_store :: "u256 \<Rightarrow> u256"
  sw_readAccumulator :: u256

definition StorageRW_new :: storage_rw where
  "StorageRW_new = \<lparr>sw_store = (\<lambda>i. 0), sw_readAccumulator = 0\<rparr>"

definition StorageRW_VERSION :: u256 where "StorageRW_VERSION = 1"

definition StorageRW_write :: "u256 \<Rightarrow> u256 \<Rightarrow> storage_rw \<Rightarrow> storage_rw" where
  "StorageRW_write slot v s = s\<lparr>sw_store := (sw_store s)(slot := v)\<rparr>"

text \<open>Unchecked: both wrap.\<close>

definition StorageRW_read :: "u256 \<Rightarrow> storage_rw \<Rightarrow> storage_rw" where
  "StorageRW_read slot s = s\<lparr>sw_readAccumulator := sw_readAccumulator s + sw_store s slot\<rparr>"

definition StorageRW_rmw :: "u256 \<Rightarrow> storage_rw \<Rightarrow> storage_rw" where
  "StorageRW_rmw slot s = s\<lparr>sw_store := (sw_store s)(slot := sw_store s slot + 1)\<rparr>"

subsection \<open>Disperse\<close>

record disperse_state =
  dp_owner :: address
  dp_fixedEtherAmount :: u256
  dp_fixedTokenAmount :: u256

definition Disperse_constructor :: "address \<Rightarrow> u256 \<Rightarrow> u256 \<Rightarrow> disperse_state" where
  "Disperse_constructor sender etherAmount tokenAmount =
     \<lparr>dp_owner = sender, dp_fixedEtherAmount = etherAmount, dp_fixedTokenAmount = tokenAmount\<rparr>"

definition disperseEtherFixed :: "address \<Rightarrow> address \<Rightarrow> int \<Rightarrow> address list \<Rightarrow> disperse_state \<Rightarrow> ledger \<Rightarrow> ledger option" where
  "disperseEtherFixed this caller amt recipients d led =
     Option.bind (pay caller this amt led) (\<lambda>led.
       Option.bind (sol_mul (dp_fixedEtherAmount d) (of_nat (length recipients))) (\<lambda>due.
         if amt \<noteq> uint due then None
         else Option.bind (disperse_loop this recipients (replicate (length recipients) (uint (dp_fixedEtherAmount d))) led) (\<lambda>led.
                if 0 < led this then pay this caller (led this) led else Some led)))"

text \<open>A token for the functions that move one: its two calls, over a state of its own.\<close>

record 't token =
  tk_transfer :: "address \<Rightarrow> address \<Rightarrow> u256 \<Rightarrow> 't \<Rightarrow> (bool \<times> 't) option"
  tk_transferFrom :: "address \<Rightarrow> address \<Rightarrow> address \<Rightarrow> u256 \<Rightarrow> 't \<Rightarrow> (bool \<times> 't) option"

definition required :: "(bool \<times> 't) option \<Rightarrow> 't option" where
  "required x = (case x of Some (True, t) \<Rightarrow> Some t | _ \<Rightarrow> None)"

fun token_total :: "address list \<Rightarrow> u256 list \<Rightarrow> u256 \<Rightarrow> u256 option" where
  "token_total [] vs acc = Some acc"
| "token_total (r # rs) [] acc = None"
| "token_total (r # rs) (v # vs) acc = Option.bind (sol_add acc v) (token_total rs vs)"

fun token_loop :: "(address \<Rightarrow> u256 \<Rightarrow> 't \<Rightarrow> (bool \<times> 't) option) \<Rightarrow> address list \<Rightarrow> u256 list \<Rightarrow> 't \<Rightarrow> 't option" where
  "token_loop f [] vs t = Some t"
| "token_loop f (r # rs) [] t = None"
| "token_loop f (r # rs) (v # vs) t = Option.bind (required (f r v t)) (token_loop f rs vs)"

definition disperseToken :: "'t token \<Rightarrow> address \<Rightarrow> address \<Rightarrow> address list \<Rightarrow> u256 list \<Rightarrow> 't \<Rightarrow> 't option" where
  "disperseToken tk this caller recipients vs t =
     Option.bind (token_total recipients vs 0) (\<lambda>due.
       Option.bind (required (tk_transferFrom tk this caller this due t)) (token_loop (tk_transfer tk this) recipients vs))"

definition disperseTokenFixed :: "'t token \<Rightarrow> address \<Rightarrow> address \<Rightarrow> address list \<Rightarrow> disperse_state \<Rightarrow> 't \<Rightarrow> 't option" where
  "disperseTokenFixed tk this caller recipients d t =
     Option.bind (sol_mul (dp_fixedTokenAmount d) (of_nat (length recipients))) (\<lambda>due.
       Option.bind (required (tk_transferFrom tk this caller this due t))
         (token_loop (tk_transfer tk this) recipients (replicate (length recipients) (dp_fixedTokenAmount d))))"

definition disperseTokenSimple :: "'t token \<Rightarrow> address \<Rightarrow> address \<Rightarrow> address list \<Rightarrow> u256 list \<Rightarrow> 't \<Rightarrow> 't option" where
  "disperseTokenSimple tk this caller recipients vs t = token_loop (tk_transferFrom tk this caller) recipients vs t"

definition setFixedEtherAmount :: "address \<Rightarrow> u256 \<Rightarrow> disperse_state \<Rightarrow> disperse_state option" where
  "setFixedEtherAmount sender amount d = (if sender \<noteq> dp_owner d then None else Some (d\<lparr>dp_fixedEtherAmount := amount\<rparr>))"

definition setFixedTokenAmount :: "address \<Rightarrow> u256 \<Rightarrow> disperse_state \<Rightarrow> disperse_state option" where
  "setFixedTokenAmount sender amount d = (if sender \<noteq> dp_owner d then None else Some (d\<lparr>dp_fixedTokenAmount := amount\<rparr>))"

definition transferOwnership :: "address \<Rightarrow> address \<Rightarrow> disperse_state \<Rightarrow> disperse_state option" where
  "transferOwnership sender newOwner d = (if sender \<noteq> dp_owner d then None else Some (d\<lparr>dp_owner := newOwner\<rparr>))"

end
