(* ===== verification/Bindings.thy ===== *)
theory Bindings
  imports TxBuild
begin

text \<open>
  The Go bindings of the contracts (\<open>generator/bindings\<close>): the interface of each contract as its
  metadata declares it, deploying it, binding it to an address, and the methods the program calls.
  They are generated from one template, which the definitions share. Then the scenarios over these
  bindings, class by class, where \<open>Scenarios\<close> has them as one table. \<open>getAbi\<close> is go-ethereum's
  parser of the metadata; its \<open>BoundContract\<close> packs a call only if the interface has the method
  and the arguments are of its types.
\<close>

subsection \<open>Interfaces\<close>

datatype abi_type =
    AbiAddress | AbiUint256 | AbiUint8 | AbiAddresses | AbiUint256s | AbiString | AbiBytes | AbiBytes4 | AbiBool

datatype mutability = AbiPure | AbiView | NonPayable | Payable

record abi =
  ab_constructor :: "abi_type list"
  ab_receive :: bool
  ab_methods :: "(string \<times> abi_type list \<times> mutability) list"
  ab_events :: "(string \<times> (abi_type \<times> bool) list) list"

record metadata =
  md_name :: string
  md_ABI :: abi

type_synonym abi_parser = "metadata \<Rightarrow> go_error + abi option"

text \<open>
  A second method of one name is known under the name with a number. An argument of an event comes with
  whether it is indexed.
\<close>

definition ERC20MetaData :: metadata where
  "ERC20MetaData = \<lparr>md_name = ''ERC20'', md_ABI = \<lparr>ab_constructor = [AbiString, AbiString], ab_receive = True,
     ab_methods =
       [(''DEFAULT_BALANCE'', [], AbiView),
        (''allowance'', [AbiAddress, AbiAddress], AbiView),
        (''approve'', [AbiAddress, AbiUint256], NonPayable),
        (''balanceOf'', [AbiAddress], AbiView),
        (''decimals'', [], AbiView),
        (''name'', [], AbiView),
        (''symbol'', [], AbiView),
        (''totalSupply'', [], AbiView),
        (''transfer'', [AbiAddress, AbiUint256], NonPayable),
        (''transferFrom'', [AbiAddress, AbiAddress, AbiUint256], NonPayable)],
     ab_events = [(''Approval'', [(AbiAddress, True), (AbiAddress, True), (AbiUint256, False)]),
       (''Transfer'', [(AbiAddress, True), (AbiAddress, True), (AbiUint256, False)])]\<rparr>\<rparr>"

definition ERC20NoopMetaData :: metadata where
  "ERC20NoopMetaData = \<lparr>md_name = ''ERC20Noop'', md_ABI = \<lparr>ab_constructor = [AbiString, AbiString], ab_receive = False,
     ab_methods =
       [(''DEFAULT_BALANCE'', [], AbiView),
        (''allowance'', [AbiAddress, AbiAddress], AbiView),
        (''approve'', [AbiAddress, AbiUint256], NonPayable),
        (''balanceOf'', [AbiAddress], AbiView),
        (''decimals'', [], AbiView),
        (''name'', [], AbiView),
        (''symbol'', [], AbiView),
        (''totalSupply'', [], AbiView),
        (''transfer'', [AbiAddress, AbiUint256], NonPayable),
        (''transferFrom'', [AbiAddress, AbiAddress, AbiUint256], NonPayable)],
     ab_events = [(''Approval'', [(AbiAddress, True), (AbiAddress, True), (AbiUint256, False)]),
       (''Transfer'', [(AbiAddress, True), (AbiAddress, True), (AbiUint256, False)])]\<rparr>\<rparr>"

definition ERC20ConflictMetaData :: metadata where
  "ERC20ConflictMetaData = \<lparr>md_name = ''ERC20Conflict'', md_ABI = \<lparr>ab_constructor = [AbiString, AbiString], ab_receive = False,
     ab_methods =
       [(''DEFAULT_BALANCE'', [], AbiView),
        (''allowance'', [AbiAddress, AbiAddress], AbiView),
        (''approve'', [AbiAddress, AbiUint256], NonPayable),
        (''balanceOf'', [AbiAddress], AbiView),
        (''counter'', [], AbiView),
        (''decimals'', [], AbiView),
        (''name'', [], AbiView),
        (''symbol'', [], AbiView),
        (''totalSupply'', [], AbiView),
        (''transfer'', [AbiAddress, AbiUint256], NonPayable),
        (''transferFrom'', [AbiAddress, AbiAddress, AbiUint256], NonPayable)],
     ab_events = [(''Approval'', [(AbiAddress, True), (AbiAddress, True), (AbiUint256, False)]),
       (''Transfer'', [(AbiAddress, True), (AbiAddress, True), (AbiUint256, False)])]\<rparr>\<rparr>"

definition ERC721MetaData :: metadata where
  "ERC721MetaData = \<lparr>md_name = ''ERC721'', md_ABI = \<lparr>ab_constructor = [], ab_receive = False,
     ab_methods =
       [(''approve'', [AbiAddress, AbiUint256], NonPayable),
        (''balanceOf'', [AbiAddress], AbiView),
        (''burn'', [AbiUint256], NonPayable),
        (''getApproved'', [AbiUint256], AbiView),
        (''isApprovedForAll'', [AbiAddress, AbiAddress], AbiView),
        (''mint'', [AbiAddress, AbiUint256], NonPayable),
        (''ownerOf'', [AbiUint256], AbiView),
        (''safeTransferFrom'', [AbiAddress, AbiAddress, AbiUint256], NonPayable),
        (''safeTransferFrom0'', [AbiAddress, AbiAddress, AbiUint256, AbiBytes], NonPayable),
        (''setApprovalForAll'', [AbiAddress, AbiBool], NonPayable),
        (''supportsInterface'', [AbiBytes4], AbiPure),
        (''transferFrom'', [AbiAddress, AbiAddress, AbiUint256], NonPayable)],
     ab_events = [(''Approval'', [(AbiAddress, True), (AbiAddress, True), (AbiUint256, True)]),
       (''ApprovalForAll'', [(AbiAddress, True), (AbiAddress, True), (AbiBool, False)]),
       (''Transfer'', [(AbiAddress, True), (AbiAddress, True), (AbiUint256, True)])]\<rparr>\<rparr>"

definition StorageRWv1MetaData :: metadata where
  "StorageRWv1MetaData = \<lparr>md_name = ''StorageRWv1'', md_ABI = \<lparr>ab_constructor = [], ab_receive = False,
     ab_methods =
       [(''VERSION'', [], AbiView),
        (''read'', [AbiUint256, AbiBytes], NonPayable),
        (''readAccumulator'', [], AbiView),
        (''rmw'', [AbiUint256, AbiBytes], NonPayable),
        (''store'', [AbiUint256], AbiView),
        (''write'', [AbiUint256, AbiUint256, AbiBytes], NonPayable)], ab_events = []\<rparr>\<rparr>"

definition DisperseMetaData :: metadata where
  "DisperseMetaData = \<lparr>md_name = ''Disperse'', md_ABI = \<lparr>ab_constructor = [AbiUint256, AbiUint256], ab_receive = False,
     ab_methods =
       [(''disperseEther'', [AbiAddresses, AbiUint256s], Payable),
        (''disperseEtherFixed'', [AbiAddresses], Payable),
        (''disperseToken'', [AbiAddress, AbiAddresses, AbiUint256s], NonPayable),
        (''disperseTokenFixed'', [AbiAddress, AbiAddresses], NonPayable),
        (''disperseTokenSimple'', [AbiAddress, AbiAddresses, AbiUint256s], NonPayable),
        (''fixedEtherAmount'', [], AbiView),
        (''fixedTokenAmount'', [], AbiView),
        (''owner'', [], AbiView),
        (''setFixedEtherAmount'', [AbiUint256], NonPayable),
        (''setFixedTokenAmount'', [AbiUint256], NonPayable),
        (''transferOwnership'', [AbiAddress], NonPayable)], ab_events = []\<rparr>\<rparr>"

fun arg_fits :: "abi_arg \<Rightarrow> abi_type \<Rightarrow> bool" where
  "arg_fits (ArgAddress a) t = (t = AbiAddress)"
| "arg_fits (ArgInt n) t = (t = AbiUint256)"
| "arg_fits (ArgAddresses as) t = (t = AbiAddresses)"
| "arg_fits (ArgInts ns) t = (t = AbiUint256s)"
| "arg_fits (ArgString s) t = (t = AbiString)"
| "arg_fits (ArgZeroBytes n) t = (t = AbiBytes)"
| "arg_fits (ArgBytes bs) t = (t = AbiBytes)"
| "arg_fits (ArgBytes4 bs) t = (t = AbiBytes4 \<and> length bs = 4)"
| "arg_fits (ArgBool b) t = (t = AbiBool)"

definition abi_accepts :: "abi \<Rightarrow> string \<Rightarrow> abi_arg list \<Rightarrow> bool" where
  "abi_accepts abi method args \<longleftrightarrow>
     (case map_of (ab_methods abi) method of None \<Rightarrow> False | Some (ts, m) \<Rightarrow> list_all2 arg_fits args ts)"

subsection \<open>The template\<close>

record bound_contract =
  bc_address :: address
  bc_abi :: abi

text \<open>A binding: the reading, the writing and the filtering half of one bound contract.\<close>

record binding =
  bn_Caller :: bound_contract
  bn_Transactor :: bound_contract
  bn_Filterer :: bound_contract

definition bound_Transact :: "chain_env \<Rightarrow> bound_contract \<Rightarrow> transact_opts \<Rightarrow> string \<Rightarrow> abi_arg list \<Rightarrow> eth_tx outcome" where
  "bound_Transact env c opts method args =
     (if abi_accepts (bc_abi c) method args then ce_transact env opts (bc_address c) (Call method args)
      else Err (External ''abi: cannot use arguments''))"

definition bind_DeployContract ::
  "chain_env \<Rightarrow> transact_opts \<Rightarrow> metadata \<Rightarrow> abi \<Rightarrow> abi_arg list \<Rightarrow> go_error + address \<times> nat \<times> bound_contract" where
  "bind_DeployContract env auth md abi args =
     (if \<not> list_all2 arg_fits args (ab_constructor abi) then Inl (External ''abi: cannot use arguments'')
      else case ce_deploy env (md_name md) args auth of
             Inl e \<Rightarrow> Inl e
           | Inr (address, tx) \<Rightarrow> Inr (address, tx, \<lparr>bc_address = address, bc_abi = abi\<rparr>))"

definition binding_of :: "bound_contract \<Rightarrow> binding" where
  "binding_of c = \<lparr>bn_Caller = c, bn_Transactor = c, bn_Filterer = c\<rparr>"

definition deploy_template ::
  "abi_parser \<Rightarrow> chain_env \<Rightarrow> metadata \<Rightarrow> transact_opts \<Rightarrow> abi_arg list \<Rightarrow> go_error + address \<times> nat \<times> binding" where
  "deploy_template getAbi env md auth args =
     (case getAbi md of
        Inl e \<Rightarrow> Inl e
      | Inr None \<Rightarrow> Inl (Errorf ''GetABI returned nil'')
      | Inr (Some parsed) \<Rightarrow>
          (case bind_DeployContract env auth md parsed args of
             Inl e \<Rightarrow> Inl e
           | Inr (address, tx, contract) \<Rightarrow> Inr (address, tx, binding_of contract)))"

definition bind_template :: "abi_parser \<Rightarrow> metadata \<Rightarrow> address \<Rightarrow> bound_contract outcome" where
  "bind_template getAbi md address =
     (case getAbi md of
        Inl e \<Rightarrow> Err e
      | Inr None \<Rightarrow> Panic ''nil pointer dereference''
      | Inr (Some parsed) \<Rightarrow> Ok \<lparr>bc_address = address, bc_abi = parsed\<rparr>)"

subsection \<open>Deploying and binding\<close>

definition DeployERC20 where
  "DeployERC20 getAbi env auth nm ticker = deploy_template getAbi env ERC20MetaData auth [ArgString nm, ArgString ticker]"

definition DeployERC20Noop where
  "DeployERC20Noop getAbi env auth nm ticker = deploy_template getAbi env ERC20NoopMetaData auth [ArgString nm, ArgString ticker]"

definition DeployERC20Conflict where
  "DeployERC20Conflict getAbi env auth nm ticker =
     deploy_template getAbi env ERC20ConflictMetaData auth [ArgString nm, ArgString ticker]"

definition DeployERC721 where
  "DeployERC721 getAbi env auth = deploy_template getAbi env ERC721MetaData auth []"

definition DeployStorageRWv1 where
  "DeployStorageRWv1 getAbi env auth = deploy_template getAbi env StorageRWv1MetaData auth []"

definition DeployDisperse where
  "DeployDisperse getAbi env auth etherAmount tokenAmount =
     deploy_template getAbi env DisperseMetaData auth [ArgInt etherAmount, ArgInt tokenAmount]"

definition bindERC20 :: "abi_parser \<Rightarrow> address \<Rightarrow> bound_contract outcome" where
  "bindERC20 getAbi address = bind_template getAbi ERC20MetaData address"

definition NewERC20 :: "abi_parser \<Rightarrow> address \<Rightarrow> binding outcome" where
  "NewERC20 getAbi address = obind (bindERC20 getAbi address) (\<lambda>contract. Ok (binding_of contract))"

definition bindERC20Noop :: "abi_parser \<Rightarrow> address \<Rightarrow> bound_contract outcome" where
  "bindERC20Noop getAbi address = bind_template getAbi ERC20NoopMetaData address"

definition NewERC20Noop :: "abi_parser \<Rightarrow> address \<Rightarrow> binding outcome" where
  "NewERC20Noop getAbi address = obind (bindERC20Noop getAbi address) (\<lambda>contract. Ok (binding_of contract))"

definition bindERC20Conflict :: "abi_parser \<Rightarrow> address \<Rightarrow> bound_contract outcome" where
  "bindERC20Conflict getAbi address = bind_template getAbi ERC20ConflictMetaData address"

definition NewERC20Conflict :: "abi_parser \<Rightarrow> address \<Rightarrow> binding outcome" where
  "NewERC20Conflict getAbi address = obind (bindERC20Conflict getAbi address) (\<lambda>contract. Ok (binding_of contract))"

definition bindERC721 :: "abi_parser \<Rightarrow> address \<Rightarrow> bound_contract outcome" where
  "bindERC721 getAbi address = bind_template getAbi ERC721MetaData address"

definition NewERC721 :: "abi_parser \<Rightarrow> address \<Rightarrow> binding outcome" where
  "NewERC721 getAbi address = obind (bindERC721 getAbi address) (\<lambda>contract. Ok (binding_of contract))"

definition bindStorageRWv1 :: "abi_parser \<Rightarrow> address \<Rightarrow> bound_contract outcome" where
  "bindStorageRWv1 getAbi address = bind_template getAbi StorageRWv1MetaData address"

definition NewStorageRWv1 :: "abi_parser \<Rightarrow> address \<Rightarrow> binding outcome" where
  "NewStorageRWv1 getAbi address = obind (bindStorageRWv1 getAbi address) (\<lambda>contract. Ok (binding_of contract))"

definition bindDisperse :: "abi_parser \<Rightarrow> address \<Rightarrow> bound_contract outcome" where
  "bindDisperse getAbi address = bind_template getAbi DisperseMetaData address"

definition NewDisperse :: "abi_parser \<Rightarrow> address \<Rightarrow> binding outcome" where
  "NewDisperse getAbi address = obind (bindDisperse getAbi address) (\<lambda>contract. Ok (binding_of contract))"

subsection \<open>The methods the program calls\<close>

text \<open>Methods of the writing half of a binding.\<close>

definition ERC20_Transfer where
  "ERC20_Transfer env t opts recipient amount =
     bound_Transact env t opts ''transfer'' [ArgAddress recipient, ArgInt amount]"

definition ERC20Noop_Transfer where
  "ERC20Noop_Transfer env t opts recipient amount =
     bound_Transact env t opts ''transfer'' [ArgAddress recipient, ArgInt amount]"

definition ERC20Conflict_Transfer where
  "ERC20Conflict_Transfer env t opts recipient amount =
     bound_Transact env t opts ''transfer'' [ArgAddress recipient, ArgInt amount]"

definition ERC721_Mint where
  "ERC721_Mint env t opts dest tid = bound_Transact env t opts ''mint'' [ArgAddress dest, ArgInt tid]"

definition StorageRWv1_Read where
  "StorageRWv1_Read env t opts slot pad =
     bound_Transact env t opts ''read'' [ArgInt slot, ArgZeroBytes pad]"

definition StorageRWv1_Rmw where
  "StorageRWv1_Rmw env t opts slot pad =
     bound_Transact env t opts ''rmw'' [ArgInt slot, ArgZeroBytes pad]"

definition StorageRWv1_Write where
  "StorageRWv1_Write env t opts slot v pad =
     bound_Transact env t opts ''write'' [ArgInt slot, ArgInt v, ArgZeroBytes pad]"

definition Disperse_DisperseEther where
  "Disperse_DisperseEther env t opts recipients vs =
     bound_Transact env t opts ''disperseEther'' [ArgAddresses recipients, ArgInts vs]"

definition Disperse_DisperseEtherFixed where
  "Disperse_DisperseEtherFixed env t opts recipients =
     bound_Transact env t opts ''disperseEtherFixed'' [ArgAddresses recipients]"

subsection \<open>The scenario classes\<close>

text \<open>
  What a contract scenario supplies to its base (\<open>ContractDeployer\<close> of \<open>base.go\<close>): its name, its
  operation, how its contract is deployed, and how it is bound.
\<close>

record contract_class =
  cl_Name :: string
  cl_Operation :: string
  cl_DeployContract :: "abi_parser \<Rightarrow> chain_env \<Rightarrow> transact_opts \<Rightarrow> go_error + address \<times> nat"
  cl_GetBindFunc :: "abi_parser \<Rightarrow> address \<Rightarrow> binding outcome"

definition without_binding :: "go_error + address \<times> nat \<times> binding \<Rightarrow> go_error + address \<times> nat" where
  "without_binding x = (case x of Inl e \<Rightarrow> Inl e | Inr (address, tx, b) \<Rightarrow> Inr (address, tx))"

text \<open>The constructors of the scenarios that need nothing but their configuration.\<close>

definition NewERC20Scenario :: "scenario \<Rightarrow> tx_generator" where
  "NewERC20Scenario cfg = NewScenarioBase (ERC20Scenario None) cfg"

definition NewERC20NoopScenario :: "scenario \<Rightarrow> tx_generator" where
  "NewERC20NoopScenario cfg = NewScenarioBase (ERC20NoopScenario None) cfg"

definition NewERC20ConflictScenario :: "scenario \<Rightarrow> tx_generator" where
  "NewERC20ConflictScenario cfg = NewScenarioBase (ERC20ConflictScenario None) cfg"

definition NewERC721Scenario :: "scenario \<Rightarrow> tx_generator" where
  "NewERC721Scenario cfg = NewScenarioBase (ERC721Scenario None 0) cfg"

definition NewEVMTransferScenario :: "scenario \<Rightarrow> tx_generator" where
  "NewEVMTransferScenario cfg = NewScenarioBase EVMTransferScenario cfg"

definition NewEVMTransferFastScenario :: "scenario \<Rightarrow> tx_generator" where
  "NewEVMTransferFastScenario cfg = NewScenarioBase EVMTransferFastScenario cfg"

definition NewEVMTransferNoopScenario :: "scenario \<Rightarrow> tx_generator" where
  "NewEVMTransferNoopScenario cfg = NewScenarioBase EVMTransferNoopScenario cfg"

lemma factory_constructors:
  "to_lower (sc_Name cfg) = ''erc20'' \<Longrightarrow> CreateScenario env cfg keys = Ok (NewERC20Scenario cfg, keys)"
  "to_lower (sc_Name cfg) = ''erc20noop'' \<Longrightarrow> CreateScenario env cfg keys = Ok (NewERC20NoopScenario cfg, keys)"
  "to_lower (sc_Name cfg) = ''erc20conflict'' \<Longrightarrow> CreateScenario env cfg keys = Ok (NewERC20ConflictScenario cfg, keys)"
  "to_lower (sc_Name cfg) = ''erc721'' \<Longrightarrow> CreateScenario env cfg keys = Ok (NewERC721Scenario cfg, keys)"
  "to_lower (sc_Name cfg) = ''evmtransfer'' \<Longrightarrow> CreateScenario env cfg keys = Ok (NewEVMTransferScenario cfg, keys)"
  "to_lower (sc_Name cfg) = ''evmtransferfast'' \<Longrightarrow> CreateScenario env cfg keys = Ok (NewEVMTransferFastScenario cfg, keys)"
  "to_lower (sc_Name cfg) = ''evmtransfernoop'' \<Longrightarrow> CreateScenario env cfg keys = Ok (NewEVMTransferNoopScenario cfg, keys)"
  by (simp_all add: CreateScenario_def NewERC20Scenario_def NewERC20NoopScenario_def NewERC20ConflictScenario_def
      NewERC721Scenario_def NewEVMTransferScenario_def NewEVMTransferFastScenario_def NewEVMTransferNoopScenario_def)

text \<open>How each scenario deploys its contract.\<close>

definition ERC20_DeployContract :: "abi_parser \<Rightarrow> chain_env \<Rightarrow> transact_opts \<Rightarrow> go_error + address \<times> nat" where
  "ERC20_DeployContract getAbi env opts = without_binding (DeployERC20 getAbi env opts ''LoadToken'' ''LT'')"

definition ERC20Noop_DeployContract :: "abi_parser \<Rightarrow> chain_env \<Rightarrow> transact_opts \<Rightarrow> go_error + address \<times> nat" where
  "ERC20Noop_DeployContract getAbi env opts = without_binding (DeployERC20Noop getAbi env opts ''NoopToken'' ''NT'')"

definition ERC20Conflict_DeployContract :: "abi_parser \<Rightarrow> chain_env \<Rightarrow> transact_opts \<Rightarrow> go_error + address \<times> nat" where
  "ERC20Conflict_DeployContract getAbi env opts = without_binding (DeployERC20Conflict getAbi env opts ''ConflictToken'' ''CT'')"

definition ERC721_DeployContract :: "abi_parser \<Rightarrow> chain_env \<Rightarrow> transact_opts \<Rightarrow> go_error + address \<times> nat" where
  "ERC721_DeployContract getAbi env opts = without_binding (DeployERC721 getAbi env opts)"

definition Disperse_DeployContract :: "abi_parser \<Rightarrow> chain_env \<Rightarrow> transact_opts \<Rightarrow> go_error + address \<times> nat" where
  "Disperse_DeployContract getAbi env opts = without_binding (DeployDisperse getAbi env opts 1 1)"

definition StorageRW_DeployContract :: "abi_parser \<Rightarrow> chain_env \<Rightarrow> transact_opts \<Rightarrow> go_error + address \<times> nat" where
  "StorageRW_DeployContract getAbi env opts = without_binding (DeployStorageRWv1 getAbi env opts)"

definition ERC20_class :: contract_class where
  "ERC20_class = \<lparr>cl_Name = ''erc20'', cl_Operation = OpERC20Transfer,
     cl_DeployContract = ERC20_DeployContract,
     cl_GetBindFunc = NewERC20\<rparr>"

definition ERC20Noop_class :: contract_class where
  "ERC20Noop_class = \<lparr>cl_Name = ''erc20noop'', cl_Operation = OpERC20Transfer,
     cl_DeployContract = ERC20Noop_DeployContract,
     cl_GetBindFunc = NewERC20Noop\<rparr>"

definition ERC20Conflict_class :: contract_class where
  "ERC20Conflict_class = \<lparr>cl_Name = ''erc20conflict'', cl_Operation = OpERC20Transfer,
     cl_DeployContract = ERC20Conflict_DeployContract,
     cl_GetBindFunc = NewERC20Conflict\<rparr>"

definition ERC721_class :: contract_class where
  "ERC721_class = \<lparr>cl_Name = ''erc721'', cl_Operation = OpERC721Mint,
     cl_DeployContract = ERC721_DeployContract,
     cl_GetBindFunc = NewERC721\<rparr>"

definition Disperse_class :: contract_class where
  "Disperse_class = \<lparr>cl_Name = ''disperse'', cl_Operation = OpDisperseEther,
     cl_DeployContract = Disperse_DeployContract,
     cl_GetBindFunc = NewDisperse\<rparr>"

definition StorageRW_class :: contract_class where
  "StorageRW_class = \<lparr>cl_Name = ''storagerw'', cl_Operation = OpRmw,
     cl_DeployContract = StorageRW_DeployContract,
     cl_GetBindFunc = NewStorageRWv1\<rparr>"

fun class_of :: "scenario_impl \<Rightarrow> contract_class option" where
  "class_of (DisperseScenario c p) = Some Disperse_class"
| "class_of (ERC20ConflictScenario c) = Some ERC20Conflict_class"
| "class_of (ERC20NoopScenario c) = Some ERC20Noop_class"
| "class_of (ERC20Scenario c) = Some ERC20_class"
| "class_of (ERC721Scenario c n) = Some ERC721_class"
| "class_of (StorageRWScenario c p) = Some StorageRW_class"
| "class_of impl = None"

text \<open>The base over a class: it binds, and hands the binding to the scenario.\<close>

definition class_AttachScenario ::
  "abi_parser \<Rightarrow> chain_env \<Rightarrow> contract_class \<Rightarrow> load_config \<Rightarrow> address \<Rightarrow> (address \<times> binding) outcome" where
  "class_AttachScenario getAbi env cl cfg address =
     (case dial env cfg of
        Some e \<Rightarrow> Panic ''Failed to connect to Ethereum client''
      | None \<Rightarrow>
          (case cl_GetBindFunc cl getAbi address of
             Err e \<Rightarrow> Panic ''Failed to bind contract''
           | Panic m \<Rightarrow> Panic m
           | Ok contract \<Rightarrow> Ok (address, contract)))"

definition class_deployWithin ::
  "abi_parser \<Rightarrow> chain_env \<Rightarrow> contract_class \<Rightarrow> load_config \<Rightarrow> account \<Rightarrow> (address \<times> binding) outcome" where
  "class_deployWithin getAbi env cl cfg deployer =
     (case dial env cfg of
        Some e \<Rightarrow> Err (Wrap ''dial'' e)
      | None \<Rightarrow>
          obind (omap_err (Wrap ''deployment options'') (CreateDeploymentOpts env (GetChainID cfg) deployer)) (\<lambda>auth.
            case cl_DeployContract cl getAbi env auth of
              Inl e \<Rightarrow> Err (Wrap ''send deployment'' e)
            | Inr (address, tx) \<Rightarrow>
                (case ce_mined env tx of
                   Inl e \<Rightarrow> Err (Wrap ''wait for deployment'' e)
                 | Inr success \<Rightarrow>
                     if \<not> success then Err failedDeployment
                     else omap_err (Wrap ''bind contract'')
                            (obind (cl_GetBindFunc cl getAbi address) (\<lambda>contract. Ok (address, contract))))))"

text \<open>
  \<open>Attach\<close> of a scenario, after the base has attached: the client is dialled unless deployments are
  mocked, and the contract bound again; the scenario keeps the binding, or none, with an error.
\<close>

definition class_rebind :: "abi_parser \<Rightarrow> contract_class \<Rightarrow> address \<Rightarrow> (go_error option \<times> binding option) outcome" where
  "class_rebind getAbi cl address =
     (case cl_GetBindFunc cl getAbi address of
        Ok contract \<Rightarrow> Ok (None, Some contract)
      | Err e \<Rightarrow> Ok (Some e, None)
      | Panic m \<Rightarrow> Panic m)"

definition class_Attach ::
  "abi_parser \<Rightarrow> chain_env \<Rightarrow> contract_class \<Rightarrow> load_config \<Rightarrow> address \<Rightarrow> (go_error option \<times> binding option) outcome" where
  "class_Attach getAbi env cl cfg address =
     obind (class_AttachScenario getAbi env cl cfg address) (\<lambda>(a, contract).
       if lc_MockDeploy cfg then class_rebind getAbi cl address
       else obind (index_at (lc_Endpoints cfg) 0) (\<lambda>ep.
              case ce_dial env ep of
                Some e \<Rightarrow> Ok (Some e, Some contract)
              | None \<Rightarrow> class_rebind getAbi cl address))"

definition ERC20_Attach :: "abi_parser \<Rightarrow> chain_env \<Rightarrow> load_config \<Rightarrow> address \<Rightarrow> (go_error option \<times> binding option) outcome" where
  "ERC20_Attach getAbi env cfg address = class_Attach getAbi env ERC20_class cfg address"

definition ERC20Noop_Attach :: "abi_parser \<Rightarrow> chain_env \<Rightarrow> load_config \<Rightarrow> address \<Rightarrow> (go_error option \<times> binding option) outcome" where
  "ERC20Noop_Attach getAbi env cfg address = class_Attach getAbi env ERC20Noop_class cfg address"

definition ERC20Conflict_Attach :: "abi_parser \<Rightarrow> chain_env \<Rightarrow> load_config \<Rightarrow> address \<Rightarrow> (go_error option \<times> binding option) outcome" where
  "ERC20Conflict_Attach getAbi env cfg address = class_Attach getAbi env ERC20Conflict_class cfg address"

definition ERC721_Attach :: "abi_parser \<Rightarrow> chain_env \<Rightarrow> load_config \<Rightarrow> address \<Rightarrow> (go_error option \<times> binding option) outcome" where
  "ERC721_Attach getAbi env cfg address = class_Attach getAbi env ERC721_class cfg address"

definition Disperse_Attach :: "abi_parser \<Rightarrow> chain_env \<Rightarrow> load_config \<Rightarrow> address \<Rightarrow> (go_error option \<times> binding option) outcome" where
  "Disperse_Attach getAbi env cfg address = class_Attach getAbi env Disperse_class cfg address"

definition StorageRW_Attach :: "abi_parser \<Rightarrow> chain_env \<Rightarrow> load_config \<Rightarrow> address \<Rightarrow> (go_error option \<times> binding option) outcome" where
  "StorageRW_Attach getAbi env cfg address = class_Attach getAbi env StorageRW_class cfg address"

subsection \<open>The classes and the table\<close>

definition metadata_of :: "string \<Rightarrow> metadata" where
  "metadata_of name =
     (if name = ''ERC20'' then ERC20MetaData else if name = ''ERC20Noop'' then ERC20NoopMetaData
      else if name = ''ERC20Conflict'' then ERC20ConflictMetaData else if name = ''ERC721'' then ERC721MetaData
      else if name = ''StorageRWv1'' then StorageRWv1MetaData else DisperseMetaData)"

text \<open>The environment of the table when contracts are deployed, bound and called through the bindings.\<close>

definition through_bindings :: "abi_parser \<Rightarrow> chain_env \<Rightarrow> chain_env" where
  "through_bindings getAbi env = env\<lparr>
     ce_bind := (\<lambda>name a. case getAbi (metadata_of name) of Inl e \<Rightarrow> Some e | Inr x \<Rightarrow> None),
     ce_deploy := (\<lambda>name args auth. without_binding (deploy_template getAbi env (metadata_of name) auth args))\<rparr>"

definition calls_through :: "abi \<Rightarrow> chain_env \<Rightarrow> chain_env" where
  "calls_through abi env = env\<lparr>ce_transact := (\<lambda>auth a data. case data of
       NoData \<Rightarrow> ce_transact env auth a NoData
     | Call m args \<Rightarrow> bound_Transact env \<lparr>bc_address = a, bc_abi = abi\<rparr> auth m args)\<rparr>"

lemmas metadata_defs = ERC20MetaData_def ERC20NoopMetaData_def ERC20ConflictMetaData_def ERC721MetaData_def
  StorageRWv1MetaData_def DisperseMetaData_def

lemmas new_defs = NewERC20_def NewERC20Noop_def NewERC20Conflict_def NewERC721_def NewStorageRWv1_def NewDisperse_def
  bindERC20_def bindERC20Noop_def bindERC20Conflict_def bindERC721_def bindStorageRWv1_def bindDisperse_def

lemmas deploy_defs = DeployERC20_def DeployERC20Noop_def DeployERC20Conflict_def DeployERC721_def DeployStorageRWv1_def
  DeployDisperse_def

lemmas deploy_contract_defs = ERC20_DeployContract_def ERC20Noop_DeployContract_def ERC20Conflict_DeployContract_def
  ERC721_DeployContract_def Disperse_DeployContract_def StorageRW_DeployContract_def

lemmas class_defs = ERC20_class_def ERC20Noop_class_def ERC20Conflict_class_def ERC721_class_def Disperse_class_def
  StorageRW_class_def

lemma through_sel [simp]:
  "dial (through_bindings getAbi env) cfg = dial env cfg"
  "ce_dial (through_bindings getAbi env) = ce_dial env" "ce_mined (through_bindings getAbi env) = ce_mined env"
  "CreateDeploymentOpts (through_bindings getAbi env) chain acc = CreateDeploymentOpts env chain acc"
  "ce_bind (through_bindings getAbi env) name a = (case getAbi (metadata_of name) of Inl e \<Rightarrow> Some e | Inr x \<Rightarrow> None)"
  "ce_deploy (through_bindings getAbi env) name args auth =
     without_binding (deploy_template getAbi env (metadata_of name) auth args)"
  by (simp_all add: through_bindings_def dial_def CreateDeploymentOpts_def split: list.split)

text \<open>A class and the contract of the table: the same name, operation, constructor and metadata.\<close>

lemma class_of_contract:
  assumes "class_of impl = Some cl"
  obtains name args where "contract_of impl = Some (name, args)"
    "cl_Name cl = scenario_Name impl" "cl_Operation cl = scenario_Operation impl"
    "cl_GetBindFunc cl = (\<lambda>getAbi a. obind (bind_template getAbi (metadata_of name) a) (\<lambda>c. Ok (binding_of c)))"
    "cl_DeployContract cl = (\<lambda>getAbi env auth. without_binding (deploy_template getAbi env (metadata_of name) auth args))"
    "list_all2 arg_fits args (ab_constructor (md_ABI (metadata_of name)))"
proof -
  have "\<exists>name args. contract_of impl = Some (name, args) \<and>
    cl_Name cl = scenario_Name impl \<and> cl_Operation cl = scenario_Operation impl \<and>
    cl_GetBindFunc cl = (\<lambda>getAbi a. obind (bind_template getAbi (metadata_of name) a) (\<lambda>c. Ok (binding_of c))) \<and>
    cl_DeployContract cl = (\<lambda>getAbi env auth. without_binding (deploy_template getAbi env (metadata_of name) auth args)) \<and>
    list_all2 arg_fits args (ab_constructor (md_ABI (metadata_of name)))"
    using assms by (cases impl) (auto simp: class_defs deploy_contract_defs new_defs deploy_defs metadata_of_def metadata_defs fun_eq_iff)
  then show thesis using that by (elim exE conjE)
qed

lemma class_of_iff: "(class_of impl = None) = (contract_of impl = None)"
  by (cases impl) simp_all

text \<open>The metadata of the repository parse: the parser never answers without an error and without an interface.\<close>

definition never_nil :: "abi_parser \<Rightarrow> bool" where
  "never_nil getAbi \<longleftrightarrow> (\<forall>md. getAbi md \<noteq> Inr None)"

lemma never_nil_cases:
  assumes "never_nil getAbi"
  obtains e where "getAbi md = Inl e" | abi where "getAbi md = Inr (Some abi)"
proof (cases "getAbi md")
  case (Inr x)
  then show thesis using assms that(2) by (cases x) (auto simp: never_nil_def)
qed (use that(1) in simp)

definition bound_at :: "binding \<Rightarrow> address" where
  "bound_at b = bc_address (bn_Transactor b)"

lemma bound_at_binding_of [simp]: "bound_at (binding_of c) = bc_address c"
  by (simp add: bound_at_def binding_of_def)

lemma class_AttachScenario_table:
  assumes "never_nil getAbi" "class_of impl = Some cl"
  shows "AttachScenario (through_bindings getAbi env) cfg address impl =
    obind (class_AttachScenario getAbi env cl cfg address) (\<lambda>(a, b). Ok (a, SetContract (Some (bound_at b)) impl))"
proof -
  obtain name args where c: "contract_of impl = Some (name, args)"
    "cl_GetBindFunc cl = (\<lambda>getAbi a. obind (bind_template getAbi (metadata_of name) a) (\<lambda>c. Ok (binding_of c)))"
    by (rule class_of_contract [OF assms(2)]) blast
  show ?thesis
    by (rule never_nil_cases [OF assms(1), of "metadata_of name"])
      (auto simp: AttachScenario_def class_AttachScenario_def c bind_template_def split: option.split)
qed

lemma class_deployWithin_table:
  assumes "never_nil getAbi" "class_of impl = Some cl" "contract_of impl = Some (name, args)"
  shows "deployWithin (through_bindings getAbi env) cfg deployer name args impl =
    obind (class_deployWithin getAbi env cl cfg deployer) (\<lambda>(a, b). Ok (a, SetContract (Some (bound_at b)) impl))"
proof -
  obtain name' args' where "contract_of impl = Some (name', args')"
    "cl_GetBindFunc cl = (\<lambda>getAbi a. obind (bind_template getAbi (metadata_of name') a) (\<lambda>c. Ok (binding_of c)))"
    "cl_DeployContract cl = (\<lambda>getAbi env auth. without_binding (deploy_template getAbi env (metadata_of name') auth args'))"
    by (rule class_of_contract [OF assms(2)]) blast
  then have c: "cl_GetBindFunc cl = (\<lambda>getAbi a. obind (bind_template getAbi (metadata_of name) a) (\<lambda>c. Ok (binding_of c)))"
    "cl_DeployContract cl = (\<lambda>getAbi env auth. without_binding (deploy_template getAbi env (metadata_of name) auth args))"
    using assms(3) by simp_all
  show ?thesis
    by (rule never_nil_cases [OF assms(1), of "metadata_of name"];
        cases "omap_err (Wrap ''deployment options'') (CreateDeploymentOpts env (GetChainID cfg) deployer)")
      (simp_all add: deployWithin_def class_deployWithin_def c bind_template_def split: option.split sum.split prod.split)
qed

lemma class_Attach_table:
  assumes "never_nil getAbi" "class_of (tg_impl g) = Some cl"
  shows "Attach (through_bindings getAbi env) cfg address g =
    obind (class_Attach getAbi env cl cfg address) (\<lambda>(err, b). Ok (err, g\<lparr>tg_config := Some cfg, tg_address := address,
      tg_deployed := True, tg_impl := SetContract (map_option bound_at b) (tg_impl g)\<rparr>))"
proof -
  obtain name args where c: "contract_of (tg_impl g) = Some (name, args)"
    "cl_GetBindFunc cl = (\<lambda>getAbi a. obind (bind_template getAbi (metadata_of name) a) (\<lambda>c. Ok (binding_of c)))"
    by (rule class_of_contract [OF assms(2)]) blast
  have again: "SetContract c1 (SetContract c2 impl) = SetContract c1 impl" for c1 c2 impl
    by (cases impl) simp_all
  have attach: "AttachScenario (through_bindings getAbi env) cfg address (tg_impl g) =
      obind (class_AttachScenario getAbi env cl cfg address) (\<lambda>(a, b). Ok (a, SetContract (Some (bound_at b)) (tg_impl g)))"
    by (rule class_AttachScenario_table [OF assms])
  show ?thesis
  proof (rule never_nil_cases [OF assms(1), of "metadata_of name"])
    fix e assume e: "getAbi (metadata_of name) = Inl e"
    have "class_AttachScenario getAbi env cl cfg address = Panic (if dial env cfg = None then ''Failed to bind contract''
        else ''Failed to connect to Ethereum client'')"
      by (simp add: class_AttachScenario_def c(2) bind_template_def e split: option.split)
    then show ?thesis by (simp add: Attach_def class_Attach_def base_Attach_def attach)
  next
    fix abi assume abi: "getAbi (metadata_of name) = Inr (Some abi)"
    show ?thesis
    proof (cases "dial env cfg")
      case (Some e)
      then show ?thesis by (simp add: Attach_def class_Attach_def base_Attach_def attach class_AttachScenario_def)
    next
      case None
      then show ?thesis
        by (cases "lc_MockDeploy cfg"; cases "index_at (lc_Endpoints cfg) 0")
          (simp_all add: Attach_def class_Attach_def base_Attach_def attach class_AttachScenario_def c bind_template_def abi
            rebind_def class_rebind_def again split: option.split)
    qed
  qed
qed

text \<open>Every call a scenario makes has a method of its contract's interface and arguments of its types.\<close>

lemma calls_through_transact:
  "abi_accepts abi m args \<Longrightarrow> transact (calls_through abi env) c auth (Call m args) = transact env c auth (Call m args)"
  by (simp add: transact_def calls_through_def bound_Transact_def split: option.split)

lemma calls_through_sel [simp]: "ce_pubkey (calls_through abi env) = ce_pubkey env"
  by (simp add: calls_through_def)

lemma scenario_calls_accepted:
  "abi_accepts (md_ABI ERC20MetaData) ''transfer'' [ArgAddress a, ArgInt n]"
  "abi_accepts (md_ABI ERC20NoopMetaData) ''transfer'' [ArgAddress a, ArgInt n]"
  "abi_accepts (md_ABI ERC20ConflictMetaData) ''transfer'' [ArgAddress a, ArgInt n]"
  "abi_accepts (md_ABI ERC721MetaData) ''mint'' [ArgAddress a, ArgInt n]"
  "abi_accepts (md_ABI DisperseMetaData) ''disperseEtherFixed'' [ArgAddresses as]"
  "abi_accepts (md_ABI DisperseMetaData) ''disperseEther'' [ArgAddresses as, ArgInts ns]"
  "abi_accepts (md_ABI StorageRWv1MetaData) ''rmw'' [ArgInt n, ArgZeroBytes k]"
  "abi_accepts (md_ABI StorageRWv1MetaData) ''read'' [ArgInt n, ArgZeroBytes k]"
  "abi_accepts (md_ABI StorageRWv1MetaData) ''write'' [ArgInt n, ArgInt v, ArgZeroBytes k]"
  by (simp_all add: abi_accepts_def metadata_defs)

lemma storageRW_call_accepted:
  "storageRW_call op slot n = Some call \<Longrightarrow> transact (calls_through (md_ABI StorageRWv1MetaData) env) c auth call = transact env c auth call"
  by (auto simp: storageRW_call_def calls_through_transact scenario_calls_accepted split: if_splits)

lemma StorageRW_calls_accepted:
  "StorageRW_CreateContractTransaction (calls_through (md_ABI StorageRWv1MetaData) env) c p cfg auth sc r =
   StorageRW_CreateContractTransaction env c p cfg auth sc r"
proof -
  have "(case storageRW_call op slot n of None \<Rightarrow> e
       | Some call \<Rightarrow> obind (transact (calls_through (md_ABI StorageRWv1MetaData) env) c auth call) f) =
     (case storageRW_call op slot n of None \<Rightarrow> e | Some call \<Rightarrow> obind (transact env c auth call) f)"
    for op slot n e auth and f :: "eth_tx \<Rightarrow> (eth_tx \<times> tx_scenario \<times> scenario \<times> rng) outcome"
    by (auto simp: storageRW_call_accepted split: option.split)
  then show ?thesis by (simp add: StorageRW_CreateContractTransaction_def Let_def)
qed

lemma contract_tx_accepted:
  assumes "contract_of (tg_impl g) = Some (name, args)"
  shows "contract_tx (calls_through (md_ABI (metadata_of name)) env) cfg auth sc g r keys = contract_tx env cfg auth sc g r keys"
  using assms
  by (cases "tg_impl g") (auto simp: contract_tx_def metadata_of_def calls_through_transact scenario_calls_accepted
      StorageRW_calls_accepted ERC20_CreateContractTransaction_def ERC20Noop_CreateContractTransaction_def
      ERC20Conflict_CreateContractTransaction_def ERC721_CreateContractTransaction_def Disperse_CreateContractTransaction_def)

text \<open>The methods of the bindings, and what the scenarios make of them.\<close>

lemma binding_methods:
  "t = \<lparr>bc_address = a, bc_abi = md_ABI ERC20MetaData\<rparr> \<Longrightarrow>
   ERC20_CreateContractTransaction env (Some a) auth sc = ERC20_Transfer env t (auth\<lparr>o_gas_limit := 72156\<rparr>) (ts_receiver sc) 1"
  "t = \<lparr>bc_address = a, bc_abi = md_ABI ERC20NoopMetaData\<rparr> \<Longrightarrow>
   ERC20Noop_CreateContractTransaction env (Some a) auth sc =
     ERC20Noop_Transfer env t (auth\<lparr>o_gas_limit := 22460\<rparr>) (ts_receiver sc) 1"
  "t = \<lparr>bc_address = a, bc_abi = md_ABI ERC20ConflictMetaData\<rparr> \<Longrightarrow>
   ERC20Conflict_CreateContractTransaction env (Some a) auth sc =
     ERC20Conflict_Transfer env t (auth\<lparr>o_gas_limit := 22460\<rparr>) (ts_receiver sc) 1"
  "t = \<lparr>bc_address = a, bc_abi = md_ABI ERC721MetaData\<rparr> \<Longrightarrow>
   ERC721_CreateContractTransaction env (Some a) k auth sc =
     obind (ERC721_Mint env t (auth\<lparr>o_gas_limit := 22460\<rparr>) (ts_receiver sc) (i64 (k + 1))) (\<lambda>tx. Ok (tx, i64 (k + 1)))"
  "t = \<lparr>bc_address = a, bc_abi = md_ABI DisperseMetaData\<rparr> \<Longrightarrow>
   Disperse_CreateContractTransaction env (Some a) pool auth r keys =
     obind (next_accounts (ce_pubkey env) 100 pool r keys) (\<lambda>(targets, pool, r, keys).
       obind (Disperse_DisperseEtherFixed env t auth (map acc_address targets)) (\<lambda>tx. Ok (tx, pool, r, keys)))"
  "t = \<lparr>bc_address = a, bc_abi = md_ABI StorageRWv1MetaData\<rparr> \<Longrightarrow> storageRW_call op slot n = Some call \<Longrightarrow>
   transact env (Some a) auth call =
     (if op = OpRmw then StorageRWv1_Rmw env t auth slot n
      else if op = OpRead then StorageRWv1_Read env t auth slot n
      else StorageRWv1_Write env t auth slot storageRWWriteValue n)"
  by (auto simp: transact_def bound_Transact_def scenario_calls_accepted storageRW_call_def
      ERC20_CreateContractTransaction_def ERC20Noop_CreateContractTransaction_def
      ERC20Conflict_CreateContractTransaction_def ERC721_CreateContractTransaction_def Disperse_CreateContractTransaction_def
      ERC20_Transfer_def ERC20Noop_Transfer_def ERC20Conflict_Transfer_def ERC721_Mint_def Disperse_DisperseEtherFixed_def
      StorageRWv1_Rmw_def StorageRWv1_Read_def StorageRWv1_Write_def Let_def split: if_splits)

end
