(* ===== verification/ContractRun.thy ===== *)
theory ContractRun
  imports Contracts Bindings
begin

text \<open>
  The transactions of the scenarios on the contracts they were made for: what a call does to a
  contract, what the EVM charges before it runs, and a run of a scenario against its contract.
\<close>

subsection \<open>Calls\<close>

datatype contract_state =
    ERC20C erc20
  | NoopC erc20
  | ConflictC conflict20
  | NftC nft
  | StorageC storage_rw
  | DisperseC disperse_state

text \<open>
  The functions of a contract that change its state, by the name of the method; an integer
  argument arrives modulo \<open>2 ^ 256\<close>. A function that is not payable reverts when it is sent a value.
\<close>

definition ERC20_call :: "address \<Rightarrow> string \<Rightarrow> abi_arg list \<Rightarrow> erc20 \<Rightarrow> erc20 option" where
  "ERC20_call sender m args s =
     (case args of
        [ArgAddress a, ArgInt n] \<Rightarrow>
          if m = ''transfer'' then map_option snd (ERC20_transfer sender a (word_of_int n) s)
          else if m = ''approve'' then Some (snd (ERC20_approve sender a (word_of_int n) s)) else None
      | [ArgAddress a, ArgAddress b, ArgInt n] \<Rightarrow>
          if m = ''transferFrom'' then map_option snd (ERC20_transferFrom sender a b (word_of_int n) s) else None
      | _ \<Rightarrow> None)"

definition ERC20Noop_call :: "string \<Rightarrow> abi_arg list \<Rightarrow> erc20 \<Rightarrow> erc20 option" where
  "ERC20Noop_call m args s =
     (case args of
        [ArgAddress a, ArgInt n] \<Rightarrow>
          if m = ''transfer'' then map_option snd (ERC20Noop_transfer a (word_of_int n) s)
          else if m = ''approve'' then map_option snd (ERC20Noop_approve a (word_of_int n) s) else None
      | [ArgAddress a, ArgAddress b, ArgInt n] \<Rightarrow>
          if m = ''transferFrom'' then map_option snd (ERC20Noop_transferFrom a b (word_of_int n) s) else None
      | _ \<Rightarrow> None)"

definition ERC20Conflict_call :: "address \<Rightarrow> string \<Rightarrow> abi_arg list \<Rightarrow> conflict20 \<Rightarrow> conflict20 option" where
  "ERC20Conflict_call sender m args s =
     (case args of
        [ArgAddress a, ArgInt n] \<Rightarrow>
          if m = ''transfer'' then map_option snd (ERC20Conflict_transfer sender a (word_of_int n) s)
          else if m = ''approve'' then Some (snd (ERC20_approve sender a (word_of_int n) s)) else None
      | [ArgAddress a, ArgAddress b, ArgInt n] \<Rightarrow>
          if m = ''transferFrom'' then map_option snd (ERC20Conflict_transferFrom a b (word_of_int n) s) else None
      | _ \<Rightarrow> None)"

definition ERC721_call :: "address \<Rightarrow> string \<Rightarrow> abi_arg list \<Rightarrow> nft \<Rightarrow> nft option" where
  "ERC721_call sender m args s =
     (case args of
        [ArgAddress a, ArgInt n] \<Rightarrow>
          if m = ''mint'' then ERC721_mint a (word_of_int n) s
          else if m = ''approve'' then ERC721_approve sender a (word_of_int n) s else None
      | [ArgAddress a, ArgBool b] \<Rightarrow> if m = ''setApprovalForAll'' then Some (ERC721_setApprovalForAll sender a b s) else None
      | [ArgInt n] \<Rightarrow> if m = ''burn'' then ERC721_burn sender (word_of_int n) s else None
      | [ArgAddress a, ArgAddress b, ArgInt n] \<Rightarrow>
          if m = ''transferFrom'' then ERC721_transferFrom sender a b (word_of_int n) s else None
      | _ \<Rightarrow> None)"

definition StorageRW_call :: "string \<Rightarrow> abi_arg list \<Rightarrow> storage_rw \<Rightarrow> storage_rw option" where
  "StorageRW_call m args s =
     (case args of
        [ArgInt n, ArgZeroBytes k] \<Rightarrow>
          if m = ''rmw'' then Some (StorageRW_rmw (word_of_int n) s)
          else if m = ''read'' then Some (StorageRW_read (word_of_int n) s) else None
      | [ArgInt n, ArgInt v, ArgZeroBytes k] \<Rightarrow>
          if m = ''write'' then Some (StorageRW_write (word_of_int n) (word_of_int v) s) else None
      | _ \<Rightarrow> None)"

text \<open>Of Disperse the functions that move no token.\<close>

definition Disperse_call ::
  "address \<Rightarrow> address \<Rightarrow> int \<Rightarrow> string \<Rightarrow> abi_arg list \<Rightarrow> disperse_state \<times> ledger \<Rightarrow> (disperse_state \<times> ledger) option" where
  "Disperse_call this sender amt m args x =
     (case (args, x) of
        ([ArgAddresses rs], (d, led)) \<Rightarrow>
          if m = ''disperseEtherFixed'' then map_option (Pair d) (disperseEtherFixed this sender amt rs d led) else None
      | ([ArgAddresses rs, ArgInts vs], (d, led)) \<Rightarrow>
          if m = ''disperseEther'' then map_option (Pair d) (disperseEther this sender amt rs vs led) else None
      | ([ArgInt n], (d, led)) \<Rightarrow>
          if amt \<noteq> 0 then None
          else if m = ''setFixedEtherAmount'' then map_option (\<lambda>d. (d, led)) (setFixedEtherAmount sender (word_of_int n) d)
          else if m = ''setFixedTokenAmount'' then map_option (\<lambda>d. (d, led)) (setFixedTokenAmount sender (word_of_int n) d)
          else None
      | ([ArgAddress a], (d, led)) \<Rightarrow>
          if amt \<noteq> 0 then None
          else if m = ''transferOwnership'' then map_option (\<lambda>d. (d, led)) (transferOwnership sender a d) else None
      | _ \<Rightarrow> None)"

definition unpaid :: "int \<Rightarrow> ('s \<Rightarrow> contract_state) \<Rightarrow> ledger \<Rightarrow> 's option \<Rightarrow> (contract_state \<times> ledger) option" where
  "unpaid amt c led x = (if amt \<noteq> 0 then None else map_option (\<lambda>s. (c s, led)) x)"

fun call_contract ::
  "address \<Rightarrow> address \<Rightarrow> int \<Rightarrow> string \<Rightarrow> abi_arg list \<Rightarrow> contract_state \<Rightarrow> ledger \<Rightarrow> (contract_state \<times> ledger) option" where
  "call_contract this sender amt m args (ERC20C s) led = unpaid amt ERC20C led (ERC20_call sender m args s)"
| "call_contract this sender amt m args (NoopC s) led = unpaid amt NoopC led (ERC20Noop_call m args s)"
| "call_contract this sender amt m args (ConflictC s) led = unpaid amt ConflictC led (ERC20Conflict_call sender m args s)"
| "call_contract this sender amt m args (NftC s) led = unpaid amt NftC led (ERC721_call sender m args s)"
| "call_contract this sender amt m args (StorageC s) led = unpaid amt StorageC led (StorageRW_call m args s)"
| "call_contract this sender amt m args (DisperseC d) led =
     map_option (\<lambda>(d, led). (DisperseC d, led)) (Disperse_call this sender amt m args (d, led))"

text \<open>A transaction without data reaches only the contract that can receive.\<close>

definition run_tx :: "address \<Rightarrow> address \<Rightarrow> eth_tx \<Rightarrow> contract_state \<times> ledger \<Rightarrow> (contract_state \<times> ledger) option" where
  "run_tx this sender tx x =
     (case (et_data tx, x) of
        (Call m args, (st, led)) \<Rightarrow> call_contract this sender (et_amount tx) m args st led
      | (NoData, (ERC20C s, led)) \<Rightarrow>
          Option.bind (pay sender this (et_amount tx) led) (\<lambda>led.
            map_option (\<lambda>s. (ERC20C s, led)) (ERC20_receive sender (word_of_int (et_amount tx)) s))
      | _ \<Rightarrow> None)"

text \<open>A sequence of transactions, each with its sender; the first that fails ends it.\<close>

fun run_all :: "(address \<Rightarrow> eth_tx \<Rightarrow> 'x \<Rightarrow> 'x option) \<Rightarrow> (address \<times> eth_tx) list \<Rightarrow> 'x \<Rightarrow> 'x option" where
  "run_all step [] x = Some x"
| "run_all step ((sender, tx) # txs) x = Option.bind (step sender tx x) (run_all step txs)"

text \<open>The contract as the constructor leaves it, with the arguments the scenario deploys it with.\<close>

fun deployed_state :: "address \<Rightarrow> scenario_impl \<Rightarrow> contract_state option" where
  "deployed_state deployer (ERC20Scenario c) = Some (ERC20C (ERC20_constructor ''LoadToken'' ''LT''))"
| "deployed_state deployer (ERC20NoopScenario c) = Some (NoopC (ERC20_constructor ''NoopToken'' ''NT''))"
| "deployed_state deployer (ERC20ConflictScenario c) = Some (ConflictC (ERC20Conflict_constructor ''ConflictToken'' ''CT''))"
| "deployed_state deployer (ERC721Scenario c n) = Some (NftC ERC721_new)"
| "deployed_state deployer (StorageRWScenario c p) = Some (StorageC StorageRW_new)"
| "deployed_state deployer (DisperseScenario c p) = Some (DisperseC (Disperse_constructor deployer 1 1))"
| "deployed_state deployer impl = None"

fun logs_of :: "contract_state \<Rightarrow> sol_event list" where
  "logs_of (ERC20C s) = e_logs s"
| "logs_of (NoopC s) = e_logs s"
| "logs_of (ConflictC s) = e_logs s"
| "logs_of (NftC s) = n_logs s"
| "logs_of (StorageC s) = []"
| "logs_of (DisperseC s) = []"

subsection \<open>One transfer, one mint\<close>

lemma sol_add_Some: "unat a + unat b < 2 ^ 256 \<Longrightarrow> sol_add a b = Some (a + b) \<and> unat (a + b) = unat a + unat b"
  by (simp add: sol_add_def unat_word_ariths)

lemma sol_sub_Some: "b \<le> a \<Longrightarrow> sol_sub a b = Some (a - b) \<and> unat (a - b) = unat a - unat b"
  by (simp add: sol_sub_def unat_sub)

definition at_most :: "nat \<Rightarrow> (address \<Rightarrow> u256) \<Rightarrow> bool" where
  "at_most k m \<longleftrightarrow> (\<forall>a. unat (m a) \<le> k)"

lemma at_mostD: "at_most k m \<Longrightarrow> unat (m a) \<le> k"
  by (simp add: at_most_def)

lemma at_most_mono: "at_most k m \<Longrightarrow> k \<le> k' \<Longrightarrow> at_most k' m"
  using order_trans by (auto simp: at_most_def)

lemma map_add_at_most:
  assumes "at_most k m" "k + unat v < 2 ^ 256"
  shows "\<exists>m'. map_add_at a v m = Some m' \<and> at_most (k + unat v) m'"
proof -
  have "unat (m a) + unat v < 2 ^ 256" using at_mostD [OF assms(1), of a] assms(2) by linarith
  from sol_add_Some [OF this] show ?thesis
    using at_mostD [OF assms(1)] by (auto simp: map_add_at_def at_most_def intro: trans_le_add1)
qed

lemma map_sub_at_most:
  assumes "at_most k m" "v \<le> m a"
  shows "\<exists>m'. map_sub_at a v m = Some m' \<and> at_most k m'"
  using sol_sub_Some [OF assms(2)] at_mostD [OF assms(1)]
  by (auto simp: map_sub_at_def at_most_def intro: diff_le_self order_trans)

lemma one_le_word: "\<not> x < (1 :: u256) \<Longrightarrow> 1 \<le> x"
  by (rule leI)

lemma ERC20_transfer_one:
  assumes "at_most k (e_balances s)" "k + 2 < 2 ^ 256"
  shows "\<exists>s'. ERC20_transfer x y 1 s = Some (True, s') \<and> at_most (k + 2) (e_balances s') \<and>
    e_logs s' = e_logs s @ [EvTransfer x y 1] \<and> s' = s\<lparr>e_balances := e_balances s', e_logs := e_logs s'\<rparr>"
proof -
  obtain b where b: "(if e_balances s x < 1 then map_add_at x 1 (e_balances s) else map_sub_at x 1 (e_balances s)) = Some b"
    "at_most (k + 1) b"
  proof (cases "e_balances s x < 1")
    case True
    then show thesis using map_add_at_most [OF assms(1), of 1 x] assms(2) that by auto
  next
    case False
    then obtain m where m: "map_sub_at x 1 (e_balances s) = Some m" "at_most k m"
      using map_sub_at_most [OF assms(1) one_le_word [OF False]] by blast
    then have "at_most (k + 1) m" by (auto elim: at_most_mono)
    then show thesis using that False m(1) by simp
  qed
  obtain b' where "map_add_at y 1 b = Some b'" "at_most (k + 1 + 1) b'"
    using map_add_at_most [OF b(2), of 1 y] assms(2) by auto
  then show ?thesis using b(1) by (auto simp: ERC20_transfer_def)
qed

lemma unat_default: "unat DEFAULT_BALANCE = 10 ^ 21"
  by (simp add: DEFAULT_BALANCE_def)

lemma ERC20Conflict_transfer_one:
  assumes "at_most (10 ^ 21 + k) (e_balances s)" "e_counter s = of_nat k" "k < 2 ^ 255"
  shows "\<exists>s'. ERC20Conflict_transfer x y 1 s = Some (True, s') \<and> at_most (10 ^ 21 + Suc k) (e_balances s') \<and>
    e_counter s' = of_nat (Suc k) \<and> e_logs s' = e_logs s @ [EvTransfer x y 1]"
proof -
  let ?b = "if e_balances s x < 1 then map_option (\<lambda>v. (e_balances s)(x := v)) (sol_add 1 DEFAULT_BALANCE) else Some (e_balances s)"
  have add: "sol_add 1 DEFAULT_BALANCE = Some (1 + DEFAULT_BALANCE) \<and> unat (1 + DEFAULT_BALANCE) = 1 + 10 ^ 21"
    using sol_add_Some [of 1 DEFAULT_BALANCE] by (simp add: unat_default)
  obtain b where b: "?b = Some b" "at_most (10 ^ 21 + Suc k) b" "1 \<le> b x"
  proof (cases "e_balances s x < 1")
    case True
    have "(1 :: u256) \<le> 1 + DEFAULT_BALANCE" using add by (simp add: word_le_nat_alt)
    moreover have "at_most (10 ^ 21 + Suc k) ((e_balances s)(x := 1 + DEFAULT_BALANCE))"
      unfolding at_most_def
    proof
      fix a show "unat (((e_balances s)(x := 1 + DEFAULT_BALANCE)) a) \<le> 10 ^ 21 + Suc k"
        using add at_mostD [OF assms(1), of a] by (cases "a = x") simp_all
    qed
    ultimately show thesis using that True add by simp
  next
    case False
    have "at_most (10 ^ 21 + Suc k) (e_balances s)" by (rule at_most_mono [OF assms(1)]) simp
    then show thesis using that False one_le_word [OF False] by simp
  qed
  obtain b1 where b1: "map_sub_at x 1 b = Some b1"
    "\<forall>a. unat (b1 a) \<le> (if a = x then 10 ^ 21 + k else unat (b a))"
    using sol_sub_Some [OF b(3)] at_mostD [OF b(2), of x] by (fastforce simp: map_sub_at_def)
  have "unat (b1 a) \<le> 10 ^ 21 + k" for a
    using b1(2) [rule_format, of a] b(1) at_mostD [OF assms(1), of a] add by (cases "a = x") (auto split: if_splits)
  then have "at_most (10 ^ 21 + k) b1" by (simp only: at_most_def simp_thms)
  moreover have "10 ^ 21 + k + unat (1 :: u256) < 2 ^ 256" using assms(3) by simp
  ultimately have "\<exists>m. map_add_at y 1 b1 = Some m \<and> at_most (10 ^ 21 + k + unat (1 :: u256)) m"
    by (rule map_add_at_most)
  then obtain b2 where b2: "map_add_at y 1 b1 = Some b2" "at_most (10 ^ 21 + k + unat (1 :: u256)) b2"
    by (elim exE conjE)
  have b2': "at_most (10 ^ 21 + Suc k) b2" by (rule at_most_mono [OF b2(2)]) simp
  have "unat (of_nat k :: u256) = k" using assms(3) by (simp add: unat_of_nat take_bit_nat_eq_self)
  then have "sol_add (e_counter s) 1 = Some (of_nat (Suc k))"
    using sol_add_Some [of "of_nat k" 1] assms(2,3) by (simp add: add.commute)
  moreover define s' where "s' = s\<lparr>e_balances := b2, e_counter := of_nat (Suc k), e_logs := e_logs s @ [EvTransfer x y 1]\<rparr>"
  ultimately have "ERC20Conflict_transfer x y 1 s = Some (True, s')"
    unfolding ERC20Conflict_transfer_def b(1) by (simp add: b1(1) b2(1))
  moreover have "e_balances s' = b2" "e_counter s' = of_nat (Suc k)" "e_logs s' = e_logs s @ [EvTransfer x y 1]"
    by (cases s; simp add: s'_def)+
  ultimately show ?thesis using b2' by (intro exI [of _ s']) simp
qed

lemma ERC721_mint_one:
  assumes "at_most k (n_balanceOf s)" "Suc k < 2 ^ 256" "y \<noteq> 0"
  shows "\<exists>s'. ERC721_mint y t s = Some s' \<and> at_most (Suc k) (n_balanceOf s') \<and>
    n_ownerOf s' = (n_ownerOf s)(t := y) \<and> n_logs s' = n_logs s @ [EvTransfer 0 y t]"
  using map_add_at_most [OF assms(1), of 1 y] assms(2,3) by (auto simp: ERC721_mint_def)

subsection \<open>What a scenario issues\<close>

definition issued :: "scenario_impl \<Rightarrow> tx_scenario \<Rightarrow> eth_tx \<Rightarrow> bool" where
  "issued impl sc tx \<longleftrightarrow> et_amount tx = 0 \<and>
     (case impl of
        ERC20Scenario c \<Rightarrow> et_gas tx = 72156 \<and> et_data tx = Call ''transfer'' [ArgAddress (ts_receiver sc), ArgInt 1]
      | ERC20NoopScenario c \<Rightarrow> et_gas tx = 22460 \<and> et_data tx = Call ''transfer'' [ArgAddress (ts_receiver sc), ArgInt 1]
      | ERC20ConflictScenario c \<Rightarrow> et_gas tx = 22460 \<and> et_data tx = Call ''transfer'' [ArgAddress (ts_receiver sc), ArgInt 1]
      | ERC721Scenario c n \<Rightarrow>
          et_gas tx = 22460 \<and> et_data tx = Call ''mint'' [ArgAddress (ts_receiver sc), ArgInt (i64 (n + 1))]
      | DisperseScenario c p \<Rightarrow>
          \<exists>as. length as = 100 \<and> et_gas tx = 200000 \<and> et_data tx = Call ''disperseEtherFixed'' [ArgAddresses as]
      | StorageRWScenario c p \<Rightarrow>
          \<exists>op slot n. op \<in> {OpRmw, OpRead, OpWrite} \<and> n \<le> 131072 \<and> et_gas tx = storageRW_gas n \<and>
            storageRW_call op slot n = Some (et_data tx)
      | _ \<Rightarrow> False)"

text \<open>The scenario after one transaction: only the ids of ERC721 and the pool of Disperse move on.\<close>

definition moved_on :: "scenario_impl \<Rightarrow> scenario_impl \<Rightarrow> bool" where
  "moved_on impl impl' \<longleftrightarrow>
     (case impl of
        ERC721Scenario c n \<Rightarrow> impl' = ERC721Scenario c (i64 (n + 1))
      | DisperseScenario c p \<Rightarrow> (\<exists>p'. impl' = DisperseScenario c p')
      | _ \<Rightarrow> impl' = impl)"

lemma call_tx_amount [simp]: "et_amount (call_tx sc a gas d) = 0"
  by (simp add: call_tx_def)

lemma contract_tx_issued:
  assumes call: "calls_as env auth sc" "o_gas_limit auth = txGasLimit"
    and g: "gen_ready g" "contract_of (tg_impl g) \<noteq> None"
  shows "\<exists>tx sc' g' r' keys'. contract_tx env cfg auth sc g r keys = Ok (tx, sc', g', r', keys') \<and>
    issued (tg_impl g) sc tx \<and> moved_on (tg_impl g) (tg_impl g')"
proof -
  obtain a where a: "bound_to (tg_impl g) = Some a" using g by (auto simp: gen_ready_def)
  have "auth\<lparr>o_gas_limit := txGasLimit\<rparr> = auth" using call(2) by (cases auth) simp
  then have dflt: "transact env (Some a) auth data = Ok (call_tx sc a txGasLimit data)" for data
    using calls_asD [OF call(1), of txGasLimit a data] by (simp add: txGasLimit_def)
  note tx = calls_asD [OF call(1)]
  show ?thesis
  proof (cases "tg_impl g")
    case (DisperseScenario c pool)
    obtain accs r' keys' where d: "next_accounts (ce_pubkey env) 100 pool r keys = Ok (accs, pool, r', keys')" "length accs = 100"
      using next_accounts_fresh [of pool "ce_pubkey env" 100 r keys] g(1) DisperseScenario by (auto simp: gen_ready_def impl_ok_def)
    then show ?thesis using a DisperseScenario dflt
      by (auto simp: contract_tx_def Disperse_CreateContractTransaction_def issued_def moved_on_def txGasLimit_def
          intro!: exI [of _ "map acc_address accs"])
  next
    case (StorageRWScenario c p)
    then have cfg: "storage_ok (tg_scenario g)" "storage_picks (tg_scenario g) p" "c = Some a"
      using g(1) a by (simp_all add: gen_ready_def impl_ok_def)
    obtain op slot n cfg' r' where s: "StorageRW_CreateContractTransaction env (Some a) p (tg_scenario g) auth sc r =
        Ok (call_tx sc a (storageRW_gas n) (the (storageRW_call op slot n)), sc\<lparr>ts_operation := op\<rparr>, cfg', r')"
      "op \<in> {OpRmw, OpRead, OpWrite}" "n \<le> 131072"
      using StorageRW_tx_ok [OF call(1) cfg(1,2), of a r] by (elim exE conjE)
    have "storageRW_call op slot n = Some (the (storageRW_call op slot n))"
      using storageRW_call_ok [OF s(2), of slot n] by simp
    then have "issued (tg_impl g) sc (call_tx sc a (storageRW_gas n) (the (storageRW_call op slot n)))"
      using s(2,3) StorageRWScenario by (simp only: issued_def scenario_impl.case call_tx_amount call_tx_sel) blast
    moreover have "contract_tx env cfg auth sc g r keys =
        Ok (call_tx sc a (storageRW_gas n) (the (storageRW_call op slot n)), sc\<lparr>ts_operation := op\<rparr>,
            g\<lparr>tg_scenario := cfg'\<rparr>, r', keys)"
      by (simp add: contract_tx_def StorageRWScenario cfg(3) s(1))
    moreover have "moved_on (tg_impl g) (tg_impl (g\<lparr>tg_scenario := cfg'\<rparr>))"
      by (simp add: moved_on_def StorageRWScenario)
    ultimately show ?thesis by (intro exI conjI)
  qed (use a g(2) in \<open>simp_all add: contract_tx_def ERC20_CreateContractTransaction_def tx issued_def moved_on_def
      ERC20Noop_CreateContractTransaction_def ERC20Conflict_CreateContractTransaction_def ERC721_CreateContractTransaction_def Let_def\<close>)
qed

lemma Generate_issued:
  assumes "binds env" "well_keyed env (ts_sender sc)" "gen_ready g" "contract_of (tg_impl g) \<noteq> None"
  shows "\<exists>tx sc' g' r' keys'. Generate env unix sc g r keys = Ok (tx, sc', g', r', keys') \<and> gen_ready g' \<and>
    issued (tg_impl g) sc tx \<and> moved_on (tg_impl g) (tg_impl g')"
proof -
  obtain cfg where cfg: "tg_config g = Some cfg" using assms(3,4) by (auto simp: gen_ready_def)
  obtain auth where auth: "CreateTransactionOpts env (GetChainID cfg) sc = Ok auth" "o_gas_limit auth = txGasLimit"
    "calls_as env auth sc"
    by (rule CreateTransactionOpts_ok [OF assms(1,2)]) blast
  have "tg_deployed g" using assms(3) by (simp add: gen_ready_def)
  then have eq: "Generate env unix sc g r keys = contract_tx env cfg auth sc g r keys"
    using assms(4) cfg auth(1) by (cases "tg_impl g") (simp_all add: Generate_def CreateTransaction_def)
  show ?thesis
    using contract_tx_issued [OF auth(3,2) assms(3,4), of cfg r keys] Generate_ok [OF assms(1-3), of unix r keys]
    unfolding eq generated_ok_def by auto
qed

subsection \<open>A run of a scenario on its contract\<close>

text \<open>The transactions of a sequence of requests, each with the account that signs it.\<close>

fun generate_all ::
  "chain_env \<Rightarrow> int \<Rightarrow> tx_scenario list \<Rightarrow> tx_generator \<Rightarrow> rng \<Rightarrow> key_stream \<Rightarrow> (address \<times> eth_tx) list outcome" where
  "generate_all env unix [] g r keys = Ok []"
| "generate_all env unix (sc # scs) g r keys =
     obind (Generate env unix sc g r keys) (\<lambda>(tx, sc', g', r', keys').
       obind (generate_all env unix scs g' r' keys') (\<lambda>txs. Ok ((acc_address (ts_sender sc), tx) # txs)))"

text \<open>The contract after \<open>k\<close> transactions of the scenario.\<close>

definition suits :: "nat \<Rightarrow> scenario_impl \<Rightarrow> contract_state \<Rightarrow> bool" where
  "suits k impl st \<longleftrightarrow>
     (case (impl, st) of
        (ERC20Scenario c, ERC20C s) \<Rightarrow> at_most (2 * k) (e_balances s)
      | (ERC20NoopScenario c, NoopC s) \<Rightarrow> s = ERC20_constructor ''NoopToken'' ''NT''
      | (ERC20ConflictScenario c, ConflictC s) \<Rightarrow> at_most (10 ^ 21 + k) (e_balances s) \<and> e_counter s = of_nat k
      | (ERC721Scenario c n, NftC s) \<Rightarrow> at_most k (n_balanceOf s) \<and> n = int k
      | (StorageRWScenario c p, StorageC s) \<Rightarrow> True
      | _ \<Rightarrow> False)"

text \<open>The event of the \<open>k\<close>-th transaction, from 0.\<close>

definition event_of :: "scenario_impl \<Rightarrow> nat \<times> tx_scenario \<Rightarrow> sol_event list" where
  "event_of impl x =
     (case x of (k, sc) \<Rightarrow>
        (case impl of
           ERC20Scenario c \<Rightarrow> [EvTransfer (acc_address (ts_sender sc)) (ts_receiver sc) 1]
         | ERC20ConflictScenario c \<Rightarrow> [EvTransfer (acc_address (ts_sender sc)) (ts_receiver sc) 1]
         | ERC721Scenario c n \<Rightarrow> [EvTransfer 0 (ts_receiver sc) (of_nat (Suc k))]
         | _ \<Rightarrow> []))"

lemma event_of_moved: "moved_on impl impl' \<Longrightarrow> event_of impl' = event_of impl"
  by (cases impl) (auto simp: moved_on_def event_of_def)

lemma suits_deployed:
  "deployed_state deployer impl = Some st \<Longrightarrow> (\<forall>c p. impl \<noteq> DisperseScenario c p) \<Longrightarrow>
   (\<forall>c n. impl = ERC721Scenario c n \<longrightarrow> n = 0) \<Longrightarrow> suits 0 impl st \<and> logs_of st = []"
  by (cases impl) (auto simp: suits_def at_most_def ERC20_constructor_def ERC20Conflict_constructor_def ERC721_new_def)

lemma i64_Suc: "k < 2 ^ 62 \<Longrightarrow> i64 (int k + 1) = int (Suc k)"
  by (subst i64_id) (auto simp: is_i64_def)

lemma storage_runs:
  assumes "storageRW_call op slot n = Some (et_data tx)" "et_amount tx = 0"
  shows "\<exists>s'. run_tx this sender tx (StorageC s, led) = Some (StorageC s', led)"
  using assms(1) [unfolded storageRW_call_def, THEN sym] assms(2)
  by (auto simp: run_tx_def unpaid_def StorageRW_call_def split: if_splits)

lemma issued_runs:
  assumes "issued impl sc tx" "suits k impl st" "moved_on impl impl'" "k < 2 ^ 62"
    "ts_receiver sc \<noteq> 0 \<or> (\<forall>c n. impl \<noteq> ERC721Scenario c n)"
  shows "\<exists>st'. run_tx this (acc_address (ts_sender sc)) tx (st, led) = Some (st', led) \<and> suits (Suc k) impl' st' \<and>
    logs_of st' = logs_of st @ event_of impl (k, sc)"
proof (cases impl)
  case (ERC20Scenario c)
  then obtain s where s: "st = ERC20C s" "at_most (2 * k) (e_balances s)"
    using assms(2) by (cases st) (auto simp: suits_def)
  show ?thesis
    using ERC20_transfer_one [OF s(2), of "acc_address (ts_sender sc)" "ts_receiver sc"] assms(1,3,4)
    by (auto simp: ERC20Scenario s(1) issued_def moved_on_def run_tx_def unpaid_def ERC20_call_def suits_def event_of_def)
next
  case (ERC20NoopScenario c)
  then obtain s where "st = NoopC s" "s = ERC20_constructor ''NoopToken'' ''NT''"
    using assms(2) by (cases st) (auto simp: suits_def)
  then show ?thesis using assms(1,3)
    by (auto simp: ERC20NoopScenario issued_def moved_on_def run_tx_def unpaid_def ERC20Noop_call_def ERC20Noop_transfer_def
        suits_def event_of_def)
next
  case (ERC20ConflictScenario c)
  then obtain s where s: "st = ConflictC s" "at_most (10 ^ 21 + k) (e_balances s)" "e_counter s = of_nat k"
    using assms(2) by (cases st) (auto simp: suits_def)
  have "k < 2 ^ 255" using assms(4) by simp
  from ERC20Conflict_transfer_one [OF s(2,3) this, of "acc_address (ts_sender sc)" "ts_receiver sc"]
  obtain s' where "ERC20Conflict_transfer (acc_address (ts_sender sc)) (ts_receiver sc) 1 s = Some (True, s')"
    "at_most (10 ^ 21 + Suc k) (e_balances s')" "e_counter s' = of_nat (Suc k)"
    "e_logs s' = e_logs s @ [EvTransfer (acc_address (ts_sender sc)) (ts_receiver sc) 1]"
    by (elim exE conjE) blast
  then show ?thesis using assms(1,3)
    by (simp add: ERC20ConflictScenario s(1) issued_def moved_on_def run_tx_def unpaid_def ERC20Conflict_call_def suits_def
        event_of_def)
next
  case (ERC721Scenario c n)
  then obtain s where s: "st = NftC s" "at_most k (n_balanceOf s)" "n = int k"
    using assms(2) by (cases st) (auto simp: suits_def)
  have "Suc k < 2 ^ 256" "ts_receiver sc \<noteq> 0" using assms(4,5) ERC721Scenario by auto
  from ERC721_mint_one [OF s(2) this, of "of_nat (Suc k)"]
  obtain s' where "ERC721_mint (ts_receiver sc) (of_nat (Suc k)) s = Some s'" "at_most (Suc k) (n_balanceOf s')"
    "n_logs s' = n_logs s @ [EvTransfer 0 (ts_receiver sc) (of_nat (Suc k))]"
    by (elim exE conjE) blast
  moreover have "i64 (n + 1) = int (Suc k)" using i64_Suc [OF assms(4)] s(3) by simp
  moreover have "word_of_int (int (Suc k)) = (of_nat (Suc k) :: u256)" by (simp only: of_int_of_nat_eq)
  ultimately show ?thesis using assms(1,3)
    by (simp add: ERC721Scenario s(1) issued_def moved_on_def run_tx_def unpaid_def ERC721_call_def suits_def event_of_def)
next
  case (StorageRWScenario c p)
  then obtain s where s: "st = StorageC s" using assms(2) by (cases st) (auto simp: suits_def)
  obtain op slot n where "storageRW_call op slot n = Some (et_data tx)" "et_amount tx = 0"
    using assms(1) StorageRWScenario by (auto simp: issued_def)
  from storage_runs [OF this] obtain s' where
    "run_tx this (acc_address (ts_sender sc)) tx (StorageC s, led) = Some (StorageC s', led)" by blast
  then show ?thesis using assms(3) by (simp add: StorageRWScenario s moved_on_def suits_def event_of_def)
qed (use assms(2) in \<open>auto simp: suits_def\<close>)

text \<open>For any way to run a transaction that agrees with the call itself on what the scenario issues.\<close>

lemma load_runs:
  assumes agree: "\<And>sc tx st k led impl. issued impl sc tx \<Longrightarrow> suits k impl st \<Longrightarrow> P impl \<Longrightarrow>
      step (acc_address (ts_sender sc)) tx (st, led) = run_tx this (acc_address (ts_sender sc)) tx (st, led)"
    and stays: "\<And>impl impl'. P impl \<Longrightarrow> moved_on impl impl' \<Longrightarrow> P impl'"
    and env: "binds env" and reqs: "\<forall>sc \<in> set scs. well_keyed env (ts_sender sc) \<and> ts_receiver sc \<noteq> 0"
    "gen_ready g" "suits k (tg_impl g) st" "k + length scs \<le> 2 ^ 62"
  shows "\<exists>txs st' impl'. generate_all env unix scs g r keys = Ok txs \<and> map fst txs = map (acc_address \<circ> ts_sender) scs \<and>
    run_all (run_tx this) txs (st, led) = Some (st', led) \<and>
    (P (tg_impl g) \<longrightarrow> run_all step txs (st, led) = Some (st', led)) \<and> suits (k + length scs) impl' st' \<and>
    logs_of st' = logs_of st @ concat (map (event_of (tg_impl g)) (enumerate k scs))"
  using reqs
proof (induction scs arbitrary: g r keys k st)
  case Nil
  then show ?case by auto
next
  case (Cons sc scs)
  have c: "contract_of (tg_impl g) \<noteq> None" using Cons.prems(3) by (auto simp: suits_def split: scenario_impl.splits)
  have keyed: "well_keyed env (ts_sender sc)" using Cons.prems(1) by simp
  obtain tx sc' g' r' keys' where gen: "Generate env unix sc g r keys = Ok (tx, sc', g', r', keys')" "gen_ready g'"
    "issued (tg_impl g) sc tx" "moved_on (tg_impl g) (tg_impl g')"
    using Generate_issued [OF env keyed Cons.prems(2) c, of unix r keys] by (elim exE conjE)
  have k: "k < 2 ^ 62" using Cons.prems(4) by simp
  have recv: "ts_receiver sc \<noteq> 0 \<or> (\<forall>c n. tg_impl g \<noteq> ERC721Scenario c n)" using Cons.prems(1) by simp
  obtain st1 where st1: "run_tx this (acc_address (ts_sender sc)) tx (st, led) = Some (st1, led)"
    "suits (Suc k) (tg_impl g') st1" "logs_of st1 = logs_of st @ event_of (tg_impl g) (k, sc)"
    using issued_runs [OF gen(3) Cons.prems(3) gen(4) k recv, of this led] by (elim exE conjE)
  have st2: "P (tg_impl g) \<Longrightarrow> step (acc_address (ts_sender sc)) tx (st, led) = Some (st1, led) \<and> P (tg_impl g')"
    using agree [OF gen(3) Cons.prems(3), of led] stays [OF _ gen(4)] st1(1) by simp
  have "Suc k + length scs \<le> 2 ^ 62" using Cons.prems(4) by simp
  from Cons.IH [OF _ gen(2) st1(2) this, of r' keys'] Cons.prems(1) obtain txs st' impl' where
    rest: "generate_all env unix scs g' r' keys' = Ok txs" "map fst txs = map (acc_address \<circ> ts_sender) scs"
    "run_all (run_tx this) txs (st1, led) = Some (st', led)"
    "P (tg_impl g') \<Longrightarrow> run_all step txs (st1, led) = Some (st', led)" "suits (Suc k + length scs) impl' st'"
    "logs_of st' = logs_of st1 @ concat (map (event_of (tg_impl g')) (enumerate (Suc k) scs))" by auto
  then show ?case using gen(1) st1 st2 event_of_moved [OF gen(4)]
    by (intro exI [of _ "(acc_address (ts_sender sc), tx) # txs"] exI [of _ st'] exI [of _ impl']) simp
qed

end
