(* ===== verification/EvmGas.thy ===== *)
theory EvmGas
  imports ContractRun
begin

text \<open>
  What the EVM asks of a transaction's gas limit before its call can have any effect: the intrinsic
  gas of its calldata, the floor of EIP-7623, and, once the call writes to storage, more than the
  2300 of EIP-2200. A limit below is not enough; one above need not be. The calldata is the ABI
  encoding of the call.
\<close>

subsection \<open>Calldata\<close>

definition enc_word :: "nat \<Rightarrow> nat list" where
  "enc_word n = map (\<lambda>i. n div 256 ^ (31 - i) mod 256) [0..<32]"

fun enc_tail :: "abi_arg \<Rightarrow> nat list" where
  "enc_tail (ArgAddress a) = []"
| "enc_tail (ArgInt n) = []"
| "enc_tail (ArgAddresses as) = enc_word (length as) @ concat (map (enc_word \<circ> unat) as)"
| "enc_tail (ArgInts ns) = enc_word (length ns) @ concat (map (\<lambda>n. enc_word (nat (n mod 2 ^ 256))) ns)"
| "enc_tail (ArgString s) = enc_word (length s) @ map of_char s @ replicate (round_up (length s) - length s) 0"
| "enc_tail (ArgZeroBytes n) = enc_word n @ replicate (round_up n) 0"
| "enc_tail (ArgBytes bs) = enc_word (length bs) @ bs @ replicate (round_up (length bs) - length bs) 0"
| "enc_tail (ArgBytes4 bs) = []"
| "enc_tail (ArgBool b) = []"

fun enc_head :: "nat \<Rightarrow> abi_arg \<Rightarrow> nat list" where
  "enc_head offset (ArgAddress a) = enc_word (unat a)"
| "enc_head offset (ArgInt n) = enc_word (nat (n mod 2 ^ 256))"
| "enc_head offset (ArgBytes4 bs) = take 32 (bs @ replicate 32 0)"
| "enc_head offset (ArgBool b) = enc_word (if b then 1 else 0)"
| "enc_head offset _ = enc_word offset"

fun enc_args :: "nat \<Rightarrow> abi_arg list \<Rightarrow> nat list \<times> nat list" where
  "enc_args offset [] = ([], [])"
| "enc_args offset (a # as) =
     (case enc_args (offset + length (enc_tail a)) as of (heads, tails) \<Rightarrow> (enc_head offset a @ heads, enc_tail a @ tails))"

definition abi_encode :: "abi_arg list \<Rightarrow> nat list" where
  "abi_encode args = (case enc_args (32 * length args) args of (heads, tails) \<Rightarrow> heads @ tails)"

text \<open>The selectors the bindings give for the methods the program calls.\<close>

definition selectors :: "(string \<times> nat list) list" where
  "selectors =
     [(''transfer'', [0xa9, 0x05, 0x9c, 0xbb]), (''mint'', [0x40, 0xc1, 0x0f, 0x19]), (''rmw'', [0x22, 0x74, 0x6b, 0x07]),
      (''read'', [0x82, 0x9e, 0x73, 0x69]), (''write'', [0x39, 0x6e, 0x9b, 0x3a]),
      (''disperseEther'', [0xe6, 0x3d, 0x38, 0xed]), (''disperseEtherFixed'', [0x18, 0x39, 0xbc, 0xf3])]"

fun calldata_bytes :: "calldata \<Rightarrow> nat list" where
  "calldata_bytes NoData = []"
| "calldata_bytes (Call m args) = (case map_of selectors m of None \<Rightarrow> [] | Some s \<Rightarrow> s @ abi_encode args)"

subsection \<open>Gas\<close>

definition nonzeros :: "nat list \<Rightarrow> nat" where
  "nonzeros bs = length (filter (\<lambda>b. b \<noteq> 0) bs)"

definition intrinsic_gas :: "nat list \<Rightarrow> nat" where
  "intrinsic_gas bs = 21000 + 4 * (length bs - nonzeros bs) + 16 * nonzeros bs"

definition calldata_floor :: "nat list \<Rightarrow> nat" where
  "calldata_floor bs = 21000 + 10 * ((length bs - nonzeros bs) + 4 * nonzeros bs)"

text \<open>Whether a call left a trace in the storage; logs are none.\<close>

fun without_logs :: "contract_state \<Rightarrow> contract_state" where
  "without_logs (ERC20C s) = ERC20C (s\<lparr>e_logs := []\<rparr>)"
| "without_logs (NoopC s) = NoopC (s\<lparr>e_logs := []\<rparr>)"
| "without_logs (ConflictC s) = ConflictC (s\<lparr>e_logs := []\<rparr>)"
| "without_logs (NftC s) = NftC (s\<lparr>n_logs := []\<rparr>)"
| "without_logs st = st"

definition may_run :: "nat \<Rightarrow> nat list \<Rightarrow> bool \<Rightarrow> bool" where
  "may_run gas bs stores \<longleftrightarrow>
     intrinsic_gas bs \<le> gas \<and> calldata_floor bs \<le> gas \<and> (stores \<longrightarrow> intrinsic_gas bs + 2300 < gas)"

definition evm_tx :: "address \<Rightarrow> address \<Rightarrow> eth_tx \<Rightarrow> contract_state \<times> ledger \<Rightarrow> (contract_state \<times> ledger) option" where
  "evm_tx this sender tx x =
     Option.bind (run_tx this sender tx x) (\<lambda>x'.
       if may_run (unat (et_gas tx)) (calldata_bytes (et_data tx)) (without_logs (fst x') \<noteq> without_logs (fst x))
       then Some x' else None)"

subsection \<open>Bytes of an encoding\<close>

lemma length_enc_word [simp]: "length (enc_word n) = 32"
  by (simp add: enc_word_def)

lemma nonzeros_append [simp]: "nonzeros (xs @ ys) = nonzeros xs + nonzeros ys"
  by (simp add: nonzeros_def)

lemma nonzeros_Cons [simp]: "nonzeros (b # bs) = (if b = 0 then 0 else 1) + nonzeros bs" "nonzeros [] = 0"
  by (simp_all add: nonzeros_def)

lemma nonzeros_le: "nonzeros bs \<le> length bs"
  by (simp add: nonzeros_def)

lemma nonzeros_replicate [simp]: "nonzeros (replicate n 0) = 0"
  by (simp add: nonzeros_def)

text \<open>A number below \<open>256 ^ k\<close> has at most \<open>k\<close> bytes that are not zero.\<close>

lemma nonzeros_enc_word:
  assumes "n < 256 ^ k" "k \<le> 32"
  shows "nonzeros (enc_word n) \<le> k"
proof -
  have "n div 256 ^ (31 - i) mod 256 = 0" if "i < 32 - k" for i
  proof -
    have "n < 256 ^ (31 - i)" using assms that by (intro less_le_trans [OF assms(1)] power_increasing) auto
    then show ?thesis by simp
  qed
  then have "set (filter (\<lambda>i. n div 256 ^ (31 - i) mod 256 \<noteq> 0) [0..<32]) \<subseteq> {32 - k..<32}"
    by (auto simp: not_less [symmetric])
  then have "card (set (filter (\<lambda>i. n div 256 ^ (31 - i) mod 256 \<noteq> 0) [0..<32])) \<le> card {32 - k..<32}"
    by (intro card_mono) simp_all
  also have "card (set (filter (\<lambda>i. n div 256 ^ (31 - i) mod 256 \<noteq> 0) [0..<32])) =
      length (filter (\<lambda>i. n div 256 ^ (31 - i) mod 256 \<noteq> 0) [0..<32])"
    by (rule distinct_card) simp
  finally show ?thesis using assms(2) by (simp add: nonzeros_def enc_word_def filter_map comp_def)
qed

lemma gas_bounds:
  assumes "nonzeros bs \<le> k"
  shows "21000 + 4 * length bs \<le> intrinsic_gas bs" "intrinsic_gas bs \<le> 21000 + 4 * length bs + 12 * k"
    "calldata_floor bs \<le> 21000 + 10 * length bs + 30 * k"
  using assms nonzeros_le [of bs] by (simp_all add: intrinsic_gas_def calldata_floor_def)

lemma nonzeros_word_32: "nonzeros (enc_word n) \<le> 32"
  using nonzeros_le [of "enc_word n"] by simp

lemma transfer_bytes:
  "length (calldata_bytes (Call ''transfer'' [ArgAddress a, ArgInt 1])) = 68"
  "nonzeros (calldata_bytes (Call ''transfer'' [ArgAddress a, ArgInt 1])) \<le> 25"
  "length (calldata_bytes (Call ''mint'' [ArgAddress a, ArgInt n])) = 68"
proof -
  have "unat a < 256 ^ 20" using unsigned_less [of a] by simp
  from nonzeros_enc_word [OF this] have a: "nonzeros (enc_word (unat a)) \<le> 20" by simp
  have one: "nonzeros (enc_word 1) \<le> 1" by (rule nonzeros_enc_word) simp_all
  show "nonzeros (calldata_bytes (Call ''transfer'' [ArgAddress a, ArgInt 1])) \<le> 25"
    using a one by (simp add: selectors_def abi_encode_def)
qed (simp_all add: selectors_def abi_encode_def)

lemma storage_bytes:
  assumes "storageRW_call op slot n = Some d"
  shows "length (calldata_bytes d) \<le> 132 + round_up n" "nonzeros (calldata_bytes d) \<le> 132"
proof -
  have w: "nonzeros (enc_word k) \<le> 32" for k by (rule nonzeros_word_32)
  consider "d = Call ''rmw'' [ArgInt slot, ArgZeroBytes n]" | "d = Call ''read'' [ArgInt slot, ArgZeroBytes n]"
    | "d = Call ''write'' [ArgInt slot, ArgInt storageRWWriteValue, ArgZeroBytes n]"
    using assms by (auto simp: storageRW_call_def split: if_splits)
  then show "nonzeros (calldata_bytes d) \<le> 132"
    using w [of "nat (slot mod 2 ^ 256)"] w [of "nat (storageRWWriteValue mod 2 ^ 256)"] w [of n] w [of 64] w [of 96]
    by cases (simp_all add: selectors_def abi_encode_def)
  show "length (calldata_bytes d) \<le> 132 + round_up n"
    using assms by (auto simp: storageRW_call_def selectors_def abi_encode_def split: if_splits)
qed

subsection \<open>Which scenarios can have an effect\<close>

declare calldata_bytes.simps [simp del]

lemma transfer_gas:
  "may_run 72156 (calldata_bytes (Call ''transfer'' [ArgAddress a, ArgInt 1])) stores"
  "may_run 22460 (calldata_bytes (Call ''transfer'' [ArgAddress a, ArgInt 1])) False"
  "\<not> may_run 22460 (calldata_bytes (Call ''transfer'' [ArgAddress a, ArgInt 1])) True"
  "\<not> may_run 22460 (calldata_bytes (Call ''mint'' [ArgAddress a, ArgInt n])) True"
  using gas_bounds [OF transfer_bytes(2), of a] gas_bounds(1) [OF nonzeros_le, of "calldata_bytes (Call ''mint'' [ArgAddress a, ArgInt n])"]
    transfer_bytes(1) [of a] transfer_bytes(3) [of a n] by (simp_all only: may_run_def) simp_all

lemma storage_gas:
  assumes "storageRW_call op slot n = Some d" "n \<le> 131072"
  shows "may_run (unat (storageRW_gas n)) (calldata_bytes d) stores"
  using gas_bounds [OF storage_bytes(2) [OF assms(1)]] storage_bytes(1) [OF assms(1)] storageRW_gas_nat [OF assms(2)]
  by (simp add: may_run_def)

lemma conflict_stores:
  assumes "ERC20Conflict_transfer x y v s = Some (b, s')"
  shows "without_logs (ConflictC s') \<noteq> without_logs (ConflictC s)"
proof -
  have "e_counter s' = e_counter s + 1"
    using assms by (cases s) (auto simp: ERC20Conflict_transfer_def bind_eq_Some_conv sol_add_def split: if_splits)
  then have "e_counter s' \<noteq> e_counter s" by simp
  then show ?thesis by (cases s, cases s') auto
qed

lemma mint_stores:
  assumes "ERC721_mint y t s = Some s'"
  shows "without_logs (NftC s') \<noteq> without_logs (NftC s)"
proof -
  have "n_balanceOf s' y = n_balanceOf s y + 1"
    using assms by (auto simp: ERC721_mint_def map_add_at_def sol_add_def split: if_splits)
  then have "n_balanceOf s' \<noteq> n_balanceOf s" by (metis add_cancel_right_right one_neq_zero)
  then show ?thesis by (cases s, cases s') auto
qed

lemma disperse_fixed_reverts:
  assumes "dp_fixedEtherAmount d \<noteq> 0" "recipients \<noteq> []" "length recipients < 2 ^ 256"
  shows "disperseEtherFixed this caller 0 recipients d led = None"
proof -
  have "due \<noteq> 0" if "sol_mul (dp_fixedEtherAmount d) (of_nat (length recipients)) = Some due" for due
  proof -
    have l: "unat (of_nat (length recipients) :: u256) = length recipients"
      using assms(3) by (simp add: unat_of_nat take_bit_nat_eq_self)
    have "unat due = unat (dp_fixedEtherAmount d) * length recipients"
      using that l by (auto simp: sol_mul_def unat_word_ariths split: if_splits)
    then show ?thesis using assms(1,2) by (auto simp: unat_eq_zero)
  qed
  then show ?thesis
    by (cases "pay caller this 0 led"; cases "sol_mul (dp_fixedEtherAmount d) (of_nat (length recipients))")
      (auto simp: disperseEtherFixed_def unsigned_eq_0_iff)
qed

text \<open>
  Of the scenarios as they are, three have the gas and the value their calls need; the other three
  do not, on any state of their contract.
\<close>

definition effective :: "scenario_impl \<Rightarrow> bool" where
  "effective impl \<longleftrightarrow>
     (case impl of ERC20Scenario c \<Rightarrow> True | ERC20NoopScenario c \<Rightarrow> True | StorageRWScenario c p \<Rightarrow> True | _ \<Rightarrow> False)"

fun runs_on :: "scenario_impl \<Rightarrow> contract_state \<Rightarrow> bool" where
  "runs_on (ERC20Scenario c) (ERC20C s) = True"
| "runs_on (ERC20NoopScenario c) (NoopC s) = True"
| "runs_on (ERC20ConflictScenario c) (ConflictC s) = True"
| "runs_on (ERC721Scenario c n) (NftC s) = True"
| "runs_on (StorageRWScenario c p) (StorageC s) = True"
| "runs_on (DisperseScenario c p) (DisperseC d) = (dp_fixedEtherAmount d \<noteq> 0)"
| "runs_on impl st = False"

lemma suits_runs_on: "suits k impl st \<Longrightarrow> runs_on impl st"
  by (cases impl; cases st) (auto simp: suits_def)

lemma effective_moved: "effective impl \<Longrightarrow> moved_on impl impl' \<Longrightarrow> effective impl'"
  by (cases impl) (auto simp: effective_def moved_on_def)

lemma issued_evm:
  assumes "issued impl sc tx" "runs_on impl st"
  shows "evm_tx this sender tx (st, led) = (if effective impl then run_tx this sender tx (st, led) else None)"
proof -
  have gas: "unat (72156 :: u64) = 72156" "unat (22460 :: u64) = 22460" by simp_all
  from assms(2) show ?thesis
  proof (cases rule: runs_on.cases [of "(impl, st)"])
    case (1 c s)
    then show ?thesis using assms(1)
      by (cases "run_tx this sender tx (st, led)") (simp_all add: evm_tx_def issued_def effective_def gas transfer_gas(1))
  next
    case (2 c s)
    then show ?thesis using assms(1)
      by (simp add: evm_tx_def issued_def effective_def gas run_tx_def unpaid_def ERC20Noop_call_def ERC20Noop_transfer_def
          transfer_gas(2))
  next
    case (3 c s)
    then show ?thesis using assms(1) conflict_stores [of sender "ts_receiver sc" 1 s] transfer_gas(3) [of "ts_receiver sc"]
      by (cases "ERC20Conflict_transfer sender (ts_receiver sc) 1 s")
        (auto simp: evm_tx_def issued_def effective_def gas run_tx_def unpaid_def ERC20Conflict_call_def)
  next
    case (4 c n s)
    then show ?thesis using assms(1) mint_stores [of "ts_receiver sc" "word_of_int (i64 (n + 1))" s]
        transfer_gas(4) [of "ts_receiver sc" "i64 (n + 1)"]
      by (cases "ERC721_mint (ts_receiver sc) (word_of_int (i64 (n + 1))) s")
        (auto simp: evm_tx_def issued_def effective_def gas run_tx_def unpaid_def ERC721_call_def)
  next
    case (5 c p s)
    then obtain op slot n where d: "n \<le> 131072" "et_gas tx = storageRW_gas n" "storageRW_call op slot n = Some (et_data tx)"
      using assms(1) by (auto simp: issued_def)
    then show ?thesis using 5 storage_gas [OF d(3,1)]
      by (cases "run_tx this sender tx (st, led)") (simp_all add: evm_tx_def effective_def)
  next
    case (6 c p d)
    then obtain as where "length as = 100" "et_data tx = Call ''disperseEtherFixed'' [ArgAddresses as]" "et_amount tx = 0"
      using assms(1) by (auto simp: issued_def)
    moreover have "disperseEtherFixed this sender 0 as d led = None" if "length as = 100" for as
      by (rule disperse_fixed_reverts) (use 6 assms(2) that in auto)
    ultimately show ?thesis using 6 by (simp add: evm_tx_def effective_def run_tx_def Disperse_call_def)
  qed auto
qed

end
