(* ===== verification/Offline.thy ===== *)
theory Offline
  imports Types
begin

text \<open>
  The offline scenarios (\<open>generator/offline\<close>): raw transactions for an executor and the genesis state
  they need. Signing and the runtime code the ERC20 constructor leaves are go-ethereum's and
  parameters; so is Keccak.
\<close>

subsection \<open>Configuration\<close>

record offline_config =
  of_ChainID :: "int option"
  of_GasPrice :: "int option"
  of_SenderBalance :: "int option"
  of_TransferValue :: "int option"
  of_GasLimit :: u64
  of_ERC20Contract :: address

text \<open>\<open>BitLen() > 256\<close> of a number that is not negative.\<close>

definition over_256 :: "int \<Rightarrow> bool" where
  "over_256 n \<longleftrightarrow> 2 ^ 256 \<le> n"

definition check_amount :: "string \<Rightarrow> int option \<Rightarrow> unit outcome" where
  "check_amount what v =
     (case v of
        None \<Rightarrow> Err (Errorf (what @ '' must be non-negative''))
      | Some n \<Rightarrow>
          if n < 0 then Err (Errorf (what @ '' must be non-negative''))
          else if over_256 n then Err (Errorf (what @ '' must fit in 256 bits'')) else Ok ())"

definition validateConfig :: "offline_config \<Rightarrow> unit outcome" where
  "validateConfig cfg =
     (case of_ChainID cfg of
        None \<Rightarrow> Err (Errorf ''chain ID must be positive'')
      | Some n \<Rightarrow>
          if n \<le> 0 then Err (Errorf ''chain ID must be positive'')
          else obind (check_amount ''gas price'' (of_GasPrice cfg)) (\<lambda>_.
                 obind (check_amount ''sender balance'' (of_SenderBalance cfg)) (\<lambda>_.
                   obind (check_amount ''transfer value'' (of_TransferValue cfg)) (\<lambda>_.
                     if of_GasLimit cfg = 0 then Err (Errorf ''gas limit must be positive'') else Ok ()))))"

definition valid_amount :: "int option \<Rightarrow> bool" where
  "valid_amount v \<longleftrightarrow> (\<exists>n. v = Some n \<and> 0 \<le> n \<and> n < 2 ^ 256)"

lemma check_amount_Ok: "check_amount what v = Ok () \<longleftrightarrow> valid_amount v"
  by (auto simp: check_amount_def valid_amount_def over_256_def not_le split: option.split)

lemma validateConfig_Ok:
  "validateConfig cfg = Ok () \<longleftrightarrow>
     (\<exists>n. of_ChainID cfg = Some n \<and> 0 < n) \<and> valid_amount (of_GasPrice cfg) \<and> valid_amount (of_SenderBalance cfg) \<and>
     valid_amount (of_TransferValue cfg) \<and> of_GasLimit cfg \<noteq> 0"
  by (auto simp: validateConfig_def outcome_simps check_amount_Ok not_le split: option.split)

subsection \<open>The copy of the configuration\<close>

text \<open>
  The amounts of a configuration are pointers to integers of the caller. \<open>NewScenario\<close> copies them, so
  that the caller may go on using its own: here is the configuration with its pointers (\<open>None\<close> is \<open>nil\<close>),
  over a store of integers. Elsewhere a configuration is what its pointers hold.
\<close>

record int_store =
  is_cells :: "nat \<Rightarrow> int"
  is_next :: nat

record config_refs =
  cr_ChainID :: "nat option"
  cr_GasPrice :: "nat option"
  cr_SenderBalance :: "nat option"
  cr_TransferValue :: "nat option"
  cr_GasLimit :: u64
  cr_ERC20Contract :: address

definition config_at :: "int_store \<Rightarrow> config_refs \<Rightarrow> offline_config" where
  "config_at h c = \<lparr>of_ChainID = map_option (is_cells h) (cr_ChainID c), of_GasPrice = map_option (is_cells h) (cr_GasPrice c),
     of_SenderBalance = map_option (is_cells h) (cr_SenderBalance c),
     of_TransferValue = map_option (is_cells h) (cr_TransferValue c),
     of_GasLimit = cr_GasLimit c, of_ERC20Contract = cr_ERC20Contract c\<rparr>"

definition assign :: "nat \<Rightarrow> int \<Rightarrow> int_store \<Rightarrow> int_store" where
  "assign p v h = h\<lparr>is_cells := (is_cells h)(p := v)\<rparr>"

text \<open>\<open>new(big.Int).Set(x)\<close>, which panics on \<open>nil\<close>.\<close>

definition copy_int :: "nat option \<Rightarrow> int_store \<Rightarrow> (nat option \<times> int_store) outcome" where
  "copy_int p h =
     (case p of
        None \<Rightarrow> Panic ''nil pointer dereference''
      | Some a \<Rightarrow> Ok (Some (is_next h), (assign (is_next h) (is_cells h a) h)\<lparr>is_next := Suc (is_next h)\<rparr>))"

definition cloneConfig :: "config_refs \<Rightarrow> int_store \<Rightarrow> (config_refs \<times> int_store) outcome" where
  "cloneConfig cfg h =
     obind (copy_int (cr_ChainID cfg) h) (\<lambda>(p, h).
       let cfg = cfg\<lparr>cr_ChainID := p\<rparr> in
       obind (copy_int (cr_GasPrice cfg) h) (\<lambda>(p, h).
         let cfg = cfg\<lparr>cr_GasPrice := p\<rparr> in
         obind (copy_int (cr_SenderBalance cfg) h) (\<lambda>(p, h).
           let cfg = cfg\<lparr>cr_SenderBalance := p\<rparr> in
           obind (copy_int (cr_TransferValue cfg) h) (\<lambda>(p, h).
             Ok (cfg\<lparr>cr_TransferValue := p\<rparr>, h)))))"

definition allocated :: "int_store \<Rightarrow> config_refs \<Rightarrow> bool" where
  "allocated h c \<longleftrightarrow> (\<forall>p \<in> {cr_ChainID c, cr_GasPrice c, cr_SenderBalance c, cr_TransferValue c}. \<forall>a. p = Some a \<longrightarrow> a < is_next h)"

text \<open>
  The copy of a configuration that passed the check has the same amounts, and keeps them whatever
  the caller writes to the integers it had before.
\<close>

lemma cloneConfig_apart:
  assumes "validateConfig (config_at h c) = Ok ()" "allocated h c"
  shows "\<exists>c' h'. cloneConfig c h = Ok (c', h') \<and> config_at h' c' = config_at h c \<and>
    (\<forall>writes. (\<forall>(a, v) \<in> set writes. a < is_next h) \<longrightarrow>
       config_at (fold (\<lambda>(a, v). assign a v) writes h') c' = config_at h c)"
proof -
  obtain i g b t where refs: "cr_ChainID c = Some i" "cr_GasPrice c = Some g" "cr_SenderBalance c = Some b" "cr_TransferValue c = Some t"
    using assms(1) by (auto simp: validateConfig_Ok valid_amount_def config_at_def)
  let ?n = "is_next h"
  have old: "i < ?n" "g < ?n" "b < ?n" "t < ?n" using assms(2) refs by (auto simp: allocated_def)
  let ?c = "c\<lparr>cr_ChainID := Some ?n, cr_GasPrice := Some (Suc ?n), cr_SenderBalance := Some (Suc (Suc ?n)),
    cr_TransferValue := Some (Suc (Suc (Suc ?n)))\<rparr>"
  let ?h = "\<lparr>is_cells = (is_cells h)(?n := is_cells h i, Suc ?n := is_cells h g, Suc (Suc ?n) := is_cells h b,
    Suc (Suc (Suc ?n)) := is_cells h t), is_next = Suc (Suc (Suc (Suc ?n)))\<rparr>"
  have clone: "cloneConfig c h = Ok (?c, ?h)"
    using refs old by (simp add: cloneConfig_def copy_int_def assign_def)
  have same: "config_at ?h ?c = config_at h c" using refs by (simp add: config_at_def)
  have "config_at (fold (\<lambda>(a, v). assign a v) writes h') ?c = config_at h' ?c"
    if "\<forall>(a, v) \<in> set writes. a < ?n" for writes h'
    using that by (induction writes arbitrary: h') (auto simp: config_at_def assign_def)
  with clone same show ?thesis by auto
qed

subsection \<open>Scenarios\<close>

datatype offline_scenario = TransferScenario offline_config | ERC20TransferScenario offline_config

definition newTransferScenario :: "offline_config \<Rightarrow> offline_scenario" where
  "newTransferScenario cfg = TransferScenario cfg"

text \<open>\<open>abi_error\<close> is the error of parsing the ABI of the contract.\<close>

definition newERC20TransferScenario :: "go_error option \<Rightarrow> offline_config \<Rightarrow> offline_scenario outcome" where
  "newERC20TransferScenario abi_error cfg =
     (case abi_error of Some e \<Rightarrow> Err (Wrap ''parse ERC20 ABI'' e) | None \<Rightarrow> Ok (ERC20TransferScenario cfg))"

definition NewScenario :: "go_error option \<Rightarrow> string \<Rightarrow> offline_config \<Rightarrow> offline_scenario outcome" where
  "NewScenario abi_error kind cfg =
     obind (validateConfig cfg) (\<lambda>_.
       if kind = ''transfer'' then Ok (newTransferScenario cfg)
       else if kind = ''erc20-transfer'' then
         (if of_ERC20Contract cfg = 0 then Err (Errorf ''erc20 contract must be non-zero'')
          else newERC20TransferScenario abi_error cfg)
       else Err (Errorf ''unsupported offline scenario''))"

type_synonym hash = "256 word"
type_synonym code = "nat list"

record genesis =
  gw_balances :: "address \<rightharpoonup> int"
  gw_code :: "address \<rightharpoonup> code"
  gw_state :: "address \<times> hash \<rightharpoonup> hash"

text \<open>What a plain transfer needs, and what a transfer of the token needs.\<close>

definition transfer_SetupGenesis :: "genesis \<Rightarrow> unit outcome \<times> genesis" where
  "transfer_SetupGenesis g = (Ok (), g)"

definition erc20_SetupGenesis :: "go_error + code \<Rightarrow> offline_config \<Rightarrow> genesis \<Rightarrow> unit outcome \<times> genesis" where
  "erc20_SetupGenesis runtime_code cfg g =
     (case runtime_code of
        Inl e \<Rightarrow> (Err e, g)
      | Inr code \<Rightarrow> (Ok (), g\<lparr>gw_code := (gw_code g)(of_ERC20Contract cfg \<mapsto> code)\<rparr>))"

definition SetupGenesis :: "go_error + code \<Rightarrow> offline_scenario \<Rightarrow> genesis \<Rightarrow> unit outcome \<times> genesis" where
  "SetupGenesis runtime_code s g =
     (case s of
        TransferScenario cfg \<Rightarrow> transfer_SetupGenesis g
      | ERC20TransferScenario cfg \<Rightarrow> erc20_SetupGenesis runtime_code cfg g)"

text \<open>The storage key of a balance: the hash of the owner's 32-byte word and that of the slot, 4.\<close>

fun big_endian :: "nat \<Rightarrow> nat \<Rightarrow> nat list" where
  "big_endian 0 n = []"
| "big_endian (Suc k) n = big_endian k (n div 256) @ [n mod 256]"

lemma length_big_endian [simp]: "length (big_endian k n) = k"
  by (induction k arbitrary: n) simp_all

definition erc20BalancesSlot :: u64 where "erc20BalancesSlot = 4"

definition slot_preimage :: "address \<Rightarrow> nat list" where
  "slot_preimage owner = replicate 12 0 @ big_endian 20 (unat owner) @ big_endian 32 (unat erc20BalancesSlot)"

definition ERC20BalanceSlot :: "(nat list \<Rightarrow> hash) \<Rightarrow> address \<Rightarrow> hash" where
  "ERC20BalanceSlot keccak owner = keccak (slot_preimage owner)"

definition transfer_SeedSender :: "offline_config \<Rightarrow> address \<Rightarrow> genesis \<Rightarrow> genesis" where
  "transfer_SeedSender cfg sender g = g\<lparr>gw_balances := (gw_balances g)(sender := of_SenderBalance cfg)\<rparr>"

definition erc20_SeedSender :: "(nat list \<Rightarrow> hash) \<Rightarrow> offline_config \<Rightarrow> address \<Rightarrow> genesis \<Rightarrow> genesis" where
  "erc20_SeedSender keccak cfg sender g =
     g\<lparr>gw_balances := (gw_balances g)(sender := of_SenderBalance cfg),
       gw_state := (gw_state g)((of_ERC20Contract cfg, ERC20BalanceSlot keccak sender) \<mapsto>
         of_int (the (of_TransferValue cfg)))\<rparr>"

definition SeedSender :: "(nat list \<Rightarrow> hash) \<Rightarrow> offline_scenario \<Rightarrow> address \<Rightarrow> genesis \<Rightarrow> genesis" where
  "SeedSender keccak s sender g =
     (case s of
        TransferScenario cfg \<Rightarrow> transfer_SeedSender cfg sender g
      | ERC20TransferScenario cfg \<Rightarrow> erc20_SeedSender keccak cfg sender g)"

record legacy_tx =
  lg_nonce :: u64
  lg_gas_price :: int
  lg_gas :: u64
  lg_to :: address
  lg_value :: int
  lg_data :: calldata

definition transfer_tx :: "offline_config \<Rightarrow> u64 \<Rightarrow> address \<Rightarrow> legacy_tx" where
  "transfer_tx cfg nonce recipient =
     \<lparr>lg_nonce = nonce, lg_gas_price = the (of_GasPrice cfg), lg_gas = of_GasLimit cfg, lg_to = recipient,
      lg_value = the (of_TransferValue cfg), lg_data = NoData\<rparr>"

definition erc20_tx :: "offline_config \<Rightarrow> u64 \<Rightarrow> address \<Rightarrow> legacy_tx" where
  "erc20_tx cfg nonce recipient =
     \<lparr>lg_nonce = nonce, lg_gas_price = the (of_GasPrice cfg), lg_gas = of_GasLimit cfg, lg_to = of_ERC20Contract cfg,
      lg_value = 0, lg_data = Call ''transfer'' [ArgAddress recipient, ArgInt (the (of_TransferValue cfg))]\<rparr>"

type_synonym 'stx signer = "legacy_tx \<Rightarrow> priv_key \<Rightarrow> 'stx outcome"

definition transfer_BuildTransaction ::
  "'stx signer \<Rightarrow> offline_config \<Rightarrow> priv_key option \<Rightarrow> u64 \<Rightarrow> address \<Rightarrow> 'stx outcome" where
  "transfer_BuildTransaction signTx cfg key nonce recipient =
     (case key of
        None \<Rightarrow> Err (Errorf ''sender private key is required'')
      | Some k \<Rightarrow> signTx (transfer_tx cfg nonce recipient) k)"

definition erc20_BuildTransaction ::
  "go_error option \<Rightarrow> 'stx signer \<Rightarrow> offline_config \<Rightarrow> priv_key option \<Rightarrow> u64 \<Rightarrow> address \<Rightarrow> 'stx outcome" where
  "erc20_BuildTransaction pack_error signTx cfg key nonce recipient =
     (case key of
        None \<Rightarrow> Err (Errorf ''sender private key is required'')
      | Some k \<Rightarrow>
          (case pack_error of
             Some e \<Rightarrow> Err (Wrap ''pack ERC20 transfer'' e)
           | None \<Rightarrow> signTx (erc20_tx cfg nonce recipient) k))"

definition BuildTransaction ::
  "go_error option \<Rightarrow> 'stx signer \<Rightarrow> offline_scenario \<Rightarrow> priv_key option \<Rightarrow> u64 \<Rightarrow> address \<Rightarrow> 'stx outcome" where
  "BuildTransaction pack_error signTx s key nonce recipient =
     (case s of
        TransferScenario cfg \<Rightarrow> transfer_BuildTransaction signTx cfg key nonce recipient
      | ERC20TransferScenario cfg \<Rightarrow> erc20_BuildTransaction pack_error signTx cfg key nonce recipient)"

lemmas offline_ops = SetupGenesis_def transfer_SetupGenesis_def erc20_SetupGenesis_def SeedSender_def transfer_SeedSender_def
  erc20_SeedSender_def BuildTransaction_def transfer_BuildTransaction_def erc20_BuildTransaction_def

subsection \<open>Genesis and transactions fit together\<close>

text \<open>Two owners have different keys as far as the hash keeps different inputs apart.\<close>

lemma big_endian_mod:
  "big_endian k n = big_endian k m \<Longrightarrow> n mod 256 ^ k = m mod 256 ^ k"
proof (induction k arbitrary: n m)
  case (Suc k)
  have step: "x mod 256 ^ Suc k = 256 * (x div 256 mod 256 ^ k) + x mod 256" for x :: nat
    by (simp only: power_Suc mod_mult2_eq)
  have "big_endian k (n div 256) = big_endian k (m div 256)" and last: "n mod 256 = m mod 256"
    using Suc.prems by simp_all
  then have "n div 256 mod 256 ^ k = m div 256 mod 256 ^ k" by (intro Suc.IH)
  then show ?case unfolding step last by (rule arg_cong)
qed simp

lemma slot_preimage_inj: "slot_preimage a = slot_preimage b \<Longrightarrow> a = b"
proof -
  assume "slot_preimage a = slot_preimage b"
  then have "big_endian 20 (unat a) = big_endian 20 (unat b)"
    by (simp add: slot_preimage_def)
  then have "unat a mod 256 ^ 20 = unat b mod 256 ^ 20" by (rule big_endian_mod)
  moreover have "unat (x :: address) < 256 ^ 20" for x
    using unsigned_less [of x] by simp
  ultimately have "unat a = unat b" by simp
  then show "a = b" by (simp only: word_unat_eq_iff)
qed

text \<open>
  That the hash keeps the keys of balances apart. It cannot be one-to-one on all inputs, but the owners
  are few enough for it to be on theirs: reading the owner off its input is such a hash.
\<close>

definition keys_apart :: "(nat list \<Rightarrow> hash) \<Rightarrow> bool" where
  "keys_apart keccak \<longleftrightarrow> inj_on keccak (range slot_preimage)"

lemma slots_apart: "keys_apart keccak \<Longrightarrow> ERC20BalanceSlot keccak a = ERC20BalanceSlot keccak b \<longleftrightarrow> a = b"
  using slot_preimage_inj by (auto simp: keys_apart_def ERC20BalanceSlot_def inj_on_eq_iff)

text \<open>
  A sender that was seeded has the configured balance, and for the token scenario the amount one
  transfer moves, whoever is seeded after it.
\<close>

lemma SeedSender_keeps:
  assumes "keys_apart keccak" "\<forall>b \<in> set others. b \<noteq> sender"
  shows "gw_balances (fold (SeedSender keccak s) others (SeedSender keccak s sender g)) sender =
      (case s of TransferScenario cfg \<Rightarrow> of_SenderBalance cfg | ERC20TransferScenario cfg \<Rightarrow> of_SenderBalance cfg) \<and>
    (\<forall>cfg. s = ERC20TransferScenario cfg \<longrightarrow>
       gw_state (fold (SeedSender keccak s) others (SeedSender keccak s sender g)) (of_ERC20Contract cfg, ERC20BalanceSlot keccak sender) =
         Some (of_int (the (of_TransferValue cfg))))"
proof -
  note keys = slots_apart [OF assms(1)]
  have "gw_balances (fold (SeedSender keccak s) others g) sender = gw_balances g sender \<and>
      (\<forall>c. gw_state (fold (SeedSender keccak s) others g) (c, ERC20BalanceSlot keccak sender) = gw_state g (c, ERC20BalanceSlot keccak sender))"
    if "\<forall>b \<in> set others. b \<noteq> sender" for g
    using that by (induction others arbitrary: g) (auto simp: offline_ops keys split: offline_scenario.split)
  from this [OF assms(2), of "SeedSender keccak s sender g"] show ?thesis
    by (auto simp: offline_ops split: offline_scenario.split)
qed

text \<open>The value written for the token fits its 256-bit slot, so nothing is cut off.\<close>

lemma seeded_value_exact:
  assumes "NewScenario abi_error kind cfg = Ok s"
  shows "uint (of_int (the (of_TransferValue cfg)) :: hash) = the (of_TransferValue cfg)"
proof -
  have "valid_amount (of_TransferValue cfg)"
    using assms validateConfig_Ok [of cfg] by (auto simp: NewScenario_def outcome_simps)
  then show ?thesis by (auto simp: valid_amount_def uint_word_of_int take_bit_int_eq_self)
qed

lemma BuildTransaction_keyless: "BuildTransaction pe sign s None nonce a = Err (Errorf ''sender private key is required'')"
  by (cases s) (simp_all add: offline_ops)

end
