(* ===== verification/OfflineToken.thy ===== *)
theory OfflineToken
  imports ContractRun Offline
begin

text \<open>
  The token of the offline scenario (\<open>generator/offline/erc20_transfer.go\<close>, \<open>generator/contracts/ERC20.sol\<close>):
  the runtime code its constructor leaves, where its storage keeps a balance, and the transfers of
  seeded senders on the genesis state. \<open>create\<close>, the run of creation code in an EVM, is
  go-ethereum's.
\<close>

subsection \<open>The runtime code\<close>

record evm_config =
  ev_Origin :: address
  ev_BlockNumber :: int
  ev_Time :: u64
  ev_GasLimit :: u64
  ev_GasPrice :: int
  ev_Value :: int
  ev_BaseFee :: int

definition runtime_config :: evm_config where
  "runtime_config = \<lparr>ev_Origin = 1, ev_BlockNumber = 1, ev_Time = 1700000000, ev_GasLimit = 10000000,
     ev_GasPrice = 0, ev_Value = 0, ev_BaseFee = 0\<rparr>"

type_synonym evm_create = "string \<Rightarrow> abi_arg list \<Rightarrow> evm_config \<Rightarrow> go_error + code"

definition buildERC20Runtime :: "abi_parser \<Rightarrow> evm_create \<Rightarrow> code outcome" where
  "buildERC20Runtime getAbi create =
     (case getAbi ERC20MetaData of
        Inl e \<Rightarrow> Err (Wrap ''parse ERC20 ABI'' e)
      | Inr None \<Rightarrow> Panic ''nil pointer dereference''
      | Inr (Some contract) \<Rightarrow>
          let args = [ArgString ''LoadToken'', ArgString ''LT'']
          in if \<not> list_all2 arg_fits args (ab_constructor contract)
             then Err (Wrap ''pack ERC20 constructor'' (External ''abi: cannot use arguments''))
             else case create (md_name ERC20MetaData) args runtime_config of
                    Inl e \<Rightarrow> Err (Wrap ''execute ERC20 constructor'' e)
                  | Inr code \<Rightarrow>
                      if length code = 0 then Err (Errorf ''ERC20 constructor returned empty runtime'') else Ok code)"

text \<open>\<open>sync.OnceValues\<close>: the outcome of the first call, a panic too, is the outcome of every call.\<close>

definition loadERC20Runtime :: "code outcome \<Rightarrow> code outcome option \<Rightarrow> code outcome \<times> code outcome option" where
  "loadERC20Runtime built once = (case once of Some r \<Rightarrow> (r, once) | None \<Rightarrow> (built, Some built))"

text \<open>A copy of the code, which the caller may change.\<close>

definition ERC20RuntimeCode :: "code outcome \<Rightarrow> code outcome option \<Rightarrow> code outcome \<times> code outcome option" where
  "ERC20RuntimeCode built once =
     (case loadERC20Runtime built once of
        (Err err, once) \<Rightarrow> (Err err, once)
      | (Panic m, once) \<Rightarrow> (Panic m, once)
      | (Ok code, once) \<Rightarrow> (Ok ([] @ code), once))"

lemma ERC20RuntimeCode_same: "fst (ERC20RuntimeCode built' (snd (ERC20RuntimeCode built once))) = fst (ERC20RuntimeCode built once)"
  by (auto simp: ERC20RuntimeCode_def loadERC20Runtime_def split: option.split outcome.split)

lemma buildERC20Runtime_Ok:
  "getAbi ERC20MetaData = Inr (Some (md_ABI ERC20MetaData)) \<Longrightarrow>
     create ''ERC20'' [ArgString ''LoadToken'', ArgString ''LT''] runtime_config = Inr (b # bs) \<Longrightarrow>
     buildERC20Runtime getAbi create = Ok (b # bs)"
  by (simp add: buildERC20Runtime_def ERC20MetaData_def)

subsection \<open>The layout of the storage\<close>

text \<open>
  Where Solidity puts the variables of a contract: in slots of 32 bytes, a value beside the one before
  it if it fits, a string or a mapping at a slot of its own. A constant has no slot. The result gives the
  slot of a variable and its byte in the slot.
\<close>

datatype sol_type = ValueOf nat | StringOrMapping

fun slots_from :: "nat \<Rightarrow> nat \<Rightarrow> (string \<times> sol_type) list \<Rightarrow> (string \<times> nat \<times> nat) list" where
  "slots_from slot off [] = []"
| "slots_from slot off ((x, ValueOf k) # vs) =
     (if off + k \<le> 32 then (x, slot, off) # slots_from slot (off + k) vs
      else (x, Suc slot, 0) # slots_from (Suc slot) k vs)"
| "slots_from slot off ((x, StringOrMapping) # vs) =
     (let slot = (if off = 0 then slot else Suc slot) in (x, slot, 0) # slots_from (Suc slot) 0 vs)"

definition ERC20_variables :: "(string \<times> sol_type) list" where
  "ERC20_variables =
     [(''name'', StringOrMapping), (''symbol'', StringOrMapping), (''decimals'', ValueOf 1), (''totalSupply'', ValueOf 32),
      (''_balances'', StringOrMapping), (''_allowances'', StringOrMapping)]"

definition slot_of :: "string \<Rightarrow> nat" where
  "slot_of x = (case map_of (slots_from 0 0 ERC20_variables) x of None \<Rightarrow> 0 | Some (slot, off) \<Rightarrow> slot)"

text \<open>The key of an entry of a mapping: the hash of its own key and the slot of the mapping, a word each.\<close>

definition mapping_key :: "(nat list \<Rightarrow> hash) \<Rightarrow> nat \<Rightarrow> address \<Rightarrow> hash" where
  "mapping_key keccak slot a = keccak (big_endian 32 (unat a) @ big_endian 32 slot)"

lemma big_endian_0: "big_endian k 0 = replicate k 0"
proof (induction k)
  case (Suc k)
  then show ?case by (simp add: replicate_append_same)
qed simp

lemma big_endian_more: "n < 256 ^ k \<Longrightarrow> big_endian (j + k) n = replicate j 0 @ big_endian k n"
proof (induction k arbitrary: n)
  case (Suc k)
  then have "n div 256 < 256 ^ k" by (simp add: div_less_iff_less_mult mult.commute)
  from Suc.IH [OF this] show ?case by simp
qed (simp add: big_endian_0)

lemma address_word: "big_endian 32 (unat (a :: address)) = replicate 12 0 @ big_endian 20 (unat a)"
  using big_endian_more [of "unat a" 20 12] unsigned_less [of a] by simp

text \<open>The slot the program seeds is the one where the contract looks for the balance.\<close>

lemma balance_slot: "slot_of ''_balances'' = unat erc20BalancesSlot"
  by (simp add: slot_of_def ERC20_variables_def erc20BalancesSlot_def)

lemma seeded_key: "ERC20BalanceSlot keccak a = mapping_key keccak (slot_of ''_balances'') a"
  by (simp add: ERC20BalanceSlot_def slot_preimage_def mapping_key_def address_word balance_slot)

text \<open>
  The contract on a genesis state: the code is there, but no constructor has run on its storage, so
  that all but the seeded balances is zero.
\<close>

definition token_at :: "(nat list \<Rightarrow> hash) \<Rightarrow> address \<Rightarrow> genesis \<Rightarrow> erc20" where
  "token_at keccak contract g =
     \<lparr>e_name = '''', e_symbol = '''', e_decimals = 0, e_totalSupply = 0,
      e_balances = (\<lambda>a. case gw_state g (contract, mapping_key keccak (slot_of ''_balances'') a) of None \<Rightarrow> 0 | Some v \<Rightarrow> v),
      e_allowances = (\<lambda>a b. 0), e_logs = []\<rparr>"

subsection \<open>Transfers of seeded senders\<close>

definition run_legacy :: "address \<Rightarrow> address \<Rightarrow> legacy_tx \<Rightarrow> erc20 \<Rightarrow> erc20 option" where
  "run_legacy this sender tx s =
     (if lg_to tx \<noteq> this then Some s
      else case lg_data tx of
             NoData \<Rightarrow> ERC20_receive sender (word_of_int (lg_value tx)) s
           | Call m args \<Rightarrow> if lg_value tx \<noteq> 0 then None else ERC20_call sender m args s)"

fun run_transfers :: "offline_config \<Rightarrow> (address \<times> u64 \<times> address) list \<Rightarrow> erc20 \<Rightarrow> erc20 option" where
  "run_transfers cfg [] s = Some s"
| "run_transfers cfg ((sender, nonce, recipient) # ms) s =
     Option.bind (run_legacy (of_ERC20Contract cfg) sender (erc20_tx cfg nonce recipient) s) (run_transfers cfg ms)"

definition received :: "(address \<times> u64 \<times> address) list \<Rightarrow> address \<Rightarrow> nat" where
  "received ms a = length (filter (\<lambda>(x, n, y). y = a) ms)"

lemma received_simps [simp]:
  "received [] a = 0" "received ((x, n, y) # ms) a = (if y = a then 1 else 0) + received ms a"
  by (simp_all add: received_def)

text \<open>What a transfer moves, as the word the contract sees.\<close>

definition moved_value :: "offline_config \<Rightarrow> u256" where
  "moved_value cfg = word_of_int (the (of_TransferValue cfg))"

text \<open>A sender with the amount in its balance spends it: the contract mints nothing.\<close>

lemma ERC20_transfer_moves:
  assumes "v \<le> e_balances s x" "unat (e_balances s y) + unat v < 2 ^ 256"
  shows "\<exists>t. ERC20_transfer x y v s = Some (True, t) \<and> e_logs t = e_logs s @ [EvTransfer x y v] \<and>
    (\<forall>a. unat (e_balances t a) = unat (e_balances s a) - (if a = x then unat v else 0) + (if a = y then unat v else 0))"
proof -
  let ?b = "(e_balances s)(x := e_balances s x - v)"
  have sub: "map_sub_at x v (e_balances s) = Some ?b" "unat (e_balances s x - v) = unat (e_balances s x) - unat v"
    using sol_sub_Some [OF assms(1)] by (simp_all add: map_sub_at_def)
  have "unat (?b y) + unat v < 2 ^ 256" using assms(2) sub(2) by (cases "y = x") simp_all
  from sol_add_Some [OF this] have add: "map_add_at y v ?b = Some (?b(y := ?b y + v))" "unat (?b y + v) = unat (?b y) + unat v"
    by (simp_all add: map_add_at_def)
  have "\<not> e_balances s x < v" using assms(1) by (simp add: not_less)
  then show ?thesis using sub add by (auto simp: ERC20_transfer_def)
qed

lemma run_legacy_transfer:
  "run_legacy (of_ERC20Contract cfg) x (erc20_tx cfg nonce y) s = map_option snd (ERC20_transfer x y (moved_value cfg) s)"
  by (simp add: run_legacy_def erc20_tx_def ERC20_call_def moved_value_def)

lemma transfers_run:
  assumes "\<forall>a. unat (e_balances s a) = unat (moved_value cfg) * c a" "\<forall>m \<in> set ms. 1 \<le> c (fst m)" "distinct (map fst ms)"
    "\<forall>a. unat (moved_value cfg) * (c a + length ms) < 2 ^ 256"
  shows "\<exists>t. run_transfers cfg ms s = Some t \<and>
    e_logs t = e_logs s @ map (\<lambda>(x, n, y). EvTransfer x y (moved_value cfg)) ms \<and>
    (\<forall>a. unat (e_balances t a) = unat (moved_value cfg) *
       (c a - (if a \<in> fst ` set ms then 1 else 0) + received ms a))"
  using assms
proof (induction ms arbitrary: s c)
  case (Cons m ms)
  let ?v = "moved_value cfg"
  obtain x n y where m: "m = (x, n, y)" by (cases m)
  let ?c = "\<lambda>a. c a - (if a = x then 1 else 0) + (if a = y then 1 else 0)"
  have cx: "1 \<le> c x" using Cons.prems(2) m by simp
  have le: "?v \<le> e_balances s x"
    using Cons.prems(1) cx by (simp add: word_le_nat_alt)
  have "unat ?v * Suc (c y) \<le> unat ?v * (c y + length (m # ms))" by (intro mult_le_mono2) simp
  also have "\<dots> < 2 ^ 256" using Cons.prems(4) by (rule spec)
  finally have "unat (e_balances s y) + unat ?v < 2 ^ 256"
    using Cons.prems(1) by (simp only: mult_Suc_right add.commute)
  from ERC20_transfer_moves [OF le this] obtain t where t: "ERC20_transfer x y ?v s = Some (True, t)"
    "e_logs t = e_logs s @ [EvTransfer x y ?v]"
    "\<forall>a. unat (e_balances t a) = unat (e_balances s a) - (if a = x then unat ?v else 0) + (if a = y then unat ?v else 0)"
    by blast
  have "\<forall>a. unat (e_balances t a) = unat ?v * ?c a"
  proof
    fix a show "unat (e_balances t a) = unat ?v * ?c a"
      using t(3) [rule_format, of a] Cons.prems(1) [rule_format, of a]
      by (cases "a = x"; cases "a = y") (simp_all add: diff_mult_distrib2)
  qed
  moreover have "\<forall>m \<in> set ms. 1 \<le> ?c (fst m)"
    using Cons.prems(2,3) m by (auto simp: image_iff)
  moreover have "\<forall>a. unat ?v * (?c a + length ms) < 2 ^ 256"
  proof
    fix a
    have "unat ?v * (?c a + length ms) \<le> unat ?v * (c a + length (m # ms))" by (intro mult_le_mono2) (simp add: le_SucI)
    also have "\<dots> < 2 ^ 256" using Cons.prems(4) by (rule spec)
    finally show "unat ?v * (?c a + length ms) < 2 ^ 256" .
  qed
  ultimately obtain t' where t': "run_transfers cfg ms t = Some t'"
    "e_logs t' = e_logs t @ map (\<lambda>(x, n, y). EvTransfer x y ?v) ms"
    "\<forall>a. unat (e_balances t' a) = unat ?v * (?c a - (if a \<in> fst ` set ms then 1 else 0) + received ms a)"
    using Cons.IH [of t ?c] Cons.prems(3) by auto
  have "x \<notin> fst ` set ms" using Cons.prems(3) m by simp
  then have "?c a - (if a \<in> fst ` set ms then 1 else 0) + received ms a =
      c a - (if a \<in> fst ` set (m # ms) then 1 else 0) + received (m # ms) a" for a
    using Cons.prems(2) m by (auto simp: image_iff)
  then show ?case using t t' m by (auto simp: run_legacy_transfer)
qed simp

text \<open>
  The state of a genesis whose senders were seeded: the balance of each is the amount one transfer
  moves, all other balances are zero.
\<close>

lemma seeded_balances:
  assumes "keys_apart keccak" "\<forall>h. gw_state g (of_ERC20Contract cfg, h) = None"
  shows "e_balances (token_at keccak (of_ERC20Contract cfg) (fold (SeedSender keccak (ERC20TransferScenario cfg)) senders g)) a =
    (if a \<in> set senders then moved_value cfg else 0)"
proof -
  have "gw_state (fold (SeedSender keccak (ERC20TransferScenario cfg)) senders g) (of_ERC20Contract cfg, ERC20BalanceSlot keccak a) =
      (if a \<in> set senders then Some (moved_value cfg) else gw_state g (of_ERC20Contract cfg, ERC20BalanceSlot keccak a))" for g
    using slots_apart [OF assms(1)]
    by (induction senders arbitrary: g) (auto simp: offline_ops moved_value_def)
  with assms(2) show ?thesis by (simp add: token_at_def seeded_key)
qed

lemma seeded_transfers:
  assumes "NewScenario None ''erc20-transfer'' cfg = Ok s" "keys_apart keccak"
    "\<forall>h. gw_state g0 (of_ERC20Contract cfg, h) = None"
    "distinct (map fst moves)" "fst ` set moves \<subseteq> set senders"
    "the (of_TransferValue cfg) * (1 + int (length moves)) < 2 ^ 256"
  shows "\<exists>g t. SetupGenesis (Inr code) s g0 = (Ok (), g) \<and> gw_code g (of_ERC20Contract cfg) = Some code \<and>
    run_transfers cfg moves (token_at keccak (of_ERC20Contract cfg) (fold (SeedSender keccak s) senders g)) = Some t \<and>
    e_logs t = map (\<lambda>(x, n, y). EvTransfer x y (moved_value cfg)) moves \<and>
    (\<forall>a. uint (e_balances t a) = the (of_TransferValue cfg) *
       ((if a \<in> set senders - fst ` set moves then 1 else 0) + int (received moves a)))"
proof -
  have s: "s = ERC20TransferScenario cfg" and valid: "valid_amount (of_TransferValue cfg)"
    using assms(1) validateConfig_Ok [of cfg]
    by (auto simp: NewScenario_def newERC20TransferScenario_def outcome_simps split: if_splits)
  let ?V = "the (of_TransferValue cfg)" and ?g = "snd (SetupGenesis (Inr code) s g0)"
  have V: "uint (moved_value cfg) = ?V" using seeded_value_exact [OF assms(1)] by (simp add: moved_value_def)
  then have v: "int (unat (moved_value cfg)) = ?V" by simp
  let ?c = "\<lambda>a. if a \<in> set senders then 1 else 0 :: nat"
  let ?t0 = "token_at keccak (of_ERC20Contract cfg) (fold (SeedSender keccak s) senders ?g)"
  have clean: "\<forall>h. gw_state ?g (of_ERC20Contract cfg, h) = None" using assms(3) by (simp add: s offline_ops)
  have bal: "\<forall>a. unat (e_balances ?t0 a) = unat (moved_value cfg) * ?c a"
    unfolding s using seeded_balances [OF assms(2) clean [unfolded s], of senders] by simp
  have sent: "\<forall>m \<in> set moves. 1 \<le> ?c (fst m)" using assms(5) by auto
  have "int (unat (moved_value cfg) * (1 + length moves)) < 2 ^ 256"
    using assms(6) by (simp only: of_nat_mult of_nat_add of_nat_1 v)
  then have small: "unat (moved_value cfg) * (1 + length moves) < 2 ^ 256"
    by (metis of_nat_less_iff of_nat_numeral of_nat_power)
  have room: "\<forall>a. unat (moved_value cfg) * (?c a + length moves) < 2 ^ 256"
  proof
    fix a
    have "unat (moved_value cfg) * (?c a + length moves) \<le> unat (moved_value cfg) * (1 + length moves)"
      by (intro mult_le_mono2) simp
    then show "unat (moved_value cfg) * (?c a + length moves) < 2 ^ 256" using small by (rule le_less_trans)
  qed
  from transfers_run [OF bal sent assms(4) room] obtain t where t: "run_transfers cfg moves ?t0 = Some t"
    "e_logs t = e_logs ?t0 @ map (\<lambda>(x, n, y). EvTransfer x y (moved_value cfg)) moves"
    "\<forall>a. unat (e_balances t a) = unat (moved_value cfg) *
       (?c a - (if a \<in> fst ` set moves then 1 else 0) + received moves a)"
    by blast
  have "uint (e_balances t a) = ?V * ((if a \<in> set senders - fst ` set moves then 1 else 0) + int (received moves a))" for a
  proof -
    have "uint (e_balances t a) = int (unat (e_balances t a))" by simp
    also have "\<dots> = ?V * int (?c a - (if a \<in> fst ` set moves then 1 else 0) + received moves a)"
      unfolding t(3) [rule_format, of a] by (simp only: of_nat_mult v)
    finally show ?thesis using assms(5) by auto
  qed
  then show ?thesis using t(1,2)
    by (intro exI [of _ ?g] exI [of _ t]) (simp add: s offline_ops token_at_def)
qed

lemma BuildTransaction_erc20:
  "NewScenario None ''erc20-transfer'' cfg = Ok s \<Longrightarrow> BuildTransaction None signTx s (Some k) n y = signTx (erc20_tx cfg n y) k"
  by (auto simp: NewScenario_def newERC20TransferScenario_def outcome_simps offline_ops split: if_splits)

text \<open>A hash that keeps the keys apart: the owner in its input.\<close>

definition owner_hash :: "nat list \<Rightarrow> hash" where
  "owner_hash bs = of_nat (foldl (\<lambda>n b. 256 * n + b) 0 (take 20 (drop 12 bs)))"

lemma foldl_big_endian: "foldl (\<lambda>n b. 256 * n + b) 0 (big_endian k n) = n mod 256 ^ k"
proof (induction k arbitrary: n)
  case (Suc k)
  have "n mod 256 ^ Suc k = 256 * (n div 256 mod 256 ^ k) + n mod 256"
    by (simp only: power_Suc mod_mult2_eq)
  then show ?case using Suc by simp
qed simp

lemma owner_hash_apart: "keys_apart owner_hash"
proof -
  have owner: "owner_hash (slot_preimage a) = of_nat (unat a)" for a :: address
  proof -
    have "unat a < 256 ^ 20" using unsigned_less [of a] by simp
    then have "unat a mod 256 ^ 20 = unat a" by (rule mod_less)
    then show ?thesis by (simp add: owner_hash_def slot_preimage_def foldl_big_endian)
  qed
  have "a = b" if "(of_nat (unat a) :: hash) = of_nat (unat b)" for a b :: address
  proof -
    have "unat (of_nat (unat c) :: hash) = unat c" for c :: address
    proof -
      have "unat c < 2 ^ 160" using unsigned_less [of c, where 'a = nat] by simp
      then have "unat c < 2 ^ 256" by simp
      then show ?thesis using take_bit_nat_eq_self [of "unat c" 256] by (simp add: unsigned_of_nat del: of_nat_unat)
    qed
    then show "a = b" using that by (metis word_unat_eq_iff)
  qed
  then show ?thesis by (auto simp: keys_apart_def inj_on_def owner)
qed

end
