(* ===== verification/BindingCalls.thy ===== *)
theory BindingCalls
  imports Bindings
begin

text \<open>
  The rest of the generated bindings (\<open>generator/bindings\<close>): the methods that read a contract, those that
  write to it beside the ones the program calls, the raw calls, and the sessions, which fix the options
  of a call. A session of the reading or the writing half holds that half.
\<close>

subsection \<open>Values and calls\<close>

datatype abi_value = ValUint int | ValUint8 int | ValAddress address | ValString string | ValBool bool

record call_opts =
  co_From :: address
  co_BlockNumber :: "int option"
  co_Pending :: bool

text \<open>What the node returns for a call that does not change the chain.\<close>

type_synonym call_node = "call_opts \<Rightarrow> address \<Rightarrow> string \<Rightarrow> abi_arg list \<Rightarrow> go_error + abi_value list"

definition bound_Call :: "call_node \<Rightarrow> bound_contract \<Rightarrow> call_opts \<Rightarrow> string \<Rightarrow> abi_arg list \<Rightarrow> abi_value list outcome" where
  "bound_Call node c opts method args =
     (if abi_accepts (bc_abi c) method args
      then (case node opts (bc_address c) method args of Inl e \<Rightarrow> Err e | Inr out \<Rightarrow> Ok out)
      else Err (External ''abi: cannot use arguments''))"

definition bound_RawTransact :: "chain_env \<Rightarrow> bound_contract \<Rightarrow> transact_opts \<Rightarrow> calldata \<Rightarrow> eth_tx outcome" where
  "bound_RawTransact env c opts data = ce_transact env opts (bc_address c) data"

definition bound_Transfer :: "chain_env \<Rightarrow> bound_contract \<Rightarrow> transact_opts \<Rightarrow> eth_tx outcome" where
  "bound_Transfer env c opts = ce_transact env opts (bc_address c) NoData"

text \<open>A method that reads: the first result of the call, as the type it is declared with; another type panics.\<close>

fun as_uint :: "abi_value \<Rightarrow> int option" where
  "as_uint (ValUint n) = Some n"
| "as_uint v = None"

fun as_uint8 :: "abi_value \<Rightarrow> int option" where
  "as_uint8 (ValUint8 n) = Some n"
| "as_uint8 v = None"

fun as_address :: "abi_value \<Rightarrow> address option" where
  "as_address (ValAddress a) = Some a"
| "as_address v = None"

fun as_string :: "abi_value \<Rightarrow> string option" where
  "as_string (ValString s) = Some s"
| "as_string v = None"

fun as_bool :: "abi_value \<Rightarrow> bool option" where
  "as_bool (ValBool b) = Some b"
| "as_bool v = None"

definition read_one ::
  "(abi_value \<Rightarrow> 'r option) \<Rightarrow> call_node \<Rightarrow> bound_contract \<Rightarrow> call_opts \<Rightarrow> string \<Rightarrow> abi_arg list \<Rightarrow> 'r outcome" where
  "read_one convert node c opts method args =
     obind (bound_Call node c opts method args) (\<lambda>out.
       obind (index_at out 0) (\<lambda>v.
         case convert v of None \<Rightarrow> Panic ''abi: cannot convert'' | Some r \<Rightarrow> Ok r))"

subsection \<open>Sessions\<close>

record session =
  ss_Contract :: binding
  ss_CallOpts :: call_opts
  ss_TransactOpts :: transact_opts

record caller_session =
  cs_Contract :: bound_contract
  cs_CallOpts :: call_opts

record transactor_session =
  ts_Contract :: bound_contract
  ts_TransactOpts :: transact_opts

subsection \<open>The token\<close>

definition NewERC20Caller where "NewERC20Caller getAbi address = bindERC20 getAbi address"

definition NewERC20Transactor where "NewERC20Transactor getAbi address = bindERC20 getAbi address"

definition NewERC20Filterer where "NewERC20Filterer getAbi address = bindERC20 getAbi address"

definition ERC20Raw_Call where
  "ERC20Raw_Call node r opts method params = bound_Call node (bn_Caller r) opts method params"

definition ERC20Raw_Transfer where "ERC20Raw_Transfer env r opts = bound_Transfer env (bn_Transactor r) opts"

definition ERC20Raw_Transact where
  "ERC20Raw_Transact env r opts method params = bound_Transact env (bn_Transactor r) opts method params"

definition ERC20CallerRaw_Call where
  "ERC20CallerRaw_Call node c opts method params = bound_Call node c opts method params"

definition ERC20TransactorRaw_Transfer where "ERC20TransactorRaw_Transfer env t opts = bound_Transfer env t opts"

definition ERC20TransactorRaw_Transact where
  "ERC20TransactorRaw_Transact env t opts method params = bound_Transact env t opts method params"

definition ERC20_DEFAULTBALANCE where
  "ERC20_DEFAULTBALANCE node c opts = read_one as_uint node c opts ''DEFAULT_BALANCE'' []"

definition ERC20Session_DEFAULTBALANCE where
  "ERC20Session_DEFAULTBALANCE node s = ERC20_DEFAULTBALANCE node (bn_Caller (ss_Contract s)) (ss_CallOpts s)"

definition ERC20CallerSession_DEFAULTBALANCE where
  "ERC20CallerSession_DEFAULTBALANCE node s = ERC20_DEFAULTBALANCE node (cs_Contract s) (cs_CallOpts s)"

definition ERC20_Allowance where
  "ERC20_Allowance node c opts owner spender =
     read_one as_uint node c opts ''allowance'' [ArgAddress owner, ArgAddress spender]"

definition ERC20Session_Allowance where
  "ERC20Session_Allowance node s owner spender =
     ERC20_Allowance node (bn_Caller (ss_Contract s)) (ss_CallOpts s) owner spender"

definition ERC20CallerSession_Allowance where
  "ERC20CallerSession_Allowance node s owner spender =
     ERC20_Allowance node (cs_Contract s) (cs_CallOpts s) owner spender"

definition ERC20_BalanceOf where
  "ERC20_BalanceOf node c opts account = read_one as_uint node c opts ''balanceOf'' [ArgAddress account]"

definition ERC20Session_BalanceOf where
  "ERC20Session_BalanceOf node s account = ERC20_BalanceOf node (bn_Caller (ss_Contract s)) (ss_CallOpts s) account"

definition ERC20CallerSession_BalanceOf where
  "ERC20CallerSession_BalanceOf node s account = ERC20_BalanceOf node (cs_Contract s) (cs_CallOpts s) account"

definition ERC20_Decimals where "ERC20_Decimals node c opts = read_one as_uint8 node c opts ''decimals'' []"

definition ERC20Session_Decimals where
  "ERC20Session_Decimals node s = ERC20_Decimals node (bn_Caller (ss_Contract s)) (ss_CallOpts s)"

definition ERC20CallerSession_Decimals where
  "ERC20CallerSession_Decimals node s = ERC20_Decimals node (cs_Contract s) (cs_CallOpts s)"

definition ERC20_Name where "ERC20_Name node c opts = read_one as_string node c opts ''name'' []"

definition ERC20Session_Name where
  "ERC20Session_Name node s = ERC20_Name node (bn_Caller (ss_Contract s)) (ss_CallOpts s)"

definition ERC20CallerSession_Name where
  "ERC20CallerSession_Name node s = ERC20_Name node (cs_Contract s) (cs_CallOpts s)"

definition ERC20_Symbol where "ERC20_Symbol node c opts = read_one as_string node c opts ''symbol'' []"

definition ERC20Session_Symbol where
  "ERC20Session_Symbol node s = ERC20_Symbol node (bn_Caller (ss_Contract s)) (ss_CallOpts s)"

definition ERC20CallerSession_Symbol where
  "ERC20CallerSession_Symbol node s = ERC20_Symbol node (cs_Contract s) (cs_CallOpts s)"

definition ERC20_TotalSupply where "ERC20_TotalSupply node c opts = read_one as_uint node c opts ''totalSupply'' []"

definition ERC20Session_TotalSupply where
  "ERC20Session_TotalSupply node s = ERC20_TotalSupply node (bn_Caller (ss_Contract s)) (ss_CallOpts s)"

definition ERC20CallerSession_TotalSupply where
  "ERC20CallerSession_TotalSupply node s = ERC20_TotalSupply node (cs_Contract s) (cs_CallOpts s)"

definition ERC20_Approve where
  "ERC20_Approve env t opts spender amount =
     bound_Transact env t opts ''approve'' [ArgAddress spender, ArgInt amount]"

definition ERC20Session_Approve where
  "ERC20Session_Approve env s spender amount =
     ERC20_Approve env (bn_Transactor (ss_Contract s)) (ss_TransactOpts s) spender amount"

definition ERC20TransactorSession_Approve where
  "ERC20TransactorSession_Approve env s spender amount =
     ERC20_Approve env (ts_Contract s) (ts_TransactOpts s) spender amount"

definition ERC20Session_Transfer where
  "ERC20Session_Transfer env s recipient amount =
     ERC20_Transfer env (bn_Transactor (ss_Contract s)) (ss_TransactOpts s) recipient amount"

definition ERC20TransactorSession_Transfer where
  "ERC20TransactorSession_Transfer env s recipient amount =
     ERC20_Transfer env (ts_Contract s) (ts_TransactOpts s) recipient amount"

definition ERC20_TransferFrom where
  "ERC20_TransferFrom env t opts sender recipient amount =
     bound_Transact env t opts ''transferFrom'' [ArgAddress sender, ArgAddress recipient, ArgInt amount]"

definition ERC20Session_TransferFrom where
  "ERC20Session_TransferFrom env s sender recipient amount =
     ERC20_TransferFrom env (bn_Transactor (ss_Contract s)) (ss_TransactOpts s) sender recipient amount"

definition ERC20TransactorSession_TransferFrom where
  "ERC20TransactorSession_TransferFrom env s sender recipient amount =
     ERC20_TransferFrom env (ts_Contract s) (ts_TransactOpts s) sender recipient amount"

definition ERC20_Receive where "ERC20_Receive env t opts = bound_RawTransact env t opts NoData"

definition ERC20Session_Receive where
  "ERC20Session_Receive env s = ERC20_Receive env (bn_Transactor (ss_Contract s)) (ss_TransactOpts s)"

definition ERC20TransactorSession_Receive where
  "ERC20TransactorSession_Receive env s = ERC20_Receive env (ts_Contract s) (ts_TransactOpts s)"

subsection \<open>The no-op token\<close>

definition NewERC20NoopCaller where "NewERC20NoopCaller getAbi address = bindERC20Noop getAbi address"

definition NewERC20NoopTransactor where "NewERC20NoopTransactor getAbi address = bindERC20Noop getAbi address"

definition NewERC20NoopFilterer where "NewERC20NoopFilterer getAbi address = bindERC20Noop getAbi address"

definition ERC20NoopRaw_Call where
  "ERC20NoopRaw_Call node r opts method params = bound_Call node (bn_Caller r) opts method params"

definition ERC20NoopRaw_Transfer where "ERC20NoopRaw_Transfer env r opts = bound_Transfer env (bn_Transactor r) opts"

definition ERC20NoopRaw_Transact where
  "ERC20NoopRaw_Transact env r opts method params = bound_Transact env (bn_Transactor r) opts method params"

definition ERC20NoopCallerRaw_Call where
  "ERC20NoopCallerRaw_Call node c opts method params = bound_Call node c opts method params"

definition ERC20NoopTransactorRaw_Transfer where
  "ERC20NoopTransactorRaw_Transfer env t opts = bound_Transfer env t opts"

definition ERC20NoopTransactorRaw_Transact where
  "ERC20NoopTransactorRaw_Transact env t opts method params = bound_Transact env t opts method params"

definition ERC20Noop_DEFAULTBALANCE where
  "ERC20Noop_DEFAULTBALANCE node c opts = read_one as_uint node c opts ''DEFAULT_BALANCE'' []"

definition ERC20NoopSession_DEFAULTBALANCE where
  "ERC20NoopSession_DEFAULTBALANCE node s = ERC20Noop_DEFAULTBALANCE node (bn_Caller (ss_Contract s)) (ss_CallOpts s)"

definition ERC20NoopCallerSession_DEFAULTBALANCE where
  "ERC20NoopCallerSession_DEFAULTBALANCE node s = ERC20Noop_DEFAULTBALANCE node (cs_Contract s) (cs_CallOpts s)"

definition ERC20Noop_Allowance where
  "ERC20Noop_Allowance node c opts owner spender =
     read_one as_uint node c opts ''allowance'' [ArgAddress owner, ArgAddress spender]"

definition ERC20NoopSession_Allowance where
  "ERC20NoopSession_Allowance node s owner spender =
     ERC20Noop_Allowance node (bn_Caller (ss_Contract s)) (ss_CallOpts s) owner spender"

definition ERC20NoopCallerSession_Allowance where
  "ERC20NoopCallerSession_Allowance node s owner spender =
     ERC20Noop_Allowance node (cs_Contract s) (cs_CallOpts s) owner spender"

definition ERC20Noop_BalanceOf where
  "ERC20Noop_BalanceOf node c opts account = read_one as_uint node c opts ''balanceOf'' [ArgAddress account]"

definition ERC20NoopSession_BalanceOf where
  "ERC20NoopSession_BalanceOf node s account =
     ERC20Noop_BalanceOf node (bn_Caller (ss_Contract s)) (ss_CallOpts s) account"

definition ERC20NoopCallerSession_BalanceOf where
  "ERC20NoopCallerSession_BalanceOf node s account = ERC20Noop_BalanceOf node (cs_Contract s) (cs_CallOpts s) account"

definition ERC20Noop_Decimals where "ERC20Noop_Decimals node c opts = read_one as_uint8 node c opts ''decimals'' []"

definition ERC20NoopSession_Decimals where
  "ERC20NoopSession_Decimals node s = ERC20Noop_Decimals node (bn_Caller (ss_Contract s)) (ss_CallOpts s)"

definition ERC20NoopCallerSession_Decimals where
  "ERC20NoopCallerSession_Decimals node s = ERC20Noop_Decimals node (cs_Contract s) (cs_CallOpts s)"

definition ERC20Noop_Name where "ERC20Noop_Name node c opts = read_one as_string node c opts ''name'' []"

definition ERC20NoopSession_Name where
  "ERC20NoopSession_Name node s = ERC20Noop_Name node (bn_Caller (ss_Contract s)) (ss_CallOpts s)"

definition ERC20NoopCallerSession_Name where
  "ERC20NoopCallerSession_Name node s = ERC20Noop_Name node (cs_Contract s) (cs_CallOpts s)"

definition ERC20Noop_Symbol where "ERC20Noop_Symbol node c opts = read_one as_string node c opts ''symbol'' []"

definition ERC20NoopSession_Symbol where
  "ERC20NoopSession_Symbol node s = ERC20Noop_Symbol node (bn_Caller (ss_Contract s)) (ss_CallOpts s)"

definition ERC20NoopCallerSession_Symbol where
  "ERC20NoopCallerSession_Symbol node s = ERC20Noop_Symbol node (cs_Contract s) (cs_CallOpts s)"

definition ERC20Noop_TotalSupply where
  "ERC20Noop_TotalSupply node c opts = read_one as_uint node c opts ''totalSupply'' []"

definition ERC20NoopSession_TotalSupply where
  "ERC20NoopSession_TotalSupply node s = ERC20Noop_TotalSupply node (bn_Caller (ss_Contract s)) (ss_CallOpts s)"

definition ERC20NoopCallerSession_TotalSupply where
  "ERC20NoopCallerSession_TotalSupply node s = ERC20Noop_TotalSupply node (cs_Contract s) (cs_CallOpts s)"

definition ERC20Noop_Approve where
  "ERC20Noop_Approve env t opts spender amount =
     bound_Transact env t opts ''approve'' [ArgAddress spender, ArgInt amount]"

definition ERC20NoopSession_Approve where
  "ERC20NoopSession_Approve env s spender amount =
     ERC20Noop_Approve env (bn_Transactor (ss_Contract s)) (ss_TransactOpts s) spender amount"

definition ERC20NoopTransactorSession_Approve where
  "ERC20NoopTransactorSession_Approve env s spender amount =
     ERC20Noop_Approve env (ts_Contract s) (ts_TransactOpts s) spender amount"

definition ERC20NoopSession_Transfer where
  "ERC20NoopSession_Transfer env s recipient amount =
     ERC20Noop_Transfer env (bn_Transactor (ss_Contract s)) (ss_TransactOpts s) recipient amount"

definition ERC20NoopTransactorSession_Transfer where
  "ERC20NoopTransactorSession_Transfer env s recipient amount =
     ERC20Noop_Transfer env (ts_Contract s) (ts_TransactOpts s) recipient amount"

definition ERC20Noop_TransferFrom where
  "ERC20Noop_TransferFrom env t opts sender recipient amount =
     bound_Transact env t opts ''transferFrom'' [ArgAddress sender, ArgAddress recipient, ArgInt amount]"

definition ERC20NoopSession_TransferFrom where
  "ERC20NoopSession_TransferFrom env s sender recipient amount =
     ERC20Noop_TransferFrom env (bn_Transactor (ss_Contract s)) (ss_TransactOpts s) sender recipient amount"

definition ERC20NoopTransactorSession_TransferFrom where
  "ERC20NoopTransactorSession_TransferFrom env s sender recipient amount =
     ERC20Noop_TransferFrom env (ts_Contract s) (ts_TransactOpts s) sender recipient amount"

subsection \<open>The conflicting token\<close>

definition NewERC20ConflictCaller where "NewERC20ConflictCaller getAbi address = bindERC20Conflict getAbi address"

definition NewERC20ConflictTransactor where
  "NewERC20ConflictTransactor getAbi address = bindERC20Conflict getAbi address"

definition NewERC20ConflictFilterer where "NewERC20ConflictFilterer getAbi address = bindERC20Conflict getAbi address"

definition ERC20ConflictRaw_Call where
  "ERC20ConflictRaw_Call node r opts method params = bound_Call node (bn_Caller r) opts method params"

definition ERC20ConflictRaw_Transfer where
  "ERC20ConflictRaw_Transfer env r opts = bound_Transfer env (bn_Transactor r) opts"

definition ERC20ConflictRaw_Transact where
  "ERC20ConflictRaw_Transact env r opts method params = bound_Transact env (bn_Transactor r) opts method params"

definition ERC20ConflictCallerRaw_Call where
  "ERC20ConflictCallerRaw_Call node c opts method params = bound_Call node c opts method params"

definition ERC20ConflictTransactorRaw_Transfer where
  "ERC20ConflictTransactorRaw_Transfer env t opts = bound_Transfer env t opts"

definition ERC20ConflictTransactorRaw_Transact where
  "ERC20ConflictTransactorRaw_Transact env t opts method params = bound_Transact env t opts method params"

definition ERC20Conflict_DEFAULTBALANCE where
  "ERC20Conflict_DEFAULTBALANCE node c opts = read_one as_uint node c opts ''DEFAULT_BALANCE'' []"

definition ERC20ConflictSession_DEFAULTBALANCE where
  "ERC20ConflictSession_DEFAULTBALANCE node s =
     ERC20Conflict_DEFAULTBALANCE node (bn_Caller (ss_Contract s)) (ss_CallOpts s)"

definition ERC20ConflictCallerSession_DEFAULTBALANCE where
  "ERC20ConflictCallerSession_DEFAULTBALANCE node s =
     ERC20Conflict_DEFAULTBALANCE node (cs_Contract s) (cs_CallOpts s)"

definition ERC20Conflict_Allowance where
  "ERC20Conflict_Allowance node c opts owner spender =
     read_one as_uint node c opts ''allowance'' [ArgAddress owner, ArgAddress spender]"

definition ERC20ConflictSession_Allowance where
  "ERC20ConflictSession_Allowance node s owner spender =
     ERC20Conflict_Allowance node (bn_Caller (ss_Contract s)) (ss_CallOpts s) owner spender"

definition ERC20ConflictCallerSession_Allowance where
  "ERC20ConflictCallerSession_Allowance node s owner spender =
     ERC20Conflict_Allowance node (cs_Contract s) (cs_CallOpts s) owner spender"

definition ERC20Conflict_BalanceOf where
  "ERC20Conflict_BalanceOf node c opts account = read_one as_uint node c opts ''balanceOf'' [ArgAddress account]"

definition ERC20ConflictSession_BalanceOf where
  "ERC20ConflictSession_BalanceOf node s account =
     ERC20Conflict_BalanceOf node (bn_Caller (ss_Contract s)) (ss_CallOpts s) account"

definition ERC20ConflictCallerSession_BalanceOf where
  "ERC20ConflictCallerSession_BalanceOf node s account =
     ERC20Conflict_BalanceOf node (cs_Contract s) (cs_CallOpts s) account"

definition ERC20Conflict_Counter where
  "ERC20Conflict_Counter node c opts = read_one as_uint node c opts ''counter'' []"

definition ERC20ConflictSession_Counter where
  "ERC20ConflictSession_Counter node s = ERC20Conflict_Counter node (bn_Caller (ss_Contract s)) (ss_CallOpts s)"

definition ERC20ConflictCallerSession_Counter where
  "ERC20ConflictCallerSession_Counter node s = ERC20Conflict_Counter node (cs_Contract s) (cs_CallOpts s)"

definition ERC20Conflict_Decimals where
  "ERC20Conflict_Decimals node c opts = read_one as_uint8 node c opts ''decimals'' []"

definition ERC20ConflictSession_Decimals where
  "ERC20ConflictSession_Decimals node s = ERC20Conflict_Decimals node (bn_Caller (ss_Contract s)) (ss_CallOpts s)"

definition ERC20ConflictCallerSession_Decimals where
  "ERC20ConflictCallerSession_Decimals node s = ERC20Conflict_Decimals node (cs_Contract s) (cs_CallOpts s)"

definition ERC20Conflict_Name where "ERC20Conflict_Name node c opts = read_one as_string node c opts ''name'' []"

definition ERC20ConflictSession_Name where
  "ERC20ConflictSession_Name node s = ERC20Conflict_Name node (bn_Caller (ss_Contract s)) (ss_CallOpts s)"

definition ERC20ConflictCallerSession_Name where
  "ERC20ConflictCallerSession_Name node s = ERC20Conflict_Name node (cs_Contract s) (cs_CallOpts s)"

definition ERC20Conflict_Symbol where
  "ERC20Conflict_Symbol node c opts = read_one as_string node c opts ''symbol'' []"

definition ERC20ConflictSession_Symbol where
  "ERC20ConflictSession_Symbol node s = ERC20Conflict_Symbol node (bn_Caller (ss_Contract s)) (ss_CallOpts s)"

definition ERC20ConflictCallerSession_Symbol where
  "ERC20ConflictCallerSession_Symbol node s = ERC20Conflict_Symbol node (cs_Contract s) (cs_CallOpts s)"

definition ERC20Conflict_TotalSupply where
  "ERC20Conflict_TotalSupply node c opts = read_one as_uint node c opts ''totalSupply'' []"

definition ERC20ConflictSession_TotalSupply where
  "ERC20ConflictSession_TotalSupply node s =
     ERC20Conflict_TotalSupply node (bn_Caller (ss_Contract s)) (ss_CallOpts s)"

definition ERC20ConflictCallerSession_TotalSupply where
  "ERC20ConflictCallerSession_TotalSupply node s = ERC20Conflict_TotalSupply node (cs_Contract s) (cs_CallOpts s)"

definition ERC20Conflict_Approve where
  "ERC20Conflict_Approve env t opts spender amount =
     bound_Transact env t opts ''approve'' [ArgAddress spender, ArgInt amount]"

definition ERC20ConflictSession_Approve where
  "ERC20ConflictSession_Approve env s spender amount =
     ERC20Conflict_Approve env (bn_Transactor (ss_Contract s)) (ss_TransactOpts s) spender amount"

definition ERC20ConflictTransactorSession_Approve where
  "ERC20ConflictTransactorSession_Approve env s spender amount =
     ERC20Conflict_Approve env (ts_Contract s) (ts_TransactOpts s) spender amount"

definition ERC20ConflictSession_Transfer where
  "ERC20ConflictSession_Transfer env s recipient amount =
     ERC20Conflict_Transfer env (bn_Transactor (ss_Contract s)) (ss_TransactOpts s) recipient amount"

definition ERC20ConflictTransactorSession_Transfer where
  "ERC20ConflictTransactorSession_Transfer env s recipient amount =
     ERC20Conflict_Transfer env (ts_Contract s) (ts_TransactOpts s) recipient amount"

definition ERC20Conflict_TransferFrom where
  "ERC20Conflict_TransferFrom env t opts sender recipient amount =
     bound_Transact env t opts ''transferFrom'' [ArgAddress sender, ArgAddress recipient, ArgInt amount]"

definition ERC20ConflictSession_TransferFrom where
  "ERC20ConflictSession_TransferFrom env s sender recipient amount =
     ERC20Conflict_TransferFrom env (bn_Transactor (ss_Contract s)) (ss_TransactOpts s) sender recipient amount"

definition ERC20ConflictTransactorSession_TransferFrom where
  "ERC20ConflictTransactorSession_TransferFrom env s sender recipient amount =
     ERC20Conflict_TransferFrom env (ts_Contract s) (ts_TransactOpts s) sender recipient amount"

subsection \<open>The ERC721 token\<close>

definition NewERC721Caller where "NewERC721Caller getAbi address = bindERC721 getAbi address"

definition NewERC721Transactor where "NewERC721Transactor getAbi address = bindERC721 getAbi address"

definition NewERC721Filterer where "NewERC721Filterer getAbi address = bindERC721 getAbi address"

definition ERC721Raw_Call where
  "ERC721Raw_Call node r opts method params = bound_Call node (bn_Caller r) opts method params"

definition ERC721Raw_Transfer where "ERC721Raw_Transfer env r opts = bound_Transfer env (bn_Transactor r) opts"

definition ERC721Raw_Transact where
  "ERC721Raw_Transact env r opts method params = bound_Transact env (bn_Transactor r) opts method params"

definition ERC721CallerRaw_Call where
  "ERC721CallerRaw_Call node c opts method params = bound_Call node c opts method params"

definition ERC721TransactorRaw_Transfer where "ERC721TransactorRaw_Transfer env t opts = bound_Transfer env t opts"

definition ERC721TransactorRaw_Transact where
  "ERC721TransactorRaw_Transact env t opts method params = bound_Transact env t opts method params"

definition ERC721_BalanceOf where
  "ERC721_BalanceOf node c opts owner = read_one as_uint node c opts ''balanceOf'' [ArgAddress owner]"

definition ERC721Session_BalanceOf where
  "ERC721Session_BalanceOf node s owner = ERC721_BalanceOf node (bn_Caller (ss_Contract s)) (ss_CallOpts s) owner"

definition ERC721CallerSession_BalanceOf where
  "ERC721CallerSession_BalanceOf node s owner = ERC721_BalanceOf node (cs_Contract s) (cs_CallOpts s) owner"

definition ERC721_GetApproved where
  "ERC721_GetApproved node c opts tid = read_one as_address node c opts ''getApproved'' [ArgInt tid]"

definition ERC721Session_GetApproved where
  "ERC721Session_GetApproved node s tid = ERC721_GetApproved node (bn_Caller (ss_Contract s)) (ss_CallOpts s) tid"

definition ERC721CallerSession_GetApproved where
  "ERC721CallerSession_GetApproved node s tid = ERC721_GetApproved node (cs_Contract s) (cs_CallOpts s) tid"

definition ERC721_IsApprovedForAll where
  "ERC721_IsApprovedForAll node c opts arg0 arg1 =
     read_one as_bool node c opts ''isApprovedForAll'' [ArgAddress arg0, ArgAddress arg1]"

definition ERC721Session_IsApprovedForAll where
  "ERC721Session_IsApprovedForAll node s arg0 arg1 =
     ERC721_IsApprovedForAll node (bn_Caller (ss_Contract s)) (ss_CallOpts s) arg0 arg1"

definition ERC721CallerSession_IsApprovedForAll where
  "ERC721CallerSession_IsApprovedForAll node s arg0 arg1 =
     ERC721_IsApprovedForAll node (cs_Contract s) (cs_CallOpts s) arg0 arg1"

definition ERC721_OwnerOf where
  "ERC721_OwnerOf node c opts tid = read_one as_address node c opts ''ownerOf'' [ArgInt tid]"

definition ERC721Session_OwnerOf where
  "ERC721Session_OwnerOf node s tid = ERC721_OwnerOf node (bn_Caller (ss_Contract s)) (ss_CallOpts s) tid"

definition ERC721CallerSession_OwnerOf where
  "ERC721CallerSession_OwnerOf node s tid = ERC721_OwnerOf node (cs_Contract s) (cs_CallOpts s) tid"

definition ERC721_SupportsInterface where
  "ERC721_SupportsInterface node c opts interfaceId =
     read_one as_bool node c opts ''supportsInterface'' [ArgBytes4 interfaceId]"

definition ERC721Session_SupportsInterface where
  "ERC721Session_SupportsInterface node s interfaceId =
     ERC721_SupportsInterface node (bn_Caller (ss_Contract s)) (ss_CallOpts s) interfaceId"

definition ERC721CallerSession_SupportsInterface where
  "ERC721CallerSession_SupportsInterface node s interfaceId =
     ERC721_SupportsInterface node (cs_Contract s) (cs_CallOpts s) interfaceId"

definition ERC721_Approve where
  "ERC721_Approve env t opts spender tid = bound_Transact env t opts ''approve'' [ArgAddress spender, ArgInt tid]"

definition ERC721Session_Approve where
  "ERC721Session_Approve env s spender tid =
     ERC721_Approve env (bn_Transactor (ss_Contract s)) (ss_TransactOpts s) spender tid"

definition ERC721TransactorSession_Approve where
  "ERC721TransactorSession_Approve env s spender tid =
     ERC721_Approve env (ts_Contract s) (ts_TransactOpts s) spender tid"

definition ERC721_Burn where "ERC721_Burn env t opts tid = bound_Transact env t opts ''burn'' [ArgInt tid]"

definition ERC721Session_Burn where
  "ERC721Session_Burn env s tid = ERC721_Burn env (bn_Transactor (ss_Contract s)) (ss_TransactOpts s) tid"

definition ERC721TransactorSession_Burn where
  "ERC721TransactorSession_Burn env s tid = ERC721_Burn env (ts_Contract s) (ts_TransactOpts s) tid"

definition ERC721Session_Mint where
  "ERC721Session_Mint env s to tid = ERC721_Mint env (bn_Transactor (ss_Contract s)) (ss_TransactOpts s) to tid"

definition ERC721TransactorSession_Mint where
  "ERC721TransactorSession_Mint env s to tid = ERC721_Mint env (ts_Contract s) (ts_TransactOpts s) to tid"

definition ERC721_SafeTransferFrom where
  "ERC721_SafeTransferFrom env t opts from to tid =
     bound_Transact env t opts ''safeTransferFrom'' [ArgAddress from, ArgAddress to, ArgInt tid]"

definition ERC721Session_SafeTransferFrom where
  "ERC721Session_SafeTransferFrom env s from to tid =
     ERC721_SafeTransferFrom env (bn_Transactor (ss_Contract s)) (ss_TransactOpts s) from to tid"

definition ERC721TransactorSession_SafeTransferFrom where
  "ERC721TransactorSession_SafeTransferFrom env s from to tid =
     ERC721_SafeTransferFrom env (ts_Contract s) (ts_TransactOpts s) from to tid"

definition ERC721_SafeTransferFrom0 where
  "ERC721_SafeTransferFrom0 env t opts from to tid data =
     bound_Transact env t opts ''safeTransferFrom0'' [ArgAddress from, ArgAddress to, ArgInt tid, ArgBytes data]"

definition ERC721Session_SafeTransferFrom0 where
  "ERC721Session_SafeTransferFrom0 env s from to tid data =
     ERC721_SafeTransferFrom0 env (bn_Transactor (ss_Contract s)) (ss_TransactOpts s) from to tid data"

definition ERC721TransactorSession_SafeTransferFrom0 where
  "ERC721TransactorSession_SafeTransferFrom0 env s from to tid data =
     ERC721_SafeTransferFrom0 env (ts_Contract s) (ts_TransactOpts s) from to tid data"

definition ERC721_SetApprovalForAll where
  "ERC721_SetApprovalForAll env t opts operator approved =
     bound_Transact env t opts ''setApprovalForAll'' [ArgAddress operator, ArgBool approved]"

definition ERC721Session_SetApprovalForAll where
  "ERC721Session_SetApprovalForAll env s operator approved =
     ERC721_SetApprovalForAll env (bn_Transactor (ss_Contract s)) (ss_TransactOpts s) operator approved"

definition ERC721TransactorSession_SetApprovalForAll where
  "ERC721TransactorSession_SetApprovalForAll env s operator approved =
     ERC721_SetApprovalForAll env (ts_Contract s) (ts_TransactOpts s) operator approved"

definition ERC721_TransferFrom where
  "ERC721_TransferFrom env t opts from to tid =
     bound_Transact env t opts ''transferFrom'' [ArgAddress from, ArgAddress to, ArgInt tid]"

definition ERC721Session_TransferFrom where
  "ERC721Session_TransferFrom env s from to tid =
     ERC721_TransferFrom env (bn_Transactor (ss_Contract s)) (ss_TransactOpts s) from to tid"

definition ERC721TransactorSession_TransferFrom where
  "ERC721TransactorSession_TransferFrom env s from to tid =
     ERC721_TransferFrom env (ts_Contract s) (ts_TransactOpts s) from to tid"

subsection \<open>The storage contract\<close>

definition NewStorageRWv1Caller where "NewStorageRWv1Caller getAbi address = bindStorageRWv1 getAbi address"

definition NewStorageRWv1Transactor where "NewStorageRWv1Transactor getAbi address = bindStorageRWv1 getAbi address"

definition NewStorageRWv1Filterer where "NewStorageRWv1Filterer getAbi address = bindStorageRWv1 getAbi address"

definition StorageRWv1Raw_Call where
  "StorageRWv1Raw_Call node r opts method params = bound_Call node (bn_Caller r) opts method params"

definition StorageRWv1Raw_Transfer where
  "StorageRWv1Raw_Transfer env r opts = bound_Transfer env (bn_Transactor r) opts"

definition StorageRWv1Raw_Transact where
  "StorageRWv1Raw_Transact env r opts method params = bound_Transact env (bn_Transactor r) opts method params"

definition StorageRWv1CallerRaw_Call where
  "StorageRWv1CallerRaw_Call node c opts method params = bound_Call node c opts method params"

definition StorageRWv1TransactorRaw_Transfer where
  "StorageRWv1TransactorRaw_Transfer env t opts = bound_Transfer env t opts"

definition StorageRWv1TransactorRaw_Transact where
  "StorageRWv1TransactorRaw_Transact env t opts method params = bound_Transact env t opts method params"

definition StorageRWv1_VERSION where "StorageRWv1_VERSION node c opts = read_one as_uint node c opts ''VERSION'' []"

definition StorageRWv1Session_VERSION where
  "StorageRWv1Session_VERSION node s = StorageRWv1_VERSION node (bn_Caller (ss_Contract s)) (ss_CallOpts s)"

definition StorageRWv1CallerSession_VERSION where
  "StorageRWv1CallerSession_VERSION node s = StorageRWv1_VERSION node (cs_Contract s) (cs_CallOpts s)"

definition StorageRWv1_ReadAccumulator where
  "StorageRWv1_ReadAccumulator node c opts = read_one as_uint node c opts ''readAccumulator'' []"

definition StorageRWv1Session_ReadAccumulator where
  "StorageRWv1Session_ReadAccumulator node s =
     StorageRWv1_ReadAccumulator node (bn_Caller (ss_Contract s)) (ss_CallOpts s)"

definition StorageRWv1CallerSession_ReadAccumulator where
  "StorageRWv1CallerSession_ReadAccumulator node s = StorageRWv1_ReadAccumulator node (cs_Contract s) (cs_CallOpts s)"

definition StorageRWv1_Store where
  "StorageRWv1_Store node c opts arg0 = read_one as_uint node c opts ''store'' [ArgInt arg0]"

definition StorageRWv1Session_Store where
  "StorageRWv1Session_Store node s arg0 = StorageRWv1_Store node (bn_Caller (ss_Contract s)) (ss_CallOpts s) arg0"

definition StorageRWv1CallerSession_Store where
  "StorageRWv1CallerSession_Store node s arg0 = StorageRWv1_Store node (cs_Contract s) (cs_CallOpts s) arg0"

definition StorageRWv1Session_Read where
  "StorageRWv1Session_Read env s slot pad =
     StorageRWv1_Read env (bn_Transactor (ss_Contract s)) (ss_TransactOpts s) slot pad"

definition StorageRWv1TransactorSession_Read where
  "StorageRWv1TransactorSession_Read env s slot pad =
     StorageRWv1_Read env (ts_Contract s) (ts_TransactOpts s) slot pad"

definition StorageRWv1Session_Rmw where
  "StorageRWv1Session_Rmw env s slot pad =
     StorageRWv1_Rmw env (bn_Transactor (ss_Contract s)) (ss_TransactOpts s) slot pad"

definition StorageRWv1TransactorSession_Rmw where
  "StorageRWv1TransactorSession_Rmw env s slot pad = StorageRWv1_Rmw env (ts_Contract s) (ts_TransactOpts s) slot pad"

definition StorageRWv1Session_Write where
  "StorageRWv1Session_Write env s slot value pad =
     StorageRWv1_Write env (bn_Transactor (ss_Contract s)) (ss_TransactOpts s) slot value pad"

definition StorageRWv1TransactorSession_Write where
  "StorageRWv1TransactorSession_Write env s slot value pad =
     StorageRWv1_Write env (ts_Contract s) (ts_TransactOpts s) slot value pad"

subsection \<open>Disperse\<close>

definition NewDisperseCaller where "NewDisperseCaller getAbi address = bindDisperse getAbi address"

definition NewDisperseTransactor where "NewDisperseTransactor getAbi address = bindDisperse getAbi address"

definition NewDisperseFilterer where "NewDisperseFilterer getAbi address = bindDisperse getAbi address"

definition DisperseRaw_Call where
  "DisperseRaw_Call node r opts method params = bound_Call node (bn_Caller r) opts method params"

definition DisperseRaw_Transfer where "DisperseRaw_Transfer env r opts = bound_Transfer env (bn_Transactor r) opts"

definition DisperseRaw_Transact where
  "DisperseRaw_Transact env r opts method params = bound_Transact env (bn_Transactor r) opts method params"

definition DisperseCallerRaw_Call where
  "DisperseCallerRaw_Call node c opts method params = bound_Call node c opts method params"

definition DisperseTransactorRaw_Transfer where
  "DisperseTransactorRaw_Transfer env t opts = bound_Transfer env t opts"

definition DisperseTransactorRaw_Transact where
  "DisperseTransactorRaw_Transact env t opts method params = bound_Transact env t opts method params"

definition Disperse_FixedEtherAmount where
  "Disperse_FixedEtherAmount node c opts = read_one as_uint node c opts ''fixedEtherAmount'' []"

definition DisperseSession_FixedEtherAmount where
  "DisperseSession_FixedEtherAmount node s =
     Disperse_FixedEtherAmount node (bn_Caller (ss_Contract s)) (ss_CallOpts s)"

definition DisperseCallerSession_FixedEtherAmount where
  "DisperseCallerSession_FixedEtherAmount node s = Disperse_FixedEtherAmount node (cs_Contract s) (cs_CallOpts s)"

definition Disperse_FixedTokenAmount where
  "Disperse_FixedTokenAmount node c opts = read_one as_uint node c opts ''fixedTokenAmount'' []"

definition DisperseSession_FixedTokenAmount where
  "DisperseSession_FixedTokenAmount node s =
     Disperse_FixedTokenAmount node (bn_Caller (ss_Contract s)) (ss_CallOpts s)"

definition DisperseCallerSession_FixedTokenAmount where
  "DisperseCallerSession_FixedTokenAmount node s = Disperse_FixedTokenAmount node (cs_Contract s) (cs_CallOpts s)"

definition Disperse_Owner where "Disperse_Owner node c opts = read_one as_address node c opts ''owner'' []"

definition DisperseSession_Owner where
  "DisperseSession_Owner node s = Disperse_Owner node (bn_Caller (ss_Contract s)) (ss_CallOpts s)"

definition DisperseCallerSession_Owner where
  "DisperseCallerSession_Owner node s = Disperse_Owner node (cs_Contract s) (cs_CallOpts s)"

definition DisperseSession_DisperseEther where
  "DisperseSession_DisperseEther env s recipients values =
     Disperse_DisperseEther env (bn_Transactor (ss_Contract s)) (ss_TransactOpts s) recipients values"

definition DisperseTransactorSession_DisperseEther where
  "DisperseTransactorSession_DisperseEther env s recipients values =
     Disperse_DisperseEther env (ts_Contract s) (ts_TransactOpts s) recipients values"

definition DisperseSession_DisperseEtherFixed where
  "DisperseSession_DisperseEtherFixed env s recipients =
     Disperse_DisperseEtherFixed env (bn_Transactor (ss_Contract s)) (ss_TransactOpts s) recipients"

definition DisperseTransactorSession_DisperseEtherFixed where
  "DisperseTransactorSession_DisperseEtherFixed env s recipients =
     Disperse_DisperseEtherFixed env (ts_Contract s) (ts_TransactOpts s) recipients"

definition Disperse_DisperseToken where
  "Disperse_DisperseToken env t opts token recipients values =
     bound_Transact env t opts ''disperseToken'' [ArgAddress token, ArgAddresses recipients, ArgInts values]"

definition DisperseSession_DisperseToken where
  "DisperseSession_DisperseToken env s token recipients values =
     Disperse_DisperseToken env (bn_Transactor (ss_Contract s)) (ss_TransactOpts s) token recipients values"

definition DisperseTransactorSession_DisperseToken where
  "DisperseTransactorSession_DisperseToken env s token recipients values =
     Disperse_DisperseToken env (ts_Contract s) (ts_TransactOpts s) token recipients values"

definition Disperse_DisperseTokenFixed where
  "Disperse_DisperseTokenFixed env t opts token recipients =
     bound_Transact env t opts ''disperseTokenFixed'' [ArgAddress token, ArgAddresses recipients]"

definition DisperseSession_DisperseTokenFixed where
  "DisperseSession_DisperseTokenFixed env s token recipients =
     Disperse_DisperseTokenFixed env (bn_Transactor (ss_Contract s)) (ss_TransactOpts s) token recipients"

definition DisperseTransactorSession_DisperseTokenFixed where
  "DisperseTransactorSession_DisperseTokenFixed env s token recipients =
     Disperse_DisperseTokenFixed env (ts_Contract s) (ts_TransactOpts s) token recipients"

definition Disperse_DisperseTokenSimple where
  "Disperse_DisperseTokenSimple env t opts token recipients values =
     bound_Transact env t opts ''disperseTokenSimple'' [ArgAddress token, ArgAddresses recipients, ArgInts values]"

definition DisperseSession_DisperseTokenSimple where
  "DisperseSession_DisperseTokenSimple env s token recipients values =
     Disperse_DisperseTokenSimple env (bn_Transactor (ss_Contract s)) (ss_TransactOpts s) token recipients values"

definition DisperseTransactorSession_DisperseTokenSimple where
  "DisperseTransactorSession_DisperseTokenSimple env s token recipients values =
     Disperse_DisperseTokenSimple env (ts_Contract s) (ts_TransactOpts s) token recipients values"

definition Disperse_SetFixedEtherAmount where
  "Disperse_SetFixedEtherAmount env t opts amount = bound_Transact env t opts ''setFixedEtherAmount'' [ArgInt amount]"

definition DisperseSession_SetFixedEtherAmount where
  "DisperseSession_SetFixedEtherAmount env s amount =
     Disperse_SetFixedEtherAmount env (bn_Transactor (ss_Contract s)) (ss_TransactOpts s) amount"

definition DisperseTransactorSession_SetFixedEtherAmount where
  "DisperseTransactorSession_SetFixedEtherAmount env s amount =
     Disperse_SetFixedEtherAmount env (ts_Contract s) (ts_TransactOpts s) amount"

definition Disperse_SetFixedTokenAmount where
  "Disperse_SetFixedTokenAmount env t opts amount = bound_Transact env t opts ''setFixedTokenAmount'' [ArgInt amount]"

definition DisperseSession_SetFixedTokenAmount where
  "DisperseSession_SetFixedTokenAmount env s amount =
     Disperse_SetFixedTokenAmount env (bn_Transactor (ss_Contract s)) (ss_TransactOpts s) amount"

definition DisperseTransactorSession_SetFixedTokenAmount where
  "DisperseTransactorSession_SetFixedTokenAmount env s amount =
     Disperse_SetFixedTokenAmount env (ts_Contract s) (ts_TransactOpts s) amount"

definition Disperse_TransferOwnership where
  "Disperse_TransferOwnership env t opts newOwner =
     bound_Transact env t opts ''transferOwnership'' [ArgAddress newOwner]"

definition DisperseSession_TransferOwnership where
  "DisperseSession_TransferOwnership env s newOwner =
     Disperse_TransferOwnership env (bn_Transactor (ss_Contract s)) (ss_TransactOpts s) newOwner"

definition DisperseTransactorSession_TransferOwnership where
  "DisperseTransactorSession_TransferOwnership env s newOwner =
     Disperse_TransferOwnership env (ts_Contract s) (ts_TransactOpts s) newOwner"

subsection \<open>Reading\<close>

lemma read_one_Ok:
  "abi_accepts (bc_abi c) method args \<Longrightarrow> node opts (bc_address c) method args = Inr (v # vs) \<Longrightarrow> convert v = Some r \<Longrightarrow>
     read_one convert node c opts method args = Ok r"
  by (simp add: read_one_def bound_Call_def)

lemma read_one_error:
  "abi_accepts (bc_abi c) method args \<Longrightarrow> node opts (bc_address c) method args = Inl e \<Longrightarrow>
     read_one convert node c opts method args = Err e"
  by (simp add: read_one_def bound_Call_def)

end
