(* ===== verification/BindingEvents.thy ===== *)
theory BindingEvents
  imports ContractRun BindingCalls
begin

text \<open>
  The events of the generated bindings (\<open>generator/bindings\<close>): unpacking a log, filtering the logs of a
  contract and iterating over them, and watching for new ones. A log carries the signature of its
  event as the first topic, the indexed arguments as further topics and the other arguments as data.
  What the node finds is a parameter. All events of one shape share a template; a Go struct of an event is a record
  here, and which one is a value of \<open>event_type\<close>.
\<close>

subsection \<open>Logs\<close>

record eth_log =
  el_Address :: address
  el_Block :: u64
  el_Event :: "string option"
  el_Topics :: "u256 list"
  el_Data :: "u256 list"

fun type_name :: "abi_type \<Rightarrow> string" where
  "type_name AbiAddress = ''address''"
| "type_name AbiUint256 = ''uint256''"
| "type_name AbiUint8 = ''uint8''"
| "type_name AbiAddresses = ''address[]''"
| "type_name AbiUint256s = ''uint256[]''"
| "type_name AbiString = ''string''"
| "type_name AbiBytes = ''bytes''"
| "type_name AbiBytes4 = ''bytes4''"
| "type_name AbiBool = ''bool''"

fun comma_separated :: "string list \<Rightarrow> string" where
  "comma_separated [] = ''''"
| "comma_separated [x] = x"
| "comma_separated (x # y # xs) = x @ '','' @ comma_separated (y # xs)"

definition signature :: "string \<Rightarrow> (abi_type \<times> bool) list \<Rightarrow> string" where
  "signature name ins = name @ ''('' @ comma_separated (map (type_name \<circ> fst) ins) @ '')''"

text \<open>The values of a log in the order of the arguments; one that is missing from the data is \<open>None\<close>.\<close>

fun merge_values :: "(abi_type \<times> bool) list \<Rightarrow> u256 list \<Rightarrow> u256 list \<Rightarrow> u256 option list" where
  "merge_values [] ts ds = []"
| "merge_values ((t, True) # ins) (x # ts) ds = Some x # merge_values ins ts ds"
| "merge_values ((t, True) # ins) [] ds = None # merge_values ins [] ds"
| "merge_values ((t, False) # ins) ts (d # ds) = Some d # merge_values ins ts ds"
| "merge_values ((t, False) # ins) ts [] = None # merge_values ins ts []"

definition bound_UnpackLog :: "bound_contract \<Rightarrow> string \<Rightarrow> eth_log \<Rightarrow> go_error + u256 option list" where
  "bound_UnpackLog c name lg =
     (case el_Event lg of
        None \<Rightarrow> Inl (External ''no event signature'')
      | Some sig \<Rightarrow>
          (case map_of (ab_events (bc_abi c)) name of
             None \<Rightarrow> Inl (External ''event signature mismatch'')
           | Some ins \<Rightarrow>
               if sig \<noteq> signature name ins then Inl (External ''event signature mismatch'')
               else if el_Data lg \<noteq> [] \<and> length (el_Data lg) < length (filter (\<lambda>(t, indexed). \<not> indexed) ins)
               then Inl (External ''abi: length insufficient'')
               else if length (el_Topics lg) \<noteq> length (filter (\<lambda>(t, indexed). indexed) ins)
               then Inl (External ''topic/field count mismatch'')
               else Inr (merge_values ins (el_Topics lg) (el_Data lg))))"

subsection \<open>The node\<close>

record filter_opts =
  fo_Start :: u64
  fo_End :: "u64 option"

record log_node =
  ln_FilterLogs :: "filter_opts \<Rightarrow> address \<Rightarrow> string \<Rightarrow> u256 list list \<Rightarrow> go_error + eth_log list"
  ln_WatchLogs :: "address \<Rightarrow> string \<Rightarrow> u256 list list \<Rightarrow> go_error option"

definition event_signature :: "bound_contract \<Rightarrow> string \<Rightarrow> string" where
  "event_signature c name = (case map_of (ab_events (bc_abi c)) name of None \<Rightarrow> '''' | Some ins \<Rightarrow> signature name ins)"

text \<open>The rules of a filter: an address or number among those listed, any if none is.\<close>

definition address_rule :: "address list \<Rightarrow> u256 list" where
  "address_rule as = map ucast as"

definition int_rule :: "int list \<Rightarrow> u256 list" where
  "int_rule ns = map word_of_int ns"

subsection \<open>Iterating\<close>

record 'e event_type =
  et_blank :: 'e
  et_fill :: "eth_log \<Rightarrow> u256 option list \<Rightarrow> 'e"

text \<open>
  What the iterator receives, in the order its \<open>select\<close> takes it: a log, or the end of the subscription. Logs
  after the end are those left in the channel.
\<close>

datatype arrival = LogArrives eth_log | SubEnds "go_error option"

record 'e event_iterator =
  ei_Event :: "'e option"
  ei_contract :: bound_contract
  ei_event :: string
  ei_arrivals :: "arrival list"
  ei_done :: bool
  ei_fail :: "go_error option"

definition deliver :: "'e event_type \<Rightarrow> eth_log \<Rightarrow> 'e event_iterator \<Rightarrow> bool \<times> 'e event_iterator" where
  "deliver ty lg it =
     (case bound_UnpackLog (ei_contract it) (ei_event it) lg of
        Inl err \<Rightarrow> (False, it\<lparr>ei_Event := Some (et_blank ty), ei_fail := Some err\<rparr>)
      | Inr vs \<Rightarrow> (True, it\<lparr>ei_Event := Some (et_fill ty lg vs)\<rparr>))"

text \<open>\<open>Next\<close>; \<open>None\<close> is a wait that goes on for ever. After an error the event is whatever was filled in, here nothing.\<close>

function event_Next :: "'e event_type \<Rightarrow> 'e event_iterator \<Rightarrow> (bool \<times> 'e event_iterator) option" where
  "event_Next ty it =
     (if ei_fail it \<noteq> None then Some (False, it)
      else if ei_done it then
        (case ei_arrivals it of
           LogArrives lg # rest \<Rightarrow> Some (deliver ty lg (it\<lparr>ei_arrivals := rest\<rparr>))
         | _ \<Rightarrow> Some (False, it))
      else
        (case ei_arrivals it of
           [] \<Rightarrow> None
         | LogArrives lg # rest \<Rightarrow> Some (deliver ty lg (it\<lparr>ei_arrivals := rest\<rparr>))
         | SubEnds err # rest \<Rightarrow> event_Next ty (it\<lparr>ei_done := True, ei_fail := err, ei_arrivals := rest\<rparr>)))"
  by pat_completeness auto
termination by (relation "measure (\<lambda>(ty, it). if ei_done it then 0 else 1)") auto

declare event_Next.simps [simp del]

text \<open>\<open>Close\<close> ends the subscription; it returns no error.\<close>

definition event_Close :: "'e event_iterator \<Rightarrow> go_error option \<times> 'e event_iterator" where
  "event_Close it = (None, it\<lparr>ei_arrivals := [SubEnds None]\<rparr>)"

text \<open>\<open>FilterLogs\<close> hands on what the node found, one log after another, and then ends without an error.\<close>

definition event_Filter ::
  "log_node \<Rightarrow> bound_contract \<Rightarrow> filter_opts \<Rightarrow> string \<Rightarrow> u256 list list \<Rightarrow> go_error + 'e event_iterator" where
  "event_Filter node c opts name rules =
     (case ln_FilterLogs node opts (bc_address c) (event_signature c name) rules of
        Inl err \<Rightarrow> Inl err
      | Inr logs \<Rightarrow> Inr \<lparr>ei_Event = None, ei_contract = c, ei_event = name,
                       ei_arrivals = map LogArrives logs @ [SubEnds None], ei_done = False, ei_fail = None\<rparr>)"

definition event_Parse :: "'e event_type \<Rightarrow> string \<Rightarrow> bound_contract \<Rightarrow> eth_log \<Rightarrow> go_error + 'e" where
  "event_Parse ty name c lg =
     (case bound_UnpackLog c name lg of Inl err \<Rightarrow> Inl err | Inr vs \<Rightarrow> Inr (et_fill ty lg vs))"

subsection \<open>Watching\<close>

text \<open>
  The task of a subscription: it takes a log, and then, with the event in hand, hands it to the sink; the
  subscription may fail and the user may quit at both places. The result is what was handed over, and how the
  task ended, if it has.
\<close>

datatype watch_event = WatchLog eth_log | SinkTakes | WatchFails "go_error option" | WatchQuits

fun watch_loop ::
  "(eth_log \<Rightarrow> go_error + 'e) \<Rightarrow> watch_event list \<Rightarrow> 'e option \<Rightarrow> 'e list \<Rightarrow> 'e list \<times> go_error option option" where
  "watch_loop parse [] hand out = (out, None)"
| "watch_loop parse (WatchLog lg # evs) None out =
     (case parse lg of Inl err \<Rightarrow> (out, Some (Some err)) | Inr ev \<Rightarrow> watch_loop parse evs (Some ev) out)"
| "watch_loop parse (SinkTakes # evs) (Some ev) out = watch_loop parse evs None (out @ [ev])"
| "watch_loop parse (WatchFails err # evs) hand out = (out, Some err)"
| "watch_loop parse (WatchQuits # evs) hand out = (out, Some None)"
| "watch_loop parse (WatchLog lg # evs) (Some ev) out = watch_loop parse evs (Some ev) out"
| "watch_loop parse (SinkTakes # evs) None out = watch_loop parse evs None out"

definition event_Watch ::
  "'e event_type \<Rightarrow> log_node \<Rightarrow> bound_contract \<Rightarrow> u64 option \<Rightarrow> string \<Rightarrow> u256 list list \<Rightarrow> watch_event list \<Rightarrow>
     go_error + 'e list \<times> go_error option option" where
  "event_Watch ty node c start name rules evs =
     (case ln_WatchLogs node (bc_address c) (event_signature c name) rules of
        Some err \<Rightarrow> Inl err
      | None \<Rightarrow> Inr (watch_loop (event_Parse ty name c) evs None []))"

subsection \<open>The structs of the events\<close>

record approval_event =
  ae_Owner :: address
  ae_Spender :: address
  ae_Value :: "int option"
  ae_Raw :: "eth_log option"

record transfer_event =
  te_From :: address
  te_To :: address
  te_Value :: "int option"
  te_Raw :: "eth_log option"

record nft_approval_event =
  na_Owner :: address
  na_Spender :: address
  na_Id :: "int option"
  na_Raw :: "eth_log option"

record approval_for_all_event =
  fa_Owner :: address
  fa_Operator :: address
  fa_Approved :: bool
  fa_Raw :: "eth_log option"

record nft_transfer_event =
  nt_From :: address
  nt_To :: address
  nt_Id :: "int option"
  nt_Raw :: "eth_log option"

definition addr_at :: "u256 option list \<Rightarrow> nat \<Rightarrow> address" where
  "addr_at vs i = (if i < length vs then case vs ! i of Some v \<Rightarrow> ucast v | None \<Rightarrow> 0 else 0)"

definition int_at :: "u256 option list \<Rightarrow> nat \<Rightarrow> int option" where
  "int_at vs i = (if i < length vs then map_option uint (vs ! i) else None)"

definition approval_type :: "approval_event event_type" where
  "approval_type = \<lparr>et_blank = \<lparr>ae_Owner = 0, ae_Spender = 0, ae_Value = None, ae_Raw = None\<rparr>,
     et_fill = \<lambda>lg vs. \<lparr>ae_Owner = addr_at vs 0, ae_Spender = addr_at vs 1, ae_Value = int_at vs 2, ae_Raw = Some lg\<rparr>\<rparr>"

definition transfer_type :: "transfer_event event_type" where
  "transfer_type = \<lparr>et_blank = \<lparr>te_From = 0, te_To = 0, te_Value = None, te_Raw = None\<rparr>,
     et_fill = \<lambda>lg vs. \<lparr>te_From = addr_at vs 0, te_To = addr_at vs 1, te_Value = int_at vs 2, te_Raw = Some lg\<rparr>\<rparr>"

definition nft_approval_type :: "nft_approval_event event_type" where
  "nft_approval_type = \<lparr>et_blank = \<lparr>na_Owner = 0, na_Spender = 0, na_Id = None, na_Raw = None\<rparr>,
     et_fill = \<lambda>lg vs. \<lparr>na_Owner = addr_at vs 0, na_Spender = addr_at vs 1, na_Id = int_at vs 2, na_Raw = Some lg\<rparr>\<rparr>"

definition approval_for_all_type :: "approval_for_all_event event_type" where
  "approval_for_all_type = \<lparr>et_blank = \<lparr>fa_Owner = 0, fa_Operator = 0, fa_Approved = False, fa_Raw = None\<rparr>,
     et_fill = \<lambda>lg vs. \<lparr>fa_Owner = addr_at vs 0, fa_Operator = addr_at vs 1, fa_Approved = (int_at vs 2 = Some 1), fa_Raw = Some lg\<rparr>\<rparr>"

definition nft_transfer_type :: "nft_transfer_event event_type" where
  "nft_transfer_type = \<lparr>et_blank = \<lparr>nt_From = 0, nt_To = 0, nt_Id = None, nt_Raw = None\<rparr>,
     et_fill = \<lambda>lg vs. \<lparr>nt_From = addr_at vs 0, nt_To = addr_at vs 1, nt_Id = int_at vs 2, nt_Raw = Some lg\<rparr>\<rparr>"

subsection \<open>The token\<close>

definition ERC20ApprovalIterator_Next where "ERC20ApprovalIterator_Next it = event_Next approval_type it"

definition ERC20ApprovalIterator_Error where "ERC20ApprovalIterator_Error it = ei_fail it"

definition ERC20ApprovalIterator_Close where "ERC20ApprovalIterator_Close it = event_Close it"

definition ERC20_FilterApproval where
  "ERC20_FilterApproval node c opts owner spender =
     event_Filter node c opts ''Approval'' [address_rule owner, address_rule spender]"

definition ERC20_WatchApproval where
  "ERC20_WatchApproval node c opts evs owner spender =
     event_Watch approval_type node c opts ''Approval'' [address_rule owner, address_rule spender] evs"

definition ERC20_ParseApproval where "ERC20_ParseApproval c lg = event_Parse approval_type ''Approval'' c lg"

definition ERC20TransferIterator_Next where "ERC20TransferIterator_Next it = event_Next transfer_type it"

definition ERC20TransferIterator_Error where "ERC20TransferIterator_Error it = ei_fail it"

definition ERC20TransferIterator_Close where "ERC20TransferIterator_Close it = event_Close it"

definition ERC20_FilterTransfer where
  "ERC20_FilterTransfer node c opts source dest =
     event_Filter node c opts ''Transfer'' [address_rule source, address_rule dest]"

definition ERC20_WatchTransfer where
  "ERC20_WatchTransfer node c opts evs source dest =
     event_Watch transfer_type node c opts ''Transfer'' [address_rule source, address_rule dest] evs"

definition ERC20_ParseTransfer where "ERC20_ParseTransfer c lg = event_Parse transfer_type ''Transfer'' c lg"

subsection \<open>The no-op token\<close>

definition ERC20NoopApprovalIterator_Next where "ERC20NoopApprovalIterator_Next it = event_Next approval_type it"

definition ERC20NoopApprovalIterator_Error where "ERC20NoopApprovalIterator_Error it = ei_fail it"

definition ERC20NoopApprovalIterator_Close where "ERC20NoopApprovalIterator_Close it = event_Close it"

definition ERC20Noop_FilterApproval where
  "ERC20Noop_FilterApproval node c opts owner spender =
     event_Filter node c opts ''Approval'' [address_rule owner, address_rule spender]"

definition ERC20Noop_WatchApproval where
  "ERC20Noop_WatchApproval node c opts evs owner spender =
     event_Watch approval_type node c opts ''Approval'' [address_rule owner, address_rule spender] evs"

definition ERC20Noop_ParseApproval where "ERC20Noop_ParseApproval c lg = event_Parse approval_type ''Approval'' c lg"

definition ERC20NoopTransferIterator_Next where "ERC20NoopTransferIterator_Next it = event_Next transfer_type it"

definition ERC20NoopTransferIterator_Error where "ERC20NoopTransferIterator_Error it = ei_fail it"

definition ERC20NoopTransferIterator_Close where "ERC20NoopTransferIterator_Close it = event_Close it"

definition ERC20Noop_FilterTransfer where
  "ERC20Noop_FilterTransfer node c opts source dest =
     event_Filter node c opts ''Transfer'' [address_rule source, address_rule dest]"

definition ERC20Noop_WatchTransfer where
  "ERC20Noop_WatchTransfer node c opts evs source dest =
     event_Watch transfer_type node c opts ''Transfer'' [address_rule source, address_rule dest] evs"

definition ERC20Noop_ParseTransfer where "ERC20Noop_ParseTransfer c lg = event_Parse transfer_type ''Transfer'' c lg"

subsection \<open>The conflicting token\<close>

definition ERC20ConflictApprovalIterator_Next where
  "ERC20ConflictApprovalIterator_Next it = event_Next approval_type it"

definition ERC20ConflictApprovalIterator_Error where "ERC20ConflictApprovalIterator_Error it = ei_fail it"

definition ERC20ConflictApprovalIterator_Close where "ERC20ConflictApprovalIterator_Close it = event_Close it"

definition ERC20Conflict_FilterApproval where
  "ERC20Conflict_FilterApproval node c opts owner spender =
     event_Filter node c opts ''Approval'' [address_rule owner, address_rule spender]"

definition ERC20Conflict_WatchApproval where
  "ERC20Conflict_WatchApproval node c opts evs owner spender =
     event_Watch approval_type node c opts ''Approval'' [address_rule owner, address_rule spender] evs"

definition ERC20Conflict_ParseApproval where
  "ERC20Conflict_ParseApproval c lg = event_Parse approval_type ''Approval'' c lg"

definition ERC20ConflictTransferIterator_Next where
  "ERC20ConflictTransferIterator_Next it = event_Next transfer_type it"

definition ERC20ConflictTransferIterator_Error where "ERC20ConflictTransferIterator_Error it = ei_fail it"

definition ERC20ConflictTransferIterator_Close where "ERC20ConflictTransferIterator_Close it = event_Close it"

definition ERC20Conflict_FilterTransfer where
  "ERC20Conflict_FilterTransfer node c opts source dest =
     event_Filter node c opts ''Transfer'' [address_rule source, address_rule dest]"

definition ERC20Conflict_WatchTransfer where
  "ERC20Conflict_WatchTransfer node c opts evs source dest =
     event_Watch transfer_type node c opts ''Transfer'' [address_rule source, address_rule dest] evs"

definition ERC20Conflict_ParseTransfer where
  "ERC20Conflict_ParseTransfer c lg = event_Parse transfer_type ''Transfer'' c lg"

subsection \<open>The ERC721 token\<close>

definition ERC721ApprovalIterator_Next where "ERC721ApprovalIterator_Next it = event_Next nft_approval_type it"

definition ERC721ApprovalIterator_Error where "ERC721ApprovalIterator_Error it = ei_fail it"

definition ERC721ApprovalIterator_Close where "ERC721ApprovalIterator_Close it = event_Close it"

definition ERC721_FilterApproval where
  "ERC721_FilterApproval node c opts owner spender tid =
     event_Filter node c opts ''Approval'' [address_rule owner, address_rule spender, int_rule tid]"

definition ERC721_WatchApproval where
  "ERC721_WatchApproval node c opts evs owner spender tid =
     event_Watch nft_approval_type node c opts ''Approval'' [address_rule owner, address_rule spender, int_rule tid] evs"

definition ERC721_ParseApproval where "ERC721_ParseApproval c lg = event_Parse nft_approval_type ''Approval'' c lg"

definition ERC721ApprovalForAllIterator_Next where
  "ERC721ApprovalForAllIterator_Next it = event_Next approval_for_all_type it"

definition ERC721ApprovalForAllIterator_Error where "ERC721ApprovalForAllIterator_Error it = ei_fail it"

definition ERC721ApprovalForAllIterator_Close where "ERC721ApprovalForAllIterator_Close it = event_Close it"

definition ERC721_FilterApprovalForAll where
  "ERC721_FilterApprovalForAll node c opts owner operator =
     event_Filter node c opts ''ApprovalForAll'' [address_rule owner, address_rule operator]"

definition ERC721_WatchApprovalForAll where
  "ERC721_WatchApprovalForAll node c opts evs owner operator =
     event_Watch approval_for_all_type node c opts ''ApprovalForAll'' [address_rule owner, address_rule operator] evs"

definition ERC721_ParseApprovalForAll where
  "ERC721_ParseApprovalForAll c lg = event_Parse approval_for_all_type ''ApprovalForAll'' c lg"

definition ERC721TransferIterator_Next where "ERC721TransferIterator_Next it = event_Next nft_transfer_type it"

definition ERC721TransferIterator_Error where "ERC721TransferIterator_Error it = ei_fail it"

definition ERC721TransferIterator_Close where "ERC721TransferIterator_Close it = event_Close it"

definition ERC721_FilterTransfer where
  "ERC721_FilterTransfer node c opts source dest tid =
     event_Filter node c opts ''Transfer'' [address_rule source, address_rule dest, int_rule tid]"

definition ERC721_WatchTransfer where
  "ERC721_WatchTransfer node c opts evs source dest tid =
     event_Watch nft_transfer_type node c opts ''Transfer'' [address_rule source, address_rule dest, int_rule tid] evs"

definition ERC721_ParseTransfer where "ERC721_ParseTransfer c lg = event_Parse nft_transfer_type ''Transfer'' c lg"

subsection \<open>The whole iteration\<close>

text \<open>How an iterator is used: \<open>for it.Next() { ... it.Event ... }\<close>. The second result is \<open>None\<close> if it waits for ever.\<close>

lemma deliver_arrivals [simp]: "ei_arrivals (snd (deliver ty lg it)) = ei_arrivals it"
  by (simp add: deliver_def split: sum.split)

lemma event_Next_consumes: "event_Next ty it = Some (True, it') \<Longrightarrow> length (ei_arrivals it') < length (ei_arrivals it)"
proof (induction ty it rule: event_Next.induct)
  case (1 ty it)
  have step: "length (ei_arrivals it') < Suc (length rest)" if "deliver ty lg (it\<lparr>ei_arrivals := rest\<rparr>) = (True, it')" for lg rest
    using deliver_arrivals [of ty lg "it\<lparr>ei_arrivals := rest\<rparr>"] that by simp
  from 1(2) show ?case
    by (subst (asm) event_Next.simps) (use step 1(1) in \<open>fastforce split: if_splits list.splits arrival.splits\<close>)
qed

function event_drain :: "'e event_type \<Rightarrow> 'e event_iterator \<Rightarrow> 'e option list \<times> 'e event_iterator option" where
  "event_drain ty it =
     (case event_Next ty it of
        None \<Rightarrow> ([], None)
      | Some (False, it') \<Rightarrow> ([], Some it')
      | Some (True, it') \<Rightarrow> (case event_drain ty it' of (es, r) \<Rightarrow> (ei_Event it' # es, r)))"
  by pat_completeness auto
termination by (relation "measure (\<lambda>(ty, it). length (ei_arrivals it))") (auto dest: event_Next_consumes)

declare event_drain.simps [simp del]

text \<open>Every log that unpacks is an event, in order; the iteration ends, without an error.\<close>

lemma drain_filtered:
  assumes "\<forall>lg \<in> set logs. \<exists>vs. bound_UnpackLog c name lg = Inr vs"
    "ei_arrivals it = map LogArrives logs @ [SubEnds None]" "ei_contract it = c" "ei_event it = name" "\<not> ei_done it" "ei_fail it = None"
  shows "\<exists>it'. event_drain ty it = (map (\<lambda>lg. Some (et_fill ty lg (projr (bound_UnpackLog c name lg)))) logs, Some it') \<and> ei_fail it' = None"
  using assms
proof (induction logs arbitrary: it)
  case Nil
  let ?stop = "it\<lparr>ei_done := True, ei_fail := None, ei_arrivals := []\<rparr>"
  have "event_Next ty ?stop = Some (False, ?stop)" by (subst event_Next.simps) simp
  then have "event_Next ty it = Some (False, ?stop)" using Nil by (subst event_Next.simps) simp
  then have "event_drain ty it = ([], Some ?stop)" by (subst event_drain.simps) simp
  then show ?case by simp
next
  case (Cons lg logs)
  obtain vs where vs: "bound_UnpackLog c name lg = Inr vs" using Cons.prems(1) by auto
  let ?it = "it\<lparr>ei_arrivals := map LogArrives logs @ [SubEnds None], ei_Event := Some (et_fill ty lg vs)\<rparr>"
  have nx: "event_Next ty it = Some (True, ?it)"
    using Cons.prems vs by (subst event_Next.simps) (simp add: deliver_def)
  obtain it' where rest: "event_drain ty ?it = (map (\<lambda>lg. Some (et_fill ty lg (projr (bound_UnpackLog c name lg)))) logs, Some it')"
    "ei_fail it' = None"
    using Cons.IH [of ?it] Cons.prems by auto
  have "event_drain ty it = (case event_drain ty ?it of (es, r) \<Rightarrow> (ei_Event ?it # es, r))"
    by (subst event_drain.simps) (simp add: nx)
  then show ?case using rest vs by simp
qed

subsection \<open>The logs of the contracts\<close>

definition token_log :: "address \<Rightarrow> u64 \<Rightarrow> sol_event \<Rightarrow> eth_log" where
  "token_log this b ev =
     (let emit = (\<lambda>sig ts ds. \<lparr>el_Address = this, el_Block = b, el_Event = Some sig, el_Topics = ts, el_Data = ds\<rparr>)
      in case ev of
           EvTransfer x y v \<Rightarrow> emit ''Transfer(address,address,uint256)'' [ucast x, ucast y] [v]
         | EvApproval x y v \<Rightarrow> emit ''Approval(address,address,uint256)'' [ucast x, ucast y] [v]
         | EvApprovalForAll x y f \<Rightarrow> emit ''ApprovalForAll(address,address,bool)'' [ucast x, ucast y] [of_bool f])"

definition nft_log :: "address \<Rightarrow> u64 \<Rightarrow> sol_event \<Rightarrow> eth_log" where
  "nft_log this b ev =
     (case ev of
        EvTransfer x y v \<Rightarrow> (token_log this b ev)\<lparr>el_Topics := [ucast x, ucast y, v], el_Data := []\<rparr>
      | EvApproval x y v \<Rightarrow> (token_log this b ev)\<lparr>el_Topics := [ucast x, ucast y, v], el_Data := []\<rparr>
      | EvApprovalForAll x y f \<Rightarrow> token_log this b ev)"

text \<open>A node with these logs finds those of the address, the event, the blocks and the rules asked for.\<close>

definition log_found :: "filter_opts \<Rightarrow> address \<Rightarrow> string \<Rightarrow> u256 list list \<Rightarrow> eth_log \<Rightarrow> bool" where
  "log_found opts a sig rules lg \<longleftrightarrow>
     el_Address lg = a \<and> el_Event lg = Some sig \<and> fo_Start opts \<le> el_Block lg \<and>
     (case fo_End opts of None \<Rightarrow> True | Some e \<Rightarrow> el_Block lg \<le> e) \<and>
     length rules \<le> length (el_Topics lg) \<and> list_all (\<lambda>(r, t). r = [] \<or> t \<in> set r) (zip rules (el_Topics lg))"

definition serves :: "eth_log list \<Rightarrow> log_node \<Rightarrow> bool" where
  "serves logs node \<longleftrightarrow> (\<forall>opts a sig rules. ln_FilterLogs node opts a sig rules = Inr (filter (log_found opts a sig rules) logs))"

lemma ucast_address [simp]: "ucast (ucast (a :: address) :: u256) = a"
  by (rule bit_word_eqI) (simp add: bit_simps)

lemma address_rule_mem [simp]: "ucast a \<in> set (address_rule as) \<longleftrightarrow> a \<in> set as"
proof -
  have "a = b" if "(ucast a :: u256) = ucast b" for b :: address
    using arg_cong [OF that, of "ucast :: u256 \<Rightarrow> address"] by simp
  then show ?thesis by (auto simp: address_rule_def)
qed

lemma address_rule_nil [simp]: "address_rule as = [] \<longleftrightarrow> as = []"
  by (simp add: address_rule_def)

lemma token_signature: "event_signature \<lparr>bc_address = a, bc_abi = md_ABI ERC20MetaData\<rparr> ''Transfer'' = ''Transfer(address,address,uint256)''"
  "event_signature \<lparr>bc_address = a, bc_abi = md_ABI ERC721MetaData\<rparr> ''Transfer'' = ''Transfer(address,address,uint256)''"
  by (simp_all add: event_signature_def signature_def ERC20MetaData_def ERC721MetaData_def)

text \<open>What a filter for the transfers of a token gives, whatever else the contract has logged.\<close>

fun transfer_wanted :: "address list \<Rightarrow> address list \<Rightarrow> sol_event \<Rightarrow> bool" where
  "transfer_wanted as bs (EvTransfer x y v) = ((as = [] \<or> x \<in> set as) \<and> (bs = [] \<or> y \<in> set bs))"
| "transfer_wanted as bs ev = False"

fun read_transfer :: "sol_event \<Rightarrow> address \<times> address \<times> int" where
  "read_transfer (EvTransfer x y v) = (x, y, uint v)"
| "read_transfer ev = (0, 0, 0)"

definition in_range :: "filter_opts \<Rightarrow> u64 \<Rightarrow> bool" where
  "in_range opts b \<longleftrightarrow> fo_Start opts \<le> b \<and> (case fo_End opts of None \<Rightarrow> True | Some e \<Rightarrow> b \<le> e)"

lemma token_found:
  "log_found opts this ''Transfer(address,address,uint256)'' [address_rule as, address_rule bs] (token_log this b ev) \<longleftrightarrow>
     in_range opts b \<and> transfer_wanted as bs ev"
  by (cases ev) (auto simp: log_found_def token_log_def in_range_def split: option.splits)

lemma token_unpacked:
  assumes "transfer_wanted as bs ev" "ab_events (bc_abi c) = ab_events (md_ABI ERC20MetaData)"
  shows "\<exists>vs. bound_UnpackLog c ''Transfer'' (token_log this b ev) = Inr vs \<and>
    (let e = et_fill transfer_type (token_log this b ev) vs in (te_From e, te_To e, te_Value e) =
      (case read_transfer ev of (x, y, v) \<Rightarrow> (x, y, Some v)))"
  using assms
  by (cases ev) (auto simp: bound_UnpackLog_def token_log_def transfer_type_def addr_at_def int_at_def signature_def ERC20MetaData_def)

lemma token_transfers_read:
  assumes "serves (map (\<lambda>(b, ev). token_log this b ev) evs) node" "ab_events (bc_abi c) = ab_events (md_ABI ERC20MetaData)"
    "bc_address c = this"
  shows "\<exists>it es it'. event_Filter node c opts ''Transfer'' [address_rule as, address_rule bs] = Inr it \<and>
    event_drain transfer_type it = (map Some es, Some it') \<and> ei_fail it' = None \<and>
    map (\<lambda>e. (te_From e, te_To e, the (te_Value e))) es =
      map (read_transfer \<circ> snd) (filter (\<lambda>(b, ev). in_range opts b \<and> transfer_wanted as bs ev) evs)"
proof -
  let ?sig = "''Transfer(address,address,uint256)''" and ?rules = "[address_rule as, address_rule bs]"
  let ?want = "filter (\<lambda>(b, ev). in_range opts b \<and> transfer_wanted as bs ev) evs"
  let ?logs = "map (\<lambda>(b, ev). token_log this b ev) ?want"
  let ?fill = "\<lambda>lg. et_fill transfer_type lg (projr (bound_UnpackLog c ''Transfer'' lg))"
  have sig: "event_signature c ''Transfer'' = ?sig"
    using assms(2) by (simp add: event_signature_def signature_def ERC20MetaData_def)
  have "filter (log_found opts this ?sig ?rules) (map (\<lambda>(b, ev). token_log this b ev) evs) = ?logs"
    by (simp add: filter_map comp_def case_prod_unfold token_found)
  then have "event_Filter node c opts ''Transfer'' ?rules = Inr \<lparr>ei_Event = None, ei_contract = c, ei_event = ''Transfer'',
      ei_arrivals = map LogArrives ?logs @ [SubEnds None], ei_done = False, ei_fail = None\<rparr>"
    using assms(1,3) by (simp add: event_Filter_def serves_def sig)
  moreover have "\<forall>lg \<in> set ?logs. \<exists>vs. bound_UnpackLog c ''Transfer'' lg = Inr vs"
    using token_unpacked [OF _ assms(2)] by fastforce
  note drain = drain_filtered [OF this, of _ transfer_type]
  have "\<exists>it'. event_drain transfer_type \<lparr>ei_Event = None, ei_contract = c, ei_event = ''Transfer'',
      ei_arrivals = map LogArrives ?logs @ [SubEnds None], ei_done = False, ei_fail = None\<rparr> = (map Some (map ?fill ?logs), Some it') \<and> ei_fail it' = None"
    using drain by (simp add: comp_def)
  moreover have "map (\<lambda>e. (te_From e, te_To e, the (te_Value e))) (map ?fill ?logs) = map (read_transfer \<circ> snd) ?want"
  proof -
    have "(te_From (?fill (token_log this b ev)), te_To (?fill (token_log this b ev)), the (te_Value (?fill (token_log this b ev)))) =
        read_transfer ev" if "transfer_wanted as bs ev" for b ev
      using token_unpacked [OF that assms(2), of this b] by (auto simp: Let_def split: prod.splits)
    then show ?thesis by auto
  qed
  ultimately show ?thesis by blast
qed

end
