(* ===== verification/BindingReads.thy ===== *)
theory BindingReads
  imports BindingEvents
begin

text \<open>
  What the reading half of a binding gives on the contracts of \<open>Contracts\<close>: the functions and public
  variables of each contract that only read, and the methods of the bindings on a node that answers from a
  given state.
\<close>

subsection \<open>The functions that read\<close>

definition ERC20_view :: "('a erc20_scheme) \<Rightarrow> string \<Rightarrow> abi_arg list \<Rightarrow> abi_value list option" where
  "ERC20_view s m args =
     (case args of
        [] \<Rightarrow>
          if m = ''name'' then Some [ValString (e_name s)]
          else if m = ''symbol'' then Some [ValString (e_symbol s)]
          else if m = ''decimals'' then Some [ValUint8 (uint (e_decimals s))]
          else if m = ''totalSupply'' then Some [ValUint (uint (e_totalSupply s))]
          else if m = ''DEFAULT_BALANCE'' then Some [ValUint (uint DEFAULT_BALANCE)] else None
      | [ArgAddress a] \<Rightarrow> if m = ''balanceOf'' then Some [ValUint (uint (ERC20_balanceOf a s))] else None
      | [ArgAddress a, ArgAddress b] \<Rightarrow> if m = ''allowance'' then Some [ValUint (uint (ERC20_allowance a b s))] else None
      | _ \<Rightarrow> None)"

definition ERC20Conflict_view :: "conflict20 \<Rightarrow> string \<Rightarrow> abi_arg list \<Rightarrow> abi_value list option" where
  "ERC20Conflict_view s m args = (if m = ''counter'' \<and> args = [] then Some [ValUint (uint (e_counter s))] else ERC20_view s m args)"

text \<open>The interfaces the token claims: the one of ERC721 and that of the query itself.\<close>

definition ERC721_supportsInterface :: "nat list \<Rightarrow> bool" where
  "ERC721_supportsInterface interfaceId \<longleftrightarrow> interfaceId = [0x80, 0xac, 0x58, 0xcd] \<or> interfaceId = [0x01, 0xff, 0xc9, 0xa7]"

text \<open>A query for no token, or for the balance of the zero address, reverts.\<close>

definition ERC721_view :: "nft \<Rightarrow> string \<Rightarrow> abi_arg list \<Rightarrow> abi_value list option" where
  "ERC721_view s m args =
     (case args of
        [ArgAddress a] \<Rightarrow> if m = ''balanceOf'' then map_option (\<lambda>n. [ValUint (uint n)]) (ERC721_balanceOf a s) else None
      | [ArgInt n] \<Rightarrow>
          if m = ''ownerOf'' then map_option (\<lambda>a. [ValAddress a]) (ERC721_ownerOf (word_of_int n) s)
          else if m = ''getApproved'' then map_option (\<lambda>a. [ValAddress a]) (ERC721_getApproved (word_of_int n) s) else None
      | [ArgAddress a, ArgAddress b] \<Rightarrow> if m = ''isApprovedForAll'' then Some [ValBool (n_operators s a b)] else None
      | [ArgBytes4 bs] \<Rightarrow> if m = ''supportsInterface'' then Some [ValBool (ERC721_supportsInterface bs)] else None
      | _ \<Rightarrow> None)"

definition StorageRW_view :: "storage_rw \<Rightarrow> string \<Rightarrow> abi_arg list \<Rightarrow> abi_value list option" where
  "StorageRW_view s m args =
     (case args of
        [] \<Rightarrow>
          if m = ''VERSION'' then Some [ValUint (uint StorageRW_VERSION)]
          else if m = ''readAccumulator'' then Some [ValUint (uint (sw_readAccumulator s))] else None
      | [ArgInt n] \<Rightarrow> if m = ''store'' then Some [ValUint (uint (sw_store s (word_of_int n)))] else None
      | _ \<Rightarrow> None)"

definition Disperse_view :: "disperse_state \<Rightarrow> string \<Rightarrow> abi_arg list \<Rightarrow> abi_value list option" where
  "Disperse_view s m args =
     (if args \<noteq> [] then None
      else if m = ''owner'' then Some [ValAddress (dp_owner s)]
      else if m = ''fixedEtherAmount'' then Some [ValUint (uint (dp_fixedEtherAmount s))]
      else if m = ''fixedTokenAmount'' then Some [ValUint (uint (dp_fixedTokenAmount s))] else None)"

fun view_contract :: "contract_state \<Rightarrow> string \<Rightarrow> abi_arg list \<Rightarrow> abi_value list option" where
  "view_contract (ERC20C s) = ERC20_view s"
| "view_contract (NoopC s) = ERC20_view s"
| "view_contract (ConflictC s) = ERC20Conflict_view s"
| "view_contract (NftC s) = ERC721_view s"
| "view_contract (StorageC s) = StorageRW_view s"
| "view_contract (DisperseC s) = Disperse_view s"

text \<open>A node on which the contract at \<open>this\<close> is in a state, at the block every call asks for.\<close>

definition answers :: "address \<Rightarrow> contract_state \<Rightarrow> call_node \<Rightarrow> bool" where
  "answers this st node \<longleftrightarrow> (\<forall>opts m args. node opts this m args =
     (case view_contract st m args of None \<Rightarrow> Inl (External ''execution reverted'') | Some out \<Rightarrow> Inr out))"

abbreviation bound_as :: "address \<Rightarrow> metadata \<Rightarrow> bound_contract" where
  "bound_as this md \<equiv> \<lparr>bc_address = this, bc_abi = md_ABI md\<rparr>"

subsection \<open>Reading back\<close>

lemma answers_read:
  "answers this st node \<Longrightarrow> abi_accepts abi m args \<Longrightarrow>
     read_one conv node \<lparr>bc_address = this, bc_abi = abi\<rparr> opts m args =
       (case view_contract st m args of
          None \<Rightarrow> Err (External ''execution reverted'')
        | Some out \<Rightarrow> obind (index_at out 0) (\<lambda>v. case conv v of None \<Rightarrow> Panic ''abi: cannot convert'' | Some r \<Rightarrow> Ok r))"
  by (simp add: answers_def read_one_def bound_Call_def split: option.split)

lemmas read_defs = ERC20_Allowance_def ERC20_BalanceOf_def ERC20_DEFAULTBALANCE_def ERC20_Decimals_def ERC20_Name_def ERC20_Symbol_def
  ERC20_TotalSupply_def ERC20Noop_Allowance_def ERC20Noop_BalanceOf_def ERC20Noop_DEFAULTBALANCE_def ERC20Noop_Decimals_def
  ERC20Noop_Name_def ERC20Noop_Symbol_def ERC20Noop_TotalSupply_def ERC20Conflict_Allowance_def ERC20Conflict_BalanceOf_def
  ERC20Conflict_Counter_def ERC20Conflict_DEFAULTBALANCE_def ERC20Conflict_Decimals_def ERC20Conflict_Name_def
  ERC20Conflict_Symbol_def ERC20Conflict_TotalSupply_def ERC721_BalanceOf_def ERC721_GetApproved_def ERC721_IsApprovedForAll_def
  ERC721_OwnerOf_def ERC721_SupportsInterface_def StorageRWv1_VERSION_def StorageRWv1_ReadAccumulator_def StorageRWv1_Store_def Disperse_Owner_def
  Disperse_FixedEtherAmount_def Disperse_FixedTokenAmount_def

lemmas view_defs = ERC20_view_def ERC20Conflict_view_def ERC721_view_def StorageRW_view_def Disperse_view_def

lemma token_reads:
  assumes "answers this (ERC20C s) node"
  shows "ERC20_BalanceOf node (bound_as this ERC20MetaData) opts a = Ok (uint (ERC20_balanceOf a s))"
    "ERC20_Allowance node (bound_as this ERC20MetaData) opts a b = Ok (uint (ERC20_allowance a b s))"
    "ERC20_TotalSupply node (bound_as this ERC20MetaData) opts = Ok (uint (e_totalSupply s))"
    "ERC20_Decimals node (bound_as this ERC20MetaData) opts = Ok (uint (e_decimals s))"
    "ERC20_Name node (bound_as this ERC20MetaData) opts = Ok (e_name s)"
    "ERC20_Symbol node (bound_as this ERC20MetaData) opts = Ok (e_symbol s)"
    "ERC20_DEFAULTBALANCE node (bound_as this ERC20MetaData) opts = Ok (uint DEFAULT_BALANCE)"
  by (simp_all add: read_defs answers_read [OF assms] abi_accepts_def ERC20MetaData_def view_defs)

lemma noop_reads:
  assumes "answers this (NoopC s) node"
  shows "ERC20Noop_BalanceOf node (bound_as this ERC20NoopMetaData) opts a = Ok (uint (ERC20_balanceOf a s))"
    "ERC20Noop_Allowance node (bound_as this ERC20NoopMetaData) opts a b = Ok (uint (ERC20_allowance a b s))"
    "ERC20Noop_TotalSupply node (bound_as this ERC20NoopMetaData) opts = Ok (uint (e_totalSupply s))"
    "ERC20Noop_Decimals node (bound_as this ERC20NoopMetaData) opts = Ok (uint (e_decimals s))"
    "ERC20Noop_Name node (bound_as this ERC20NoopMetaData) opts = Ok (e_name s)"
    "ERC20Noop_Symbol node (bound_as this ERC20NoopMetaData) opts = Ok (e_symbol s)"
    "ERC20Noop_DEFAULTBALANCE node (bound_as this ERC20NoopMetaData) opts = Ok (uint DEFAULT_BALANCE)"
  by (simp_all add: read_defs answers_read [OF assms] abi_accepts_def ERC20NoopMetaData_def view_defs)

lemma conflict_reads:
  assumes "answers this (ConflictC s) node"
  shows "ERC20Conflict_BalanceOf node (bound_as this ERC20ConflictMetaData) opts a = Ok (uint (ERC20_balanceOf a s))"
    "ERC20Conflict_Allowance node (bound_as this ERC20ConflictMetaData) opts a b = Ok (uint (ERC20_allowance a b s))"
    "ERC20Conflict_Counter node (bound_as this ERC20ConflictMetaData) opts = Ok (uint (e_counter s))"
    "ERC20Conflict_TotalSupply node (bound_as this ERC20ConflictMetaData) opts = Ok (uint (e_totalSupply s))"
    "ERC20Conflict_Decimals node (bound_as this ERC20ConflictMetaData) opts = Ok (uint (e_decimals s))"
    "ERC20Conflict_Name node (bound_as this ERC20ConflictMetaData) opts = Ok (e_name s)"
    "ERC20Conflict_Symbol node (bound_as this ERC20ConflictMetaData) opts = Ok (e_symbol s)"
    "ERC20Conflict_DEFAULTBALANCE node (bound_as this ERC20ConflictMetaData) opts = Ok (uint DEFAULT_BALANCE)"
  by (simp_all add: read_defs answers_read [OF assms] abi_accepts_def ERC20ConflictMetaData_def view_defs)

lemma nft_reads:
  assumes "answers this (NftC s) node"
  shows "ERC721_OwnerOf node (bound_as this ERC721MetaData) opts n =
      (if n_ownerOf s (word_of_int n) = 0 then Err (External ''execution reverted'') else Ok (n_ownerOf s (word_of_int n)))"
    "ERC721_BalanceOf node (bound_as this ERC721MetaData) opts a =
      (if a = 0 then Err (External ''execution reverted'') else Ok (uint (n_balanceOf s a)))"
    "ERC721_GetApproved node (bound_as this ERC721MetaData) opts n =
      (if n_ownerOf s (word_of_int n) = 0 then Err (External ''execution reverted'') else Ok (n_approvals s (word_of_int n)))"
    "ERC721_IsApprovedForAll node (bound_as this ERC721MetaData) opts a b = Ok (n_operators s a b)"
    "length bs = 4 \<Longrightarrow> ERC721_SupportsInterface node (bound_as this ERC721MetaData) opts bs = Ok (ERC721_supportsInterface bs)"
  by (simp_all add: read_defs answers_read [OF assms] abi_accepts_def ERC721MetaData_def view_defs
      ERC721_ownerOf_def ERC721_balanceOf_def ERC721_getApproved_def)

lemma storage_reads:
  assumes "answers this (StorageC s) node"
  shows "StorageRWv1_Store node (bound_as this StorageRWv1MetaData) opts n = Ok (uint (sw_store s (word_of_int n)))"
    "StorageRWv1_ReadAccumulator node (bound_as this StorageRWv1MetaData) opts = Ok (uint (sw_readAccumulator s))"
    "StorageRWv1_VERSION node (bound_as this StorageRWv1MetaData) opts = Ok 1"
  by (simp_all add: read_defs answers_read [OF assms] abi_accepts_def StorageRWv1MetaData_def view_defs StorageRW_VERSION_def)

lemma disperse_reads:
  assumes "answers this (DisperseC s) node"
  shows "Disperse_Owner node (bound_as this DisperseMetaData) opts = Ok (dp_owner s)"
    "Disperse_FixedEtherAmount node (bound_as this DisperseMetaData) opts = Ok (uint (dp_fixedEtherAmount s))"
    "Disperse_FixedTokenAmount node (bound_as this DisperseMetaData) opts = Ok (uint (dp_fixedTokenAmount s))"
  by (simp_all add: read_defs answers_read [OF assms] abi_accepts_def DisperseMetaData_def view_defs)

end
