(* ===== verification/ChainProps.thy ===== *)
theory ChainProps
  imports LoadProps EvmGas OfflineToken BindingReads
begin

text \<open>
  The properties of the load on the chain: the bindings and the classes of the scenarios, and what
  becomes of the transactions of a scenario on the contract it was made for.
\<close>

subsection \<open>Bindings\<close>





subsection \<open>The load on its contracts\<close>



definition ready_on :: "scenario_impl \<Rightarrow> tx_generator" where
  "ready_on impl = \<lparr>tg_config = Some sample_config, tg_deployed = True, tg_address = 77, tg_scenario = bare_scenario,
     tg_impl = impl\<rparr>"

lemma ready_on_ready: "contract_of impl \<noteq> None \<Longrightarrow> bound_to impl \<noteq> None \<Longrightarrow> impl_ok bare_scenario impl \<Longrightarrow> gen_ready (ready_on impl)"
  using bare_ok(3) by (simp add: gen_ready_def ready_on_def)

lemma sample_request_sel [simp]: "acc_address (ts_sender sample_request) = 3" "ts_receiver sample_request = 9"
  by (simp_all add: sample_request_def NewTxScenario_def AccountFromKey_def)


text \<open>
  C13. Three scenarios cannot have an effect. A transaction of the conflicting token or of the ERC721
  scenario has too little gas for its call to write to storage, whatever the state of the contract; a
  transaction of the Disperse scenario sends no value, and the contract, as the scenario deploys it
  and as long as its fixed amount is not zero, reverts it. So every such transaction fails on the
  chain, though it is generated, signed and sent like any other.
\<close>

theorem ineffective_scenarios:
  assumes "binds env" "well_keyed env (ts_sender sc)" "gen_ready g" "contract_of (tg_impl g) \<noteq> None"
    "\<not> effective (tg_impl g)"
  shows "(\<exists>st. deployed_state deployer (tg_impl g) = Some st \<and> runs_on (tg_impl g) st) \<and>
    (\<exists>tx sc' g' r' keys'. Generate env unix sc g r keys = Ok (tx, sc', g', r', keys') \<and>
      (\<forall>st. runs_on (tg_impl g) st \<longrightarrow> evm_tx this (acc_address (ts_sender sc)) tx (st, led) = None))"
proof
  show "\<exists>st. deployed_state deployer (tg_impl g) = Some st \<and> runs_on (tg_impl g) st"
    using assms(4,5) by (cases "tg_impl g") (auto simp: effective_def Disperse_constructor_def)
  obtain tx sc' g' r' keys' where "Generate env unix sc g r keys = Ok (tx, sc', g', r', keys')" "issued (tg_impl g) sc tx"
    using Generate_issued [OF assms(1-4), of unix r keys] by (elim exE conjE)
  then show "\<exists>tx sc' g' r' keys'. Generate env unix sc g r keys = Ok (tx, sc', g', r', keys') \<and>
      (\<forall>st. runs_on (tg_impl g) st \<longrightarrow> evm_tx this (acc_address (ts_sender sc)) tx (st, led) = None)"
    using issued_evm [of "tg_impl g" sc tx] assms(5) by auto
qed

theorem ineffective_scenarios_witness:
  "\<exists>tx sc' g' r' keys'. Generate sample_chain 7 sample_request (ready_on (ERC721Scenario (Some 77) 0)) sample_rng id =
     Ok (tx, sc', g', r', keys') \<and> evm_tx 77 3 tx (NftC ERC721_new, \<lambda>a. 0) = None"
proof -
  have ready: "gen_ready (ready_on (ERC721Scenario (Some 77) 0))" by (rule ready_on_ready) (simp_all add: impl_ok_def)
  have "contract_of (tg_impl (ready_on (ERC721Scenario (Some 77) 0))) \<noteq> None"
    "\<not> effective (tg_impl (ready_on (ERC721Scenario (Some 77) 0)))" by (simp_all add: ready_on_def effective_def)
  from ineffective_scenarios [OF sample_binds sample_keyed ready this, of 0 7 sample_rng id 77 "\<lambda>a. 0"] show ?thesis
    by (fastforce simp: ready_on_def)
qed










subsection \<open>The offline token\<close>

text \<open>
  C35. The genesis of an offline run fits its transactions: the contract finds the balance of every
  seeded sender in the slot the program computed for it, so that one transfer from each of any
  distinct seeded senders, to whomever, runs without reverting, logs exactly those transfers in order and
  mints nothing: a balance ends as what was seeded and not sent, plus what was received.
\<close>

theorem offline_transfers_run:
  assumes "NewScenario None ''erc20-transfer'' cfg = Ok s" "keys_apart keccak"
    "\<forall>h. gw_state g0 (of_ERC20Contract cfg, h) = None"
    "distinct (map fst moves)" "fst ` set moves \<subseteq> set senders"
    "the (of_TransferValue cfg) * (1 + int (length moves)) < 2 ^ 256"
  shows "\<exists>g t. SetupGenesis (Inr code) s g0 = (Ok (), g) \<and> gw_code g (of_ERC20Contract cfg) = Some code \<and>
    (\<forall>signTx k n y. BuildTransaction None signTx s (Some k) n y = signTx (erc20_tx cfg n y) k) \<and>
    run_transfers cfg moves (token_at keccak (of_ERC20Contract cfg) (fold (SeedSender keccak s) senders g)) = Some t \<and>
    e_logs t = map (\<lambda>(x, n, y). EvTransfer x y (moved_value cfg)) moves \<and>
    (\<forall>a. uint (e_balances t a) = the (of_TransferValue cfg) *
       ((if a \<in> set senders - fst ` set moves then 1 else 0) + int (received moves a)))"
proof -
  have "\<forall>signTx k n y. BuildTransaction None signTx s (Some k) n y = signTx (erc20_tx cfg n y) k"
    using BuildTransaction_erc20 [OF assms(1)] by blast
  then show ?thesis
    using seeded_transfers [OF assms, of code] by (elim exE conjE) (intro exI conjI, assumption+)
qed

definition sample_offline :: offline_config where
  "sample_offline = \<lparr>of_ChainID = Some 1, of_GasPrice = Some 1, of_SenderBalance = Some 100, of_TransferValue = Some 10,
     of_GasLimit = 100000, of_ERC20Contract = 42\<rparr>"

theorem offline_transfers_run_witness:
  "\<exists>s g t. NewScenario None ''erc20-transfer'' sample_offline = Ok s \<and>
     run_transfers sample_offline [(7, 0, 8), (8, 0, 9)] (token_at owner_hash 42 (fold (SeedSender owner_hash s) [7, 8] g)) = Some t \<and>
     uint (e_balances t 7) = 0 \<and> uint (e_balances t 8) = 10 \<and> uint (e_balances t 9) = 10"
proof -
  let ?s = "ERC20TransferScenario sample_offline" and ?g = "\<lparr>gw_balances = Map.empty, gw_code = Map.empty, gw_state = Map.empty\<rparr>"
  have s: "NewScenario None ''erc20-transfer'' sample_offline = Ok ?s"
    by (simp add: NewScenario_def validateConfig_def check_amount_def over_256_def newERC20TransferScenario_def sample_offline_def)
  have "\<forall>h. gw_state ?g (of_ERC20Contract sample_offline, h) = None" by simp
  from offline_transfers_run [OF s owner_hash_apart this, of "[(7, 0, 8), (8, 0, 9)]" "[7, 8]" "[1]"]
  obtain g t where run: "run_transfers sample_offline [(7, 0, 8), (8, 0, 9)]
      (token_at owner_hash (of_ERC20Contract sample_offline) (fold (SeedSender owner_hash ?s) [7, 8] g)) = Some t"
    and bal: "\<forall>a. uint (e_balances t a) = the (of_TransferValue sample_offline) *
      ((if a \<in> set [7, 8] - fst ` set [(7, 0, 8), (8, 0, 9)] then 1 else 0) + int (received [(7, 0, 8), (8, 0, 9)] a))"
    by (auto simp: sample_offline_def)
  have "uint (e_balances t 7) = 0 \<and> uint (e_balances t 8) = 10 \<and> uint (e_balances t 9) = 10"
    unfolding bal [rule_format] by (simp add: sample_offline_def)
  moreover have "of_ERC20Contract sample_offline = 42" by (simp add: sample_offline_def)
  ultimately show ?thesis using s run by (intro exI [of _ ?s] exI [of _ g] exI [of _ t]) simp
qed

end
