(* ===== verification/Feed.thy ===== *)
theory Feed
  imports BlockStats Inclusion Utils
begin

text \<open>
  The subscriptions of \<open>stats/block_collector.go\<close> and \<open>stats/inclusion_tracker.go\<close>: connect, subscribe,
  and handle one arrival after another until the context or the subscription ends. The node and the
  order of the arrivals are arguments. Between the error of a subscription and the moment the loop
  sees its context cancelled, further arrivals may be handled.
\<close>

datatype 'e feed_event = Arrives 'e | SubscriptionEnds "go_error option" | LoopStops go_error

text \<open>
  The state, and what the scope of the loop returns once it is over: the first error reported, by
  the task that watches the subscription or by the loop with the error of its context.
\<close>

fun feed_loop :: "('e \<Rightarrow> 's \<Rightarrow> 's) \<Rightarrow> go_error option \<Rightarrow> 'e feed_event list \<Rightarrow> 's \<Rightarrow> go_error option \<times> 's" where
  "feed_loop handle err [] s = (None, s)"
| "feed_loop handle err (Arrives e # evs) s = feed_loop handle err evs (handle e s)"
| "feed_loop handle err (SubscriptionEnds r # evs) s =
     feed_loop handle (case err of Some x \<Rightarrow> Some x | None \<Rightarrow> r) evs s"
| "feed_loop handle err (LoopStops e # evs) s = (Some (case err of Some x \<Rightarrow> x | None \<Rightarrow> e), s)"

record feed_env =
  fe_connect :: "string \<Rightarrow> go_error option"
  fe_subscribe :: "go_error option"

definition bc_Run ::
  "feed_env \<Rightarrow> string \<Rightarrow> (instant \<times> header) feed_event list \<Rightarrow> block_collector \<Rightarrow> go_error option \<times> block_collector" where
  "bc_Run env firstEndpoint evs s =
     (case fe_connect env (GetWSEndpoint firstEndpoint) of
        Some e \<Rightarrow> (Some (Wrap ''failed to connect to WebSocket endpoint'' e), s)
      | None \<Rightarrow>
          (case fe_subscribe env of
             Some e \<Rightarrow> (Some (Wrap ''Failed to subscribe to new blocks'' e), s)
           | None \<Rightarrow> feed_loop (\<lambda>(now, hdr) s. fst (processNewBlock now hdr s)) None evs s))"

text \<open>
  The tracker dials the first endpoint for its blocks unless it was given a source (\<open>own_source\<close>); the
  arrivals are heads, the ticks of the sweep, and the registrations of the sender.
\<close>

definition tracker_Run ::
  "feed_env \<Rightarrow> bool \<Rightarrow> (eth_tx \<Rightarrow> tx_hash) \<Rightarrow> (u64 \<Rightarrow> go_error + tx_hash list) \<Rightarrow> string \<Rightarrow> inclusion_op feed_event list \<Rightarrow>
     inclusion_tracker \<Rightarrow> go_error option \<times> tracker_run" where
  "tracker_Run env own_source hash source firstEndpoint evs t =
     (case (if own_source then None else fe_connect env firstEndpoint) of
        Some e \<Rightarrow> (Some (Wrap ''inclusion tracker: dial'' e), run_start t)
      | None \<Rightarrow>
          (case fe_connect env (GetWSEndpoint firstEndpoint) of
             Some e \<Rightarrow> (Some (Wrap ''inclusion tracker: connect WebSocket'' e), run_start t)
           | None \<Rightarrow>
               (case fe_subscribe env of
                  Some e \<Rightarrow> (Some (Wrap ''inclusion tracker: subscribe new heads'' e), run_start t)
                | None \<Rightarrow> feed_loop (run_op hash source) None evs (run_start t))))"

subsection \<open>Blocks and ticks of the tracker\<close>

text \<open>The hashes of the transactions of a block, filled in one after another; the node answers \<open>blockByNumber\<close>.\<close>

fun fill_hashes :: "('tx \<Rightarrow> tx_hash) \<Rightarrow> nat \<Rightarrow> 'tx list \<Rightarrow> tx_hash list \<Rightarrow> tx_hash list" where
  "fill_hashes hash i [] hashes = hashes"
| "fill_hashes hash i (tx # txs) hashes = fill_hashes hash (Suc i) txs (hashes[i := hash tx])"

definition BlockTxHashes :: "(u64 \<Rightarrow> go_error + 'tx list) \<Rightarrow> ('tx \<Rightarrow> tx_hash) \<Rightarrow> u64 \<Rightarrow> go_error + tx_hash list" where
  "BlockTxHashes blockByNumber hash n =
     (case blockByNumber n of
        Inl err \<Rightarrow> Inl err
      | Inr txs \<Rightarrow> Inr (fill_hashes hash 0 txs (replicate (length txs) 0)))"

lemma fill_hashes_map: "fill_hashes hash (length done) txs (done @ replicate (length txs) 0) = done @ map hash txs"
proof (induction txs arbitrary: \<open>done\<close>)
  case (Cons tx txs)
  then show ?case using Cons.IH [of "done @ [hash tx]"] by (simp add: list_update_append)
qed simp

lemma BlockTxHashes_map: "BlockTxHashes bn hash n = map_sum id (map hash) (bn n)"
  using fill_hashes_map [of hash "[]"] by (simp add: BlockTxHashes_def split: sum.split)

text \<open>
  The sweep: a ticker, and at every tick one \<open>reap\<close>; a failed receive means that the context is over, with
  the error \<open>e\<close>, which the loop then returns.
\<close>

fun reap_ticks :: "(instant \<times> tx_hash list) list \<Rightarrow> inclusion_tracker \<Rightarrow> metric list \<Rightarrow> inclusion_tracker \<times> metric list" where
  "reap_ticks [] t out = (t, out)"
| "reap_ticks ((now, order) # ticks) t out = (case reap now order t of (t, ms) \<Rightarrow> reap_ticks ticks t (out @ ms))"

definition reapLoop ::
  "go_error \<Rightarrow> (instant \<times> tx_hash list) list \<Rightarrow> inclusion_tracker \<Rightarrow> unit outcome \<times> inclusion_tracker \<times> metric list" where
  "reapLoop e ticks t =
     (case NewTicker (reapAfter t) of
        Panic m \<Rightarrow> (Panic m, t, [])
      | Err x \<Rightarrow> (Err x, t, [])
      | Ok u \<Rightarrow> (Err e, reap_ticks ticks t []))"

text \<open>The interval of a tracker is positive whatever it was made with, so its sweep does not panic.\<close>

lemma reapLoop_returns: "\<exists>t out. reapLoop e ticks (NewInclusionTracker chain d n ol) = (Err e, t, out)"
proof -
  have "0 < reapAfter (NewInclusionTracker chain d n ol)"
    by (simp add: NewInclusionTracker_def defaultInclusionReapAfter_def Let_def)
  then show ?thesis by (cases "reap_ticks ticks (NewInclusionTracker chain d n ol) []") (simp add: reapLoop_def)
qed

text \<open>What was handled: the arrivals before the loop stopped.\<close>

fun handled :: "'e feed_event list \<Rightarrow> 'e list" where
  "handled [] = []"
| "handled (Arrives e # evs) = e # handled evs"
| "handled (SubscriptionEnds r # evs) = handled evs"
| "handled (LoopStops e # evs) = []"

lemma feed_loop_fold: "snd (feed_loop handle err evs s) = fold handle (handled evs) s"
  by (induction handle err evs s rule: feed_loop.induct) simp_all

text \<open>The loop ends exactly when it stops, and then with an error: the first one, if there was one before.\<close>

fun stops_with :: "go_error option \<Rightarrow> 'e feed_event list \<Rightarrow> go_error option" where
  "stops_with err [] = None"
| "stops_with err (Arrives e # evs) = stops_with err evs"
| "stops_with err (SubscriptionEnds r # evs) = stops_with (case err of Some x \<Rightarrow> Some x | None \<Rightarrow> r) evs"
| "stops_with err (LoopStops e # evs) = Some (case err of Some x \<Rightarrow> x | None \<Rightarrow> e)"

lemma feed_loop_result: "fst (feed_loop handle err evs s) = stops_with err evs"
  by (induction handle err evs s rule: feed_loop.induct) simp_all

text \<open>While the subscription holds, the error is that of the context.\<close>

lemma stops_with_context: "\<forall>x. SubscriptionEnds (Some x) \<notin> set evs \<Longrightarrow> stops_with None evs = Some e \<Longrightarrow> LoopStops e \<in> set evs"
proof (induction "None :: go_error option" evs rule: stops_with.induct)
  case (3 r evs)
  then show ?case by (cases r) (auto split: option.splits)
qed auto

lemma bc_Run_observes: "snd (bc_Run env ep evs s) = s \<or> snd (bc_Run env ep evs s) = observe (handled evs) s"
  by (auto simp: bc_Run_def feed_loop_fold observe_def split: option.split)

lemma tracker_Run_conserves:
  assumes "wf_inclusion t" "tally (it_state t) = 0"
  shows "run_inv (snd (tracker_Run env own_source hash source ep evs t))"
proof -
  have "run_inv (run_start t)" by (rule run_inv_start [OF assms])
  then show ?thesis using runs_inv [of "run_start t" hash source "handled evs"]
    by (auto simp: tracker_Run_def feed_loop_fold split: option.split)
qed

end
