(* ===== verification/Profile.thy ===== *)
theory Profile
  imports Config Utils
begin

text \<open>
  Parsing a profile (\<open>ParseLoadConfig\<close> of \<open>config/config.go\<close>): the envelope first, then every scenario
  on its own, so that an error can name the scenario it is in. What \<open>encoding/json\<close> makes of a text
  is an argument: \<open>pj_envelope\<close> and \<open>pj_scenario\<close> decode and refuse unknown fields, \<open>pj_name\<close> only reads
  the name, \<open>pj_ends\<close> says that nothing follows the first value.
\<close>

record profile_json =
  pj_envelope :: "string \<Rightarrow> go_error + load_config \<times> string list"
  pj_scenario :: "string \<Rightarrow> go_error + scenario"
  pj_name :: "string \<Rightarrow> go_error + string"
  pj_ends :: "string \<Rightarrow> bool"

definition decodeStrict :: "(string \<Rightarrow> bool) \<Rightarrow> (string \<Rightarrow> go_error + 'a) \<Rightarrow> string \<Rightarrow> 'a outcome" where
  "decodeStrict ends decode data =
     (case decode data of
        Inl e \<Rightarrow> Err e
      | Inr v \<Rightarrow> if ends data then Ok v else Err (Errorf ''unexpected data after the top-level JSON value''))"

definition scenarioLabel :: "profile_json \<Rightarrow> string \<Rightarrow> nat \<Rightarrow> string" where
  "scenarioLabel js raw i =
     (case pj_name js raw of
        Inr name \<Rightarrow> if name \<noteq> '''' then json_quote name else ''at index '' @ decimal i
      | Inl e \<Rightarrow> ''at index '' @ decimal i)"

fun decode_scenarios :: "profile_json \<Rightarrow> nat \<Rightarrow> string list \<Rightarrow> scenario list outcome" where
  "decode_scenarios js i [] = Ok []"
| "decode_scenarios js i (raw # raws) =
     obind (omap_err (Wrap (''scenario '' @ scenarioLabel js raw i)) (decodeStrict (pj_ends js) (pj_scenario js) raw)) (\<lambda>s.
       obind (decode_scenarios js (i + 1) raws) (\<lambda>ss. Ok (s # ss)))"

definition ParseLoadConfig :: "profile_json \<Rightarrow> string \<Rightarrow> load_config outcome" where
  "ParseLoadConfig js data =
     obind (decodeStrict (pj_ends js) (pj_envelope js) data) (\<lambda>(cfg, raws).
       obind (decode_scenarios js 0 raws) (\<lambda>ss. Ok (cfg\<lparr>lc_Scenarios := ss\<rparr>)))"

lemma decodeStrict_Ok [outcome_simps]: "decodeStrict ends decode data = Ok v \<longleftrightarrow> decode data = Inr v \<and> ends data"
  by (auto simp: decodeStrict_def split: sum.split)

lemma decodeStrict_no_panic [simp]: "decodeStrict ends decode data \<noteq> Panic m"
  by (auto simp: decodeStrict_def split: sum.split)

text \<open>The scenarios of a parsed profile are those of its texts, in order.\<close>

lemma decode_scenarios_Ok:
  "decode_scenarios js i raws = Ok ss \<longleftrightarrow>
     length ss = length raws \<and> (\<forall>j < length raws. pj_scenario js (raws ! j) = Inr (ss ! j) \<and> pj_ends js (raws ! j))"
proof (induction raws arbitrary: i ss)
  case (Cons raw raws)
  show ?case
  proof (cases ss)
    case (Cons s ss')
    then show ?thesis using Cons.IH [of "i + 1"]
      by (auto simp: outcome_simps less_Suc_eq_0_disj nth_Cons' all_conj_distrib split: if_splits)
  qed (auto simp: outcome_simps)
qed auto

text \<open>An error of a scenario names the first one that does not parse.\<close>

lemma decode_scenarios_Err:
  assumes "decode_scenarios js i raws = Err e"
  shows "\<exists>j e'. j < length raws \<and> e = Wrap (''scenario '' @ scenarioLabel js (raws ! j) (i + j)) e' \<and>
    decodeStrict (pj_ends js) (pj_scenario js) (raws ! j) = Err e' \<and>
    (\<forall>k < j. \<exists>s. decodeStrict (pj_ends js) (pj_scenario js) (raws ! k) = Ok s)"
  using assms
proof (induction raws arbitrary: i)
  case (Cons raw raws)
  show ?case
  proof (cases "decodeStrict (pj_ends js) (pj_scenario js) raw")
    case (Ok s)
    then have "decode_scenarios js (i + 1) raws = Err e" using Cons.prems by (simp add: obind_Err_iff)
    from Cons.IH [OF this] obtain j e' where j: "j < length raws"
      "e = Wrap (''scenario '' @ scenarioLabel js (raws ! j) (i + 1 + j)) e'"
      "decodeStrict (pj_ends js) (pj_scenario js) (raws ! j) = Err e'"
      "\<forall>k < j. \<exists>s. decodeStrict (pj_ends js) (pj_scenario js) (raws ! k) = Ok s" by blast
    then show ?thesis using Ok by (intro exI [of _ "Suc j"] exI [of _ e']) (auto simp: less_Suc_eq_0_disj)
  next
    case (Err e')
    then show ?thesis using Cons.prems by (intro exI [of _ 0] exI [of _ e']) simp
  qed simp
qed simp

lemma ParseLoadConfig_Ok:
  "ParseLoadConfig js data = Ok cfg \<Longrightarrow>
     \<exists>cfg0 raws. pj_envelope js data = Inr (cfg0, raws) \<and> length (lc_Scenarios cfg) = length raws \<and>
       (\<forall>j < length raws. pj_scenario js (raws ! j) = Inr (lc_Scenarios cfg ! j)) \<and> cfg = cfg0\<lparr>lc_Scenarios := lc_Scenarios cfg\<rparr>"
  by (auto simp: ParseLoadConfig_def outcome_simps decode_scenarios_Ok)

lemma decode_scenarios_no_panic: "decode_scenarios js i raws \<noteq> Panic m"
  by (induction raws arbitrary: i) (auto simp: outcome_simps)

lemma ParseLoadConfig_no_panic: "ParseLoadConfig js data \<noteq> Panic m"
  using decode_scenarios_no_panic by (auto simp: ParseLoadConfig_def outcome_simps)

end
