(* ===== verification/DeployDiag.thy ===== *)
theory DeployDiag
  imports Scenarios
begin

text \<open>
  The diagnosis of a deployment that was mined and failed (\<open>failedDeployment\<close> of
  \<open>generator/scenarios/base.go\<close>): the transaction is replayed as a call on the block before, and the
  node is asked for its error. The node's answers and the rendering of hashes, addresses and errors
  are arguments.
\<close>

datatype tx_type = LegacyTxType | AccessListTxType | DynamicFeeTxType

record mined_tx =
  mt_hash :: nat
  mt_type :: tx_type
  mt_sender :: "go_error + address"
  mt_to :: "address option"
  mt_gas :: u64
  mt_value :: int
  mt_data :: calldata
  mt_gas_price :: int
  mt_fee_cap :: int
  mt_tip_cap :: int
  mt_access_list :: "address list"

record deploy_receipt =
  dr_status :: u64
  dr_block :: u64
  dr_gas_used :: u64
  dr_contract :: address

record call_msg =
  cm_From :: address
  cm_To :: "address option"
  cm_Gas :: u64
  cm_Value :: int
  cm_Data :: calldata
  cm_AccessList :: "address list option"
  cm_GasPrice :: "int option"
  cm_GasFeeCap :: "int option"
  cm_GasTipCap :: "int option"

definition deployerAddress :: "mined_tx \<Rightarrow> address" where
  "deployerAddress tx = (case mt_sender tx of Inr a \<Rightarrow> a | Inl e \<Rightarrow> 0)"

definition replay_call :: "mined_tx \<Rightarrow> call_msg" where
  "replay_call tx =
     (let m = \<lparr>cm_From = deployerAddress tx, cm_To = mt_to tx, cm_Gas = mt_gas tx, cm_Value = mt_value tx, cm_Data = mt_data tx,
            cm_AccessList = None, cm_GasPrice = None, cm_GasFeeCap = None, cm_GasTipCap = None\<rparr>;
          m = (if mt_type tx = AccessListTxType then m\<lparr>cm_AccessList := Some (mt_access_list tx)\<rparr> else m)
      in if mt_type tx = LegacyTxType \<or> mt_type tx = AccessListTxType then m\<lparr>cm_GasPrice := Some (mt_gas_price tx)\<rparr>
         else m\<lparr>cm_GasFeeCap := Some (mt_fee_cap tx), cm_GasTipCap := Some (mt_tip_cap tx)\<rparr>)"

record diag_env =
  de_call :: "call_msg \<Rightarrow> int \<Rightarrow> go_error option"
  de_rpc :: bool
  de_tx_error :: "nat \<Rightarrow> go_error + string"
  de_hash :: "nat \<Rightarrow> string"
  de_hex :: "address \<Rightarrow> string"
  de_show :: "go_error \<Rightarrow> string"

definition fetchTransactionErrorByHash :: "diag_env \<Rightarrow> nat \<Rightarrow> string" where
  "fetchTransactionErrorByHash env hash =
     (if \<not> de_rpc env then ''''
      else case de_tx_error env hash of Inl e \<Rightarrow> ''rpc error: '' @ de_show env e | Inr s \<Rightarrow> s)"

definition prev_block :: "u64 \<Rightarrow> int" where
  "prev_block n = (let p = uint n - 1 in if p < 0 then 0 else p)"

definition failedDeployment :: "diag_env \<Rightarrow> mined_tx \<Rightarrow> deploy_receipt \<Rightarrow> go_error" where
  "failedDeployment env tx r =
     (let msg = ''deployment transaction failed with status '' @ decimal (unat (dr_status r)) @ '' (tx: '' @ de_hash env (mt_hash tx) @
            '', block: '' @ decimal (unat (dr_block r)) @ '', gas used: '' @ decimal (unat (dr_gas_used r)) @ ''/'' @
            decimal (unat (mt_gas tx)) @ '', contract: '' @ de_hex env (dr_contract r) @ '')'';
          msg = (if dr_gas_used r = mt_gas tx then msg @ '' [gas used hit gas limit]'' else msg);
          msg = (case de_call env (replay_call tx) (prev_block (dr_block r)) of
                   Some e \<Rightarrow> msg @ '' [eth_call replay: '' @ de_show env e @ '']'' | None \<Rightarrow> msg);
          txErr = fetchTransactionErrorByHash env (mt_hash tx);
          msg = (if txErr \<noteq> '''' then msg @ '' [eth_getTransactionErrorByHash: '' @ txErr @ '']'' else msg)
      in Errorf msg)"

text \<open>
  The errors of the node are written into the message and leave the error chain: whatever the node
  answers, a failed deployment is no sign of a shutdown.
\<close>

lemma failedDeployment_no_sentinel: "\<not> endedOnRunContext (failedDeployment env tx r)"
  by (simp add: failedDeployment_def Let_def)

text \<open>The replay offers one price: a legacy one, or the two caps.\<close>

lemma replay_call_price:
  "cm_GasPrice (replay_call tx) = None \<longleftrightarrow> mt_type tx = DynamicFeeTxType"
  "cm_GasFeeCap (replay_call tx) = None \<longleftrightarrow> mt_type tx \<noteq> DynamicFeeTxType"
  "cm_GasTipCap (replay_call tx) = None \<longleftrightarrow> mt_type tx \<noteq> DynamicFeeTxType"
  "cm_AccessList (replay_call tx) \<noteq> None \<longleftrightarrow> mt_type tx = AccessListTxType"
  by (cases "mt_type tx"; simp add: replay_call_def Let_def)+

lemma prev_block_range: "0 \<le> prev_block n" "n \<noteq> 0 \<Longrightarrow> prev_block n = uint n - 1"
proof -
  show "0 \<le> prev_block n" by (simp add: prev_block_def Let_def)
  assume "n \<noteq> 0"
  then have "uint n \<noteq> 0" by (simp only: unsigned_eq_0_iff not_False_eq_True)
  then have "\<not> uint n - 1 < 0" using uint_ge_0 [of n] by linarith
  then show "prev_block n = uint n - 1" by (simp add: prev_block_def Let_def)
qed

end
