(* ===== verification/Testonly.thy ===== *)
theory Testonly
  imports Rng Utils Waits "HOL-Library.AList"
begin

text \<open>
  The helpers the tests share (\<open>utils/testonly.go\<close>): a deterministic generator of random values, the
  values drawn from it, the comparison of structs, and the check of a converter. The generator is
  \<open>math/rand\<close>'s: a source of 64-bit words, and the rest of the word from which bytes are read. As in \<open>Rng\<close>, a word
  that a reduction rejects for its bias is not on the tape. The lock around the generator makes each draw one
  step. The source behind a seed, SHA-256, PCG, protobuf and the comparison of values are parameters.
\<close>

subsection \<open>The generator\<close>

record std_rand =
  sr_src :: rng
  sr_readVal :: nat
  sr_readPos :: nat

definition TestRngFromSeed :: "(int \<Rightarrow> nat \<Rightarrow> u64) \<Rightarrow> int \<Rightarrow> std_rand" where
  "TestRngFromSeed source seed = \<lparr>sr_src = \<lparr>tape = source seed, pos = 0\<rparr>, sr_readVal = 0, sr_readPos = 0\<rparr>"

definition TestRng :: "(int \<Rightarrow> nat \<Rightarrow> u64) \<Rightarrow> std_rand" where
  "TestRng source = TestRngFromSeed source 789345342"

definition rng_Uint64 :: "std_rand \<Rightarrow> u64 \<times> std_rand" where
  "rng_Uint64 r = (case next_u64 (sr_src r) of (x, s) \<Rightarrow> (x, r\<lparr>sr_src := s\<rparr>))"

text \<open>The lower 63 bits of a word; an \<open>int\<close> has 64 bits, so \<open>Int\<close> is the same.\<close>

definition rng_Int63 :: "std_rand \<Rightarrow> int \<times> std_rand" where
  "rng_Int63 r = (case rng_Uint64 r of (x, r) \<Rightarrow> (uint x mod 2 ^ 63, r))"

definition rng_Int :: "std_rand \<Rightarrow> int \<times> std_rand" where
  "rng_Int r = rng_Int63 r"

definition rng_Int63n :: "int \<Rightarrow> std_rand \<Rightarrow> (int \<times> std_rand) outcome" where
  "rng_Int63n n r =
     (if n \<le> 0 then Panic ''invalid argument to Int63n''
      else case rng_Int63 r of (x, r) \<Rightarrow> Ok (x mod n, r))"

text \<open>Up to 31 bits the upper half of the word is reduced, beyond them the whole of it.\<close>

definition rng_Intn :: "int \<Rightarrow> std_rand \<Rightarrow> (int \<times> std_rand) outcome" where
  "rng_Intn n r =
     (if n \<le> 0 then Panic ''invalid argument to Intn''
      else if n \<le> 2 ^ 31 - 1 then (case rng_Int63 r of (x, r) \<Rightarrow> Ok (x div 2 ^ 32 mod n, r))
      else rng_Int63n n r)"

text \<open>\<open>Read\<close>: seven bytes of each word; what is left of one serves the next call.\<close>

fun rng_Read :: "nat \<Rightarrow> std_rand \<Rightarrow> nat list \<times> std_rand" where
  "rng_Read 0 r = ([], r)"
| "rng_Read (Suc n) r =
     (let r = (if sr_readPos r = 0
               then (case rng_Int63 r of (x, r) \<Rightarrow> r\<lparr>sr_readVal := nat x, sr_readPos := 7\<rparr>)
               else r);
          (bs, r') = rng_Read n (r\<lparr>sr_readVal := sr_readVal r div 256, sr_readPos := sr_readPos r - 1\<rparr>)
      in (sr_readVal r mod 256 # bs, r'))"

text \<open>
  \<open>Shuffle\<close> of the generator: from the last index down, each swapped with one not above it; beyond 31 bits the
  index comes from a whole word. \<open>f\<close> is the caller's swap.
\<close>

definition shuffle_index :: "nat \<Rightarrow> std_rand \<Rightarrow> nat \<times> std_rand" where
  "shuffle_index n r =
     (case rng_Int63 r of (x, r) \<Rightarrow>
        (if n > 2 ^ 31 - 1 then nat (x mod int n) else nat (x div 2 ^ 31) * n div 2 ^ 32, r))"

fun rng_shuffle_from :: "nat \<Rightarrow> (nat \<Rightarrow> nat \<Rightarrow> 's \<Rightarrow> 's) \<Rightarrow> 's \<Rightarrow> std_rand \<Rightarrow> 's \<times> std_rand" where
  "rng_shuffle_from 0 f s r = (s, r)"
| "rng_shuffle_from (Suc i) f s r =
     (case shuffle_index (Suc (Suc i)) r of (j, r) \<Rightarrow> rng_shuffle_from i f (f (Suc i) j s) r)"

definition rng_Shuffle :: "int \<Rightarrow> (nat \<Rightarrow> nat \<Rightarrow> 's \<Rightarrow> 's) \<Rightarrow> 's \<Rightarrow> std_rand \<Rightarrow> ('s \<times> std_rand) outcome" where
  "rng_Shuffle n f s r =
     (if n < 0 then Panic ''invalid argument to Shuffle'' else Ok (rng_shuffle_from (nat n - 1) f s r))"

definition rng_Split :: "(int \<Rightarrow> nat \<Rightarrow> u64) \<Rightarrow> std_rand \<Rightarrow> std_rand \<times> std_rand" where
  "rng_Split source r = (case rng_Int63 r of (x, r) \<Rightarrow> (TestRngFromSeed source x, r))"

text \<open>
  \<open>SplitRng\<close>, for the generators of a run: four words are hashed, and the first half of the digest
  seeds the new generator.
\<close>

definition little_endian :: "nat \<Rightarrow> nat \<Rightarrow> nat list" where
  "little_endian k n = map (\<lambda>i. n div 256 ^ i mod 256) [0..<k]"

definition from_little_endian :: "nat list \<Rightarrow> nat" where
  "from_little_endian bs = foldr (\<lambda>b n. b + 256 * n) bs 0"

fun draw_words :: "nat \<Rightarrow> rng \<Rightarrow> u64 list \<times> rng" where
  "draw_words 0 r = ([], r)"
| "draw_words (Suc n) r = (case next_u64 r of (x, r) \<Rightarrow> case draw_words n r of (xs, r) \<Rightarrow> (x # xs, r))"

definition SplitRng :: "(nat list \<Rightarrow> nat list) \<Rightarrow> (u64 \<Rightarrow> u64 \<Rightarrow> nat \<Rightarrow> u64) \<Rightarrow> rng \<Rightarrow> rng \<times> rng" where
  "SplitRng sha256 pcg r =
     (let (xs, r) = draw_words 4 r;
          seed = sha256 (concat (map (\<lambda>x. little_endian 8 (unat x)) xs))
      in (\<lparr>tape = pcg (of_nat (from_little_endian (take 8 seed))) (of_nat (from_little_endian (take 8 (drop 8 seed)))),
            pos = 0\<rparr>, r))"

subsection \<open>Random values\<close>

text \<open>A generator of values may panic.\<close>

type_synonym 'a gen = "std_rand \<Rightarrow> ('a \<times> std_rand) outcome"

definition GenBool :: "bool gen" where
  "GenBool r = obind (rng_Intn 2 r) (\<lambda>(n, r). Ok (n = 0, r))"

definition alphanum :: string where
  "alphanum = ''abcdefghijklmnopqrstuvwxyzABCDEFGHIJKLMNOPQRSTUVWXYZ0123456789''"

fun draw_many :: "nat \<Rightarrow> 'a gen \<Rightarrow> 'a list gen" where
  "draw_many 0 gen r = Ok ([], r)"
| "draw_many (Suc n) gen r =
     obind (gen r) (\<lambda>(x, r). obind (draw_many n gen r) (\<lambda>(xs, r). Ok (x # xs, r)))"

definition GenSliceN :: "int \<Rightarrow> 'a gen \<Rightarrow> 'a list gen" where
  "GenSliceN n gen r = (if n < 0 then Panic ''makeslice: len out of range'' else draw_many (nat n) gen r)"

definition GenString :: "int \<Rightarrow> string gen" where
  "GenString n = GenSliceN n (\<lambda>r. obind (rng_Intn (int (length alphanum)) r) (\<lambda>(i, r). Ok (alphanum ! nat i, r)))"

definition GenBytes :: "int \<Rightarrow> nat list gen" where
  "GenBytes n r = (if n < 0 then Panic ''makeslice: len out of range'' else Ok (rng_Read (nat n) r))"

definition GenSlice :: "'a gen \<Rightarrow> 'a list gen" where
  "GenSlice gen r = obind (rng_Intn 3 r) (\<lambda>(k, r). GenSliceN (2 + k) gen r)"

definition GenTimestamp :: "instant gen" where
  "GenTimestamp r = (case rng_Int63 r of (ns, r) \<Rightarrow> Ok (62135596800 * 10 ^ 9 + ns, r))"

text \<open>\<open>Shuffle\<close> of a slice: the loop runs upwards from the second element; \<open>k\<close> iterations are left.\<close>

fun shuffle_up :: "nat \<Rightarrow> nat \<Rightarrow> 'a list \<Rightarrow> std_rand \<Rightarrow> ('a list \<times> std_rand) outcome" where
  "shuffle_up 0 i s r = Ok (s, r)"
| "shuffle_up (Suc k) i s r =
     obind (rng_Intn (int i + 1) r) (\<lambda>(j, r). shuffle_up k (Suc i) (swap i (nat j) s) r)"

definition Shuffle_slice :: "'a list \<Rightarrow> std_rand \<Rightarrow> ('a list \<times> std_rand) outcome" where
  "Shuffle_slice s r = shuffle_up (length s - 1) 1 s r"

text \<open>
  \<open>GenMapN\<close> goes on until the map has \<open>n\<close> keys, so it may go on for ever, which is \<open>None\<close>. The key is
  drawn before its value.
\<close>

definition draw_pair :: "'k gen \<Rightarrow> 'v gen \<Rightarrow> ('k \<times> 'v) gen" where
  "draw_pair genK genV r = obind (genK r) (\<lambda>(k, r). obind (genV r) (\<lambda>(v, r). Ok ((k, v), r)))"

partial_function (option) map_loop ::
  "int \<Rightarrow> ('k \<times> 'v) gen \<Rightarrow> ('k \<times> 'v) list \<Rightarrow> std_rand \<Rightarrow> (('k \<times> 'v) list \<times> std_rand) outcome option" where
  "map_loop n gen m r =
     (if int (length m) < n
      then (case gen r of
              Ok x \<Rightarrow> map_loop n gen (AList.update (fst (fst x)) (snd (fst x)) m) (snd x)
            | Err e \<Rightarrow> Some (Err e)
            | Panic msg \<Rightarrow> Some (Panic msg))
      else Some (Ok (m, r)))"

definition GenMapN :: "int \<Rightarrow> 'k gen \<Rightarrow> 'v gen \<Rightarrow> std_rand \<Rightarrow> (('k \<times> 'v) list \<times> std_rand) outcome option" where
  "GenMapN n genK genV r = map_loop n (draw_pair genK genV) [] r"

definition GenMap :: "'k gen \<Rightarrow> 'v gen \<Rightarrow> std_rand \<Rightarrow> (('k \<times> 'v) list \<times> std_rand) outcome option" where
  "GenMap genK genV r =
     (case rng_Intn 3 r of
        Ok (k, r) \<Rightarrow> GenMapN (2 + k) genK genV r
      | Err e \<Rightarrow> Some (Err e)
      | Panic msg \<Rightarrow> Some (Panic msg))"

subsection \<open>Comparing\<close>

text \<open>A type as \<open>reflect\<close> shows it: a struct has fields, each embedded or not, with their types.\<close>

datatype go_type = StructType string "(bool \<times> go_type) list" | OtherType string

definition ReadOnly :: go_type where
  "ReadOnly = StructType ''utils.ReadOnly'' []"

definition isReadOnly :: "go_type \<Rightarrow> bool" where
  "isReadOnly t =
     (case t of
        StructType name fs \<Rightarrow> list_ex (\<lambda>(anonymous, ft). anonymous \<or> ft = ReadOnly) fs
      | OtherType name \<Rightarrow> False)"

text \<open>Two pointers: equal when both are nil, or both are not and their values compare as equal.\<close>

definition cmpComparer :: "('a \<Rightarrow> 'a \<Rightarrow> int) \<Rightarrow> 'a option \<Rightarrow> 'a option \<Rightarrow> bool" where
  "cmpComparer cmp a b =
     (case (a, b) of (None, None) \<Rightarrow> True | (Some x, Some y) \<Rightarrow> cmp x y = 0 | _ \<Rightarrow> False)"

definition TestDiff :: "('a \<Rightarrow> 'a \<Rightarrow> string) \<Rightarrow> 'a \<Rightarrow> 'a \<Rightarrow> go_error option" where
  "TestDiff diff want got =
     (let d = diff want got in if d \<noteq> [] then Some (Errorf (''want (-) got (+):'' @ [CHR 0x0A] @ d)) else None)"

text \<open>The check of a converter: encode, write, read, decode, compare.\<close>

definition ProtoConv_Test ::
  "('a \<Rightarrow> 'p) \<Rightarrow> ('p \<Rightarrow> 'a outcome) \<Rightarrow> ('p \<Rightarrow> go_error + 'b) \<Rightarrow> ('b \<Rightarrow> go_error + 'p) \<Rightarrow> ('a \<Rightarrow> 'a \<Rightarrow> string) \<Rightarrow>
    'a \<Rightarrow> unit outcome" where
  "ProtoConv_Test enc dec marshal unmarshal diff want =
     (case marshal (enc want) of
        Inl e \<Rightarrow> Err (Wrap ''Marshal()'' e)
      | Inr raw \<Rightarrow>
          (case unmarshal raw of
             Inl e \<Rightarrow> Err (Wrap ''Unmarshal()'' e)
           | Inr p \<Rightarrow>
               obind (omap_err (Wrap ''Decode(Encode())'') (dec p)) (\<lambda>got.
                 case TestDiff diff want got of None \<Rightarrow> Ok () | Some e \<Rightarrow> Err e)))"

definition IgnoreAfterCancel :: "context_end \<Rightarrow> instant \<Rightarrow> go_error option \<Rightarrow> go_error option" where
  "IgnoreAfterCancel ctx now err = (if ctx_err ctx now \<noteq> None then None else err)"

subsection \<open>Lemmas: ranges\<close>

lemma rng_Int63_range: "rng_Int63 r = (x, r') \<Longrightarrow> 0 \<le> x \<and> x < 2 ^ 63"
  by (auto simp: rng_Int63_def rng_Uint64_def next_u64_def)

lemma rng_Intn_Ok:
  assumes "0 < n"
  shows "\<exists>x r'. rng_Intn n r = Ok (x, r') \<and> 0 \<le> x \<and> x < n"
proof (cases "rng_Int63 r")
  case (Pair x r')
  then show ?thesis using assms by (auto simp: rng_Intn_def rng_Int63n_def)
qed

lemma rng_Read_bytes: "rng_Read n r = (bs, r') \<Longrightarrow> length bs = n \<and> (\<forall>b \<in> set bs. b < 256)"
proof (induction n arbitrary: r bs)
  case (Suc n)
  then show ?case by (fastforce simp: Let_def split: prod.splits if_splits)
qed simp

lemma shuffle_index_less: "0 < n \<Longrightarrow> fst (shuffle_index n r) < n"
proof (cases "rng_Int63 r")
  case (Pair x r')
  assume n: "0 < n"
  have x: "0 \<le> x" "x < 2 ^ 63" using rng_Int63_range [OF Pair] by auto
  then have "x div 2 ^ 31 < 2 ^ 32" by simp
  then have "nat (x div 2 ^ 31) < 2 ^ 32" using x(1) by (subst nat_less_iff) simp_all
  then have "nat (x div 2 ^ 31) * n < 2 ^ 32 * n" using n by (simp only: mult_less_cancel2)
  then have "nat (x div 2 ^ 31) * n div 2 ^ 32 < n" by (simp add: less_mult_imp_div_less mult.commute)
  then show ?thesis using Pair n by (simp add: shuffle_index_def nat_less_iff)
qed

subsection \<open>Lemmas: what is drawn\<close>

lemma draw_many_Ok:
  assumes "\<And>r. \<exists>x r'. gen r = Ok (x, r') \<and> P x"
  shows "\<exists>xs r'. draw_many n gen r = Ok (xs, r') \<and> length xs = n \<and> (\<forall>x \<in> set xs. P x)"
proof (induction n arbitrary: r)
  case (Suc n)
  obtain x r1 where x: "gen r = Ok (x, r1)" "P x" using assms by blast
  obtain xs r2 where "draw_many n gen r1 = Ok (xs, r2)" "length xs = n" "\<forall>x \<in> set xs. P x" using Suc by blast
  then show ?case using x by auto
qed simp

lemma GenString_Ok:
  assumes "0 \<le> n"
  shows "\<exists>s r'. GenString n r = Ok (s, r') \<and> int (length s) = n \<and> set s \<subseteq> set alphanum"
proof -
  let ?gen = "\<lambda>r. obind (rng_Intn (int (length alphanum)) r) (\<lambda>(i, r). Ok (alphanum ! nat i, r))"
  have "\<exists>x r'. ?gen r = Ok (x, r') \<and> x \<in> set alphanum" for r
  proof -
    obtain i r' where i: "rng_Intn (int (length alphanum)) r = Ok (i, r')" "0 \<le> i" "i < int (length alphanum)"
      using rng_Intn_Ok [of "int (length alphanum)" r] by (auto simp: alphanum_def)
    then have "nat i < length alphanum" by linarith
    then show ?thesis using i(1) by (auto simp: nth_mem)
  qed
  then obtain s r' where "draw_many (nat n) ?gen r = Ok (s, r')" "length s = nat n" "\<forall>c \<in> set s. c \<in> set alphanum"
    using draw_many_Ok [of ?gen "\<lambda>c. c \<in> set alphanum" "nat n" r] by blast
  then show ?thesis using assms by (auto simp: GenString_def GenSliceN_def)
qed

lemma GenSlice_Ok:
  assumes "\<And>r. \<exists>x r'. gen r = Ok (x, r') \<and> P x"
  shows "\<exists>xs r'. GenSlice gen r = Ok (xs, r') \<and> length xs \<in> {2..4} \<and> (\<forall>x \<in> set xs. P x)"
proof -
  obtain k r1 where k: "rng_Intn 3 r = Ok (k, r1)" "0 \<le> k" "k < 3" using rng_Intn_Ok [of 3 r] by auto
  obtain xs r2 where "draw_many (nat (2 + k)) gen r1 = Ok (xs, r2)" "length xs = nat (2 + k)" "\<forall>x \<in> set xs. P x"
    using draw_many_Ok [of gen P "nat (2 + k)" r1] assms by blast
  then show ?thesis using k by (auto simp: GenSlice_def GenSliceN_def)
qed

text \<open>A shuffle permutes.\<close>

lemma shuffle_up_Ok:
  "i + k \<le> length s \<Longrightarrow> \<exists>s' r'. shuffle_up k i s r = Ok (s', r') \<and> mset s' = mset s"
proof (induction k arbitrary: i s r)
  case (Suc k)
  obtain j r1 where j: "rng_Intn (int i + 1) r = Ok (j, r1)" "0 \<le> j" "j < int i + 1"
    using rng_Intn_Ok [of "int i + 1" r] by auto
  have l: "i < length s" "nat j < length s" using Suc.prems j by linarith+
  obtain s' r' where "shuffle_up k (Suc i) (swap i (nat j) s) r1 = Ok (s', r')" "mset s' = mset (swap i (nat j) s)"
    using Suc.IH [of "Suc i" "swap i (nat j) s" r1] Suc.prems by auto
  then show ?case using j swap_mset [OF l] by auto
qed simp

lemma Shuffle_slice_permutes: "\<exists>s' r'. Shuffle_slice s r = Ok (s', r') \<and> mset s' = mset s"
  using shuffle_up_Ok [of 1 "length s - 1" s r] by (cases s) (auto simp: Shuffle_slice_def)

lemma rng_shuffle_from_permutes: "i < length s \<Longrightarrow> mset (fst (rng_shuffle_from i swap s r)) = mset s"
proof (induction i arbitrary: s r)
  case (Suc i)
  obtain j r1 where j: "shuffle_index (Suc (Suc i)) r = (j, r1)" by (cases "shuffle_index (Suc (Suc i)) r")
  then have "j < Suc (Suc i)" using shuffle_index_less [of "Suc (Suc i)" r] by simp
  then have "mset (swap (Suc i) j s) = mset s" using Suc.prems by (intro swap_mset) auto
  moreover have "mset (fst (rng_shuffle_from i swap (swap (Suc i) j s) r1)) = mset (swap (Suc i) j s)"
    using Suc.prems by (intro Suc.IH) simp
  ultimately show ?case using j by simp
qed simp

lemma rng_Shuffle_permutes: "\<exists>s' r'. rng_Shuffle (int (length s)) swap s r = Ok (s', r') \<and> mset s' = mset s"
proof (cases s)
  case (Cons x xs)
  then have "mset (fst (rng_shuffle_from (length s - 1) swap s r)) = mset s" by (intro rng_shuffle_from_permutes) simp
  then show ?thesis by (cases "rng_shuffle_from (length s - 1) swap s r") (simp add: rng_Shuffle_def)
qed (simp add: rng_Shuffle_def)

subsection \<open>Lemmas: maps\<close>

lemma length_alist_update: "length (AList.update k v m) = (if k \<in> fst ` set m then length m else Suc (length m))"
  by (induction m) auto

text \<open>A generated map has exactly as many keys as asked for, all of them among those that can be drawn.\<close>

definition map_result :: "int \<Rightarrow> ('k \<times> 'v) gen \<Rightarrow> 'k set \<Rightarrow> ('k \<times> 'v) list \<Rightarrow> (('k \<times> 'v) list \<times> std_rand) outcome \<Rightarrow> bool" where
  "map_result n gen K m res \<longleftrightarrow>
     distinct (map fst m) \<longrightarrow> int (length m) \<le> max n 0 \<longrightarrow> fst ` set m \<subseteq> K \<longrightarrow> (\<forall>r x r'. gen r = Ok (x, r') \<longrightarrow> fst x \<in> K) \<longrightarrow>
     (case res of Ok (m', r') \<Rightarrow> distinct (map fst m') \<and> int (length m') = max n 0 \<and> fst ` set m' \<subseteq> K | _ \<Rightarrow> \<exists>r. \<forall>x. gen r \<noteq> Ok x)"

lemma map_result_step:
  assumes "gen r = Ok ((k, v), r1)" "int (length m) < n" "map_result n gen K (AList.update k v m) res"
  shows "map_result n gen K m res"
proof -
  have "int (length (AList.update k v m)) \<le> max n 0" using assms(2) by (simp add: length_alist_update)
  moreover have "fst ` set (AList.update k v m) \<subseteq> K" if "fst ` set m \<subseteq> K" "\<forall>r x r'. gen r = Ok (x, r') \<longrightarrow> fst x \<in> K"
    using that(1) that(2) [rule_format, OF assms(1)] by (simp add: dom_update)
  ultimately show ?thesis using assms(3) distinct_update [of m k v] unfolding map_result_def by blast
qed

lemma map_result_fail: "\<forall>x. gen r \<noteq> Ok x \<Longrightarrow> \<forall>x. res \<noteq> Ok x \<Longrightarrow> map_result n gen K m res"
  unfolding map_result_def by (cases res) (simp_all del: split_paired_All split_paired_Ex, blast+)

lemma map_loop_result: "map_loop n gen m r = Some res \<Longrightarrow> map_result n gen K m res"
proof (rule map_loop.raw_induct [rotated])
  fix rec :: "int \<Rightarrow> ('a \<times> 'b) gen \<Rightarrow> ('a \<times> 'b) list \<Rightarrow> std_rand \<Rightarrow> (('a \<times> 'b) list \<times> std_rand) outcome option"
    and n gen m r res
  assume IH: "\<And>n gen m r res. rec n gen m r = Some res \<Longrightarrow> map_result n gen K m res"
    and body: "(if int (length m) < n
      then (case gen r of
              Ok x \<Rightarrow> rec n gen (AList.update (fst (fst x)) (snd (fst x)) m) (snd x)
            | Err e \<Rightarrow> Some (Err e)
            | Panic msg \<Rightarrow> Some (Panic msg))
      else Some (Ok (m, r))) = Some res"
  show "map_result n gen K m res"
  proof (cases "int (length m) < n")
    case True
    show ?thesis
    proof (cases "gen r")
      case (Ok x)
      obtain k v r1 where x: "x = ((k, v), r1)" by (metis prod.collapse)
      have "rec n gen (AList.update k v m) r1 = Some res" using body True Ok x by simp
      then show ?thesis using IH map_result_step [of gen r k v r1 m n K res] True Ok x by blast
    qed (use body True map_result_fail [of gen r] in auto)
  qed (use body in \<open>auto simp: map_result_def\<close>)
qed

text \<open>Keys of which there are too few are drawn for ever.\<close>

lemma GenMapN_too_few:
  assumes "finite K" "int (card K) < n" "\<And>r. \<exists>x r'. draw_pair genK genV r = Ok (x, r') \<and> fst x \<in> K"
  shows "GenMapN n genK genV r = None"
proof (rule ccontr)
  assume "GenMapN n genK genV r \<noteq> None"
  then obtain res where res: "map_loop n (draw_pair genK genV) [] r = Some res" by (auto simp: GenMapN_def)
  have K: "\<forall>r x r'. draw_pair genK genV r = Ok (x, r') \<longrightarrow> fst x \<in> K"
    using assms(3) by (metis outcome.inject(1) prod.inject)
  have "\<not> (\<exists>r. \<forall>x. draw_pair genK genV r \<noteq> Ok x)" using assms(3) by fastforce
  then obtain m r' where "res = Ok (m, r')" "distinct (map fst m)" "int (length m) = max n 0" "fst ` set m \<subseteq> K"
    using map_loop_result [OF res, of K] K unfolding map_result_def by (cases res) (auto simp del: split_paired_Ex split_paired_All)
  then have "length m \<le> card K" using assms(1) by (metis card_mono distinct_card length_map set_map)
  then show False using assms(2) \<open>int (length m) = max n 0\<close> by linarith
qed

lemma GenMapN_bool_keys: "2 < n \<Longrightarrow> (\<And>r. \<exists>v r'. genV r = Ok (v, r')) \<Longrightarrow> GenMapN n GenBool genV r = None"
proof (rule GenMapN_too_few [of UNIV])
  assume v: "\<And>r. \<exists>v r'. genV r = Ok (v, r')"
  fix r
  obtain x r1 where x: "rng_Intn 2 r = Ok (x, r1)" using rng_Intn_Ok [of 2 r] by auto
  then show "\<exists>x r'. draw_pair GenBool genV r = Ok (x, r') \<and> fst x \<in> UNIV"
    using v [of r1] by (auto simp: draw_pair_def GenBool_def)
qed auto

text \<open>A source of keys that always has a new one fills the map, one draw for each entry.\<close>

lemma map_loop_returns:
  assumes "\<And>m r. Inv m r \<Longrightarrow> \<exists>k v r'. gen r = Ok ((k, v), r') \<and> k \<notin> fst ` set m \<and> Inv (AList.update k v m) r'"
  shows "Inv m r \<Longrightarrow> \<exists>m' r'. map_loop n gen m r = Some (Ok (m', r')) \<and> int (length m') = max n (int (length m))"
proof (induction "nat (n - int (length m))" arbitrary: m r)
  case 0
  then show ?case by (subst map_loop.simps) auto
next
  case (Suc d)
  obtain k v r1 where g: "gen r = Ok ((k, v), r1)" "k \<notin> fst ` set m" "Inv (AList.update k v m) r1"
    using assms Suc.prems by blast
  have lt: "int (length m) < n" using Suc.hyps(2) by linarith
  have "d = nat (n - int (length (AList.update k v m)))" using Suc.hyps(2) g(2) by (simp add: length_alist_update)
  from Suc.hyps(1) [OF this g(3)]
  obtain m' r' where m': "map_loop n gen (AList.update k v m) r1 = Some (Ok (m', r'))"
    "int (length m') = max n (int (length (AList.update k v m)))" by blast
  have "map_loop n gen m r = Some (Ok (m', r'))" using m'(1) g(1) lt by (subst map_loop.simps) simp
  then show ?case using m'(2) g(2) lt by (simp add: length_alist_update)
qed

subsection \<open>Lemmas: splitting, comparing, checking\<close>

lemma draw_words_pos: "draw_words n r = (xs, r') \<Longrightarrow> length xs = n \<and> pos r' = pos r + n \<and> tape r' = tape r"
  by (induction n arbitrary: r xs) (fastforce simp: next_u64_def split: prod.splits)+

text \<open>The parent goes on four words later, with its own tape.\<close>

lemma SplitRng_parent: "SplitRng sha256 pcg r = (child, r') \<Longrightarrow> pos r' = pos r + 4 \<and> tape r' = tape r \<and> pos child = 0"
  using draw_words_pos [of 4 r] by (auto simp: SplitRng_def Let_def split: prod.splits)

lemma from_little_endian: "from_little_endian (little_endian k n) = n mod 256 ^ k"
proof (induction k arbitrary: n)
  case (Suc k)
  have "little_endian (Suc k) n = n mod 256 # little_endian k (n div 256)"
    by (simp add: little_endian_def upt_conv_Cons map_Suc_upt [symmetric] div_mult2_eq del: upt_Suc)
  then have "from_little_endian (little_endian (Suc k) n) = n mod 256 + 256 * (n div 256 mod 256 ^ k)"
    using Suc by (simp add: from_little_endian_def)
  then show ?case by (simp add: mod_mult2_eq)
qed (simp add: from_little_endian_def little_endian_def)

text \<open>A struct that embeds the marker is read-only; so is one that embeds anything else.\<close>

definition embeds_ReadOnly :: "go_type \<Rightarrow> bool" where
  "embeds_ReadOnly t = (case t of StructType name fs \<Rightarrow> (True, ReadOnly) \<in> set fs | OtherType name \<Rightarrow> False)"

lemma isReadOnly_embeds: "embeds_ReadOnly t \<Longrightarrow> isReadOnly t"
  by (auto simp: embeds_ReadOnly_def isReadOnly_def list_ex_iff split: go_type.splits)

lemma isReadOnly_any_embedded:
  "t \<noteq> ReadOnly \<Longrightarrow> isReadOnly (StructType name [(True, t)]) \<and> \<not> embeds_ReadOnly (StructType name [(True, t)])"
  by (simp add: isReadOnly_def embeds_ReadOnly_def)

text \<open>A converter that is a codec passes, if writing and reading a message keeps it and nothing differs from itself.\<close>

context codec
begin

lemma Test_passes:
  assumes "marshal (enc x) = Inr raw" "unmarshal raw = Inr (enc x)" "diff x x = []"
  shows "ProtoConv_Test enc dec marshal unmarshal diff x = Ok ()"
  using assms by (simp add: ProtoConv_Test_def decode_encode TestDiff_def)

end

text \<open>One that passes everywhere has the law of a codec, if a message is read as it was written and only equal values do not differ.\<close>

lemma Test_codec:
  assumes "\<And>x. ProtoConv_Test enc dec marshal unmarshal diff x = Ok ()"
    "\<And>p raw. marshal p = Inr raw \<Longrightarrow> unmarshal raw = Inr p" "\<And>x y. diff x y = [] \<Longrightarrow> x = y"
  shows "dec (enc x) = Ok x"
proof (cases "marshal (enc x)")
  case (Inr raw)
  then show ?thesis using assms(1) [of x] assms(2) [OF Inr] assms(3)
    by (cases "dec (enc x)") (auto simp: ProtoConv_Test_def TestDiff_def Let_def split: if_splits)
qed (use assms(1) [of x] in \<open>simp add: ProtoConv_Test_def\<close>)

end
