(* ===== verification/Spec2Isabelle.thy ===== *)
theory Spec2Isabelle
  imports PipelineProps StatsProps InputProps LoadProps RunProps SyncProps ChainProps UserLatency Feed Profile Observe DeployDiag Testonly
begin

text \<open>
  sei-load is a load generator for a Sei chain. A profile names scenarios, each with a weight, an
  account pool and the shape of its transactions. The program resolves its settings, deploys the
  contracts the scenarios need, funds the accounts of the pools, and then lets a generator hand
  transactions, one after another, to a sender, which signs them, sends each account's transactions
  in nonce order, at most one at a time, and spreads them over the endpoints. Collectors measure
  what happens, and the process reports how the run ended. This library models that program, one
  theory per part, and proves what its parts and their composition promise.

  The parts and their theories, in the order they build on each other:

  \<^item> \<open>Prelude\<close>, \<open>GoBase\<close>: the collections of rules, 64-bit words and lists; Go's errors and their
    chains, the three ways a call ends (\<open>outcome\<close>: a result, an error, a panic), signed 64-bit
    integers (\<open>i64\<close>), instants and durations.
  \<^item> \<open>Rng\<close>: the pseudo-random source as a tape of words and a position on it.
  \<^item> \<open>Types\<close> (\<open>types/account.go\<close>, \<open>types/scenario.go\<close>), \<open>AccountPool\<close> (\<open>types/account_pool.go\<close>): accounts,
    transactions, and the round-robin over the accounts of a pool.
  \<^item> \<open>Utils\<close> (\<open>utils/math.go\<close>, \<open>endpoint.go\<close>, \<open>option.go\<close>, \<open>proto.go\<close>, the amounts of \<open>config/funding.go\<close>):
    integer casts, optional values, converters and text codecs. \<open>Testonly\<close> (\<open>utils/testonly.go\<close>): the random
    values, comparisons and checks the tests share.
  \<^item> \<open>Budget\<close> (\<open>utils/budget.go\<close>, \<open>utils/wait.go\<close>, \<open>endedOnRunContext\<close> of \<open>main.go\<close>): which errors mean
    that a run is over.
  \<^item> \<open>Scope\<close> (\<open>utils/scope\<close>): structured concurrency; tasks, their cancellation, the error of a scope.
  \<^item> \<open>Fifo\<close>, \<open>TxsQueue\<close> (\<open>sender/txs_queue.go\<close>): the queue of unsigned transactions per account and
    the queue of accounts that are ready; one definition per critical section.
  \<^item> \<open>Watch\<close> (\<open>utils/mutex.go\<close>): the lock whose holder can wait for an update, run by the methods of
    the queue, and \<open>MonitorWatchUpdates\<close>. \<open>AtomicWatch\<close> (\<open>utils/mutex.go\<close>, \<open>utils/scope/start.go\<close>): the watch
    without a lock, whose value is replaced and awaited by version, and the join handles of \<open>Spawn1\<close>.
    \<open>Handles\<close> (\<open>utils/scope/global.go\<close>, \<open>parallel.go\<close>, \<open>Iter\<close>): global handles, the iteration over
    versions, and the variants that return a result. \<open>Locks\<close>: the two kinds of lock.
  \<^item> \<open>Channels\<close> (\<open>utils/channels.go\<close>, \<open>Once\<close>): receiving and sending under a context. \<open>Waits\<close>
    (\<open>utils/wait.go\<close>): deadlines, timeouts, sleeping and polling.
  \<^item> \<open>EthClient\<close> (\<open>sender/eth_client.go\<close>, \<open>sender/metrics.go\<close>), \<open>Sender\<close> (\<open>sender/sharded_sender.go\<close>):
    the connections, and the sender as a step relation over its dispatcher and its goroutines.
  \<^item> \<open>Writer\<close> (\<open>sender/writer.go\<close>): the sender that writes blocks to files. \<open>Ramper\<close> (\<open>sender/ramper.go\<close>):
    the curve of the target rate, its watcher and its run.
  \<^item> \<open>Collector\<close> (\<open>stats/collector.go\<close>, \<open>run_summary.go\<close>), \<open>BlockStats\<close>
    (\<open>stats/block_collector.go\<close>, \<open>mock_block_collector.go\<close>), \<open>Inclusion\<close> (\<open>stats/inclusion_tracker.go\<close>),
    \<open>UserLatency\<close> (\<open>stats/user_latency_tracker.go\<close>): what a run measures. \<open>Feed\<close>: the subscriptions
    that drive two of them. \<open>Report\<close> (\<open>stats/logger.go\<close>, the texts of \<open>collector.go\<close>, \<open>block_collector.go\<close>
    and \<open>ramper.go\<close>): the loop that prints while the run goes on, and the report at its end. \<open>Metrics\<close>
    (\<open>stats/metrics.go\<close>, \<open>sender/metrics.go\<close>): the instruments and what is recorded with them. \<open>Observe\<close>
    (\<open>observability/setup.go\<close>): the attributes and exporters of a run.
  \<^item> \<open>Sampling\<close> (\<open>config/distribution.go\<close>, \<open>config/gas.go\<close>), \<open>Operation\<close> (\<open>config/operation.go\<close>), \<open>Config\<close>
    (\<open>config/config.go\<close>, \<open>config/funding.go\<close>), \<open>Profile\<close> (its parser), \<open>DurationText\<close> (the text of
    durations), \<open>Viper\<close> (\<open>config/settings.go\<close>): the profile, its checks, its samplers and pickers, and
    how settings are layered, with the flags of \<open>main.go\<close>. \<open>Viper\<close> passes a duration on as it is; \<open>DurationText\<close> shows that its text
    is read back.
  \<^item> \<open>Scenarios\<close> and \<open>TxBuild\<close> (\<open>generator/scenarios\<close>, \<open>generator/utils\<close>), \<open>Generator\<close>
    (\<open>generator/generator.go\<close>), \<open>Offline\<close> (\<open>generator/offline\<close>): the scenarios, how each shapes a
    transaction, the generator that draws from them, and the offline variants; \<open>OfflineToken\<close>: what an offline run of
    transfers does to the seeded token. \<open>DeployDiag\<close>: what is reported of a deployment that failed.
  \<^item> \<open>Funder\<close> (\<open>funder\<close>, \<open>generator/contracts/Disperse.sol\<close>): the root account, and the batches that
    fund a pool.
  \<^item> \<open>Contracts\<close> (\<open>generator/contracts\<close>): the Solidity contracts on their storage. \<open>Bindings\<close>
    (\<open>generator/bindings\<close>, \<open>generator/scenarios\<close>): the interfaces of the contracts, the generated code that
    deploys, binds and calls them, and the scenarios as the classes over it, which agree with the
    table of \<open>Scenarios\<close>. \<open>BindingCalls\<close>, \<open>BindingEvents\<close>: the rest of that code, its readers, raw calls and sessions,
    and the filters, iterators and watches of its events; \<open>BindingReads\<close>: what these give on the contracts.
    \<open>ContractRun\<close>, \<open>EvmGas\<close>: the transactions of a scenario on its contract, and the gas they need.
  \<^item> \<open>Startup\<close> (\<open>main.go\<close>): how these are put together in a run, and its verdict at the end. \<open>LoadTest\<close>
    (\<open>main.go\<close>): the command from its flags to its exit status, with the reports in between.

  State. A struct is a record with the fields of the struct, a map a partial function or an
  association list, a mutable object a record that is passed on. What several goroutines share is
  changed in steps, one per critical section: \<open>queue_step\<close> on the queue, \<open>sender_step\<close> on the sender,
  \<open>watch_step\<close> on a watch, \<open>scope_step\<close> on a scope, \<open>ramp_step\<close> on the ramper, \<open>chan_step\<close> on a channel,
  \<open>atomic_step\<close> on an atomic watch, \<open>handle_step\<close> on a global handle,
  \<open>lock_step\<close> on a lock. A \<open>uint64\<close> is a \<open>64 word\<close>
  and wraps; an \<open>int\<close> is an integer that goes through \<open>i64\<close> where it may overflow. A panic is a value, so
  that a theorem can say there is none.

  Interfaces. The operations of one part that another relies on are a locale, interpreted on the
  definitions that provide them: \<open>fifo\<close> (the ready queue), \<open>account_queue\<close> (the queue for the sender),
  \<open>watch_client\<close> (the queue for its watch), \<open>nonce_keeper\<close> (a sender for the generator: the sharded
  sender and the block writer), \<open>index_sampler\<close> and \<open>gas_generator\<close> (each distribution and each
  picker, and the tagged choice between them), \<open>block_stats_provider\<close> (the collector and its mock),
  \<open>disperse_chain\<close> (a node with the Disperse contract, for the funder), \<open>codec\<close> with its extensions
  \<open>json_codec\<close> and \<open>proto_codec\<close>, and \<open>first_error\<close> and \<open>wrapped\<close> for the scopes.

  What is shown. Every C-numbered property stands in one of the seven theories below, with its
  statement in words before it.

  \<^item> \<open>PipelineProps\<close>: an account has at most one transaction in flight, however the goroutines
    interleave; a flush is never stuck and its work is bounded; \<open>Push\<close> refines an abstract queue per
    account, \<open>PopReady\<close> is first in first out; the capacity holds; nobody sleeps through an update.
  \<^item> \<open>StatsProps\<close>: the conservation of registered transactions, exact matching, increasing heights;
    exact totals and windows; the histories of blocks (a lemma); the report at the end prints what was recorded; every recording fits its
    instrument.
  \<^item> \<open>InputProps\<close>: the block writer is greedy packing; the ramp is a function of time; samplers and
    pickers stay in range and are weighted exactly.
  \<^item> \<open>LoadProps\<close>: a ready scenario turns every request into a signed transaction; a checked
    configuration makes a ready generator whose round-robin has the configured weights; a run of it
    never panics; the nonces of a tracked account have no gap.
  \<^item> \<open>RunProps\<close>: funding covers exactly the accounts below the target; a setting is what its flag,
    else the file, else the default says, and an interval of the statistics that is not positive passes
    the checks and panics; the exit status tells how a run went, from its flags to its end; a scope
    joins its tasks and reports their first error; the accounts a funded run draws are funded; the
    codecs lose nothing.
  \<^item> \<open>ChainProps\<close>: every call fits the interface of its contract; a load of any length runs on the contract
    as it was deployed, and its log is the requests in order; which scenarios cannot have an effect, for
    want of gas or of value; what a load has done is read back through the bindings, from the events and
    the counters; an offline run of transfers moves the seeded balances.
  \<^item> \<open>SyncProps\<close>: a section under a lock is not interleaved with any other; a channel delivers what was sent once and in order; polling with a timeout returns; a
    join gives the result of its task.

  Bounds and recursion. No definition uses fuel; polling without a deadline is a \<open>partial_function\<close>
  (\<open>wait_loop\<close>), whose \<open>None\<close> is a loop that never ends. Loops are structural recursion, or recursion with a
  measure: \<open>drop_live\<close> (the nonces left), \<open>fund_loop\<close> and \<open>chunks\<close> (the accounts left), \<open>parse_terms\<close>
  (the text left), \<open>event_Next\<close> and \<open>event_drain\<close> (what has still to arrive). A map of random keys is filled by
  a \<open>partial_function\<close> too (\<open>map_loop\<close>). Waiting
  loops are steps: what one may wait for is a value (\<open>Waits\<close> of \<open>TxsQueue\<close>) or a state of its thread. Runs that are
  infinite in the code are runs over a list of events of any length. Counters of the code that could
  wrap after \<open>2 ^ 64\<close> steps are either kept as words, or bounded by a named condition
  (\<open>push_bounded\<close>, \<open>queue_legal\<close>).

  What stands for code outside the repository is a parameter: go-ethereum and the node
  (\<open>chain_env\<close>, \<open>fund_env\<close>, \<open>sender_env\<close>), files, keys and environment variables (\<open>host\<close>), the
  decoding of JSON values (\<open>profile_json\<close>, \<open>re_parse\<close>), Keccak and signing. The conditions a theorem puts on them are named
  definitions (\<open>lenient\<close>, \<open>calls_as\<close>, \<open>signer_ok\<close>, \<open>quiet_env\<close>) or the locale \<open>disperse_chain\<close>, and its
  witness instantiates them. viper and the flag library are modelled by their documented order of
  look-up. Floating-point numbers are exact rationals or reals; the logarithms and powers of the
  zipfian sampler are not rounded.

  Not modelled: the bytecode in the generated bindings and the ABI library beneath them; of the EVM more than the value of a call and the gas before it; the log lines of
  \<open>main.go\<close> and the metrics server; the settings of the HTTP transport, tracing spans, the
  descriptions of the instruments and what OpenTelemetry does with its exporters; the timers of the Go
  runtime; the debug guard of the scopes, which a constant turns off; the assertions of tests, and the comparison library under their helpers. \<open>Prewarm\<close> is modelled as a function of the
  generator, and its outcome is a parameter of the start-up, since it runs against a sender at work.
\<close>

end
